(* ===== verification/Prelude.thy ===== *)
theory Prelude
  imports Main "HOL-Library.Word"
begin

text \<open>
  Shared vocabulary of the development: the integer types of \<open>Include/Globals.h\<close> at their
  width, strings as byte lists, the faults that end a C++ execution (undefined behaviour and the
  process exit of a failed \<open>VERIFY\<close>), the sequencing of computations that may fault, and the
  generic facts on lists and words that several components use.

  The code is modelled as its release build runs it: \<open>ASSERT\<close> evaluates its condition and does
  nothing (\<open>Include/Common.h\<close>), \<open>VERIFY\<close> ends the process when its condition is false.
\<close>

unbundle bit_operations_syntax

section \<open>Types\<close>

type_synonym u8 = "8 word"
type_synonym u16 = "16 word"
type_synonym u32 = "32 word"
type_synonym u64 = "64 word"

text \<open>A \<open>std::string\<close> is its bytes; a literal of the source is \<open>ascii ''...''\<close>.\<close>

type_synonym AString = "u8 list"

definition ascii :: "string \<Rightarrow> AString" where
  "ascii s = map of_char s"

text \<open>\<open>c_str\<close>: a text passed as a C string ends at its first zero. A file is the bytes its stream delivers.\<close>

definition c_str :: "AString \<Rightarrow> AString" where
  "c_str s = takeWhile (\<lambda>c. c \<noteq> 0) s"

type_synonym files = "AString \<rightharpoonup> AString"

section \<open>Faults\<close>

text \<open>
  The ways an execution of the modelled code stops being defined: a shift by at least the width
  of its operand, an overflow of a signed integer, an access outside an object, a read of a
  variable that was never assigned, the exit of a failed \<open>VERIFY\<close>, and, where a model runs a loop
  that has no obvious bound, a loop that never ends; a use of the C library that C leaves undefined; and a
  \<open>std::length_error\<close> that nothing catches.
\<close>

datatype fault = ShiftTooFar | SignedOverflow | OutOfRange | Uninitialised | VerifyFailed | NoReturn | Misuse
  | LengthError

definition and_then :: "fault + 'a \<Rightarrow> ('a \<Rightarrow> fault + 'b) \<Rightarrow> fault + 'b" where
  "and_then m f = (case m of Inl e \<Rightarrow> Inl e | Inr x \<Rightarrow> f x)"

lemma and_then_simps [simp]:
  "and_then (Inl e) f = Inl e"
  "and_then (Inr x) f = f x"
  by (simp_all add: and_then_def)

lemma and_then_Inr_iff:
  "and_then m f = Inr y \<longleftrightarrow> (\<exists>x. m = Inr x \<and> f x = Inr y)"
  by (cases m) simp_all

lemma and_then_Inl_iff:
  "and_then m f = Inl e \<longleftrightarrow> m = Inl e \<or> (\<exists>x. m = Inr x \<and> f x = Inl e)"
  by (cases m) simp_all

lemma and_then_assoc: "and_then (and_then m f) g = and_then m (\<lambda>x. and_then (f x) g)"
  by (cases m) simp_all

section \<open>Lists as memory\<close>

text \<open>\<open>memcpy\<close> into and out of a buffer.\<close>

definition memcpy_to :: "'a list \<Rightarrow> nat \<Rightarrow> 'a list \<Rightarrow> 'a list" where
  "memcpy_to buf pos src = take pos buf @ src @ drop (pos + length src) buf"

definition memcpy_from :: "'a list \<Rightarrow> nat \<Rightarrow> nat \<Rightarrow> 'a list" where
  "memcpy_from buf pos n = take n (drop pos buf)"

lemma length_memcpy_to [simp]:
  "pos + length src \<le> length buf \<Longrightarrow> length (memcpy_to buf pos src) = length buf"
  by (simp add: memcpy_to_def)

lemma nth_memcpy_to:
  "pos + length src \<le> length buf \<Longrightarrow> i < length buf \<Longrightarrow>
   memcpy_to buf pos src ! i = (if pos \<le> i \<and> i < pos + length src then src ! (i - pos) else buf ! i)"
  by (auto simp: memcpy_to_def nth_append)

lemma memcpy_to_Nil [simp]: "memcpy_to buf pos [] = buf"
  by (simp add: memcpy_to_def)

lemma length_memcpy_from [simp]:
  "pos + n \<le> length buf \<Longrightarrow> length (memcpy_from buf pos n) = n"
  by (simp add: memcpy_from_def)

lemma nth_memcpy_from:
  "pos + n \<le> length buf \<Longrightarrow> i < n \<Longrightarrow> memcpy_from buf pos n ! i = buf ! (pos + i)"
  by (simp add: memcpy_from_def)

lemma memcpy_from_0 [simp]: "memcpy_from buf pos 0 = []"
  by (simp add: memcpy_from_def)

section \<open>Words as little-endian memory\<close>

text \<open>
  What \<open>memcpy\<close> between an integer and a byte array does on the little-endian hosts the code is
  built for (\<open>IS_LITTLE_ENDIAN\<close> in \<open>Src/Common/ByteBuffer.cpp\<close>).
\<close>

fun le_load :: "u8 list \<Rightarrow> 'a::len word" where
  "le_load [] = 0"
| "le_load (b # bs) = ucast b OR push_bit 8 (le_load bs)"

fun le_store :: "nat \<Rightarrow> 'a::len word \<Rightarrow> u8 list" where
  "le_store 0 w = []"
| "le_store (Suc n) w = ucast w # le_store n (drop_bit 8 w)"

lemma length_le_store [simp]: "length (le_store n w) = n"
  by (induction n arbitrary: w) simp_all

lemma bit_byte_bound [simp]: "bit (b :: u8) n \<Longrightarrow> n < 8"
  using bit_imp_le_length [of b n] by simp

lemma bit_le_load:
  "bit (le_load bs :: 'a::len word) i \<longleftrightarrow>
   i < LENGTH('a) \<and> i < 8 * length bs \<and> bit (bs ! (i div 8)) (i mod 8)"
proof (induction bs arbitrary: i)
  case (Cons b bs)
  show ?case
  proof (cases "i < 8")
    case True
    then show ?thesis by (auto simp: bit_simps)
  next
    case False
    then obtain j where j: "i = 8 + j" using le_Suc_ex [of 8 i] by auto
    have "\<not> bit b (8 + j)" using bit_byte_bound [of b "8 + j"] by auto
    moreover have "(8 + j) div 8 = Suc (j div 8)" by simp
    ultimately show ?thesis by (auto simp: j bit_simps Cons.IH)
  qed
qed simp

lemma nth_le_store: "k < n \<Longrightarrow> le_store n w ! k = ucast (drop_bit (8 * k) w)"
proof (induction n arbitrary: w k)
  case (Suc n)
  then show ?case by (cases k) (simp_all add: drop_bit_drop_bit ac_simps)
qed simp

lemma le_load_store [simp]:
  fixes w :: "'a::len word"
  assumes "LENGTH('a) \<le> 8 * n"
  shows "le_load (le_store n w) = w"
proof (rule bit_word_eqI)
  fix i assume i: "i < LENGTH('a)"
  then have "i div 8 < n" using assms by linarith
  then show "bit (le_load (le_store n w) :: 'a word) i = bit w i"
    using i assms by (simp add: bit_le_load nth_le_store bit_simps) 
qed

lemma le_store_load [simp]:
  assumes "n = length bs" and "8 * n \<le> LENGTH('a::len)"
  shows "le_store n (le_load bs :: 'a word) = bs"
proof (rule nth_equalityI)
  fix k assume "k < length (le_store n (le_load bs :: 'a word))"
  then have k: "k < n" by simp
  show "le_store n (le_load bs :: 'a word) ! k = bs ! k"
  proof (rule bit_word_eqI)
    fix i assume "i < LENGTH(8)"
    then show "bit (le_store n (le_load bs :: 'a word) ! k) i = bit (bs ! k) i"
      using k assms by (auto simp: nth_le_store bit_simps bit_le_load)
  qed
qed (use assms in simp)

lemma unat_drop: "unat (drop_bit n w) = unat w div 2 ^ n"
  by (simp only: unat_drop_bit_eq) (simp only: drop_bit_eq_div)

text \<open>The signed value of a word, from its unsigned one.\<close>

lemma sint_cases:
  fixes w :: "'a::len word"
  shows "sint w = (if unat w < 2 ^ (LENGTH('a) - 1) then int (unat w) else int (unat w) - 2 ^ LENGTH('a))"
proof -
  obtain n where n: "LENGTH('a) = Suc n" using len_gt_0 [where 'a='a] gr0_conv_Suc by blast
  have b: "uint w < 2 ^ Suc n" using uint_lt2p [of w] n by simp
  then have bit: "bit (uint w) n \<longleftrightarrow> \<not> uint w < 2 ^ n"
  proof -
    have "uint w div 2 ^ n = (if uint w < 2 ^ n then 0 else 1)"
      using b by (auto simp: div_pos_geq)
    then show ?thesis by (simp add: bit_iff_odd)
  qed
  have "sint w = uint w - 2 ^ Suc n * of_bool (bit (uint w) n)"
    using b by (simp add: sint_uint n signed_take_bit_eq_take_bit_minus take_bit_int_eq_self)
  moreover have "uint w < 2 ^ n \<longleftrightarrow> unat w < 2 ^ n"
    using of_nat_less_iff [of "unat w" "2 ^ n", where 'a = int] by simp
  moreover have "int (unat w) = uint w" by simp
  ultimately show ?thesis by (simp only: bit n of_bool_def split: if_split) simp
qed

end
