(* ===== verification/Endianness.thy ===== *)
theory Endianness
  imports Prelude
begin

text \<open>
  \<open>Include/Endianness.h\<close> on a little-endian host: the conversions between host and network byte
  order, and the fact each is used for: the memory image of the converted integer is its
  big-endian encoding. \<open>float\<close> and \<open>double\<close> values are their bit patterns here, since the code
  only copies them.
\<close>

unbundle bit_operations_syntax

text \<open>The socket library's conversions, which swap the bytes on a little-endian host.\<close>

definition htons :: "u16 \<Rightarrow> u16" where
  "htons x = push_bit 8 x OR drop_bit 8 x"

definition ntohs :: "u16 \<Rightarrow> u16" where
  "ntohs x = htons x"

definition htonl :: "u32 \<Rightarrow> u32" where
  "htonl x = push_bit 24 x OR (push_bit 8 x AND 0xff0000) OR (drop_bit 8 x AND 0xff00) OR drop_bit 24 x"

definition ntohl :: "u32 \<Rightarrow> u32" where
  "ntohl x = htonl x"

text \<open>The argument is the eight (four) bytes pointed to, as \<open>memcpy\<close> loads them.\<close>

definition ntohll :: "u64 \<Rightarrow> u64" where
  "ntohll x = push_bit 32 (ucast (ntohl (ucast x))) + ucast (ntohl (ucast (drop_bit 32 x)))"

definition HostToNetwork8 :: "u64 \<Rightarrow> u64" where
  "HostToNetwork8 buf = push_bit 32 (ucast (htonl (ucast buf))) + ucast (htonl (ucast (drop_bit 32 buf)))"

definition HostToNetwork4 :: "u32 \<Rightarrow> u32" where
  "HostToNetwork4 buf = ntohl buf"

definition NetworkToHostDouble8 :: "u64 \<Rightarrow> u64" where
  "NetworkToHostDouble8 buf = ntohll buf"

definition NetworkToHostLong8 :: "u64 \<Rightarrow> u64" where
  "NetworkToHostLong8 buf = ntohll buf"

definition NetworkToHostULong8 :: "u64 \<Rightarrow> u64" where
  "NetworkToHostULong8 buf = ntohll buf"

definition NetworkToHostFloat4 :: "u32 \<Rightarrow> u32" where
  "NetworkToHostFloat4 buf = ntohl buf"

section \<open>Big-endian images\<close>

definition be_store :: "nat \<Rightarrow> 'a::len word \<Rightarrow> u8 list" where
  "be_store n w = rev (le_store n w)"

definition be_load :: "u8 list \<Rightarrow> 'a::len word" where
  "be_load bs = le_load (rev bs)"

lemma length_be_store [simp]: "length (be_store n w) = n"
  by (simp add: be_store_def)

lemma be_load_store [simp]: "LENGTH('a) \<le> 8 * n \<Longrightarrow> be_load (be_store n w) = (w :: 'a::len word)"
  by (simp add: be_load_def be_store_def)

lemma be_store_load [simp]:
  "n = length bs \<Longrightarrow> 8 * n \<le> LENGTH('a) \<Longrightarrow> be_store n (be_load bs :: 'a::len word) = bs"
  by (simp add: be_load_def be_store_def)

lemma htons_be: "htons x = be_load (le_store 2 x)"
proof -
  have s: "le_store 2 x = [ucast x, ucast (drop_bit 8 x)]" by (simp add: eval_nat_numeral)
  show ?thesis
    unfolding htons_def be_load_def s
    by (intro bit_word_eqI) (auto simp: bit_simps dest: bit_imp_le_length)
qed

lemma htonl_be: "htonl x = be_load (le_store 4 x)"
proof -
  have m1: "(0xff0000 :: u32) = push_bit 16 (mask 8)" and m2: "(0xff00 :: u32) = push_bit 8 (mask 8)"
    by (simp_all add: mask_eq_decr_exp push_bit_eq_mult)
  have s: "le_store 4 x = [ucast x, ucast (drop_bit 8 x), ucast (drop_bit 16 x), ucast (drop_bit 24 x)]"
    by (simp add: eval_nat_numeral drop_bit_drop_bit)
  show ?thesis
    unfolding htonl_def be_load_def s m1 m2
    by (intro bit_word_eqI) (auto simp: bit_simps dest: bit_imp_le_length)
qed

text \<open>
  The eight-byte conversions swap the two halves and the bytes of each: the memory image of the
  result is the reverse of the memory image of the argument.
\<close>

lemma HostToNetwork8_ntohll: "HostToNetwork8 x = ntohll x"
  by (simp add: HostToNetwork8_def ntohll_def ntohl_def)

lemma disjoint_halves:
  fixes hi lo :: u32
  shows "push_bit 32 (ucast hi) + (ucast lo :: u64) = push_bit 32 (ucast hi) OR ucast lo"
  by (rule disjunctive_add) (auto simp: bit_simps dest: bit_imp_le_length)

lemma le_load_append:
  "le_load (xs @ ys) = (le_load xs OR push_bit (8 * length xs) (le_load ys) :: 'a::len word)"
  by (induction xs) (simp_all add: push_bit_or or.assoc)

lemma ucast_le_load:
  "8 * length bs \<le> LENGTH('b) \<Longrightarrow> ucast (le_load bs :: 'b::len word) = (le_load bs :: 'a::len word)"
  by (intro bit_word_eqI) (auto simp: bit_simps bit_le_load)

lemma le_store_halves:
  "le_store 8 (x :: u64) = le_store 4 (ucast x :: u32) @ le_store 4 (ucast (drop_bit 32 x) :: u32)"
proof (rule nth_equalityI)
  fix k assume "k < length (le_store 8 x)"
  then show "le_store 8 x ! k =
      (le_store 4 (ucast x :: u32) @ le_store 4 (ucast (drop_bit 32 x) :: u32)) ! k"
    by (intro bit_word_eqI) (auto simp: nth_append nth_le_store bit_simps algebra_simps)
qed simp

lemma ntohll_be: "ntohll x = be_load (le_store 8 x)"
proof -
  let ?lo = "ucast x :: u32" and ?hi = "ucast (drop_bit 32 x) :: u32"
  have "be_load (le_store 8 x) =
      (le_load (rev (le_store 4 ?hi)) OR push_bit 32 (le_load (rev (le_store 4 ?lo))) :: u64)"
    by (simp add: be_load_def le_store_halves le_load_append)
  also have "\<dots> = ucast (htonl ?hi) OR push_bit 32 (ucast (htonl ?lo))"
    by (simp add: htonl_be be_load_def ucast_le_load)
  finally show ?thesis by (simp add: ntohll_def ntohl_def disjoint_halves or.commute)
qed

lemma le_store_be_load:
  "n = length bs \<Longrightarrow> 8 * n \<le> LENGTH('a) \<Longrightarrow> le_store n (be_load bs :: 'a::len word) = rev bs"
  by (simp add: be_load_def)

text \<open>The memory image of a converted integer is big-endian, and conversion undoes itself.\<close>

lemma htons_image: "le_store 2 (htons x) = be_store 2 x"
  by (simp add: htons_be le_store_be_load be_store_def)

lemma htonl_image: "le_store 4 (htonl x) = be_store 4 x"
  by (simp add: htonl_be le_store_be_load be_store_def)

lemma ntohll_image: "le_store 8 (ntohll x) = be_store 8 x"
  by (simp add: ntohll_be le_store_be_load be_store_def)

lemma ntohs_load: "length bs = 2 \<Longrightarrow> ntohs (le_load bs) = be_load bs"
  by (simp add: ntohs_def htons_be be_load_def)

lemma ntohl_load: "length bs = 4 \<Longrightarrow> ntohl (le_load bs) = be_load bs"
  by (simp add: ntohl_def htonl_be be_load_def)

lemma ntohll_load: "length bs = 8 \<Longrightarrow> ntohll (le_load bs) = be_load bs"
  by (simp add: ntohll_be be_load_def)

end
