(* ===== verification/Utf.thy ===== *)
theory Utf
  imports Endianness
begin

text \<open>
  The Unicode conversions of \<open>Src/Common/StringUtils.cpp\<close>: big-endian 16-bit units to UTF-8
  (\<open>RawBEToUTF8\<close>) and UTF-8 to big-endian UTF-16 (\<open>UTF8ToRawBEUTF16\<close>, with its legality check and
  its tables). The reference encodings \<open>utf8_enc\<close> and \<open>utf16_enc\<close> of a Unicode scalar value say
  what the routines are for.
\<close>

unbundle bit_operations_syntax

section \<open>From 16-bit units to UTF-8\<close>

text \<open>The result is a signed \<open>short\<close>: \<open>sint\<close> is its value.\<close>

definition GetBEShort :: "u8 list \<Rightarrow> u16" where
  "GetBEShort a_Mem = push_bit 8 (ucast (a_Mem ! 0)) OR ucast (a_Mem ! 1)"

text \<open>One unit; \<open>c\<close> is the \<open>int\<close> the short was widened to.\<close>

definition RawBEToUTF8_unit :: "int \<Rightarrow> u8 list" where
  "RawBEToUTF8_unit c =
     (if c < 0x80 then [word_of_int c]
      else if c < 0x800 then [word_of_int (192 + c div 64), word_of_int (128 + c mod 64)]
      else if c - 0xd800 < 0x800 then []
      else if c < 0x10000 then
        [word_of_int (224 + c div 4096), word_of_int (128 + (c div 64) mod 64), word_of_int (128 + c mod 64)]
      else if c < 0x110000 then
        [word_of_int (240 + c div 262144), word_of_int (128 + (c div 4096) mod 64),
         word_of_int (128 + (c div 64) mod 64), word_of_int (128 + c mod 64)]
      else [])"

definition RawBEToUTF8 :: "u8 list \<Rightarrow> nat \<Rightarrow> AString" where
  "RawBEToUTF8 a_RawData a_NumShorts =
     concat (map (\<lambda>i. RawBEToUTF8_unit (sint (GetBEShort (drop (i * 2) a_RawData)))) [0..<a_NumShorts])"

section \<open>From UTF-8 to UTF-16\<close>

definition trailingBytesForUTF8 :: "nat list" where
  "trailingBytesForUTF8 =
     replicate 192 0 @ replicate 32 1 @ replicate 16 2 @ replicate 8 3 @ replicate 4 4 @ replicate 4 5"

definition offsetsFromUTF8 :: "u32 list" where
  "offsetsFromUTF8 = [0x00000000, 0x00003080, 0x000E2080, 0x03C82080, 0xFA082080, 0x82082080]"

definition isLegalUTF8 :: "u8 list \<Rightarrow> nat \<Rightarrow> bool" where
  "isLegalUTF8 source n =
     (let s0 = source ! 0;
          cont = (\<lambda>a. \<not> (a < 0x80 \<or> 0xbf < a));
          second = (\<lambda>a. a \<le> 0xbf \<and>
            (if s0 = 0xe0 then \<not> a < 0xa0
             else if s0 = 0xed then \<not> 0x9f < a
             else if s0 = 0xf0 then \<not> a < 0x90
             else if s0 = 0xf4 then \<not> 0x8f < a
             else \<not> a < 0x80))
      in 1 \<le> n \<and> n \<le> 4 \<and>
         (4 \<le> n \<longrightarrow> cont (source ! 3)) \<and>
         (3 \<le> n \<longrightarrow> cont (source ! 2)) \<and>
         (2 \<le> n \<longrightarrow> second (source ! 1)) \<and>
         \<not> (0x80 \<le> s0 \<and> s0 < 0xc2) \<and> \<not> 0xf4 < s0)"

text \<open>The fall-through switch: \<open>k\<close> more bytes after the first, each shifting by six.\<close>

fun utf8_gather :: "nat \<Rightarrow> u32 \<Rightarrow> u8 list \<Rightarrow> u32" where
  "utf8_gather k ch [] = ch"
| "utf8_gather 0 ch (b # bs) = ch + ucast b"
| "utf8_gather (Suc k) ch (b # bs) = utf8_gather k (push_bit 6 (ch + ucast b)) bs"

text \<open>The units pushed for one decoded character, in the memory order \<open>htons\<close> gives.\<close>

definition utf16_units :: "u32 \<Rightarrow> u16 list" where
  "utf16_units ch =
     (if ch \<le> 0xFFFF then
        [htons (ucast (if 0xD800 \<le> ch \<and> ch \<le> 0xDFFF then 0x20 else ch))]
      else if 0x10FFFF < ch then [htons 0x20]
      else let ch' = ch - 0x10000
           in [htons (ucast (drop_bit 10 ch' + 0xD800)), htons (ucast ((ch' AND 0x3ff) + 0xDC00))])"

function UTF8ToRawBEUTF16 :: "u8 list \<Rightarrow> u16 list" where
  "UTF8ToRawBEUTF16 source =
     (if source = [] then []
      else
        let extraBytesToRead = trailingBytesForUTF8 ! unat (source ! 0)
        in if extraBytesToRead \<ge> length source then []
           else if \<not> isLegalUTF8 source (extraBytesToRead + 1) then []
           else utf16_units (utf8_gather extraBytesToRead 0 source - offsetsFromUTF8 ! extraBytesToRead) @
                UTF8ToRawBEUTF16 (drop (extraBytesToRead + 1) source))"
  by pat_completeness auto
termination
  by (relation "measure length") auto

declare UTF8ToRawBEUTF16.simps [simp del]

section \<open>The reference encodings\<close>

text \<open>A Unicode scalar value: a code point that is not a surrogate.\<close>

definition scalar_value :: "nat \<Rightarrow> bool" where
  "scalar_value c \<longleftrightarrow> c < 0xD800 \<or> (0xE000 \<le> c \<and> c < 0x110000)"

definition utf8_enc :: "nat \<Rightarrow> u8 list" where
  "utf8_enc c =
     (if c < 0x80 then [of_nat c]
      else if c < 0x800 then [of_nat (0xC0 + c div 64), of_nat (0x80 + c mod 64)]
      else if c < 0x10000 then
        [of_nat (0xE0 + c div 4096), of_nat (0x80 + c div 64 mod 64), of_nat (0x80 + c mod 64)]
      else [of_nat (0xF0 + c div 262144), of_nat (0x80 + c div 4096 mod 64),
            of_nat (0x80 + c div 64 mod 64), of_nat (0x80 + c mod 64)])"

definition utf16_enc :: "nat \<Rightarrow> u16 list" where
  "utf16_enc c =
     (if c < 0x10000 then [of_nat c]
      else [of_nat (0xD800 + (c - 0x10000) div 1024), of_nat (0xDC00 + (c - 0x10000) mod 1024)])"

lemma utf8_enc_not_Nil: "utf8_enc c \<noteq> []"
  by (simp add: utf8_enc_def)

lemma unat_small_byte: "n < 256 \<Longrightarrow> unat (of_nat n :: u8) = n"
  by (simp add: unat_of_nat)

lemma ucast_small_byte: "n < 256 \<Longrightarrow> (ucast (of_nat n :: u8) :: u32) = of_nat n"
  by (simp add: unsigned_of_nat take_bit_nat_eq_self)

lemma trailing_table:
  "n < 192 \<Longrightarrow> trailingBytesForUTF8 ! n = 0"
  "192 \<le> n \<Longrightarrow> n < 224 \<Longrightarrow> trailingBytesForUTF8 ! n = 1"
  "224 \<le> n \<Longrightarrow> n < 240 \<Longrightarrow> trailingBytesForUTF8 ! n = 2"
  "240 \<le> n \<Longrightarrow> n < 248 \<Longrightarrow> trailingBytesForUTF8 ! n = 3"
  by (auto simp: trailingBytesForUTF8_def nth_append)

lemma div_64_64: "(c::nat) div 4096 = c div 64 div 64"
  by (simp flip: div_mult2_eq)

lemma div_4096_64: "(c::nat) div 262144 = c div 4096 div 64"
  by (simp flip: div_mult2_eq)

lemma utf8_enc_cases:
  assumes "scalar_value c"
  obtains (one) "c < 0x80" "utf8_enc c = [of_nat c]"
  | (two) h l where "c = h * 64 + l" "2 \<le> h" "h < 32" "l < 64"
      "utf8_enc c = [of_nat (0xC0 + h), of_nat (0x80 + l)]"
  | (three) h m l where "c = h * 4096 + m * 64 + l" "h < 16" "m < 64" "l < 64" "h = 0 \<Longrightarrow> 32 \<le> m"
      "h = 13 \<Longrightarrow> m < 32"
      "utf8_enc c = [of_nat (0xE0 + h), of_nat (0x80 + m), of_nat (0x80 + l)]"
  | (four) h n m l where "c = h * 262144 + n * 4096 + m * 64 + l" "h < 5" "n < 64" "m < 64" "l < 64"
      "h = 0 \<Longrightarrow> 16 \<le> n" "h = 4 \<Longrightarrow> n < 16"
      "utf8_enc c = [of_nat (0xF0 + h), of_nat (0x80 + n), of_nat (0x80 + m), of_nat (0x80 + l)]"
proof -
  consider "c < 0x80" | "0x80 \<le> c" "c < 0x800" | "0x800 \<le> c" "c < 0x10000"
    | "0x10000 \<le> c" "c < 0x110000"
    using assms unfolding scalar_value_def by linarith
  then show thesis
  proof cases
    case 1
    then show thesis by (intro one) (simp_all add: utf8_enc_def)
  next
    case 2
    then show thesis by (intro two [of "c div 64" "c mod 64"]) (simp_all add: utf8_enc_def)
  next
    case 3
    have e: "c div 4096 * 4096 + c div 64 mod 64 * 64 + c mod 64 = c"
      using div_64_64 [of c] div_mult_mod_eq [of "c div 64" 64] div_mult_mod_eq [of c 64] by linarith
    have m: "c div 64 mod 64 < 64" "c mod 64 < 64" by simp_all
    have h: "c div 64 mod 64 < 32" if "c div 4096 = 13"
      using e m assms that unfolding scalar_value_def by linarith
    show thesis
      by (rule three [of "c div 4096" "c div 64 mod 64" "c mod 64"])
        (use 3 e h in \<open>simp_all add: utf8_enc_def\<close>)
  next
    case 4
    have e: "c div 262144 * 262144 + c div 4096 mod 64 * 4096 + c div 64 mod 64 * 64 + c mod 64 = c"
      using div_64_64 [of c] div_64_64 [of "c div 64"] div_4096_64 [of c]
        div_mult_mod_eq [of "c div 4096" 64] div_mult_mod_eq [of "c div 64" 64]
        div_mult_mod_eq [of c 64] by linarith
    show thesis
      by (rule four [of "c div 262144" "c div 4096 mod 64" "c div 64 mod 64" "c mod 64"])
        (use 4 e in \<open>simp_all add: utf8_enc_def\<close>)
  qed
qed

lemma utf8_enc_trailing:
  "scalar_value c \<Longrightarrow> trailingBytesForUTF8 ! unat (hd (utf8_enc c)) = length (utf8_enc c) - 1"
  by (erule utf8_enc_cases) (simp_all add: unat_small_byte trailing_table del: of_nat_add)

lemma byte_less: "m < 256 \<Longrightarrow> n < 256 \<Longrightarrow> (of_nat m :: u8) < of_nat n \<longleftrightarrow> m < n"
  by (simp add: word_less_nat_alt unat_small_byte)

lemma byte_eq: "m < 256 \<Longrightarrow> n < 256 \<Longrightarrow> (of_nat m :: u8) = of_nat n \<longleftrightarrow> m = n"
  by (metis unat_small_byte)


lemma isLegalUTF8_enc:
  assumes "scalar_value c"
  shows "isLegalUTF8 (utf8_enc c @ rest) (length (utf8_enc c))"
  using assms
proof (cases rule: utf8_enc_cases)
  case one
  then show ?thesis
    by (simp add: isLegalUTF8_def word_less_nat_alt word_le_nat_alt unat_small_byte del: of_nat_add)
next
  case (two h l)
  then show ?thesis
    by (simp add: isLegalUTF8_def word_less_nat_alt word_le_nat_alt unat_small_byte
        word_unat_eq_iff nth_append del: of_nat_add)
next
  case (three h m l)
  then show ?thesis
    by (auto simp: isLegalUTF8_def word_less_nat_alt word_le_nat_alt unat_small_byte
        word_unat_eq_iff simp del: of_nat_add)
next
  case (four h n m l)
  then show ?thesis
    by (auto simp: isLegalUTF8_def word_less_nat_alt word_le_nat_alt unat_small_byte
        word_unat_eq_iff simp del: of_nat_add)
qed

lemma utf8_gather_enc:
  assumes "scalar_value c"
  shows "utf8_gather (length (utf8_enc c) - 1) 0 (utf8_enc c @ rest) -
    offsetsFromUTF8 ! (length (utf8_enc c) - 1) = of_nat c"
  using assms
proof (cases rule: utf8_enc_cases)
  case one
  then show ?thesis by (simp add: offsetsFromUTF8_def ucast_small_byte del: of_nat_add)
next
  case (two h l)
  then show ?thesis
    by (simp add: offsetsFromUTF8_def ucast_small_byte push_bit_eq_mult del: of_nat_add)
      (simp add: algebra_simps)
next
  case (three h m l)
  then show ?thesis
    by (simp add: offsetsFromUTF8_def ucast_small_byte push_bit_eq_mult del: of_nat_add)
      (simp add: algebra_simps)
next
  case (four h n m l)
  then show ?thesis
    by (simp add: offsetsFromUTF8_def ucast_small_byte push_bit_eq_mult del: of_nat_add)
      (simp add: algebra_simps)
qed

lemma u32_less: "m < 4294967296 \<Longrightarrow> n < 4294967296 \<Longrightarrow> (of_nat m :: u32) \<le> of_nat n \<longleftrightarrow> m \<le> n"
  by (simp add: word_le_nat_alt unat_of_nat)

lemma drop_10_nat: "n < 4294967296 \<Longrightarrow> drop_bit 10 (of_nat n :: u32) = of_nat (n div 1024)"
proof -
  assume n: "n < 4294967296"
  then have "n div 1024 < 4294967296" using div_le_dividend [of n 1024] by linarith
  then show ?thesis using n
    by (simp add: word_unat_eq_iff unat_of_nat unat_div_distrib drop_bit_eq_div)
qed

lemma and_10_nat: "n < 4294967296 \<Longrightarrow> (of_nat n :: u32) AND 0x3ff = of_nat (n mod 1024)"
proof -
  assume n: "n < 4294967296"
  have m: "(0x3ff :: u32) = mask 10" by (simp add: mask_eq_decr_exp)
  have "n mod 1024 < 4294967296" using mod_less_eq_dividend [of n 1024] n by linarith
  then show ?thesis using n
    unfolding m by (simp add: word_unat_eq_iff unat_of_nat unat_mod_distrib take_bit_eq_mod
        flip: take_bit_eq_mask)
qed

lemma utf16_units_enc:
  assumes "scalar_value c"
  shows "utf16_units (of_nat c) = map htons (utf16_enc c)"
proof (cases "c < 0x10000")
  case True
  have u: "unat (of_nat c :: u32) = c" using True by (simp add: unat_of_nat)
  have "(ucast (of_nat c :: u32) :: u16) = of_nat c"
    using True by (simp add: unsigned_of_nat take_bit_nat_eq_self)
  moreover have "\<not> (0xD800 \<le> c \<and> c \<le> 0xDFFF)" using assms True by (auto simp: scalar_value_def)
  ultimately show ?thesis using True u
    by (auto simp: utf16_units_def utf16_enc_def word_le_nat_alt)
next
  case False
  let ?d = "c - 0x10000"
  have c: "c < 0x110000" using assms False by (auto simp: scalar_value_def)
  have u: "unat (of_nat c :: u32) = c" using c by (simp add: unat_of_nat)
  have d: "(of_nat c :: u32) - 0x10000 = of_nat ?d" using False by (simp add: of_nat_diff)
  have ud: "unat (of_nat ?d :: u32) = ?d" using c by (simp add: unat_of_nat)
  have "?d < 4294967296" using c by linarith
  note hi = drop_10_nat [OF this] and lo = and_10_nat [OF this]
  have k: "(ucast (of_nat n :: u32) :: u16) = of_nat n" if "n < 65536" for n
    using that by (simp add: unsigned_of_nat take_bit_nat_eq_self)
  have big: "\<not> (of_nat c :: u32) \<le> 0xFFFF" "\<not> 0x10FFFF < (of_nat c :: u32)"
    using False c by (simp_all add: word_le_nat_alt word_less_nat_alt u)
  have "?d div 1024 < 1024" using c by (simp add: less_mult_imp_div_less)
  then have 1: "(ucast (of_nat (?d div 1024) + 0xD800 :: u32) :: u16) = of_nat (0xD800 + ?d div 1024)"
    using k [of "0xD800 + ?d div 1024"] by (simp add: add.commute)
  have "?d mod 1024 < 1024" by simp
  then have 2: "(ucast (of_nat (?d mod 1024) + 0xDC00 :: u32) :: u16) = of_nat (0xDC00 + ?d mod 1024)"
    using k [of "0xDC00 + ?d mod 1024"] by (simp add: add.commute)
  show ?thesis
    unfolding utf16_units_def utf16_enc_def Let_def d hi lo 1 2 using big False by simp
qed

lemma UTF8ToRawBEUTF16_step:
  assumes "scalar_value c"
  shows "UTF8ToRawBEUTF16 (utf8_enc c @ rest) = map htons (utf16_enc c) @ UTF8ToRawBEUTF16 rest"
proof -
  let ?s = "utf8_enc c"
  have ne: "?s \<noteq> []" by (rule utf8_enc_not_Nil)
  then have hd: "(?s @ rest) ! 0 = hd ?s" and len: "length ?s - 1 + 1 = length ?s"
    by (simp_all add: nth_append hd_conv_nth Suc_leI)
  have "\<not> length ?s - 1 \<ge> length (?s @ rest)" using ne by (cases ?s) simp_all
  show ?thesis
    unfolding UTF8ToRawBEUTF16.simps [of "?s @ rest"] Let_def hd utf8_enc_trailing [OF assms] len
      utf8_gather_enc [OF assms] utf16_units_enc [OF assms]
    using ne \<open>\<not> length ?s - 1 \<ge> length (?s @ rest)\<close> by (simp add: isLegalUTF8_enc [OF assms])
qed

text \<open>
  \<^bold>\<open>C39.\<close> Decoding a well-formed UTF-8 string gives its UTF-16 encoding, one code unit or one
  surrogate pair per character, each unit in network byte order; nothing is dropped.
\<close>

theorem UTF8ToRawBEUTF16_correct:
  assumes "\<forall>c \<in> set cs. scalar_value c"
  shows "UTF8ToRawBEUTF16 (concat (map utf8_enc cs)) = concat (map (\<lambda>c. map htons (utf16_enc c)) cs)"
  using assms
proof (induction cs)
  case Nil
  then show ?case by (simp add: UTF8ToRawBEUTF16.simps)
next
  case (Cons c cs)
  then show ?case by (simp add: UTF8ToRawBEUTF16_step)
qed

theorem UTF8ToRawBEUTF16_correct_witness:
  "UTF8ToRawBEUTF16 [0x41, 0xC3, 0xA9, 0xF0, 0x9F, 0x98, 0x80] =
   map htons [0x41, 0xE9, 0xD83D, 0xDE00]"
  using UTF8ToRawBEUTF16_correct [of "[0x41, 0xE9, 0x1F600]"]
  by (simp add: scalar_value_def utf8_enc_def utf16_enc_def)

section \<open>What \<open>RawBEToUTF8\<close> does with each unit\<close>

text \<open>
  \<open>GetBEShort\<close> returns a signed \<open>short\<close>, so the unit's value is never above \<open>0x7fff\<close>: of the
  branches of the conversion only the first two and the one that drops can be reached.
\<close>

lemma RawBEToUTF8_unit_short:
  fixes w :: u16
  shows "RawBEToUTF8_unit (sint w) =
    (if w < 0x800 then utf8_enc (unat w) else if w < 0x8000 then [] else [ucast w])"
proof -
  define n where "n = unat w"
  have w: "w < 0x800 \<longleftrightarrow> n < 0x800" "w < 0x8000 \<longleftrightarrow> n < 0x8000"
    by (simp_all add: n_def word_less_nat_alt)
  have nat: "word_of_int (int k) = (of_nat k :: u8)" for k by simp
  have dv: "word_of_int (int n div 64) = (of_nat (n div 64) :: u8)"
    and md: "word_of_int (int n mod 64) = (of_nat (n mod 64) :: u8)"
    using nat [of "n div 64"] nat [of "n mod 64"] by (simp_all add: zdiv_int zmod_int)
  consider "n < 0x800" | "0x800 \<le> n" "n < 0x8000" | "0x8000 \<le> n" by linarith
  then show ?thesis
  proof cases
    case 1
    have "RawBEToUTF8_unit (int n) = utf8_enc n"
      using 1 by (simp add: RawBEToUTF8_unit_def utf8_enc_def dv md)
    then show ?thesis using 1 w by (simp add: sint_cases flip: n_def)
  next
    case 2
    then show ?thesis using w by (simp add: sint_cases RawBEToUTF8_unit_def flip: n_def)
  next
    case 3
    have "n < 65536" using unsigned_less [of w, where 'a = nat] by (simp add: n_def)
    moreover have "word_of_int (int n - 65536) = (ucast w :: u8)" by (simp add: n_def)
    ultimately show ?thesis using 3 w by (simp add: sint_cases RawBEToUTF8_unit_def flip: n_def)
  qed
qed

lemma GetBEShort_be: "GetBEShort [a, b] = be_load [a, b]"
  unfolding GetBEShort_def be_load_def
  by (intro bit_word_eqI) (auto simp: bit_simps dest: bit_imp_le_length)

lemma GetBEShort_append: "2 \<le> length xs \<Longrightarrow> GetBEShort (xs @ ys) = GetBEShort xs"
  by (auto simp: GetBEShort_def nth_append)

lemma GetBEShort_store: "GetBEShort (be_store 2 w @ ys) = w"
proof -
  have "GetBEShort (be_store 2 w) = be_load (be_store 2 w)"
    using GetBEShort_be by (simp add: be_store_def numeral_2_eq_2)
  then show ?thesis by (simp add: GetBEShort_append)
qed

lemma RawBEToUTF8_Cons:
  fixes w :: u16
  shows "RawBEToUTF8 (be_store 2 w @ rest) (Suc n) = RawBEToUTF8_unit (sint w) @ RawBEToUTF8 rest n"
proof -
  have "[0..<Suc n] = 0 # map Suc [0..<n]" by (simp only: map_Suc_upt upt_conv_Cons zero_less_Suc)
  then show ?thesis
    by (simp add: RawBEToUTF8_def GetBEShort_store comp_def del: upt_Suc)
qed

text \<open>
  \<open>RawBEToUTF8\<close> applied to the big-endian image of a list of 16-bit units: units below
  \<open>0x800\<close> come out as their UTF-8 encoding, units from \<open>0x800\<close> to \<open>0x7fff\<close> vanish, and units from
  \<open>0x8000\<close> on come out as their low byte alone. So a string of Latin, Greek, Cyrillic, Hebrew or
  Arabic letters is converted right, any other alphabet is lost or turned into stray bytes.
\<close>

theorem RawBEToUTF8_result:
  fixes ws :: "u16 list"
  shows "RawBEToUTF8 (concat (map (be_store 2) ws)) (length ws) =
   concat (map (\<lambda>w. if w < 0x800 then utf8_enc (unat w) else if w < 0x8000 then [] else [ucast w]) ws)"
proof (induction ws)
  case Nil
  then show ?case by (simp add: RawBEToUTF8_def)
next
  case (Cons w ws)
  then show ?case by (simp add: RawBEToUTF8_Cons RawBEToUTF8_unit_short)
qed

lemma RawBEToUTF8_append:
  "length xs = 2 * n \<Longrightarrow> RawBEToUTF8 (xs @ ys) n = RawBEToUTF8 xs n"
  unfolding RawBEToUTF8_def
  by (intro arg_cong [where f = concat] map_cong)
    (auto simp: GetBEShort_append)

end
