(* ===== verification/ByteBuffer.thy ===== *)
theory ByteBuffer
  imports Prelude
begin

text \<open>
  The ring buffer of \<open>Src/Common/ByteBuffer.cpp\<close>: its state, the operations that move raw bytes
  in and out of it, and the contract they keep. The abstraction of a buffer is the list of bytes
  between \<open>m_DataStart\<close> and \<open>m_WritePos\<close>, split at \<open>m_ReadPos\<close> into the bytes already read
  (\<open>consumed\<close>) and the bytes still to read (\<open>unread\<close>); every operation is shown to be the
  expected list operation on that pair. The locale \<open>byte_stream\<close> states the contract the typed
  reads and writes of \<open>ByteBufferCodec\<close> rely on; it is interpreted on this model.
\<close>

unbundle bit_operations_syntax

section \<open>State and operations\<close>

record cByteBuffer =
  m_Buffer :: "u8 list"
  m_BufferSize :: nat
  m_DataStart :: nat
  m_WritePos :: nat
  m_ReadPos :: nat

text \<open>The memory of \<open>new char[n]\<close> is not initialised: \<open>garbage\<close> is what it happens to hold.\<close>

definition new_cByteBuffer :: "(nat \<Rightarrow> u8) \<Rightarrow> nat \<Rightarrow> cByteBuffer" where
  "new_cByteBuffer garbage a_BufferSize =
     \<lparr>m_Buffer = map garbage [0..<a_BufferSize + 1], m_BufferSize = a_BufferSize + 1,
      m_DataStart = 0, m_WritePos = 0, m_ReadPos = 0\<rparr>"

text \<open>
  \<open>memset(m_Buffer, m_BufferSize, 0)\<close> fills no byte: its second argument is the value and its
  third the count, so the contents stay.
\<close>

definition memset :: "u8 list \<Rightarrow> u8 \<Rightarrow> nat \<Rightarrow> u8 list" where
  "memset buf v n = memcpy_to buf 0 (replicate n v)"

definition ClearAll :: "cByteBuffer \<Rightarrow> cByteBuffer" where
  "ClearAll b = b\<lparr>m_DataStart := 0, m_WritePos := 0, m_ReadPos := 0,
     m_Buffer := memset (m_Buffer b) (of_nat (m_BufferSize b)) 0\<rparr>"

definition GetFreeSpace :: "cByteBuffer \<Rightarrow> nat" where
  "GetFreeSpace b =
     (if m_WritePos b \<ge> m_DataStart b then m_BufferSize b - m_WritePos b + m_DataStart b - 1
      else m_DataStart b - m_WritePos b - 1)"

definition GetUsedSpace :: "cByteBuffer \<Rightarrow> nat" where
  "GetUsedSpace b = m_BufferSize b - GetFreeSpace b - 1"

definition GetReadableSpace :: "cByteBuffer \<Rightarrow> nat" where
  "GetReadableSpace b =
     (if m_ReadPos b > m_WritePos b then m_BufferSize b - m_ReadPos b + m_WritePos b
      else m_WritePos b - m_ReadPos b)"

definition CanReadBytes :: "cByteBuffer \<Rightarrow> nat \<Rightarrow> bool" where
  "CanReadBytes b a_Count \<longleftrightarrow> a_Count \<le> GetReadableSpace b"

definition CanWriteBytes :: "cByteBuffer \<Rightarrow> nat \<Rightarrow> bool" where
  "CanWriteBytes b a_Count \<longleftrightarrow> a_Count \<le> GetFreeSpace b"

text \<open>The source's \<open>a_Count\<close> is the length of the bytes passed.\<close>

definition Write :: "cByteBuffer \<Rightarrow> u8 list \<Rightarrow> bool \<times> cByteBuffer" where
  "Write b a_Bytes =
     (if GetFreeSpace b < length a_Bytes then (False, b)
      else
        let TillEnd = m_BufferSize b - m_WritePos b;
            (b1, Bytes) =
              (if TillEnd \<le> length a_Bytes then
                 (let (b0, Bytes0) =
                    (if TillEnd > 0 then
                       (b\<lparr>m_Buffer := memcpy_to (m_Buffer b) (m_WritePos b) (take TillEnd a_Bytes)\<rparr>,
                        drop TillEnd a_Bytes)
                     else (b, a_Bytes))
                  in (b0\<lparr>m_WritePos := 0\<rparr>, Bytes0))
               else (b, a_Bytes))
        in if length Bytes > 0 then
             (True, b1\<lparr>m_Buffer := memcpy_to (m_Buffer b1) (m_WritePos b1) Bytes,
                       m_WritePos := m_WritePos b1 + length Bytes\<rparr>)
           else (True, b1))"

definition WriteBuf :: "cByteBuffer \<Rightarrow> u8 list \<Rightarrow> bool \<times> cByteBuffer" where
  "WriteBuf b a_Buffer =
     (if \<not> CanWriteBytes b (length a_Buffer) then (False, b)
      else
        let BytesToEndOfBuffer = m_BufferSize b - m_WritePos b;
            (b1, Src) =
              (if BytesToEndOfBuffer \<le> length a_Buffer then
                 (b\<lparr>m_Buffer := memcpy_to (m_Buffer b) (m_WritePos b) (take BytesToEndOfBuffer a_Buffer),
                    m_WritePos := 0\<rparr>, drop BytesToEndOfBuffer a_Buffer)
               else (b, a_Buffer))
        in if length Src > 0 then
             (True, b1\<lparr>m_Buffer := memcpy_to (m_Buffer b1) (m_WritePos b1) Src,
                       m_WritePos := m_WritePos b1 + length Src\<rparr>)
           else (True, b1))"

text \<open>\<open>None\<close> is the return value \<open>false\<close>, which leaves the destination unwritten.\<close>

definition ReadBuf :: "cByteBuffer \<Rightarrow> nat \<Rightarrow> u8 list option \<times> cByteBuffer" where
  "ReadBuf b a_Count =
     (if \<not> CanReadBytes b a_Count then (None, b)
      else
        let BytesToEndOfBuffer = m_BufferSize b - m_ReadPos b;
            (Dst, Count, b1) =
              (if BytesToEndOfBuffer \<le> a_Count then
                 (let (Dst0, Count0) =
                    (if BytesToEndOfBuffer > 0 then
                       (memcpy_from (m_Buffer b) (m_ReadPos b) BytesToEndOfBuffer,
                        a_Count - BytesToEndOfBuffer)
                     else ([], a_Count))
                  in (Dst0, Count0, b\<lparr>m_ReadPos := 0\<rparr>))
               else ([], a_Count, b))
        in if Count > 0 then
             (Some (Dst @ memcpy_from (m_Buffer b1) (m_ReadPos b1) Count),
              b1\<lparr>m_ReadPos := m_ReadPos b1 + Count\<rparr>)
           else (Some Dst, b1))"

definition ReadString :: "cByteBuffer \<Rightarrow> nat \<Rightarrow> AString option \<times> cByteBuffer" where
  "ReadString b a_Count =
     (if \<not> CanReadBytes b a_Count then (None, b)
      else
        let BytesToEndOfBuffer = m_BufferSize b - m_ReadPos b;
            (a_String, Count, b1) =
              (if BytesToEndOfBuffer \<le> a_Count then
                 (let (String0, Count0) =
                    (if BytesToEndOfBuffer > 0 then
                       (memcpy_from (m_Buffer b) (m_ReadPos b) BytesToEndOfBuffer,
                        a_Count - BytesToEndOfBuffer)
                     else ([], a_Count))
                  in (String0, Count0, b\<lparr>m_ReadPos := 0\<rparr>))
               else ([], a_Count, b))
        in if Count > 0 then
             (Some (a_String @ memcpy_from (m_Buffer b1) (m_ReadPos b1) Count),
              b1\<lparr>m_ReadPos := m_ReadPos b1 + Count\<rparr>)
           else (Some a_String, b1))"

definition AdvanceReadPos :: "cByteBuffer \<Rightarrow> nat \<Rightarrow> cByteBuffer" where
  "AdvanceReadPos b a_Count =
     (let b1 = b\<lparr>m_ReadPos := m_ReadPos b + a_Count\<rparr>
      in if m_ReadPos b1 \<ge> m_BufferSize b1 then b1\<lparr>m_ReadPos := m_ReadPos b1 - m_BufferSize b1\<rparr>
         else b1)"

definition SkipRead :: "cByteBuffer \<Rightarrow> nat \<Rightarrow> bool \<times> cByteBuffer" where
  "SkipRead b a_Count =
     (if \<not> CanReadBytes b a_Count then (False, b) else (True, AdvanceReadPos b a_Count))"

text \<open>\<open>a_Data\<close> is overwritten when the read succeeds and keeps its value otherwise.\<close>

definition ReadAll :: "cByteBuffer \<Rightarrow> AString \<Rightarrow> AString \<times> cByteBuffer" where
  "ReadAll b a_Data =
     (case ReadString b (GetReadableSpace b) of
        (Some s, b') \<Rightarrow> (s, b')
      | (None, b') \<Rightarrow> (a_Data, b'))"

text \<open>The loop of \<open>ReadToByteBuffer\<close>, over the local \<open>char buf[1024]\<close>.\<close>

function ReadToByteBuffer_loop ::
    "cByteBuffer \<Rightarrow> cByteBuffer \<Rightarrow> nat \<Rightarrow> fault + (cByteBuffer \<times> cByteBuffer)" where
  "ReadToByteBuffer_loop b a_Dst a_NumBytes =
     (if a_NumBytes = 0 then Inr (b, a_Dst)
      else
        let num = (if a_NumBytes > 1024 then 1024 else a_NumBytes)
        in case ReadBuf b num of
             (None, _) \<Rightarrow> Inl VerifyFailed
           | (Some buf, b') \<Rightarrow>
               (case Write a_Dst buf of
                  (False, _) \<Rightarrow> Inl VerifyFailed
                | (True, dst') \<Rightarrow> ReadToByteBuffer_loop b' dst' (a_NumBytes - num)))"
  by pat_completeness auto
termination
  by (relation "measure (\<lambda>(b, dst, n). n)") auto

declare ReadToByteBuffer_loop.simps [simp del]

definition ReadToByteBuffer ::
    "cByteBuffer \<Rightarrow> cByteBuffer \<Rightarrow> nat \<Rightarrow> fault + (bool \<times> cByteBuffer \<times> cByteBuffer)" where
  "ReadToByteBuffer b a_Dst a_NumBytes =
     (if \<not> CanWriteBytes a_Dst a_NumBytes \<or> \<not> CanReadBytes b a_NumBytes then Inr (False, b, a_Dst)
      else and_then (ReadToByteBuffer_loop b a_Dst a_NumBytes) (\<lambda>(b', dst'). Inr (True, b', dst')))"

definition CommitRead :: "cByteBuffer \<Rightarrow> cByteBuffer" where
  "CommitRead b = b\<lparr>m_DataStart := m_ReadPos b\<rparr>"

definition ResetRead :: "cByteBuffer \<Rightarrow> cByteBuffer" where
  "ResetRead b = b\<lparr>m_ReadPos := m_DataStart b\<rparr>"

definition ReadAgain :: "cByteBuffer \<Rightarrow> AString \<Rightarrow> AString" where
  "ReadAgain b a_Out =
     (let (out1, DataStart) =
        (if m_ReadPos b < m_DataStart b then
           (a_Out @ memcpy_from (m_Buffer b) (m_DataStart b) (m_BufferSize b - m_DataStart b), 0)
         else (a_Out, m_DataStart b))
      in out1 @ memcpy_from (m_Buffer b) DataStart (m_ReadPos b - DataStart))"

section \<open>Invariant and abstraction\<close>

definition used_len :: "cByteBuffer \<Rightarrow> nat" where
  "used_len b = (if m_DataStart b \<le> m_WritePos b then m_WritePos b - m_DataStart b
                 else m_BufferSize b - m_DataStart b + m_WritePos b)"

definition read_len :: "cByteBuffer \<Rightarrow> nat" where
  "read_len b = (if m_DataStart b \<le> m_ReadPos b then m_ReadPos b - m_DataStart b
                 else m_BufferSize b - m_DataStart b + m_ReadPos b)"

text \<open>
  The invariant: the positions are inside the allocation (this is \<open>CheckValid\<close>, with the data
  start added) and the read position lies between the start of the data and its end.
\<close>

definition buffer_ok :: "cByteBuffer \<Rightarrow> bool" where
  "buffer_ok b \<longleftrightarrow>
     length (m_Buffer b) = m_BufferSize b \<and>
     m_DataStart b < m_BufferSize b \<and> m_WritePos b < m_BufferSize b \<and>
     m_ReadPos b < m_BufferSize b \<and> read_len b \<le> used_len b"

text \<open>Where the \<open>j\<close>-th byte of the data lies, and what it is.\<close>

definition cell_pos :: "cByteBuffer \<Rightarrow> nat \<Rightarrow> nat" where
  "cell_pos b j = (if m_DataStart b + j < m_BufferSize b then m_DataStart b + j
                   else m_DataStart b + j - m_BufferSize b)"

definition contents :: "cByteBuffer \<Rightarrow> u8 list" where
  "contents b = map (\<lambda>j. m_Buffer b ! cell_pos b j) [0..<used_len b]"

definition consumed :: "cByteBuffer \<Rightarrow> u8 list" where
  "consumed b = take (read_len b) (contents b)"

definition unread :: "cByteBuffer \<Rightarrow> u8 list" where
  "unread b = drop (read_len b) (contents b)"

definition capacity :: "cByteBuffer \<Rightarrow> nat" where
  "capacity b = m_BufferSize b - 1"

lemmas ring_defs = buffer_ok_def used_len_def read_len_def

lemma length_contents [simp]: "length (contents b) = used_len b"
  by (simp add: contents_def)

lemma consumed_unread: "consumed b @ unread b = contents b"
  by (simp add: consumed_def unread_def)

lemma length_unread: "length (unread b) = used_len b - read_len b"
  by (simp add: unread_def)

lemma length_consumed: "buffer_ok b \<Longrightarrow> length (consumed b) = read_len b"
  by (simp add: consumed_def buffer_ok_def)

lemma used_len_bound: "buffer_ok b \<Longrightarrow> used_len b \<le> capacity b"
  by (auto simp: ring_defs capacity_def)

lemma GetFreeSpace_eq: "buffer_ok b \<Longrightarrow> GetFreeSpace b = capacity b - used_len b"
  by (auto simp: ring_defs capacity_def GetFreeSpace_def)

lemma GetUsedSpace_eq: "buffer_ok b \<Longrightarrow> GetUsedSpace b = length (contents b)"
  by (auto simp: ring_defs GetUsedSpace_def GetFreeSpace_def)

lemma GetReadableSpace_eq: "buffer_ok b \<Longrightarrow> GetReadableSpace b = length (unread b)"
  by (auto simp: ring_defs GetReadableSpace_def length_unread split: if_splits)

lemma CanReadBytes_eq: "buffer_ok b \<Longrightarrow> CanReadBytes b n \<longleftrightarrow> n \<le> length (unread b)"
  by (simp add: CanReadBytes_def GetReadableSpace_eq)

section \<open>Writing\<close>

text \<open>
  \<open>put_bytes\<close> is the common effect of the two writing routines, position by position: the bytes go
  to the write position and on, wrapping at the end of the allocation.
\<close>

definition stores_at :: "cByteBuffer \<Rightarrow> u8 list \<Rightarrow> u8 list \<Rightarrow> bool" where
  "stores_at b xs buf \<longleftrightarrow>
     length buf = m_BufferSize b \<and>
     (\<forall>p < m_BufferSize b. buf ! p =
        (if m_WritePos b \<le> p \<and> p < m_WritePos b + length xs then xs ! (p - m_WritePos b)
         else if p + m_BufferSize b < m_WritePos b + length xs
              then xs ! (p + m_BufferSize b - m_WritePos b)
         else m_Buffer b ! p))"

definition write_end :: "cByteBuffer \<Rightarrow> nat \<Rightarrow> nat" where
  "write_end b k = (if m_WritePos b + k < m_BufferSize b then m_WritePos b + k
                    else m_WritePos b + k - m_BufferSize b)"

lemma stores_at_straight:
  assumes "length (m_Buffer b) = m_BufferSize b" and "m_WritePos b + length xs < m_BufferSize b"
  shows "stores_at b xs (memcpy_to (m_Buffer b) (m_WritePos b) xs)"
  using assms by (auto simp: stores_at_def nth_memcpy_to)

lemma stores_at_wrapped:
  fixes b xs
  defines "t \<equiv> m_BufferSize b - m_WritePos b"
  assumes "length (m_Buffer b) = m_BufferSize b" and "m_WritePos b < m_BufferSize b"
    and "t \<le> length xs" and "length xs < m_BufferSize b"
  shows "stores_at b xs
    (memcpy_to (memcpy_to (m_Buffer b) (m_WritePos b) (take t xs)) 0 (drop t xs))"
  using assms by (auto simp: stores_at_def nth_memcpy_to min_def add.commute)

lemma Write_WriteBuf:
  assumes "buffer_ok b"
  shows "Write b xs = WriteBuf b xs"
  using assms
  by (auto simp: Write_def WriteBuf_def CanWriteBytes_def buffer_ok_def Let_def)

lemma WriteBuf_effect:
  assumes ok: "buffer_ok b" and fits: "length xs \<le> capacity b - used_len b"
  shows "\<exists>buf. WriteBuf b xs = (True, b\<lparr>m_Buffer := buf, m_WritePos := write_end b (length xs)\<rparr>) \<and>
               stores_at b xs buf"
proof -
  have can: "CanWriteBytes b (length xs)"
    using assms by (simp add: CanWriteBytes_def GetFreeSpace_eq)
  have len: "length (m_Buffer b) = m_BufferSize b" and w: "m_WritePos b < m_BufferSize b"
    and small: "length xs < m_BufferSize b"
    using ok fits by (auto simp: buffer_ok_def capacity_def)
  show ?thesis
  proof (cases "m_BufferSize b - m_WritePos b \<le> length xs")
    case True
    let ?t = "m_BufferSize b - m_WritePos b"
    let ?buf = "memcpy_to (memcpy_to (m_Buffer b) (m_WritePos b) (take ?t xs)) 0 (drop ?t xs)"
    have "WriteBuf b xs = (True, b\<lparr>m_Buffer := ?buf, m_WritePos := write_end b (length xs)\<rparr>)"
      using can True w by (auto simp: WriteBuf_def write_end_def Let_def)
    then show ?thesis using stores_at_wrapped [OF len w True small] by blast
  next
    case False
    let ?buf = "memcpy_to (m_Buffer b) (m_WritePos b) xs"
    have "WriteBuf b xs = (True, b\<lparr>m_Buffer := ?buf, m_WritePos := write_end b (length xs)\<rparr>)"
      using can False w by (auto simp: WriteBuf_def write_end_def Let_def)
    moreover have "stores_at b xs ?buf"
      using False len by (intro stores_at_straight) auto
    ultimately show ?thesis by blast
  qed
qed

text \<open>The arithmetic of positions: \<open>j\<close> is an offset from the data start, \<open>p\<close> its position.\<close>

lemma ring_position_cases:
  fixes n D W j p u :: nat
  assumes "D < n" "W < n" "u = (if D \<le> W then W - D else n - D + W)"
    and "p = (if D + j < n then D + j else D + j - n)"
  shows "(W = D + u \<or> W + n = D + u) \<and> (D + j < n \<and> p = D + j \<or> n \<le> D + j \<and> p + n = D + j)"
  using assms by (auto split: if_splits)

lemma ring_position_old:
  fixes n D W k j p u :: nat
  assumes "D < n" "W < n" "u = (if D \<le> W then W - D else n - D + W)" "u + k < n" "j < u"
    and "p = (if D + j < n then D + j else D + j - n)"
  shows "\<not> (W \<le> p \<and> p < W + k) \<and> \<not> p + n < W + k"
  using ring_position_cases [OF assms(1,2,3,6)] assms(1,2,4,5) by linarith

lemma ring_position_new:
  fixes n D W k j p u :: nat
  assumes "D < n" "W < n" "u = (if D \<le> W then W - D else n - D + W)" "u + k < n" "u \<le> j" "j < u + k"
    and "p = (if D + j < n then D + j else D + j - n)"
  shows "W \<le> p \<and> p < W + k \<and> p - W = j - u \<or>
         \<not> (W \<le> p \<and> p < W + k) \<and> p + n < W + k \<and> p + n - W = j - u"
proof -
  from ring_position_cases [OF assms(1,2,3,7)] assms(1,2,4,5,6)
  have "W \<le> p \<and> p < W + k \<and> p + u = j + W \<or>
        \<not> (W \<le> p \<and> p < W + k) \<and> p + n < W + k \<and> p + n + u = j + W" by linarith
  then show ?thesis by auto
qed

lemma stores_at_extends:
  assumes ok: "buffer_ok b" and fits: "length xs \<le> capacity b - used_len b"
    and st: "stores_at b xs buf"
  defines "b' \<equiv> b\<lparr>m_Buffer := buf, m_WritePos := write_end b (length xs)\<rparr>"
  shows "buffer_ok b'" and "contents b' = contents b @ xs" and "read_len b' = read_len b"
proof -
  have u: "used_len b' = used_len b + length xs"
    using ok fits by (auto simp: b'_def ring_defs write_end_def capacity_def split: if_splits)
  show r: "read_len b' = read_len b" by (simp add: b'_def read_len_def)
  show "buffer_ok b'"
    using ok fits st u r
    by (auto simp: b'_def buffer_ok_def stores_at_def write_end_def capacity_def)
  show "contents b' = contents b @ xs"
  proof (rule nth_equalityI)
    fix j assume j: "j < length (contents b')"
    have pos: "cell_pos b' j = cell_pos b j" and buf: "m_Buffer b' = buf"
      by (simp_all add: b'_def cell_pos_def)
    have "j < m_BufferSize b"
      using used_len_bound [OF ok] fits j u ok by (simp add: capacity_def buffer_ok_def)
    then have lt: "cell_pos b j < m_BufferSize b"
      using ok by (auto simp: cell_pos_def buffer_ok_def)
    have total: "used_len b + length xs < m_BufferSize b"
      using used_len_bound [OF ok] fits ok by (auto simp: capacity_def buffer_ok_def)
    have at: "buf ! cell_pos b j =
        (if m_WritePos b \<le> cell_pos b j \<and> cell_pos b j < m_WritePos b + length xs
           then xs ! (cell_pos b j - m_WritePos b)
         else if cell_pos b j + m_BufferSize b < m_WritePos b + length xs
              then xs ! (cell_pos b j + m_BufferSize b - m_WritePos b)
         else m_Buffer b ! cell_pos b j)"
      using st lt by (simp add: stores_at_def)
    have D: "m_DataStart b < m_BufferSize b" and W: "m_WritePos b < m_BufferSize b"
      using ok by (simp_all add: buffer_ok_def)
    have "buf ! cell_pos b j = (if j < used_len b then m_Buffer b ! cell_pos b j
                                else xs ! (j - used_len b))"
    proof (cases "j < used_len b")
      case True
      from ring_position_old [OF D W used_len_def total True cell_pos_def]
      show ?thesis using True by (auto simp: at)
    next
      case False
      with j u have "used_len b \<le> j" "j < used_len b + length xs" by simp_all
      from ring_position_new [OF D W used_len_def total this cell_pos_def]
      show ?thesis using False by (auto simp: at)
    qed
    then show "contents b' ! j = (contents b @ xs) ! j"
      using j u by (auto simp: contents_def nth_append pos buf)
  qed (simp add: u)
qed

text \<open>What a write does, on the abstraction.\<close>

lemma WriteBuf_ok:
  assumes "buffer_ok b" and "length xs \<le> capacity b - used_len b"
  shows "fst (WriteBuf b xs)" and "buffer_ok (snd (WriteBuf b xs))"
    and "contents (snd (WriteBuf b xs)) = contents b @ xs"
    and "consumed (snd (WriteBuf b xs)) = consumed b"
    and "unread (snd (WriteBuf b xs)) = unread b @ xs"
    and "capacity (snd (WriteBuf b xs)) = capacity b"
proof -
  from WriteBuf_effect [OF assms] obtain buf where
    eq: "WriteBuf b xs = (True, b\<lparr>m_Buffer := buf, m_WritePos := write_end b (length xs)\<rparr>)"
    and st: "stores_at b xs buf" by blast
  note ext = stores_at_extends [OF assms st]
  have rl: "read_len b \<le> used_len b" using assms(1) by (simp add: buffer_ok_def)
  show "fst (WriteBuf b xs)" "buffer_ok (snd (WriteBuf b xs))"
    "contents (snd (WriteBuf b xs)) = contents b @ xs"
    "consumed (snd (WriteBuf b xs)) = consumed b"
    "unread (snd (WriteBuf b xs)) = unread b @ xs"
    "capacity (snd (WriteBuf b xs)) = capacity b"
    using ext rl by (simp_all add: eq consumed_def unread_def capacity_def)
qed

lemma WriteBuf_full:
  "buffer_ok b \<Longrightarrow> capacity b - used_len b < length xs \<Longrightarrow> WriteBuf b xs = (False, b)"
  by (simp add: WriteBuf_def CanWriteBytes_def GetFreeSpace_eq)

lemma fst_WriteBuf:
  "buffer_ok b \<Longrightarrow> fst (WriteBuf b xs) \<longleftrightarrow> length xs \<le> capacity b - length (contents b)"
  using WriteBuf_ok(1) [of b xs] WriteBuf_full [of b xs] by (cases "length xs \<le> capacity b - used_len b") auto

section \<open>Reading\<close>

lemma unread_nth:
  assumes ok: "buffer_ok b" and j: "j < length (unread b)"
  shows "unread b ! j = m_Buffer b ! (if m_ReadPos b + j < m_BufferSize b then m_ReadPos b + j
                                      else m_ReadPos b + j - m_BufferSize b)"
proof -
  have "read_len b + j < used_len b" using j by (simp add: length_unread)
  then have "unread b ! j = m_Buffer b ! cell_pos b (read_len b + j)"
    by (simp add: unread_def contents_def)
  moreover have "cell_pos b (read_len b + j) =
      (if m_ReadPos b + j < m_BufferSize b then m_ReadPos b + j
       else m_ReadPos b + j - m_BufferSize b)"
    using ok used_len_bound [OF ok] j
    by (auto simp: cell_pos_def ring_defs capacity_def length_unread split: if_splits)
  ultimately show ?thesis by simp
qed

definition read_end :: "cByteBuffer \<Rightarrow> nat \<Rightarrow> nat" where
  "read_end b k = (if m_ReadPos b + k < m_BufferSize b then m_ReadPos b + k
                   else m_ReadPos b + k - m_BufferSize b)"

lemma ReadString_ReadBuf: "ReadString b n = ReadBuf b n"
  by (simp add: ReadString_def ReadBuf_def)

lemma ReadBuf_effect:
  assumes ok: "buffer_ok b" and n: "n \<le> length (unread b)"
  shows "ReadBuf b n = (Some (take n (unread b)), b\<lparr>m_ReadPos := read_end b n\<rparr>)"
proof -
  have can: "CanReadBytes b n" using assms by (simp add: CanReadBytes_eq)
  have len: "length (m_Buffer b) = m_BufferSize b" and r: "m_ReadPos b < m_BufferSize b"
    and small: "n < m_BufferSize b"
    using ok n used_len_bound [OF ok] by (auto simp: buffer_ok_def capacity_def length_unread)
  show ?thesis
  proof (cases "m_BufferSize b - m_ReadPos b \<le> n")
    case True
    let ?t = "m_BufferSize b - m_ReadPos b"
    have "memcpy_from (m_Buffer b) (m_ReadPos b) ?t @ memcpy_from (m_Buffer b) 0 (n - ?t)
          = take n (unread b)"
      using True len r small n
      by (intro nth_equalityI)
        (auto simp: nth_append nth_memcpy_from unread_nth [OF ok] less_diff_conv add.commute)
    then show ?thesis
      using can True r by (auto simp: ReadBuf_def read_end_def Let_def)
  next
    case False
    have "memcpy_from (m_Buffer b) (m_ReadPos b) n = take n (unread b)"
      using False len r small n
      by (intro nth_equalityI) (auto simp: nth_memcpy_from unread_nth [OF ok])
    then show ?thesis
      using can False r by (auto simp: ReadBuf_def read_end_def Let_def)
  qed
qed

lemma read_end_advances:
  assumes ok: "buffer_ok b" and n: "n \<le> length (unread b)"
  defines "b' \<equiv> b\<lparr>m_ReadPos := read_end b n\<rparr>"
  shows "buffer_ok b'" and "contents b' = contents b" and "read_len b' = read_len b + n"
    and "capacity b' = capacity b"
proof -
  show r: "read_len b' = read_len b + n"
    using ok n used_len_bound [OF ok]
    by (auto simp: b'_def ring_defs read_end_def capacity_def length_unread split: if_splits)
  show c: "contents b' = contents b" by (simp add: b'_def contents_def used_len_def cell_pos_def)
  show "capacity b' = capacity b" by (simp add: b'_def capacity_def)
  have "used_len b' = used_len b" by (simp add: b'_def used_len_def)
  then show "buffer_ok b'"
    using ok n r used_len_bound [OF ok]
    by (auto simp: b'_def buffer_ok_def read_end_def capacity_def length_unread)
qed

lemma ReadBuf_ok:
  assumes "buffer_ok b" and "n \<le> length (unread b)"
  shows "fst (ReadBuf b n) = Some (take n (unread b))" and "buffer_ok (snd (ReadBuf b n))"
    and "contents (snd (ReadBuf b n)) = contents b"
    and "consumed (snd (ReadBuf b n)) = consumed b @ take n (unread b)"
    and "unread (snd (ReadBuf b n)) = drop n (unread b)"
    and "capacity (snd (ReadBuf b n)) = capacity b"
proof -
  note adv = read_end_advances [OF assms] and eq = ReadBuf_effect [OF assms]
  show "fst (ReadBuf b n) = Some (take n (unread b))" "buffer_ok (snd (ReadBuf b n))"
    "contents (snd (ReadBuf b n)) = contents b"
    "unread (snd (ReadBuf b n)) = drop n (unread b)"
    "capacity (snd (ReadBuf b n)) = capacity b"
    using adv by (simp_all add: eq unread_def add.commute)
  show "consumed (snd (ReadBuf b n)) = consumed b @ take n (unread b)"
    using adv by (simp add: eq unread_def consumed_def take_add)
qed

lemma ReadBuf_short:
  "buffer_ok b \<Longrightarrow> length (unread b) < n \<Longrightarrow> ReadBuf b n = (None, b)"
  by (simp add: ReadBuf_def CanReadBytes_eq)

lemma SkipRead_ReadBuf:
  assumes "buffer_ok b"
  shows "snd (SkipRead b n) = snd (ReadBuf b n)" and "fst (SkipRead b n) \<longleftrightarrow> fst (ReadBuf b n) \<noteq> None"
proof -
  have "SkipRead b n = (fst (ReadBuf b n) \<noteq> None, snd (ReadBuf b n))"
  proof (cases "n \<le> length (unread b)")
    case True
    then show ?thesis
      using assms by (auto simp: SkipRead_def CanReadBytes_eq ReadBuf_effect AdvanceReadPos_def
          read_end_def Let_def)
  next
    case False
    then show ?thesis using assms by (simp add: SkipRead_def CanReadBytes_eq ReadBuf_short)
  qed
  then show "snd (SkipRead b n) = snd (ReadBuf b n)"
    and "fst (SkipRead b n) \<longleftrightarrow> fst (ReadBuf b n) \<noteq> None" by simp_all
qed

section \<open>Committing and rewinding\<close>

lemma CommitRead_ok:
  assumes "buffer_ok b"
  shows "buffer_ok (CommitRead b)" and "contents (CommitRead b) = unread b"
    and "consumed (CommitRead b) = []" and "unread (CommitRead b) = unread b"
    and "capacity (CommitRead b) = capacity b"
proof -
  let ?b = "CommitRead b"
  have r: "read_len ?b = 0" by (simp add: CommitRead_def read_len_def)
  have u: "used_len ?b = length (unread b)"
    using assms by (auto simp: CommitRead_def length_unread ring_defs split: if_splits)
  show ok: "buffer_ok ?b"
    using assms r by (auto simp: CommitRead_def buffer_ok_def)
  show c: "contents ?b = unread b"
  proof (rule nth_equalityI)
    fix j assume "j < length (contents ?b)"
    then have "j < length (unread b)" by (simp add: u)
    then show "contents ?b ! j = unread b ! j"
      using unread_nth [OF assms] u by (simp add: contents_def cell_pos_def CommitRead_def)
  qed (simp add: u)
  show "consumed ?b = []" "unread ?b = unread b" using r c by (simp_all add: consumed_def unread_def)
  show "capacity ?b = capacity b" by (simp add: CommitRead_def capacity_def)
qed

lemma ResetRead_ok:
  assumes "buffer_ok b"
  shows "buffer_ok (ResetRead b)" and "contents (ResetRead b) = contents b"
    and "consumed (ResetRead b) = []" and "unread (ResetRead b) = contents b"
    and "capacity (ResetRead b) = capacity b"
proof -
  let ?b = "ResetRead b"
  have r: "read_len ?b = 0" by (simp add: ResetRead_def read_len_def)
  show "buffer_ok ?b" using assms r by (auto simp: ResetRead_def buffer_ok_def)
  show c: "contents ?b = contents b"
    by (simp add: ResetRead_def contents_def used_len_def cell_pos_def)
  show "consumed ?b = []" "unread ?b = contents b" using r c by (simp_all add: consumed_def unread_def)
  show "capacity ?b = capacity b" by (simp add: ResetRead_def capacity_def)
qed

lemma new_cByteBuffer_ok:
  "buffer_ok (new_cByteBuffer g n)" "contents (new_cByteBuffer g n) = []"
  "consumed (new_cByteBuffer g n) = []" "unread (new_cByteBuffer g n) = []"
  "capacity (new_cByteBuffer g n) = n"
  by (simp_all add: new_cByteBuffer_def ring_defs contents_def consumed_def unread_def capacity_def)

lemma ClearAll_ok:
  assumes "buffer_ok b"
  shows "buffer_ok (ClearAll b)" and "contents (ClearAll b) = []"
    and "capacity (ClearAll b) = capacity b" and "m_Buffer (ClearAll b) = m_Buffer b"
  using assms by (auto simp: ClearAll_def memset_def ring_defs contents_def capacity_def)

section \<open>Copying between buffers, reading everything\<close>

lemma ReadAll_ok:
  assumes "buffer_ok b"
  shows "fst (ReadAll b d) = unread b" and "buffer_ok (snd (ReadAll b d))"
    and "contents (snd (ReadAll b d)) = contents b"
    and "unread (snd (ReadAll b d)) = []"
    and "capacity (snd (ReadAll b d)) = capacity b"
  using ReadBuf_ok [OF assms, of "length (unread b)"] assms
  by (cases "ReadBuf b (length (unread b))";
      simp add: ReadAll_def ReadString_ReadBuf GetReadableSpace_eq)+

lemma ReadAll_consumed:
  assumes "buffer_ok b"
  shows "consumed (snd (ReadAll b d)) = contents b"
  using ReadAll_ok [OF assms] by (metis append_Nil2 consumed_unread)

lemma ReadToByteBuffer_loop_ok:
  assumes "buffer_ok b" and "buffer_ok dst" and "n \<le> length (unread b)"
    and "length (contents dst) + n \<le> capacity dst"
  shows "\<exists>b' dst'. ReadToByteBuffer_loop b dst n = Inr (b', dst') \<and> buffer_ok b' \<and> buffer_ok dst' \<and>
    consumed b' = consumed b @ take n (unread b) \<and> unread b' = drop n (unread b) \<and>
    consumed dst' = consumed dst \<and> unread dst' = unread dst @ take n (unread b) \<and>
    capacity b' = capacity b \<and> capacity dst' = capacity dst"
  using assms
proof (induction b dst n rule: ReadToByteBuffer_loop.induct)
  case (1 b dst n)
  show ?case
  proof (cases "n = 0")
    case True
    then show ?thesis using "1.prems" by (simp add: ReadToByteBuffer_loop.simps [of b dst 0])
  next
    case False
    let ?k = "if n > 1024 then 1024 else n"
    have k: "?k \<le> n" "0 < ?k" using False by auto
    obtain b1 where r: "ReadBuf b ?k = (Some (take ?k (unread b)), b1)"
      and b1: "buffer_ok b1" "consumed b1 = consumed b @ take ?k (unread b)"
        "unread b1 = drop ?k (unread b)" "capacity b1 = capacity b"
      using ReadBuf_ok [of b ?k] "1.prems" k by (cases "ReadBuf b ?k") auto
    obtain d1 where w: "Write dst (take ?k (unread b)) = (True, d1)"
      and d1: "buffer_ok d1" "contents d1 = contents dst @ take ?k (unread b)"
        "consumed d1 = consumed dst" "unread d1 = unread dst @ take ?k (unread b)"
        "capacity d1 = capacity dst"
      using WriteBuf_ok [of dst "take ?k (unread b)"] "1.prems" k
      by (cases "WriteBuf dst (take ?k (unread b))") (auto simp: Write_WriteBuf)
    have "\<exists>b' dst'. ReadToByteBuffer_loop b1 d1 (n - ?k) = Inr (b', dst') \<and> buffer_ok b' \<and> buffer_ok dst' \<and>
      consumed b' = consumed b1 @ take (n - ?k) (unread b1) \<and> unread b' = drop (n - ?k) (unread b1) \<and>
      consumed dst' = consumed d1 \<and> unread dst' = unread d1 @ take (n - ?k) (unread b1) \<and>
      capacity b' = capacity b1 \<and> capacity dst' = capacity d1"
      using "1.prems" k b1 d1
      by (intro "1.IH" [OF False refl r [symmetric] refl w [symmetric] refl]) auto
    moreover have "take ?k (unread b) @ take (n - ?k) (drop ?k (unread b)) = take n (unread b)"
      using k(1) by (metis le_add_diff_inverse take_add)
    moreover have "ReadToByteBuffer_loop b dst n = ReadToByteBuffer_loop b1 d1 (n - ?k)"
      by (subst ReadToByteBuffer_loop.simps)
        (simp only: False Let_def r w if_False prod.case option.case bool.case)
    ultimately show ?thesis using k b1 d1 by auto
  qed
qed

lemma ReadToByteBuffer_ok:
  assumes "buffer_ok b" and "buffer_ok dst" and "n \<le> length (unread b)"
    and "length (contents dst) + n \<le> capacity dst"
  obtains b' dst' where "ReadToByteBuffer b dst n = Inr (True, b', dst')"
    and "buffer_ok b'" and "buffer_ok dst'"
    and "consumed b' = consumed b @ take n (unread b)" and "unread b' = drop n (unread b)"
    and "consumed dst' = consumed dst" and "unread dst' = unread dst @ take n (unread b)"
    and "capacity b' = capacity b" and "capacity dst' = capacity dst"
proof -
  have "CanWriteBytes dst n" "CanReadBytes b n"
    using assms by (simp_all add: CanReadBytes_eq CanWriteBytes_def GetFreeSpace_eq)
  with ReadToByteBuffer_loop_ok [OF assms] that show thesis
    by (auto simp: ReadToByteBuffer_def)
qed

lemma ReadAgain_ok:
  assumes ok: "buffer_ok b"
  shows "ReadAgain b out = out @ consumed b"
proof -
  have len: "length (m_Buffer b) = m_BufferSize b" using ok by (simp add: buffer_ok_def)
  have nth: "consumed b ! j = m_Buffer b ! cell_pos b j" if "j < read_len b" for j
    using that ok by (simp add: consumed_def contents_def buffer_ok_def)
  have l: "length (consumed b) = read_len b" by (rule length_consumed [OF ok])
  show ?thesis
  proof (cases "m_ReadPos b < m_DataStart b")
    case True
    have "memcpy_from (m_Buffer b) (m_DataStart b) (m_BufferSize b - m_DataStart b) @
          memcpy_from (m_Buffer b) 0 (m_ReadPos b) = consumed b"
    proof (rule nth_equalityI)
      show "length (memcpy_from (m_Buffer b) (m_DataStart b) (m_BufferSize b - m_DataStart b) @
          memcpy_from (m_Buffer b) 0 (m_ReadPos b)) = length (consumed b)"
        using True len ok l by (auto simp: ring_defs)
      fix j assume "j < length (memcpy_from (m_Buffer b) (m_DataStart b) (m_BufferSize b - m_DataStart b) @
          memcpy_from (m_Buffer b) 0 (m_ReadPos b))"
      then show "(memcpy_from (m_Buffer b) (m_DataStart b) (m_BufferSize b - m_DataStart b) @
          memcpy_from (m_Buffer b) 0 (m_ReadPos b)) ! j = consumed b ! j"
        using True len ok
        by (auto simp: nth_append nth_memcpy_from nth ring_defs cell_pos_def add.commute)
    qed
    then show ?thesis using True by (simp add: ReadAgain_def Let_def)
  next
    case False
    have "memcpy_from (m_Buffer b) (m_DataStart b) (m_ReadPos b - m_DataStart b) = consumed b"
      using False len ok l
      by (intro nth_equalityI) (auto simp: nth_memcpy_from nth ring_defs cell_pos_def)
    then show ?thesis using False by (simp add: ReadAgain_def Let_def)
  qed
qed

section \<open>The contract, as an interface\<close>

text \<open>
  A byte stream: bytes are appended at one end, read in order at the other, and reads stay
  undone until committed. \<open>past\<close> and \<open>ahead\<close> are the bytes read since the last commit and the
  bytes still to read, \<open>limit\<close> bounds both together.
\<close>

locale byte_stream =
  fixes ok :: "'b \<Rightarrow> bool" and past ahead :: "'b \<Rightarrow> u8 list" and limit :: "'b \<Rightarrow> nat"
    and put :: "'b \<Rightarrow> u8 list \<Rightarrow> bool \<times> 'b"
    and get :: "'b \<Rightarrow> nat \<Rightarrow> u8 list option \<times> 'b"
    and commit rewind :: "'b \<Rightarrow> 'b"
  assumes put_fits: "ok b \<Longrightarrow> length (past b) + length (ahead b) + length xs \<le> limit b \<Longrightarrow>
      \<exists>b'. put b xs = (True, b') \<and> ok b' \<and> past b' = past b \<and> ahead b' = ahead b @ xs \<and>
           limit b' = limit b"
    and put_full: "ok b \<Longrightarrow> limit b < length (past b) + length (ahead b) + length xs \<Longrightarrow>
      put b xs = (False, b)"
    and get_there: "ok b \<Longrightarrow> n \<le> length (ahead b) \<Longrightarrow>
      \<exists>b'. get b n = (Some (take n (ahead b)), b') \<and> ok b' \<and> past b' = past b @ take n (ahead b) \<and>
           ahead b' = drop n (ahead b) \<and> limit b' = limit b"
    and get_short: "ok b \<Longrightarrow> length (ahead b) < n \<Longrightarrow> get b n = (None, b)"
    and commit_drops: "ok b \<Longrightarrow> ok (commit b) \<and> past (commit b) = [] \<and> ahead (commit b) = ahead b \<and>
      limit (commit b) = limit b"
    and rewind_restores: "ok b \<Longrightarrow> ok (rewind b) \<and> past (rewind b) = [] \<and>
      ahead (rewind b) = past b @ ahead b \<and> limit (rewind b) = limit b"
begin

lemma put_cases:
  assumes "ok b"
  obtains (fits) b' where "put b xs = (True, b')" "ok b'" "past b' = past b" "ahead b' = ahead b @ xs"
      "limit b' = limit b" "length (past b) + length (ahead b) + length xs \<le> limit b"
  | (full) "put b xs = (False, b)" "limit b < length (past b) + length (ahead b) + length xs"
  using put_fits [OF assms, of xs] put_full [OF assms, of xs] by (meson not_le_imp_less)

lemma get_cases:
  assumes "ok b"
  obtains (there) b' where "get b n = (Some (take n (ahead b)), b')" "ok b'"
      "past b' = past b @ take n (ahead b)" "ahead b' = drop n (ahead b)" "limit b' = limit b"
      "n \<le> length (ahead b)"
  | (short) "get b n = (None, b)" "length (ahead b) < n"
  using get_there [OF assms, of n] get_short [OF assms, of n] by (meson not_le_imp_less)

lemma put_then_get:
  assumes "ok b" and "ahead b = []" and "length (past b) + length xs \<le> limit b"
  shows "\<exists>b1 b2. put b xs = (True, b1) \<and> get b1 (length xs) = (Some xs, b2) \<and> ok b2 \<and>
    ahead b2 = [] \<and> past b2 = past b @ xs"
proof -
  from put_fits [of b xs] assms obtain b1 where
    p: "put b xs = (True, b1)" "ok b1" "past b1 = past b" "ahead b1 = xs" by auto
  from get_there [of b1 "length xs"] p obtain b2 where
    "get b1 (length xs) = (Some xs, b2)" "ok b2" "ahead b2 = []" "past b2 = past b @ xs" by auto
  with p show ?thesis by blast
qed

lemma get_rewind:
  assumes "ok b" and "past b = []" and "get b n = (r, b')"
  shows "ahead (rewind b') = ahead b"
  using assms(1) by (cases rule: get_cases [where n = n]) (use assms rewind_restores in auto)

lemma get_get:
  assumes "ok b" and "m + n \<le> length (ahead b)"
  shows "\<exists>b1 b2. get b m = (Some (take m (ahead b)), b1) \<and>
    get b1 n = (Some (take n (drop m (ahead b))), b2) \<and> ok b2 \<and>
    past b2 = past b @ take (m + n) (ahead b) \<and> ahead b2 = drop (m + n) (ahead b)"
proof -
  from get_there [of b m] assms obtain b1 where
    1: "get b m = (Some (take m (ahead b)), b1)" "ok b1" "past b1 = past b @ take m (ahead b)"
      "ahead b1 = drop m (ahead b)" by auto
  have "n \<le> length (ahead b1)" using 1 assms(2) by simp
  from get_there [OF 1(2) this] 1 obtain b2 where
    "get b1 n = (Some (take n (drop m (ahead b))), b2)" "ok b2"
    "past b2 = past b1 @ take n (drop m (ahead b))" "ahead b2 = drop n (drop m (ahead b))" by auto
  with 1 show ?thesis by (auto simp: take_add add.commute)
qed

end

lemma length_contents_split:
  "buffer_ok b \<Longrightarrow> length (consumed b) + length (unread b) = used_len b"
  by (metis consumed_unread length_append length_contents)

interpretation rb: byte_stream buffer_ok consumed unread capacity WriteBuf ReadBuf CommitRead ResetRead
proof (unfold_locales, goal_cases)
  case (1 b xs)
  then have "length xs \<le> capacity b - used_len b" using length_contents_split [of b] by simp
  from WriteBuf_ok [OF 1(1) this] show ?case by (cases "WriteBuf b xs") auto
next
  case (2 b xs)
  then show ?case using length_contents_split [of b] used_len_bound [of b] by (intro WriteBuf_full) auto
next
  case (3 b n)
  from ReadBuf_ok [OF 3] show ?case by (cases "ReadBuf b n") auto
next
  case (4 b n)
  then show ?case by (rule ReadBuf_short)
next
  case (5 b)
  then show ?case using CommitRead_ok by blast
next
  case (6 b)
  then show ?case using ResetRead_ok consumed_unread by metis
qed

lemma WriteBuf_snd:
  "buffer_ok b \<Longrightarrow> length (consumed b) + length (unread b) + length xs \<le> capacity b \<Longrightarrow>
   buffer_ok (snd (WriteBuf b xs)) \<and> consumed (snd (WriteBuf b xs)) = consumed b \<and>
   unread (snd (WriteBuf b xs)) = unread b @ xs \<and> capacity (snd (WriteBuf b xs)) = capacity b"
  using rb.put_fits [of b xs] by auto

section \<open>The buffer as a queue of bytes\<close>

text \<open>
  The client's view: a list of bytes read since the last commit and a list of bytes to read, with
  at most \<open>n\<close> bytes in both. \<open>fifo_step\<close> says what each operation of the class does to it.
\<close>

datatype bb_op = OWrite "u8 list" | OWriteBuf "u8 list" | ORead nat | OReadString nat | OSkip nat
  | OReadAll | OReadAgain | OCommit | OReset | OClear

fun bb_step :: "bb_op \<Rightarrow> cByteBuffer \<Rightarrow> u8 list option \<times> cByteBuffer" where
  "bb_step (OWrite xs) b = (case Write b xs of (ok, b') \<Rightarrow> (if ok then Some [] else None, b'))"
| "bb_step (OWriteBuf xs) b = (case WriteBuf b xs of (ok, b') \<Rightarrow> (if ok then Some [] else None, b'))"
| "bb_step (ORead n) b = ReadBuf b n"
| "bb_step (OReadString n) b = ReadString b n"
| "bb_step (OSkip n) b = (case SkipRead b n of (ok, b') \<Rightarrow> (if ok then Some [] else None, b'))"
| "bb_step OReadAll b = (case ReadAll b [] of (s, b') \<Rightarrow> (Some s, b'))"
| "bb_step OReadAgain b = (Some (ReadAgain b []), b)"
| "bb_step OCommit b = (Some [], CommitRead b)"
| "bb_step OReset b = (Some [], ResetRead b)"
| "bb_step OClear b = (Some [], ClearAll b)"

fun fifo_step :: "nat \<Rightarrow> bb_op \<Rightarrow> u8 list \<times> u8 list \<Rightarrow> u8 list option \<times> u8 list \<times> u8 list" where
  "fifo_step n (OWrite xs) (past, ahead) =
     (if length past + length ahead + length xs \<le> n then (Some [], past, ahead @ xs)
      else (None, past, ahead))"
| "fifo_step n (OWriteBuf xs) (past, ahead) =
     (if length past + length ahead + length xs \<le> n then (Some [], past, ahead @ xs)
      else (None, past, ahead))"
| "fifo_step n (ORead k) (past, ahead) =
     (if k \<le> length ahead then (Some (take k ahead), past @ take k ahead, drop k ahead)
      else (None, past, ahead))"
| "fifo_step n (OReadString k) (past, ahead) =
     (if k \<le> length ahead then (Some (take k ahead), past @ take k ahead, drop k ahead)
      else (None, past, ahead))"
| "fifo_step n (OSkip k) (past, ahead) =
     (if k \<le> length ahead then (Some [], past @ take k ahead, drop k ahead) else (None, past, ahead))"
| "fifo_step n OReadAll (past, ahead) = (Some ahead, past @ ahead, [])"
| "fifo_step n OReadAgain (past, ahead) = (Some past, past, ahead)"
| "fifo_step n OCommit (past, ahead) = (Some [], [], ahead)"
| "fifo_step n OReset (past, ahead) = (Some [], [], past @ ahead)"
| "fifo_step n OClear (past, ahead) = (Some [], [], [])"

fun run_ops :: "('o \<Rightarrow> 's \<Rightarrow> 'r \<times> 's) \<Rightarrow> 'o list \<Rightarrow> 's \<Rightarrow> 'r list \<times> 's" where
  "run_ops step [] s = ([], s)"
| "run_ops step (x # xs) s =
     (let (r, s') = step x s; (rs, s'') = run_ops step xs s' in (r # rs, s''))"

definition bb_abs :: "cByteBuffer \<Rightarrow> u8 list \<times> u8 list" where
  "bb_abs b = (consumed b, unread b)"

lemma bb_step_simulates:
  assumes b: "buffer_ok b"
  shows "buffer_ok (snd (bb_step x b)) \<and> capacity (snd (bb_step x b)) = capacity b \<and>
    (fst (bb_step x b), bb_abs (snd (bb_step x b))) = fifo_step (capacity b) x (bb_abs b)"
proof (cases x)
  case (OWrite xs)
  show ?thesis by (rule rb.put_cases [OF b, of xs]) (simp_all add: OWrite Write_WriteBuf b bb_abs_def)
next
  case (OWriteBuf xs)
  show ?thesis by (rule rb.put_cases [OF b, of xs]) (simp_all add: OWriteBuf b bb_abs_def)
next
  case (ORead n)
  show ?thesis by (rule rb.get_cases [OF b, of n]) (simp_all add: ORead b bb_abs_def)
next
  case (OReadString n)
  show ?thesis by (rule rb.get_cases [OF b, of n])
      (simp_all add: OReadString ReadString_ReadBuf b bb_abs_def)
next
  case (OSkip n)
  show ?thesis
    by (rule rb.get_cases [OF b, of n]; cases "SkipRead b n";
        use SkipRead_ReadBuf [OF b, of n] in \<open>simp add: OSkip b bb_abs_def\<close>)
next
  case OReadAll
  show ?thesis using ReadAll_ok [OF b, of "[]"] ReadAll_consumed [OF b, of "[]"]
    by (simp add: OReadAll bb_abs_def consumed_unread case_prod_beta)
next
  case OReadAgain
  then show ?thesis using ReadAgain_ok [OF b] b by (simp add: bb_abs_def)
next
  case OCommit
  then show ?thesis using CommitRead_ok [OF b] by (simp add: bb_abs_def)
next
  case OReset
  then show ?thesis using ResetRead_ok [OF b] by (simp add: bb_abs_def consumed_unread)
next
  case OClear
  then show ?thesis using ClearAll_ok [OF b] by (simp add: bb_abs_def consumed_def unread_def)
qed

lemma bb_run_simulates:
  assumes "buffer_ok b"
  shows "buffer_ok (snd (run_ops bb_step xs b)) \<and> capacity (snd (run_ops bb_step xs b)) = capacity b \<and>
    (fst (run_ops bb_step xs b), bb_abs (snd (run_ops bb_step xs b))) =
      run_ops (fifo_step (capacity b)) xs (bb_abs b)"
  using assms
proof (induction xs arbitrary: b)
  case (Cons x xs)
  let ?b = "snd (bb_step x b)"
  have c: "capacity ?b = capacity b" and o: "buffer_ok ?b"
    using bb_step_simulates [OF Cons.prems, of x] by auto
  have s: "fifo_step (capacity b) x (bb_abs b) = (fst (bb_step x b), bb_abs ?b)"
    using bb_step_simulates [OF Cons.prems, of x] by simp
  from Cons.IH [OF o] show ?case by (simp add: s c case_prod_beta prod_eq_iff)
qed simp

section \<open>Properties\<close>

text \<open>
  \<^bold>\<open>C37.\<close> Whatever sequence of writes, reads, skips, commits, resets and clears is performed on a
  new buffer, every result is that of the byte queue with the same capacity, and the three space
  counts are the queue's: the wrapping positions are never observable.
\<close>

theorem cByteBuffer_refines_queue:
  "let (results, final) = run_ops bb_step ops (new_cByteBuffer g n);
       (expected, past, ahead) = run_ops (fifo_step n) ops ([], [])
   in results = expected \<and>
      GetFreeSpace final = n - (length past + length ahead) \<and>
      GetUsedSpace final = length past + length ahead \<and>
      GetReadableSpace final = length ahead"
proof -
  let ?b = "new_cByteBuffer g n"
  let ?f = "snd (run_ops bb_step ops ?b)"
  have a: "bb_abs ?b = ([], [])" by (simp add: bb_abs_def new_cByteBuffer_ok)
  note sim = bb_run_simulates [of ?b ops, unfolded a new_cByteBuffer_ok(5), OF new_cByteBuffer_ok(1)]
  have ok: "buffer_ok ?f" and cap: "capacity ?f = n"
    and q: "bb_abs ?f = snd (run_ops (fifo_step n) ops ([], []))"
    using sim by (auto simp: prod_eq_iff)
  show ?thesis
    using sim q length_contents_split [OF ok]
    by (auto simp: GetFreeSpace_eq [OF ok] GetUsedSpace_eq [OF ok] GetReadableSpace_eq [OF ok] cap
        bb_abs_def prod_eq_iff case_prod_beta Let_def)
qed

text \<open>
  \<open>ReadToByteBuffer\<close> moves exactly the requested bytes, through its 1024-byte block, to the end
  of the destination when the source has them and the destination has room, and changes nothing
  otherwise; the two \<open>VERIFY\<close> calls in its loop never fail.
\<close>

theorem ReadToByteBuffer_moves:
  assumes "buffer_ok b" and "buffer_ok dst"
  shows "if n \<le> length (unread b) \<and> n \<le> capacity dst - length (contents dst)
    then \<exists>b' dst'. ReadToByteBuffer b dst n = Inr (True, b', dst') \<and> buffer_ok b' \<and> buffer_ok dst' \<and>
      consumed b' = consumed b @ take n (unread b) \<and> unread b' = drop n (unread b) \<and>
      consumed dst' = consumed dst \<and> unread dst' = unread dst @ take n (unread b)
    else ReadToByteBuffer b dst n = Inr (False, b, dst)"
proof (cases "n \<le> length (unread b) \<and> n \<le> capacity dst - length (contents dst)")
  case True
  moreover have "length (contents dst) \<le> capacity dst" using used_len_bound [OF assms(2)] by simp
  ultimately have "n \<le> length (unread b)" "length (contents dst) + n \<le> capacity dst" by auto
  from ReadToByteBuffer_ok [OF assms this] True show ?thesis by metis
next
  case False
  then show ?thesis using assms
    by (auto simp: ReadToByteBuffer_def CanWriteBytes_def CanReadBytes_eq GetFreeSpace_eq)
qed

theorem ReadToByteBuffer_moves_witness:
  "\<exists>b' dst'. ReadToByteBuffer (snd (WriteBuf (new_cByteBuffer (\<lambda>_. 0) 4) [7, 8])) (new_cByteBuffer (\<lambda>_. 0) 8) 1 =
     Inr (True, b', dst') \<and> unread b' = [8] \<and> unread dst' = [7]"
  using ReadToByteBuffer_moves [of "snd (WriteBuf (new_cByteBuffer (\<lambda>_. 0) 4) [7, 8])" "new_cByteBuffer (\<lambda>_. 0) 8" 1]
    WriteBuf_snd [of "new_cByteBuffer (\<lambda>_. 0) 4" "[7, 8]"]
  by (auto simp: new_cByteBuffer_ok simp del: length_contents)

end
