(* ===== verification/ByteBufferCodec.thy ===== *)
theory ByteBufferCodec
  imports ByteBuffer Utf
begin

text \<open>
  The typed reads and writes of \<open>Src/Common/ByteBuffer.cpp\<close>: fixed-width big-endian integers,
  variable-length integers, strings and packed positions. Each routine is translated with its
  \<open>NEEDBYTES\<close> or \<open>PUTBYTES\<close> check and its call of \<open>ReadBuf\<close> or \<open>WriteBuf\<close>; \<open>reads_as\<close> and
  \<open>writes_as\<close> then say which list decoder or encoder it implements on the buffer's unread bytes.
  \<open>float\<close> and \<open>double\<close> values are their bit patterns.
\<close>

unbundle bit_operations_syntax

section \<open>Reads of fixed width\<close>

text \<open>
  A read returns \<open>None\<close> where the source returns \<open>false\<close>. \<open>read_fixed n\<close> is the common body:
  \<open>NEEDBYTES(n)\<close>, then \<open>ReadBuf\<close> of \<open>n\<close> bytes, whose own result the source ignores; using the
  destination after a failed \<open>ReadBuf\<close> is the fault \<open>Uninitialised\<close> (never raised, see
  \<open>read_fixed_reads_as\<close>).
\<close>

type_synonym 'a rd = "cByteBuffer \<Rightarrow> fault + ('a option \<times> cByteBuffer)"

definition read_fixed :: "nat \<Rightarrow> (u8 list \<Rightarrow> 'a) \<Rightarrow> 'a rd" where
  "read_fixed n f b =
     (if \<not> CanReadBytes b n then Inr (None, b)
      else case ReadBuf b n of
             (None, _) \<Rightarrow> Inl Uninitialised
           | (Some bs, b') \<Rightarrow> Inr (Some (f bs), b'))"

definition ReadBEInt8 :: "u8 rd" where
  "ReadBEInt8 = read_fixed 1 le_load"

definition ReadBEUInt8 :: "u8 rd" where
  "ReadBEUInt8 = read_fixed 1 le_load"

definition ReadBEInt16 :: "u16 rd" where
  "ReadBEInt16 = read_fixed 2 (\<lambda>bs. ntohs (le_load bs))"

definition ReadBEUInt16 :: "u16 rd" where
  "ReadBEUInt16 = read_fixed 2 (\<lambda>bs. ntohs (le_load bs))"

definition ReadBEInt32 :: "u32 rd" where
  "ReadBEInt32 = read_fixed 4 (\<lambda>bs. ntohl (le_load bs))"

definition ReadBEUInt32 :: "u32 rd" where
  "ReadBEUInt32 = read_fixed 4 (\<lambda>bs. ntohl (le_load bs))"

definition ReadBEInt64 :: "u64 rd" where
  "ReadBEInt64 = read_fixed 8 (\<lambda>bs. NetworkToHostLong8 (le_load bs))"

definition ReadBEUInt64 :: "u64 rd" where
  "ReadBEUInt64 = read_fixed 8 (\<lambda>bs. NetworkToHostULong8 (le_load bs))"

definition ReadBEFloat :: "u32 rd" where
  "ReadBEFloat = read_fixed 4 (\<lambda>bs. NetworkToHostFloat4 (le_load bs))"

definition ReadBEDouble :: "u64 rd" where
  "ReadBEDouble = read_fixed 8 (\<lambda>bs. NetworkToHostDouble8 (le_load bs))"

definition ReadBool :: "bool rd" where
  "ReadBool = read_fixed 1 (\<lambda>bs. le_load bs \<noteq> (0 :: u8))"

definition ReadLEInt :: "u32 rd" where
  "ReadLEInt = read_fixed 4 le_load"

text \<open>The 26, 12 and 26 bits of a position; \<open>>>\<close> on \<open>Int64\<close> is the arithmetic shift.\<close>

definition position_of :: "u64 \<Rightarrow> u32 \<times> u32 \<times> u32" where
  "position_of Value =
     (let BlockXRaw = ucast (signed_drop_bit 38 Value AND 0x03ffffff) :: u32;
          BlockYRaw = ucast (signed_drop_bit 26 Value AND 0x0fff) :: u32;
          BlockZRaw = ucast (Value AND 0x03ffffff) :: u32
      in (if BlockXRaw AND 0x02000000 = 0 then BlockXRaw else - (0x04000000 - BlockXRaw),
          if BlockYRaw AND 0x0800 = 0 then BlockYRaw else - (0x0800 - BlockYRaw),
          if BlockZRaw AND 0x02000000 = 0 then BlockZRaw else - (0x04000000 - BlockZRaw)))"

definition ReadPosition64 :: "(u32 \<times> u32 \<times> u32) rd" where
  "ReadPosition64 b =
     and_then (ReadBEInt64 b) (\<lambda>(v, b').
       case v of None \<Rightarrow> Inr (None, b') | Some Value \<Rightarrow> Inr (Some (position_of Value), b'))"

section \<open>Variable-length reads\<close>

text \<open>
  The loop shared by \<open>ReadVarInt32\<close> and \<open>ReadVarInt64\<close>, at the width of \<open>Value\<close>. Shifting by the
  width or more is undefined in C++ and ends the model's execution.
\<close>

function ReadVarInt_loop :: "'a::len word \<Rightarrow> nat \<Rightarrow> 'a word rd" where
  "ReadVarInt_loop Value Shift b =
     (if \<not> CanReadBytes b 1 then Inr (None, b)
      else case ReadBuf b 1 of
             (None, _) \<Rightarrow> Inl Uninitialised
           | (Some bs, b') \<Rightarrow>
               (let c = bs ! 0
                in if Shift \<ge> LENGTH('a) then Inl ShiftTooFar
                   else let Value' = Value OR push_bit Shift (ucast (c AND 0x7f))
                        in if c AND 0x80 \<noteq> 0 then ReadVarInt_loop Value' (Shift + 7) b'
                           else Inr (Some Value', b')))"
  by pat_completeness auto
termination
  by (relation "measure (\<lambda>(v :: 'a word, s, b). LENGTH('a) - s)") auto

declare ReadVarInt_loop.simps [simp del]

definition ReadVarInt32 :: "u32 rd" where
  "ReadVarInt32 = ReadVarInt_loop 0 0"

definition ReadVarInt64 :: "u64 rd" where
  "ReadVarInt64 = ReadVarInt_loop 0 0"

definition ReadVarInt :: "'t::len word rd" where
  "ReadVarInt b = and_then (ReadVarInt64 b) (\<lambda>(v, b'). Inr (map_option ucast v, b'))"

definition ReadVarUTF8String :: "AString rd" where
  "ReadVarUTF8String b =
     and_then (ReadVarInt b) (\<lambda>(v, b').
       case v of
         None \<Rightarrow> Inr (None, b')
       | Some Size \<Rightarrow> Inr (ReadString b' (unat (Size :: u32))))"

definition ReadUTF16String :: "nat \<Rightarrow> cByteBuffer \<Rightarrow> AString option \<times> cByteBuffer" where
  "ReadUTF16String a_NumChars b =
     (case ReadString b (a_NumChars * 2) of
        (None, b') \<Rightarrow> (None, b')
      | (Some RawData, b') \<Rightarrow> (Some (RawBEToUTF8 RawData a_NumChars), b'))"

definition ReadBEUTF16String16 :: "AString rd" where
  "ReadBEUTF16String16 b =
     and_then (ReadBEUInt16 b) (\<lambda>(v, b').
       case v of None \<Rightarrow> Inr (None, b') | Some Length \<Rightarrow> Inr (ReadUTF16String (unat Length) b'))"

section \<open>Writes\<close>

definition put_fixed :: "cByteBuffer \<Rightarrow> u8 list \<Rightarrow> bool \<times> cByteBuffer" where
  "put_fixed b bs = (if \<not> CanWriteBytes b (length bs) then (False, b) else WriteBuf b bs)"

definition WriteBEInt8 :: "cByteBuffer \<Rightarrow> u8 \<Rightarrow> bool \<times> cByteBuffer" where
  "WriteBEInt8 b a_Value = put_fixed b (le_store 1 a_Value)"

definition WriteBEUInt8 :: "cByteBuffer \<Rightarrow> u8 \<Rightarrow> bool \<times> cByteBuffer" where
  "WriteBEUInt8 b a_Value = put_fixed b (le_store 1 a_Value)"

definition WriteBEInt16 :: "cByteBuffer \<Rightarrow> u16 \<Rightarrow> bool \<times> cByteBuffer" where
  "WriteBEInt16 b a_Value = put_fixed b (le_store 2 (htons a_Value))"

definition WriteBEUInt16 :: "cByteBuffer \<Rightarrow> u16 \<Rightarrow> bool \<times> cByteBuffer" where
  "WriteBEUInt16 b a_Value = put_fixed b (le_store 2 (htons a_Value))"

definition WriteBEInt32 :: "cByteBuffer \<Rightarrow> u32 \<Rightarrow> bool \<times> cByteBuffer" where
  "WriteBEInt32 b a_Value = put_fixed b (le_store 4 (HostToNetwork4 a_Value))"

definition WriteBEUInt32 :: "cByteBuffer \<Rightarrow> u32 \<Rightarrow> bool \<times> cByteBuffer" where
  "WriteBEUInt32 b a_Value = put_fixed b (le_store 4 (HostToNetwork4 a_Value))"

definition WriteBEInt64 :: "cByteBuffer \<Rightarrow> u64 \<Rightarrow> bool \<times> cByteBuffer" where
  "WriteBEInt64 b a_Value = put_fixed b (le_store 8 (HostToNetwork8 a_Value))"

definition WriteBEUInt64 :: "cByteBuffer \<Rightarrow> u64 \<Rightarrow> bool \<times> cByteBuffer" where
  "WriteBEUInt64 b a_Value = put_fixed b (le_store 8 (HostToNetwork8 a_Value))"

definition WriteBEFloat :: "cByteBuffer \<Rightarrow> u32 \<Rightarrow> bool \<times> cByteBuffer" where
  "WriteBEFloat b a_Value = put_fixed b (le_store 4 (HostToNetwork4 a_Value))"

definition WriteBEDouble :: "cByteBuffer \<Rightarrow> u64 \<Rightarrow> bool \<times> cByteBuffer" where
  "WriteBEDouble b a_Value = put_fixed b (le_store 8 (HostToNetwork8 a_Value))"

definition WriteBool :: "cByteBuffer \<Rightarrow> bool \<Rightarrow> bool \<times> cByteBuffer" where
  "WriteBool b a_Value = Write b [if a_Value then 1 else 0]"

definition WriteLEInt32 :: "cByteBuffer \<Rightarrow> u32 \<Rightarrow> bool \<times> cByteBuffer" where
  "WriteLEInt32 b a_Value = WriteBuf b (le_store 4 a_Value)"

text \<open>The bytes the loop of \<open>WriteVarInt32\<close> and \<open>WriteVarInt64\<close> puts in its local array.\<close>

function varint_bytes :: "'a::len word \<Rightarrow> u8 list" where
  "varint_bytes a_Value =
     (let b = ucast (a_Value AND 0x7f) OR (if a_Value > 0x7f then 0x80 else 0x00);
          a_Value' = drop_bit 7 a_Value
      in b # (if a_Value' > 0 then varint_bytes a_Value' else []))"
  by pat_completeness auto
termination
proof (relation "measure unat")
  fix v w :: "'a word"
  assume w: "w = drop_bit 7 v" and "w > 0"
  then have "unat v div 128 > 0" unfolding word_less_nat_alt w unat_drop by simp
  then have "unat v div 128 < unat v" by (intro div_less_dividend) (auto intro: Nat.gr0I)
  then show "(w, v) \<in> measure unat" unfolding w in_measure unat_drop by simp
qed simp

declare varint_bytes.simps [simp del]

definition WriteVarInt32 :: "cByteBuffer \<Rightarrow> u32 \<Rightarrow> bool \<times> cByteBuffer" where
  "WriteVarInt32 b a_Value = WriteBuf b (varint_bytes a_Value)"

definition WriteVarInt64 :: "cByteBuffer \<Rightarrow> u64 \<Rightarrow> bool \<times> cByteBuffer" where
  "WriteVarInt64 b a_Value = WriteBuf b (varint_bytes a_Value)"

definition WriteVarUTF8String :: "cByteBuffer \<Rightarrow> AString \<Rightarrow> bool \<times> cByteBuffer" where
  "WriteVarUTF8String b a_Value =
     (if \<not> CanWriteBytes b (length a_Value + 1) then (False, b)
      else case WriteVarInt32 b (of_nat (length a_Value)) of
             (False, b') \<Rightarrow> (False, b')
           | (True, b') \<Rightarrow> WriteBuf b' a_Value)"

definition position_value :: "u32 \<Rightarrow> u32 \<Rightarrow> u32 \<Rightarrow> u64" where
  "position_value a_BlockX a_BlockY a_BlockZ =
     push_bit 38 (scast (a_BlockX AND 0x3FFFFFF)) OR push_bit 26 (scast (a_BlockY AND 0xFFF)) OR
     scast (a_BlockZ AND 0x3FFFFFF)"

definition WritePosition64 :: "cByteBuffer \<Rightarrow> u32 \<Rightarrow> u32 \<Rightarrow> u32 \<Rightarrow> bool \<times> cByteBuffer" where
  "WritePosition64 b a_BlockX a_BlockY a_BlockZ =
     WriteBEInt64 b (position_value a_BlockX a_BlockY a_BlockZ)"

section \<open>Reads as list decoders\<close>

text \<open>
  \<open>reads_as f p\<close>: on a buffer that keeps its invariant, \<open>f\<close> does what \<open>p\<close> does on the list of
  unread bytes, and what \<open>f\<close> has read stays in the buffer as consumed bytes.
\<close>

type_synonym 'a dec = "u8 list \<Rightarrow> fault + ('a option \<times> u8 list)"

definition reads_as :: "'a rd \<Rightarrow> 'a dec \<Rightarrow> bool" where
  "reads_as f p \<longleftrightarrow>
     (\<forall>b. buffer_ok b \<longrightarrow>
        (case p (unread b) of
           Inl e \<Rightarrow> f b = Inl e
         | Inr (v, rest) \<Rightarrow> (\<exists>b'. f b = Inr (v, b') \<and> buffer_ok b' \<and> unread b' = rest \<and>
             contents b' = contents b \<and> capacity b' = capacity b)))"

lemma reads_as_Inr:
  assumes "reads_as f p" and "buffer_ok b" and "p (unread b) = Inr (v, rest)"
  obtains b' where "f b = Inr (v, b')" and "buffer_ok b'" and "unread b' = rest"
    and "contents b' = contents b" and "capacity b' = capacity b"
  using assms by (fastforce simp: reads_as_def)

lemma reads_as_Inl:
  "reads_as f p \<Longrightarrow> buffer_ok b \<Longrightarrow> p (unread b) = Inl e \<Longrightarrow> f b = Inl e"
  by (fastforce simp: reads_as_def)

definition dec_bind :: "'a dec \<Rightarrow> ('a \<Rightarrow> 'b dec) \<Rightarrow> 'b dec" where
  "dec_bind p q xs = and_then (p xs) (\<lambda>(v, rest). case v of None \<Rightarrow> Inr (None, rest) | Some x \<Rightarrow> q x rest)"

definition dec_fixed :: "nat \<Rightarrow> (u8 list \<Rightarrow> 'a) \<Rightarrow> 'a dec" where
  "dec_fixed n f xs = (if n \<le> length xs then Inr (Some (f (take n xs)), drop n xs) else Inr (None, xs))"

lemma reads_as_bind:
  assumes f: "reads_as f p" and g: "\<And>x. reads_as (g x) (q x)"
  shows "reads_as (\<lambda>b. and_then (f b) (\<lambda>(v, b'). case v of None \<Rightarrow> Inr (None, b') | Some x \<Rightarrow> g x b'))
    (dec_bind p q)"
  unfolding reads_as_def
proof (intro allI impI)
  fix b assume b: "buffer_ok b"
  show "case dec_bind p q (unread b) of
      Inl e \<Rightarrow> and_then (f b) (\<lambda>(v, b'). case v of None \<Rightarrow> Inr (None, b') | Some x \<Rightarrow> g x b') = Inl e
    | Inr (v, rest) \<Rightarrow> \<exists>b'. and_then (f b) (\<lambda>(v, b'). case v of None \<Rightarrow> Inr (None, b') | Some x \<Rightarrow> g x b') =
        Inr (v, b') \<and> buffer_ok b' \<and> unread b' = rest \<and> contents b' = contents b \<and> capacity b' = capacity b"
  proof (cases "p (unread b)")
    case (Inl e)
    then show ?thesis using reads_as_Inl [OF f b Inl] by (simp add: dec_bind_def)
  next
    case (Inr r)
    obtain v rest where r: "r = (v, rest)" by (cases r)
    obtain b1 where b1: "f b = Inr (v, b1)" "buffer_ok b1" "unread b1 = rest"
        "contents b1 = contents b" "capacity b1 = capacity b"
      using reads_as_Inr [OF f b, of v rest] Inr r by auto
    show ?thesis
    proof (cases v)
      case None
      then show ?thesis using b1 Inr r by (simp add: dec_bind_def)
    next
      case (Some x)
      have "case q x (unread b1) of Inl e \<Rightarrow> g x b1 = Inl e
        | Inr (v, rest) \<Rightarrow> \<exists>b'. g x b1 = Inr (v, b') \<and> buffer_ok b' \<and> unread b' = rest \<and>
            contents b' = contents b1 \<and> capacity b' = capacity b1"
        using g [of x] b1(2) unfolding reads_as_def by blast
      then show ?thesis using b1 Inr r Some
        by (auto simp: dec_bind_def split: sum.splits)
    qed
  qed
qed

lemma read_fixed_reads_as: "reads_as (read_fixed n f) (dec_fixed n f)"
  unfolding reads_as_def
proof (intro allI impI)
  fix b assume b: "buffer_ok b"
  then show "case dec_fixed n f (unread b) of Inl e \<Rightarrow> read_fixed n f b = Inl e
    | Inr (v, rest) \<Rightarrow> \<exists>b'. read_fixed n f b = Inr (v, b') \<and> buffer_ok b' \<and> unread b' = rest \<and>
        contents b' = contents b \<and> capacity b' = capacity b"
  proof (cases rule: rb.get_cases [of b n])
    case (there b')
    then have "contents b' = contents b" by (metis append.assoc append_take_drop_id consumed_unread)
    with there b show ?thesis by (simp add: read_fixed_def dec_fixed_def CanReadBytes_eq)
  next
    case short
    then show ?thesis using b by (simp add: read_fixed_def dec_fixed_def CanReadBytes_eq)
  qed
qed

lemma ReadString_reads_as: "reads_as (\<lambda>b. Inr (ReadString b n)) (dec_fixed n (\<lambda>bs. bs))"
  unfolding reads_as_def
proof (intro allI impI)
  fix b assume b: "buffer_ok b"
  then show "case dec_fixed n (\<lambda>bs. bs) (unread b) of Inl e \<Rightarrow> Inr (ReadString b n) = Inl e
    | Inr (v, rest) \<Rightarrow> \<exists>b'. (Inr (ReadString b n) :: fault + _) = Inr (v, b') \<and> buffer_ok b' \<and>
        unread b' = rest \<and> contents b' = contents b \<and> capacity b' = capacity b"
  proof (cases rule: rb.get_cases [of b n])
    case (there b')
    then have "contents b' = contents b" by (metis append.assoc append_take_drop_id consumed_unread)
    with there b show ?thesis by (simp add: ReadString_ReadBuf dec_fixed_def)
  next
    case short
    then show ?thesis using b by (simp add: ReadString_ReadBuf dec_fixed_def)
  qed
qed

lemma dec_fixed_cong:
  "(\<And>bs. length bs = n \<Longrightarrow> f bs = g bs) \<Longrightarrow> dec_fixed n f = dec_fixed n g"
  by (simp add: dec_fixed_def fun_eq_iff)

lemma le_load_1: "length bs = 1 \<Longrightarrow> le_load bs = be_load bs"
  by (cases bs) (simp_all add: be_load_def)

lemmas codec_defs =
  ReadBEInt8_def ReadBEUInt8_def ReadBEInt16_def ReadBEUInt16_def ReadBEInt32_def ReadBEUInt32_def
  ReadBEInt64_def ReadBEUInt64_def ReadBEFloat_def ReadBEDouble_def
  NetworkToHostLong8_def NetworkToHostULong8_def NetworkToHostFloat4_def NetworkToHostDouble8_def

text \<open>Every fixed-width big-endian read decodes the big-endian integer of its width.\<close>

lemma read_be:
  "reads_as ReadBEInt8 (dec_fixed 1 be_load)"
  "reads_as ReadBEUInt8 (dec_fixed 1 be_load)"
  "reads_as ReadBEInt16 (dec_fixed 2 be_load)"
  "reads_as ReadBEUInt16 (dec_fixed 2 be_load)"
  "reads_as ReadBEInt32 (dec_fixed 4 be_load)"
  "reads_as ReadBEUInt32 (dec_fixed 4 be_load)"
  "reads_as ReadBEInt64 (dec_fixed 8 be_load)"
  "reads_as ReadBEUInt64 (dec_fixed 8 be_load)"
  "reads_as ReadBEFloat (dec_fixed 4 be_load)"
  "reads_as ReadBEDouble (dec_fixed 8 be_load)"
  unfolding codec_defs
  by (subst dec_fixed_cong, erule le_load_1 [symmetric] ntohs_load [symmetric] ntohl_load [symmetric]
      ntohll_load [symmetric], rule read_fixed_reads_as)+

fun varint_dec :: "'a::len word \<Rightarrow> nat \<Rightarrow> 'a word dec" where
  "varint_dec V s [] = Inr (None, [])"
| "varint_dec V s (c # cs) =
     (if s \<ge> LENGTH('a) then Inl ShiftTooFar
      else let V' = V OR push_bit s (ucast (c AND 0x7f))
           in if c AND 0x80 \<noteq> 0 then varint_dec V' (s + 7) cs else Inr (Some V', cs))"

lemma ReadVarInt_loop_reads_as:
  fixes V :: "'a::len word"
  assumes "buffer_ok b"
  shows "case varint_dec V s (unread b) of Inl e \<Rightarrow> ReadVarInt_loop V s b = Inl e
    | Inr (v, rest) \<Rightarrow> \<exists>b'. ReadVarInt_loop V s b = Inr (v, b') \<and> buffer_ok b' \<and> unread b' = rest \<and>
        contents b' = contents b \<and> capacity b' = capacity b"
  using assms
proof (induction V s b rule: ReadVarInt_loop.induct)
  case (1 V s b)
  show ?case
  proof (cases "unread b")
    case Nil
    then show ?thesis using "1.prems" by (simp add: ReadVarInt_loop.simps [of V s b] CanReadBytes_eq)
  next
    case (Cons c cs)
    then have can: "CanReadBytes b 1" using "1.prems" by (simp add: CanReadBytes_eq)
    from "1.prems" obtain b' where b': "ReadBuf b 1 = (Some [c], b')" "buffer_ok b'"
        "unread b' = cs" "capacity b' = capacity b" "consumed b' = consumed b @ [c]"
      using Cons by (cases rule: rb.get_cases [of b 1]) auto
    then have con: "contents b' = contents b" using Cons by (metis append.assoc append_Cons append_Nil consumed_unread)
    show ?thesis
    proof (cases "s \<ge> LENGTH('a)")
      case True
      then show ?thesis using can b' by (simp add: ReadVarInt_loop.simps [of V s b] Cons Let_def)
    next
      case False
      let ?V = "V OR push_bit s (ucast (c AND 0x7f))"
      show ?thesis
      proof (cases "c AND 0x80 = 0")
        case True
        then show ?thesis using can b' False con
          by (simp add: ReadVarInt_loop.simps [of V s b] Cons Let_def)
      next
        case more: False
        have IH: "case varint_dec ?V (s + 7) (unread b') of Inl e \<Rightarrow> ReadVarInt_loop ?V (s + 7) b' = Inl e
          | Inr (v, rest) \<Rightarrow> \<exists>b''. ReadVarInt_loop ?V (s + 7) b' = Inr (v, b'') \<and> buffer_ok b'' \<and>
              unread b'' = rest \<and> contents b'' = contents b' \<and> capacity b'' = capacity b'"
          by (rule "1.IH" [OF _ b'(1)[symmetric] refl refl]) (use can False more b' in auto)
        have eq1: "ReadVarInt_loop V s b = ReadVarInt_loop ?V (s + 7) b'"
          using can b' False more by (simp add: ReadVarInt_loop.simps [of V s b] Let_def)
        have eq2: "varint_dec V s (unread b) = varint_dec ?V (s + 7) (unread b')"
          using b' False more by (simp add: Cons Let_def)
        show ?thesis unfolding eq1 eq2 using IH unfolding b'(4) con .
      qed
    qed
  qed
qed

lemma read_varint:
  "reads_as ReadVarInt32 (varint_dec 0 0)"
  "reads_as ReadVarInt64 (varint_dec 0 0)"
  using ReadVarInt_loop_reads_as by (auto simp: reads_as_def ReadVarInt32_def ReadVarInt64_def)

section \<open>Variable-length integers\<close>

lemma bit_0x80: "bit (0x80 :: u8) i \<longleftrightarrow> i = 7"
proof -
  have "bit (push_bit 7 (1 :: u8)) i \<longleftrightarrow> i = 7"
    unfolding bit_push_bit_iff bit_1_iff by (auto dest: bit_byte_bound)
  then show ?thesis by simp
qed

lemma cont_bit: "(c :: u8) AND 0x80 \<noteq> 0 \<longleftrightarrow> bit c 7"
proof -
  have "c AND 0x80 = 0 \<longleftrightarrow> (\<forall>i. \<not> bit (c AND 0x80) i)"
    using bit_eq_iff [of "c AND 0x80" 0] bit_imp_possible_bit
    by (simp only: bit_0_eq bot_apply bot_bool_def simp_thms) blast
  then show ?thesis unfolding bit_and_iff bit_0x80 by blast
qed

text \<open>One step of the encoder: seven bits, and the continuation bit when more follow.\<close>

lemma mask_7: "(0x7f :: 'a::len word) = mask 7"
  by (simp add: mask_eq_decr_exp)

lemma gt_7f:
  fixes v :: "'a::len word"
  assumes "8 \<le> LENGTH('a)"
  shows "v > 0x7f \<longleftrightarrow> unat v \<ge> 128" and "drop_bit 7 v > 0 \<longleftrightarrow> unat v \<ge> 128"
proof -
  have "(128::nat) < 2 ^ LENGTH('a)"
    using power_increasing [OF assms, of "2::nat"] by simp
  then have "unat (0x7f :: 'a word) = 127" by (simp add: take_bit_nat_eq_self)
  then show "v > 0x7f \<longleftrightarrow> unat v \<ge> 128" by (auto simp: word_less_nat_alt)
  show "drop_bit 7 v > 0 \<longleftrightarrow> unat v \<ge> 128"
    unfolding word_less_nat_alt unat_drop by (simp add: div_greater_zero_iff)
qed

definition varint_byte :: "'a::len word \<Rightarrow> u8" where
  "varint_byte v = ucast (v AND 0x7f) OR (if unat v \<ge> 128 then 0x80 else 0x00)"

lemma varint_bytes_step:
  fixes v :: "'a::len word"
  assumes "8 \<le> LENGTH('a)"
  shows "varint_bytes v = varint_byte v # (if unat v \<ge> 128 then varint_bytes (drop_bit 7 v) else [])"
  by (subst varint_bytes.simps) (simp add: gt_7f [OF assms] varint_byte_def)

lemma varint_byte_bits:
  fixes v :: "'a::len word"
  assumes "8 \<le> LENGTH('a)"
  shows "ucast (varint_byte v AND 0x7f) = v AND 0x7f" and "varint_byte v AND 0x80 \<noteq> 0 \<longleftrightarrow> unat v \<ge> 128"
proof -
  show "ucast (varint_byte v AND 0x7f) = v AND 0x7f"
    unfolding varint_byte_def mask_7 using assms
    by (intro bit_word_eqI) (auto simp: bit_simps bit_0x80 dest: bit_imp_le_length simp del: bit_numeral_word_iff)
  show "varint_byte v AND 0x80 \<noteq> 0 \<longleftrightarrow> unat v \<ge> 128"
    unfolding cont_bit unfolding varint_byte_def mask_7 by (auto simp: bit_simps bit_0x80 simp del: bit_numeral_word_iff)
qed

lemma varint_dec_bytes:
  fixes v :: "'a::len word"
  assumes "8 \<le> LENGTH('a)" and "s < LENGTH('a)" and "unat v < 2 ^ (LENGTH('a) - s)"
  shows "varint_dec V s (varint_bytes v @ rest) = Inr (Some (V OR push_bit s v), rest)"
  using assms(2,3)
proof (induction v arbitrary: V s rule: varint_bytes.induct)
  case (1 v)
  note step = varint_bytes_step [OF assms(1), of v]
  note bits = varint_byte_bits [OF assms(1), of v]
  show ?case
  proof (cases "unat v \<ge> 128")
    case False
    then have "v AND 0x7f = v"
      unfolding mask_7 by (simp add: flip: take_bit_eq_mask) 
        (simp add: word_unat_eq_iff unsigned_take_bit_eq take_bit_nat_eq_self)
    with False 1 bits show ?thesis by (simp add: step Let_def)
  next
    case True
    let ?V = "V OR push_bit s (v AND 0x7f)"
    have s7: "s + 7 < LENGTH('a)"
    proof (rule ccontr)
      assume "\<not> s + 7 < LENGTH('a)"
      then have "(2::nat) ^ (LENGTH('a) - s) \<le> 2 ^ 7" by (intro power_increasing) simp_all
      with True 1(3) show False by simp
    qed
    have "(2::nat) ^ (LENGTH('a) - s) = 128 * 2 ^ (LENGTH('a) - (s + 7))"
    proof -
      have "LENGTH('a) - s = 7 + (LENGTH('a) - (s + 7))" using s7 by simp
      then show ?thesis by (simp only: power_add) simp
    qed
    then have small: "unat (drop_bit 7 v) < 2 ^ (LENGTH('a) - (s + 7))"
      using 1(3) unfolding unat_drop by (simp add: less_mult_imp_div_less mult.commute)
    have "varint_dec ?V (s + 7) (varint_bytes (drop_bit 7 v) @ rest) =
        Inr (Some (?V OR push_bit (s + 7) (drop_bit 7 v)), rest)"
      by (rule "1.IH" [OF refl refl]) (use True s7 small gt_7f [OF assms(1), of v] in auto)
    moreover have "?V OR push_bit (s + 7) (drop_bit 7 v) = V OR push_bit s v"
    proof (rule bit_word_eqI)
      fix i assume "i < LENGTH('a)"
      then show "bit (?V OR push_bit (s + 7) (drop_bit 7 v)) i = bit (V OR push_bit s v) i"
        unfolding mask_7 by (cases "i < s + 7") (auto simp: bit_simps)
    qed
    ultimately show ?thesis using True 1(2) bits by (simp add: step Let_def)
  qed
qed

lemma varint_bytes_length:
  fixes v :: "'a::len word"
  assumes "8 \<le> LENGTH('a)" and "unat v < 128 ^ Suc k"
  shows "length (varint_bytes v) \<le> Suc k"
  using assms(2)
proof (induction k arbitrary: v)
  case 0
  then show ?case by (simp add: varint_bytes_step [OF assms(1), of v])
next
  case (Suc k)
  have "unat (drop_bit 7 v) < 128 ^ Suc k"
    using Suc.prems unfolding unat_drop by (simp add: less_mult_imp_div_less mult.commute)
  from Suc.IH [OF this] show ?case by (simp add: varint_bytes_step [OF assms(1), of v])
qed

lemma all_Suc_split: "(\<forall>i < Suc n. P i) \<longleftrightarrow> P 0 \<and> (\<forall>i < n. P (Suc i))"
  using less_Suc_eq_0_disj by auto

lemma varint_dec_fault:
  fixes V :: "'a::len word"
  shows "varint_dec V s xs = Inl e \<longleftrightarrow>
    e = ShiftTooFar \<and> (LENGTH('a) - s + 6) div 7 < length xs \<and>
    (\<forall>i < (LENGTH('a) - s + 6) div 7. bit (xs ! i) 7)"
proof (induction V s xs rule: varint_dec.induct)
  case (2 V s c cs)
  show ?case
  proof (cases "s \<ge> LENGTH('a)")
    case False
    then have n: "(LENGTH('a) - s + 6) div 7 = Suc ((LENGTH('a) - (s + 7) + 6) div 7)"
      by (cases "s + 7 \<le> LENGTH('a)") (auto simp: le_div_geq div_le_mono)
    show ?thesis
      unfolding n all_Suc_split using False 2 by (auto simp: Let_def cont_bit)
  qed auto
qed simp

section \<open>Writes as list encoders\<close>

text \<open>
  \<open>writes_as g e\<close>: when \<open>e\<close> fits, \<open>g\<close> appends exactly \<open>e\<close> to the unread bytes; \<open>writes_all g e\<close>
  adds that nothing is written when it does not fit.
\<close>

definition writes_as :: "(cByteBuffer \<Rightarrow> bool \<times> cByteBuffer) \<Rightarrow> u8 list \<Rightarrow> bool" where
  "writes_as g e \<longleftrightarrow>
     (\<forall>b. buffer_ok b \<longrightarrow> length (contents b) + length e \<le> capacity b \<longrightarrow>
        (\<exists>b'. g b = (True, b') \<and> buffer_ok b' \<and> consumed b' = consumed b \<and>
              unread b' = unread b @ e \<and> capacity b' = capacity b))"

definition writes_all :: "(cByteBuffer \<Rightarrow> bool \<times> cByteBuffer) \<Rightarrow> u8 list \<Rightarrow> bool" where
  "writes_all g e \<longleftrightarrow> writes_as g e \<and>
     (\<forall>b. buffer_ok b \<longrightarrow> capacity b < length (contents b) + length e \<longrightarrow> g b = (False, b))"

lemma writes_asE:
  assumes "writes_as g e" and "buffer_ok b" and "length (contents b) + length e \<le> capacity b"
  obtains b' where "g b = (True, b')" and "buffer_ok b'" and "consumed b' = consumed b"
    and "unread b' = unread b @ e" and "capacity b' = capacity b" and "contents b' = contents b @ e"
proof -
  obtain b' where b': "g b = (True, b')" "buffer_ok b'" "consumed b' = consumed b"
      "unread b' = unread b @ e" "capacity b' = capacity b"
    using assms by (auto simp: writes_as_def)
  moreover have "contents b' = contents b @ e"
    using b' by (metis append.assoc consumed_unread)
  ultimately show thesis by (rule that)
qed

lemma WriteBuf_writes: "writes_all (\<lambda>b. WriteBuf b e) e"
  unfolding writes_all_def writes_as_def
proof (intro conjI allI impI)
  fix b assume "buffer_ok b" "length (contents b) + length e \<le> capacity b"
  then show "\<exists>b'. WriteBuf b e = (True, b') \<and> buffer_ok b' \<and> consumed b' = consumed b \<and>
      unread b' = unread b @ e \<and> capacity b' = capacity b"
    using rb.put_fits [of b e] length_contents_split [of b] by simp
next
  fix b assume "buffer_ok b" "capacity b < length (contents b) + length e"
  then show "WriteBuf b e = (False, b)"
    using rb.put_full [of b e] length_contents_split [of b] by simp
qed

lemma put_fixed_WriteBuf: "put_fixed b e = WriteBuf b e"
  by (simp add: put_fixed_def WriteBuf_def)

lemma write_be:
  "writes_all (\<lambda>b. WriteBEInt8 b v8) (be_store 1 v8)"
  "writes_all (\<lambda>b. WriteBEUInt8 b v8) (be_store 1 v8)"
  "writes_all (\<lambda>b. WriteBEInt16 b v16) (be_store 2 v16)"
  "writes_all (\<lambda>b. WriteBEUInt16 b v16) (be_store 2 v16)"
  "writes_all (\<lambda>b. WriteBEInt32 b v32) (be_store 4 v32)"
  "writes_all (\<lambda>b. WriteBEUInt32 b v32) (be_store 4 v32)"
  "writes_all (\<lambda>b. WriteBEInt64 b v64) (be_store 8 v64)"
  "writes_all (\<lambda>b. WriteBEUInt64 b v64) (be_store 8 v64)"
  "writes_all (\<lambda>b. WriteBEFloat b v32) (be_store 4 v32)"
  "writes_all (\<lambda>b. WriteBEDouble b v64) (be_store 8 v64)"
proof -
  have one: "be_store 1 v8 = le_store 1 v8" by (simp add: be_store_def)
  have h4: "le_store 4 (HostToNetwork4 v32) = be_store 4 v32"
    by (simp add: HostToNetwork4_def ntohl_def htonl_image)
  have h8: "le_store 8 (HostToNetwork8 v64) = be_store 8 v64"
    by (simp add: HostToNetwork8_ntohll ntohll_image)
  note defs = WriteBEInt8_def WriteBEUInt8_def WriteBEInt16_def WriteBEUInt16_def WriteBEInt32_def
    WriteBEUInt32_def WriteBEInt64_def WriteBEUInt64_def WriteBEFloat_def WriteBEDouble_def
  show "writes_all (\<lambda>b. WriteBEInt8 b v8) (be_store 1 v8)"
    "writes_all (\<lambda>b. WriteBEUInt8 b v8) (be_store 1 v8)"
    "writes_all (\<lambda>b. WriteBEInt16 b v16) (be_store 2 v16)"
    "writes_all (\<lambda>b. WriteBEUInt16 b v16) (be_store 2 v16)"
    "writes_all (\<lambda>b. WriteBEInt32 b v32) (be_store 4 v32)"
    "writes_all (\<lambda>b. WriteBEUInt32 b v32) (be_store 4 v32)"
    "writes_all (\<lambda>b. WriteBEInt64 b v64) (be_store 8 v64)"
    "writes_all (\<lambda>b. WriteBEUInt64 b v64) (be_store 8 v64)"
    "writes_all (\<lambda>b. WriteBEFloat b v32) (be_store 4 v32)"
    "writes_all (\<lambda>b. WriteBEDouble b v64) (be_store 8 v64)"
    unfolding defs put_fixed_WriteBuf one h4 h8 htons_image by (rule WriteBuf_writes)+
qed

lemma writes_all_as: "writes_all g e \<Longrightarrow> writes_as g e"
  by (simp add: writes_all_def)

lemma WriteBool_writes: "writes_as (\<lambda>b. WriteBool b v) [if v then 1 else 0]"
  using WriteBuf_writes by (simp add: WriteBool_def writes_as_def writes_all_def Write_WriteBuf)

lemma WriteLEInt32_writes: "writes_all (\<lambda>b. WriteLEInt32 b v) (le_store 4 v)"
  unfolding WriteLEInt32_def by (rule WriteBuf_writes)

lemma write_varint:
  "writes_all (\<lambda>b. WriteVarInt32 b v) (varint_bytes v)"
  "writes_all (\<lambda>b. WriteVarInt64 b w) (varint_bytes w)"
  unfolding WriteVarInt32_def WriteVarInt64_def by (rule WriteBuf_writes)+

definition string_bytes :: "AString \<Rightarrow> u8 list" where
  "string_bytes s = varint_bytes (of_nat (length s) :: u32) @ s"

lemma varint_bytes_not_Nil: "varint_bytes v \<noteq> []"
  by (subst varint_bytes.simps) (simp add: Let_def)

lemma WriteVarUTF8String_writes: "writes_as (\<lambda>b. WriteVarUTF8String b s) (string_bytes s)"
  unfolding writes_as_def
proof (intro allI impI)
  fix b
  let ?len = "varint_bytes (of_nat (length s) :: u32)"
  assume b: "buffer_ok b" and fits: "length (contents b) + length (string_bytes s) \<le> capacity b"
  have can: "CanWriteBytes b (length s + 1)"
    using b fits varint_bytes_not_Nil [of "of_nat (length s) :: u32"]
    by (cases ?len) (simp_all add: CanWriteBytes_def GetFreeSpace_eq string_bytes_def)
  obtain b1 where b1: "WriteVarInt32 b (of_nat (length s)) = (True, b1)" "buffer_ok b1"
      "consumed b1 = consumed b" "unread b1 = unread b @ ?len" "capacity b1 = capacity b"
      "contents b1 = contents b @ ?len"
    using writes_asE [OF writes_all_as [OF write_varint(1)] b, of "of_nat (length s)"] fits
    by (auto simp: string_bytes_def)
  have "length (contents b1) + length s \<le> capacity b1"
    using fits b1 by (simp add: string_bytes_def del: length_contents)
  from writes_asE [OF writes_all_as [OF WriteBuf_writes] b1(2) this]
  obtain b2 where "WriteBuf b1 s = (True, b2)" "buffer_ok b2" "consumed b2 = consumed b1"
      "unread b2 = unread b1 @ s" "capacity b2 = capacity b1" by blast
  then show "\<exists>b'. WriteVarUTF8String b s = (True, b') \<and> buffer_ok b' \<and> consumed b' = consumed b \<and>
      unread b' = unread b @ string_bytes s \<and> capacity b' = capacity b"
    using b1 can by (simp add: WriteVarUTF8String_def string_bytes_def)
qed

section \<open>String decoders\<close>

definition dec_map :: "('a \<Rightarrow> 'b) \<Rightarrow> 'a dec \<Rightarrow> 'b dec" where
  "dec_map f p xs = and_then (p xs) (\<lambda>(v, rest). Inr (map_option f v, rest))"

lemma reads_as_map:
  assumes "reads_as f p"
  shows "reads_as (\<lambda>b. and_then (f b) (\<lambda>(v, b'). Inr (map_option g v, b'))) (dec_map g p)"
  unfolding reads_as_def
proof (intro allI impI)
  fix b assume b: "buffer_ok b"
  show "case dec_map g p (unread b) of
      Inl e \<Rightarrow> and_then (f b) (\<lambda>(v, b'). Inr (map_option g v, b')) = Inl e
    | Inr (v, rest) \<Rightarrow> \<exists>b'. and_then (f b) (\<lambda>(v, b'). Inr (map_option g v, b')) = Inr (v, b') \<and>
        buffer_ok b' \<and> unread b' = rest \<and> contents b' = contents b \<and> capacity b' = capacity b"
  proof (cases "p (unread b)")
    case (Inl e)
    then show ?thesis using reads_as_Inl [OF assms b Inl] by (simp add: dec_map_def)
  next
    case (Inr r)
    obtain v rest where r: "r = (v, rest)" by (cases r)
    obtain b1 where "f b = Inr (v, b1)" "buffer_ok b1" "unread b1 = rest"
        "contents b1 = contents b" "capacity b1 = capacity b"
      using reads_as_Inr [OF assms b, of v rest] Inr r by auto
    then show ?thesis using Inr r by (simp add: dec_map_def)
  qed
qed

definition dec_varint :: "'t::len word dec" where
  "dec_varint = dec_map ucast (varint_dec (0 :: u64) 0)"

lemma ReadVarInt_reads_as: "reads_as ReadVarInt dec_varint"
  unfolding ReadVarInt_def dec_varint_def by (rule reads_as_map [OF read_varint(2)])

definition dec_string :: "AString dec" where
  "dec_string = dec_bind dec_varint (\<lambda>n. dec_fixed (unat (n :: u32)) (\<lambda>bs. bs))"

lemma ReadVarUTF8String_reads_as: "reads_as ReadVarUTF8String dec_string"
  unfolding ReadVarUTF8String_def dec_string_def
  by (rule reads_as_bind [OF ReadVarInt_reads_as ReadString_reads_as])

definition dec_utf16 :: "AString dec" where
  "dec_utf16 = dec_bind (dec_fixed 2 (be_load :: _ \<Rightarrow> u16))
     (\<lambda>n. dec_fixed (unat n * 2) (\<lambda>bs. RawBEToUTF8 bs (unat n)))"

lemma ReadUTF16String_reads_as:
  "reads_as (\<lambda>b. Inr (ReadUTF16String n b)) (dec_fixed (n * 2) (\<lambda>bs. RawBEToUTF8 bs n))"
proof -
  have "reads_as (\<lambda>b. Inr (ReadUTF16String n b)) (dec_map (\<lambda>bs. RawBEToUTF8 bs n) (dec_fixed (n * 2) (\<lambda>bs. bs)))"
  proof -
    have "Inr (ReadUTF16String n b) =
      and_then (Inr (ReadString b (n * 2))) (\<lambda>(v, b'). Inr (map_option (\<lambda>bs. RawBEToUTF8 bs n) v, b'))" for b
      by (cases "ReadString b (n * 2)") (auto simp: ReadUTF16String_def split: option.split)
    then show ?thesis using reads_as_map [OF ReadString_reads_as] by simp
  qed
  moreover have "dec_map (\<lambda>bs. RawBEToUTF8 bs n) (dec_fixed (n * 2) (\<lambda>bs. bs)) =
      dec_fixed (n * 2) (\<lambda>bs. RawBEToUTF8 bs n)"
    by (auto simp: dec_map_def dec_fixed_def fun_eq_iff)
  ultimately show ?thesis by simp
qed

lemma ReadBEUTF16String16_reads_as: "reads_as ReadBEUTF16String16 dec_utf16"
  unfolding ReadBEUTF16String16_def dec_utf16_def
  by (rule reads_as_bind [OF read_be(4) ReadUTF16String_reads_as])

lemma ReadBool_reads_as: "reads_as ReadBool (dec_fixed 1 (\<lambda>bs. le_load bs \<noteq> (0 :: u8)))"
  unfolding ReadBool_def by (rule read_fixed_reads_as)

lemma ReadLEInt_reads_as: "reads_as ReadLEInt (dec_fixed 4 le_load)"
  unfolding ReadLEInt_def by (rule read_fixed_reads_as)

lemma ReadPosition64_reads_as: "reads_as ReadPosition64 (dec_fixed 8 (\<lambda>bs. position_of (be_load bs)))"
proof -
  have "reads_as ReadPosition64 (dec_map position_of (dec_fixed 8 be_load))"
  proof -
    have "ReadPosition64 b = and_then (ReadBEInt64 b) (\<lambda>(v, b'). Inr (map_option position_of v, b'))" for b
      unfolding ReadPosition64_def
      by (rule arg_cong [where f = "and_then _"]) (auto simp: fun_eq_iff split: option.split)
    then have eq: "ReadPosition64 = (\<lambda>b. and_then (ReadBEInt64 b) (\<lambda>(v, b'). Inr (map_option position_of v, b')))"
      by (rule ext)
    show ?thesis unfolding eq by (rule reads_as_map [OF read_be(7)])
  qed
  moreover have "dec_map position_of (dec_fixed 8 be_load) = dec_fixed 8 (\<lambda>bs. position_of (be_load bs))"
    by (auto simp: dec_map_def dec_fixed_def fun_eq_iff)
  ultimately show ?thesis by simp
qed

lemma dec_fixed_append: "length bs = n \<Longrightarrow> dec_fixed n f (bs @ rest) = Inr (Some (f bs), rest)"
  by (simp add: dec_fixed_def)

lemma dec_varint_bytes: "dec_varint (varint_bytes (v :: u64) @ rest) = Inr (Some (ucast v), rest)"
  using varint_dec_bytes [of 0 v 0 rest] unsigned_less [of v, where 'a = nat]
  by (simp add: dec_varint_def dec_map_def)

text \<open>A 32-bit integer written as 32-bit varint is read back by the 64-bit reader.\<close>

lemma varint_bytes_ucast:
  fixes v :: "'a::len word"
  assumes "8 \<le> LENGTH('a)" and "LENGTH('a) \<le> LENGTH('b::len)"
  shows "varint_bytes (ucast v :: 'b word) = varint_bytes v"
proof (induction v rule: varint_bytes.induct)
  case (1 v)
  have u: "unat (ucast v :: 'b word) = unat v"
  proof -
    have "unat v < 2 ^ LENGTH('b)"
      using unsigned_less [of v, where 'a = nat] power_increasing [OF assms(2), of "2::nat"] by linarith
    then show ?thesis by (simp add: unsigned_ucast_eq take_bit_nat_eq_self)
  qed
  have b: "varint_byte (ucast v :: 'b word) = varint_byte v"
    unfolding varint_byte_def u mask_7 using assms
    by (intro bit_word_eqI) (auto simp: bit_simps dest: bit_imp_le_length)
  have d: "drop_bit 7 (ucast v :: 'b word) = ucast (drop_bit 7 v)"
    using assms(2) by (intro bit_word_eqI) (auto simp: bit_simps dest: bit_imp_le_length)
  have 8: "8 \<le> LENGTH('b)" using assms by simp
  show ?case
  proof (cases "unat v \<ge> 128")
    case True
    then have "varint_bytes (ucast (drop_bit 7 v) :: 'b word) = varint_bytes (drop_bit 7 v)"
      using gt_7f(2) [OF assms(1), of v] by (intro "1.IH" [OF refl refl]) simp
    then show ?thesis by (simp add: varint_bytes_step [OF 8, of "ucast v"] varint_bytes_step [OF assms(1), of v] u b d)
  next
    case False
    then show ?thesis by (simp add: varint_bytes_step [OF 8, of "ucast v"] varint_bytes_step [OF assms(1), of v] u b)
  qed
qed

lemma dec_varint_bytes_32: "dec_varint (varint_bytes (v :: u32) @ rest) = Inr (Some v, rest)"
proof -
  have "(ucast (ucast v :: u64) :: u32) = v"
    by (rule bit_word_eqI) (simp add: bit_simps)
  then show ?thesis
    using dec_varint_bytes [of "ucast v :: u64" rest, where 'a = 32]
    by (simp add: varint_bytes_ucast)
qed

lemma dec_string_bytes:
  "length s < 2 ^ 32 \<Longrightarrow> dec_string (string_bytes s @ rest) = Inr (Some s, rest)"
  by (simp add: dec_string_def dec_bind_def string_bytes_def dec_varint_bytes_32 unat_of_nat
      dec_fixed_append)

section \<open>How much a decoder consumes\<close>

text \<open>A number decoded from \<open>k\<close> bytes has no bits beyond the first \<open>7 * k\<close>.\<close>

lemma varint_dec_consumes:
  assumes "varint_dec V s xs = Inr (Some v, rest)" and "\<And>i. s \<le> i \<Longrightarrow> \<not> bit V i"
  shows "length rest < length xs \<and> (\<forall>i \<ge> s + 7 * (length xs - length rest). \<not> bit v i)"
  using assms
proof (induction V s xs rule: varint_dec.induct)
  case (2 V s c cs)
  let ?V = "V OR push_bit s (ucast (c AND 0x7f))"
  have clear: "\<not> bit ?V i" if "s + 7 \<le> i" for i
    using that 2(3) [of i] unfolding mask_7 by (auto simp: bit_simps)
  show ?case
  proof (cases "c AND 0x80 = 0")
    case True
    then show ?thesis using 2(2) clear by (auto simp: Let_def split: if_splits)
  next
    case False
    then have step: "\<not> LENGTH('a) \<le> s" "varint_dec ?V (s + 7) cs = Inr (Some v, rest)"
      using 2(2) by (auto simp: Let_def split: if_splits)
    have IH: "length rest < length cs \<and> (\<forall>i \<ge> s + 7 + 7 * (length cs - length rest). \<not> bit v i)"
      by (rule 2(1) [OF step(1) refl False step(2) clear])
    then have "s + 7 * (length (c # cs) - length rest) = s + 7 + 7 * (length cs - length rest)"
      by (simp add: Suc_diff_le)
    with IH show ?thesis by simp
  qed
qed simp

lemma dec_varint_consumes:
  assumes "dec_varint xs = Inr (Some (v :: u32), rest)"
  shows "length rest < length xs \<and> unat v < 128 ^ (length xs - length rest)"
proof -
  obtain u where u: "varint_dec (0 :: u64) 0 xs = Inr (Some u, rest)" "v = ucast u"
    using assms by (auto simp: dec_varint_def dec_map_def and_then_Inr_iff split: prod.splits)
  define m where "m = 7 * (length xs - length rest)"
  have b: "length rest < length xs" "\<And>i. m \<le> i \<Longrightarrow> \<not> bit u i"
    using varint_dec_consumes [OF u(1)] by (auto simp: m_def)
  have "i < m" if "bit u i" for i using b(2) that not_le_imp_less by blast
  then have "take_bit m v = v"
    by (intro bit_word_eqI) (auto simp: u(2) bit_simps)
  then have "unat v = take_bit m (unat v)" by (metis unsigned_take_bit_eq)
  then have "unat v < 2 ^ m" by (metis take_bit_nat_less_exp)
  then show ?thesis using b(1) by (simp add: m_def power_mult)
qed

lemma dec_string_consumes:
  assumes "dec_string xs = Inr (Some s, rest)"
  shows "length s + 1 + length rest \<le> length xs"
    and "16384 \<le> length s \<Longrightarrow> length s + 3 + length rest \<le> length xs"
proof -
  obtain n r where n: "dec_varint xs = Inr (Some (n :: u32), r)" "dec_fixed (unat n) (\<lambda>bs. bs) r = Inr (Some s, rest)"
    using assms by (auto simp: dec_string_def dec_bind_def and_then_Inr_iff split: prod.splits option.splits)
  from n(2) have s: "length s = unat n" "length r = unat n + length rest"
    by (auto simp: dec_fixed_def split: if_splits)
  note c = dec_varint_consumes [OF n(1)]
  show "length s + 1 + length rest \<le> length xs" using c s by linarith
  assume big: "16384 \<le> length s"
  have "\<not> length xs - length r \<le> 2"
  proof
    assume "length xs - length r \<le> 2"
    then have "(128::nat) ^ (length xs - length r) \<le> 128 ^ 2" by (intro power_increasing) simp_all
    with c s big show False by simp
  qed
  then show "length s + 3 + length rest \<le> length xs" using s by linarith
qed

lemma dec_fixed_no_fault: "dec_fixed n f xs \<noteq> Inl e"
  by (simp add: dec_fixed_def)

lemma dec_faults:
  "varint_dec V s xs = Inl e \<Longrightarrow> e = ShiftTooFar"
  "dec_varint xs = Inl e \<Longrightarrow> e = ShiftTooFar"
  by (auto simp: dec_varint_def dec_map_def and_then_Inl_iff varint_dec_fault split: prod.splits)

lemma dec_string_fault: "dec_string xs = Inl e \<Longrightarrow> e = ShiftTooFar"
  by (auto simp: dec_string_def dec_bind_def and_then_Inl_iff dec_fixed_no_fault dec_faults
      split: prod.splits option.splits)

section \<open>Packed positions\<close>

lemma mask_26: "(0x03ffffff :: 'a::len word) = mask 26" and mask_12: "(0xfff :: 'a word) = mask 12"
  by (simp_all add: mask_eq_decr_exp)

lemma scast_masked: "n < 32 \<Longrightarrow> scast (X AND mask n :: u32) = (ucast (X AND mask n) :: u64)"
  by (intro bit_word_eqI) (auto simp: bit_simps min_def)

lemma position_parts:
  "ucast (signed_drop_bit 38 (position_value X Y Z) AND 0x03ffffff) = X AND mask 26"
  "ucast (signed_drop_bit 26 (position_value X Y Z) AND 0x0fff) = Y AND mask 12"
  "ucast (position_value X Y Z AND 0x03ffffff) = Z AND mask 26"
  unfolding position_value_def mask_26 mask_12
  by (simp_all only: scast_masked numeral_less_iff semiring_norm)
   (intro bit_word_eqI; auto simp: bit_simps bit_signed_drop_bit_iff)+

lemma coord_bits:
  fixes x :: int
  assumes "- (2 ^ n) \<le> x" and "x < 2 ^ n" and "n < 31"
  shows "(word_of_int x AND mask (Suc n) :: u32) AND 2 ^ n = 0 \<longleftrightarrow> 0 \<le> x"
    and "(word_of_int x AND mask (Suc n) :: u32) = word_of_int (if 0 \<le> x then x else x + 2 ^ Suc n)"
proof -
  have d: "x div 2 ^ n = (if 0 \<le> x then 0 else - 1)"
  proof (cases "0 \<le> x")
    case False
    have "(x + 2 ^ n) div 2 ^ n = x div 2 ^ n + 1" by (rule div_add_self2) simp
    moreover have "(x + 2 ^ n) div 2 ^ n = 0" using False assms by (intro div_pos_pos_trivial) auto
    ultimately show ?thesis using False by simp
  qed (use assms in simp)
  have "bit x n \<longleftrightarrow> \<not> 0 \<le> x" by (simp add: bit_iff_odd d)
  then show "(word_of_int x AND mask (Suc n) :: u32) AND 2 ^ n = 0 \<longleftrightarrow> 0 \<le> x"
    using assms(3) unfolding and_exp_eq_0_iff_not_bit by (simp add: bit_simps)
  have "take_bit (Suc n) x = (if 0 \<le> x then x else x + 2 ^ Suc n)"
  proof (cases "0 \<le> x")
    case True
    then show ?thesis using assms by (simp add: take_bit_int_eq_self)
  next
    case False
    have "take_bit (Suc n) x = take_bit (Suc n) (x + 2 ^ Suc n)" by (simp add: take_bit_eq_mod)
    then show ?thesis using False assms by (simp add: take_bit_int_eq_self)
  qed
  moreover have "(word_of_int x AND mask (Suc n) :: u32) = word_of_int (take_bit (Suc n) x)"
    using assms(3) by (intro bit_word_eqI) (auto simp: bit_simps)
  ultimately show "(word_of_int x AND mask (Suc n) :: u32) = word_of_int (if 0 \<le> x then x else x + 2 ^ Suc n)"
    by simp
qed

lemma position_roundtrip:
  assumes "- (2 ^ 25) \<le> x" "x < 2 ^ 25" "- (2 ^ 11) \<le> y" "y < 2 ^ 11" "- (2 ^ 25) \<le> z" "z < 2 ^ 25"
  shows "position_of (position_value (word_of_int x) (word_of_int y) (word_of_int z)) =
    (word_of_int x, word_of_int (if 0 \<le> y then y else y + 2048), word_of_int z)"
proof -
  have p: "(0x02000000 :: u32) = 2 ^ 25" "(0x0800 :: u32) = 2 ^ 11" "(26::nat) = Suc 25" "(12::nat) = Suc 11" by simp_all
  note X = coord_bits [OF assms(1,2)] and Y = coord_bits [OF assms(3,4)] and Z = coord_bits [OF assms(5,6)]
  show ?thesis
    unfolding position_of_def Let_def position_parts unfolding p using X Y Z by simp
qed

lemma WritePosition64_writes:
  "writes_all (\<lambda>b. WritePosition64 b x y z) (be_store 8 (position_value x y z))"
  unfolding WritePosition64_def by (rule write_be)

section \<open>Packets of typed fields\<close>

text \<open>
  A packet is a sequence of typed fields; the reader knows the types. Writing a field and reading
  one are the calls the protocol code makes for that type.
\<close>

datatype field = FUInt8 u8 | FUInt16 u16 | FUInt32 u32 | FUInt64 u64 | FBool bool | FLEInt u32
  | FVarInt32 u32 | FVarInt64 u64 | FString AString

datatype field_type = TUInt8 | TUInt16 | TUInt32 | TUInt64 | TBool | TLEInt | TVarInt32 | TVarInt64
  | TString

fun type_of :: "field \<Rightarrow> field_type" where
  "type_of (FUInt8 _) = TUInt8"
| "type_of (FUInt16 _) = TUInt16"
| "type_of (FUInt32 _) = TUInt32"
| "type_of (FUInt64 _) = TUInt64"
| "type_of (FBool _) = TBool"
| "type_of (FLEInt _) = TLEInt"
| "type_of (FVarInt32 _) = TVarInt32"
| "type_of (FVarInt64 _) = TVarInt64"
| "type_of (FString _) = TString"

fun write_field :: "field \<Rightarrow> cByteBuffer \<Rightarrow> bool \<times> cByteBuffer" where
  "write_field (FUInt8 v) = (\<lambda>b. WriteBEUInt8 b v)"
| "write_field (FUInt16 v) = (\<lambda>b. WriteBEUInt16 b v)"
| "write_field (FUInt32 v) = (\<lambda>b. WriteBEUInt32 b v)"
| "write_field (FUInt64 v) = (\<lambda>b. WriteBEUInt64 b v)"
| "write_field (FBool v) = (\<lambda>b. WriteBool b v)"
| "write_field (FLEInt v) = (\<lambda>b. WriteLEInt32 b v)"
| "write_field (FVarInt32 v) = (\<lambda>b. WriteVarInt32 b v)"
| "write_field (FVarInt64 v) = (\<lambda>b. WriteVarInt64 b v)"
| "write_field (FString v) = (\<lambda>b. WriteVarUTF8String b v)"

definition read_as :: "('a \<Rightarrow> field) \<Rightarrow> 'a rd \<Rightarrow> field rd" where
  "read_as c f = (\<lambda>b. and_then (f b) (\<lambda>(v, b'). Inr (map_option c v, b')))"

fun read_field :: "field_type \<Rightarrow> field rd" where
  "read_field TUInt8 = read_as FUInt8 ReadBEUInt8"
| "read_field TUInt16 = read_as FUInt16 ReadBEUInt16"
| "read_field TUInt32 = read_as FUInt32 ReadBEUInt32"
| "read_field TUInt64 = read_as FUInt64 ReadBEUInt64"
| "read_field TBool = read_as FBool ReadBool"
| "read_field TLEInt = read_as FLEInt ReadLEInt"
| "read_field TVarInt32 = read_as FVarInt32 ReadVarInt"
| "read_field TVarInt64 = read_as FVarInt64 ReadVarInt64"
| "read_field TString = read_as FString ReadVarUTF8String"

fun write_fields :: "field list \<Rightarrow> cByteBuffer \<Rightarrow> bool \<times> cByteBuffer" where
  "write_fields [] b = (True, b)"
| "write_fields (f # fs) b =
     (case write_field f b of (False, b') \<Rightarrow> (False, b') | (True, b') \<Rightarrow> write_fields fs b')"

fun read_fields :: "field_type list \<Rightarrow> (field list) rd" where
  "read_fields [] b = Inr (Some [], b)"
| "read_fields (t # ts) b =
     and_then (read_field t b) (\<lambda>(v, b').
       case v of
         None \<Rightarrow> Inr (None, b')
       | Some f \<Rightarrow> and_then (read_fields ts b') (\<lambda>(vs, b''). Inr (map_option ((#) f) vs, b'')))"

fun field_bytes :: "field \<Rightarrow> u8 list" where
  "field_bytes (FUInt8 v) = be_store 1 v"
| "field_bytes (FUInt16 v) = be_store 2 v"
| "field_bytes (FUInt32 v) = be_store 4 v"
| "field_bytes (FUInt64 v) = be_store 8 v"
| "field_bytes (FBool v) = [if v then 1 else 0]"
| "field_bytes (FLEInt v) = le_store 4 v"
| "field_bytes (FVarInt32 v) = varint_bytes v"
| "field_bytes (FVarInt64 v) = varint_bytes v"
| "field_bytes (FString v) = string_bytes v"

fun field_ok :: "field \<Rightarrow> bool" where
  "field_ok (FString s) \<longleftrightarrow> length s < 2 ^ 32"
| "field_ok _ \<longleftrightarrow> True"

fun dec_field :: "field_type \<Rightarrow> field dec" where
  "dec_field TUInt8 = dec_map FUInt8 (dec_fixed 1 be_load)"
| "dec_field TUInt16 = dec_map FUInt16 (dec_fixed 2 be_load)"
| "dec_field TUInt32 = dec_map FUInt32 (dec_fixed 4 be_load)"
| "dec_field TUInt64 = dec_map FUInt64 (dec_fixed 8 be_load)"
| "dec_field TBool = dec_map FBool (dec_fixed 1 (\<lambda>bs. le_load bs \<noteq> (0 :: u8)))"
| "dec_field TLEInt = dec_map FLEInt (dec_fixed 4 le_load)"
| "dec_field TVarInt32 = dec_map FVarInt32 dec_varint"
| "dec_field TVarInt64 = dec_map FVarInt64 (varint_dec 0 0)"
| "dec_field TString = dec_map FString dec_string"

lemma write_field_writes: "writes_as (write_field f) (field_bytes f)"
  by (cases f)
    (simp_all only: write_field.simps field_bytes.simps writes_all_as write_be write_varint
      WriteBool_writes WriteLEInt32_writes WriteVarUTF8String_writes)

lemma read_as_reads: "reads_as f p \<Longrightarrow> reads_as (read_as c f) (dec_map c p)"
  unfolding read_as_def by (rule reads_as_map)

lemma read_field_reads: "reads_as (read_field t) (dec_field t)"
  by (cases t)
    (simp_all only: read_field.simps dec_field.simps read_as_reads read_be read_varint ReadBool_reads_as
      ReadLEInt_reads_as ReadVarInt_reads_as ReadVarUTF8String_reads_as)

lemma dec_field_bytes: "field_ok f \<Longrightarrow> dec_field (type_of f) (field_bytes f @ rest) = Inr (Some f, rest)"
proof (cases f)
  case (FVarInt64 v)
  then show ?thesis
    using varint_dec_bytes [of 0 v 0 rest] unsigned_less [of v, where 'a = nat]
    by (simp add: dec_map_def)
next
  case (FBool v)
  then show ?thesis by (simp add: dec_map_def dec_fixed_def)
qed (simp_all add: dec_map_def dec_fixed_append dec_varint_bytes_32 dec_string_bytes del: One_nat_def)

lemma write_fields_writes: "writes_as (write_fields fs) (concat (map field_bytes fs))"
proof (induction fs)
  case Nil
  then show ?case by (simp add: writes_as_def)
next
  case (Cons f fs)
  show ?case
    unfolding writes_as_def
  proof (intro allI impI)
    fix b
    assume b: "buffer_ok b"
      and fits: "length (contents b) + length (concat (map field_bytes (f # fs))) \<le> capacity b"
    obtain b1 where b1: "write_field f b = (True, b1)" "buffer_ok b1" "consumed b1 = consumed b"
        "unread b1 = unread b @ field_bytes f" "capacity b1 = capacity b"
        "contents b1 = contents b @ field_bytes f"
      by (rule writes_asE [OF write_field_writes b, of f]) (use fits in auto)
    have "length (contents b1) + length (concat (map field_bytes fs)) \<le> capacity b1"
      using fits b1(5,6) by (simp del: length_contents)
    from writes_asE [OF Cons.IH b1(2) this] obtain b2 where "write_fields fs b1 = (True, b2)"
        "buffer_ok b2" "consumed b2 = consumed b1" "capacity b2 = capacity b1"
        "unread b2 = unread b1 @ concat (map field_bytes fs)" by metis
    then show "\<exists>b'. write_fields (f # fs) b = (True, b') \<and> buffer_ok b' \<and> consumed b' = consumed b \<and>
        unread b' = unread b @ concat (map field_bytes (f # fs)) \<and> capacity b' = capacity b"
      using b1 by simp
  qed
qed

lemma read_fields_back:
  assumes "\<forall>f \<in> set fs. field_ok f" and "buffer_ok b"
    and "unread b = concat (map field_bytes fs) @ rest"
  obtains b' where "read_fields (map type_of fs) b = Inr (Some fs, b')" and "buffer_ok b'"
    and "unread b' = rest" and "contents b' = contents b" and "capacity b' = capacity b"
  using assms
proof (induction fs arbitrary: b thesis)
  case Nil
  then show ?case by simp
next
  case (Cons f fs)
  have "dec_field (type_of f) (unread b) = Inr (Some f, concat (map field_bytes fs) @ rest)"
    using Cons.prems dec_field_bytes [of f] by simp
  then obtain b1 where b1: "read_field (type_of f) b = Inr (Some f, b1)" "buffer_ok b1"
      "unread b1 = concat (map field_bytes fs) @ rest" "contents b1 = contents b" "capacity b1 = capacity b"
    by (rule reads_as_Inr [OF read_field_reads Cons.prems(3)])
  from Cons.IH [OF _ _ b1(2,3)] Cons.prems(2) obtain b2 where
    "read_fields (map type_of fs) b1 = Inr (Some fs, b2)" "buffer_ok b2" "unread b2 = rest"
    "contents b2 = contents b1" "capacity b2 = capacity b1" by auto
  then show ?case using b1 by (intro Cons.prems(1) [of b2]) simp_all
qed

section \<open>Properties\<close>

text \<open>
  \<^bold>\<open>C36.\<close> Packets round-trip through the ring buffer: writing any sequence of typed fields to a
  buffer with room for it succeeds, and reading the same types back from the data written gives
  exactly the fields written, leaves nothing unread and faults nowhere.
\<close>

theorem fields_roundtrip:
  assumes "buffer_ok b" and "unread b = []" and "\<forall>f \<in> set fs. field_ok f"
    and "length (consumed b) + length (concat (map field_bytes fs)) \<le> capacity b"
  shows "\<exists>b1 b2. write_fields fs b = (True, b1) \<and> read_fields (map type_of fs) b1 = Inr (Some fs, b2) \<and>
    buffer_ok b2 \<and> unread b2 = [] \<and> consumed b2 = consumed b @ concat (map field_bytes fs)"
proof -
  have c: "contents b = consumed b" using assms(2) consumed_unread [of b] by simp
  obtain b1 where b1: "write_fields fs b = (True, b1)" "buffer_ok b1"
      "unread b1 = unread b @ concat (map field_bytes fs)" "contents b1 = contents b @ concat (map field_bytes fs)"
    by (rule writes_asE [OF write_fields_writes assms(1), of fs]) (use assms(4) c in auto)
  then have "unread b1 = concat (map field_bytes fs) @ []" using assms(2) by simp
  from read_fields_back [OF assms(3) b1(2) this] obtain b2 where
    "read_fields (map type_of fs) b1 = Inr (Some fs, b2)" "buffer_ok b2" "unread b2 = []"
    "contents b2 = contents b1" by blast
  moreover then have "consumed b2 = contents b1" using consumed_unread [of b2] by simp
  ultimately show ?thesis using b1 c by auto
qed

theorem fields_roundtrip_witness:
  "\<exists>b1 b2. write_fields [FVarInt32 1, FBool True, FUInt16 8080, FString (ascii ''hi'')]
       (new_cByteBuffer (\<lambda>_. 0) 16) = (True, b1) \<and>
     read_fields [TVarInt32, TBool, TUInt16, TString] b1 =
       Inr (Some [FVarInt32 1, FBool True, FUInt16 8080, FString (ascii ''hi'')], b2)"
  using fields_roundtrip [of "new_cByteBuffer (\<lambda>_. 0) 16"
      "[FVarInt32 1, FBool True, FUInt16 8080, FString (ascii ''hi'')]"]
  by (auto simp: new_cByteBuffer_ok ascii_def string_bytes_def varint_bytes.simps [of 1]
      varint_bytes.simps [of 2])

text \<open>
  Reading a variable-length integer is undefined behaviour (a shift by the width of the
  operand or more) exactly when the first ten unread bytes all have their continuation bit set and
  an eleventh follows; every other input is decoded or refused. Nothing in the loop bounds the shift.
\<close>

theorem ReadVarInt_fault:
  assumes "buffer_ok b"
  shows "(ReadVarInt :: 't::len word rd) b = Inl e \<longleftrightarrow>
    e = ShiftTooFar \<and> 10 < length (unread b) \<and> (\<forall>i < 10. bit (unread b ! i) 7)"
proof -
  have "(ReadVarInt :: 't word rd) b = Inl e \<longleftrightarrow> (dec_varint (unread b) :: _ + 't word option \<times> _) = Inl e"
  proof (cases "dec_varint (unread b) :: _ + 't word option \<times> _")
    case (Inl f)
    then show ?thesis using reads_as_Inl [OF ReadVarInt_reads_as assms Inl] by simp
  next
    case (Inr r)
    then show ?thesis using reads_as_Inr [OF ReadVarInt_reads_as assms, of "fst r" "snd r"] by fastforce
  qed
  also have "\<dots> \<longleftrightarrow> varint_dec (0 :: u64) 0 (unread b) = Inl e"
    by (auto simp: dec_varint_def dec_map_def and_then_Inl_iff split: prod.splits)
  also have "\<dots> \<longleftrightarrow> e = ShiftTooFar \<and> 10 < length (unread b) \<and> (\<forall>i < 10. bit (unread b ! i) 7)"
    by (simp only: varint_dec_fault) simp
  finally show ?thesis .
qed

theorem ReadVarInt_fault_witness:
  "(ReadVarInt :: u32 rd) (snd (WriteBuf (new_cByteBuffer (\<lambda>_. 0) 16) (replicate 11 0x80))) = Inl ShiftTooFar"
proof -
  let ?b = "snd (WriteBuf (new_cByteBuffer (\<lambda>_. 0) 16) (replicate 11 0x80))"
  have "buffer_ok ?b" "unread ?b = replicate 11 0x80"
    using WriteBuf_snd [of "new_cByteBuffer (\<lambda>_. 0) 16" "replicate 11 0x80"]
    by (simp_all add: new_cByteBuffer_ok)
  then show ?thesis
    using ReadVarInt_fault [of ?b ShiftTooFar, where 't = 32] by (simp add: bit_0x80)
qed

text \<open>
  The local arrays of \<open>WriteVarInt32\<close> and \<open>WriteVarInt64\<close> are never overrun: at most five
  bytes encode a 32-bit integer and at most ten a 64-bit one, as their comments say.
\<close>

theorem varint_fits_array:
  "length (varint_bytes (v :: u32)) \<le> 5 \<and> length (varint_bytes (w :: u64)) \<le> 10"
proof
  have "unat v < 2 ^ 32" using unsigned_less [of v, where 'a = nat] by simp
  then have "unat v < 128 ^ Suc 4" by simp
  from varint_bytes_length [OF _ this] show "length (varint_bytes v) \<le> 5" by simp
  have "unat w < 2 ^ 64" using unsigned_less [of w, where 'a = nat] by simp
  then have "unat w < 128 ^ Suc 9" by simp
  from varint_bytes_length [OF _ this] show "length (varint_bytes w) \<le> 10" by simp
qed

text \<open>
  A position written by \<open>WritePosition64\<close> is read back by \<open>ReadPosition64\<close> with its X and Z
  coordinates, and with its Y coordinate when that is not negative; a negative Y comes back 2048 too
  large, since the reader subtracts \<open>0x0800\<close> where the 12-bit field needs \<open>0x1000\<close>.
\<close>

theorem position_written_read:
  assumes "buffer_ok b" and "unread b = []" and "length (consumed b) + 8 \<le> capacity b"
    and "- (2 ^ 25) \<le> x" "x < 2 ^ 25" "- (2 ^ 11) \<le> y" "y < 2 ^ 11" "- (2 ^ 25) \<le> z" "z < 2 ^ 25"
  shows "\<exists>b1 b2. WritePosition64 b (word_of_int x) (word_of_int y) (word_of_int z) = (True, b1) \<and>
    ReadPosition64 b1 =
      Inr (Some (word_of_int x, word_of_int (if 0 \<le> y then y else y + 2048), word_of_int z), b2)"
proof -
  have c: "contents b = consumed b" using assms(2) consumed_unread [of b] by simp
  let ?v = "position_value (word_of_int x) (word_of_int y) (word_of_int z)"
  obtain b1 where b1: "WritePosition64 b (word_of_int x) (word_of_int y) (word_of_int z) = (True, b1)"
      "buffer_ok b1" "unread b1 = unread b @ be_store 8 ?v"
    by (rule writes_asE [OF writes_all_as [OF WritePosition64_writes] assms(1),
          of "word_of_int x" "word_of_int y" "word_of_int z"])
      (use assms(3) c in \<open>auto simp del: length_contents\<close>)
  have "dec_fixed 8 (\<lambda>bs. position_of (be_load bs)) (unread b1) = Inr (Some (position_of ?v), [])"
    using b1(3) assms(2) by (simp add: dec_fixed_def)
  from reads_as_Inr [OF ReadPosition64_reads_as b1(2) this] obtain b2 where
    "ReadPosition64 b1 = Inr (Some (position_of ?v), b2)" by blast
  then show ?thesis using b1(1) position_roundtrip [OF assms(4-9)] by auto
qed

theorem position_written_read_witness:
  "\<exists>b1 b2. WritePosition64 (new_cByteBuffer (\<lambda>_. 0) 8) (- 5) (- 1) 7 = (True, b1) \<and>
     ReadPosition64 b1 = Inr (Some (- 5, 2047, 7), b2)"
  using position_written_read [of "new_cByteBuffer (\<lambda>_. 0) 8" "- 5" "- 1" 7]
  by (simp add: new_cByteBuffer_ok)

end
