(* ===== verification/StringUtils.thy ===== *)
theory StringUtils
  imports Prelude
begin

text \<open>
  The string helpers of \<open>Src/Common/StringUtils.cpp\<close> and the number parser of
  \<open>Include/StringUtils.h\<close>. Loops over positions of a \<open>std::string\<close> are recursive functions over the
  same positions; each is then related to the list function that says what it computes. Characters
  are the signed \<open>char\<close> of the builds: \<open>sint c\<close> is what a comparison of the source sees.
\<close>

unbundle bit_operations_syntax

section \<open>The members of \<open>std::string\<close> the code calls\<close>

definition find_first_of :: "AString \<Rightarrow> AString \<Rightarrow> nat \<Rightarrow> nat option" where
  "find_first_of s chars pos =
     (let n = length (takeWhile (\<lambda>c. c \<notin> set chars) (drop pos s))
      in if pos + n < length s then Some (pos + n) else None)"

definition is_prefix :: "'a list \<Rightarrow> 'a list \<Rightarrow> bool" where
  "is_prefix p s \<longleftrightarrow> take (length p) s = p"

definition find_string :: "AString \<Rightarrow> AString \<Rightarrow> nat \<Rightarrow> nat option" where
  "find_string s needle pos = List.find (\<lambda>i. is_prefix needle (drop i s)) [pos..<Suc (length s)]"

definition substr :: "AString \<Rightarrow> nat \<Rightarrow> nat \<Rightarrow> AString" where
  "substr s pos n = take n (drop pos s)"

text \<open>\<open>std::string::find_last_of\<close> of one character.\<close>

definition find_last :: "AString \<Rightarrow> u8 \<Rightarrow> nat option" where
  "find_last s c =
     (if c \<in> set s then Some (length s - 1 - length (takeWhile (\<lambda>x. x \<noteq> c) (rev s))) else None)"

text \<open>\<open>s[i]\<close>: the terminating zero at the length of the string is readable, nothing after it is.\<close>

definition char_at :: "AString \<Rightarrow> nat \<Rightarrow> u8" where
  "char_at s i = (if i < length s then s ! i else 0)"

definition string_replace :: "AString \<Rightarrow> nat \<Rightarrow> nat \<Rightarrow> AString \<Rightarrow> AString" where
  "string_replace s pos n new = take pos s @ new @ drop (pos + n) s"

lemma find_first_of_bound: "find_first_of s d pos = Some k \<Longrightarrow> pos \<le> k \<and> k < length s"
  by (auto simp: find_first_of_def Let_def split: if_splits)

section \<open>Splitting and trimming\<close>

function StringSplit_loop :: "AString \<Rightarrow> AString \<Rightarrow> nat \<Rightarrow> AString list" where
  "StringSplit_loop str delim Prev =
     (case find_first_of str delim Prev of
        Some cutAt \<Rightarrow> substr str Prev (cutAt - Prev) # StringSplit_loop str delim (cutAt + 1)
      | None \<Rightarrow> (if Prev < length str then [drop Prev str] else []))"
  by pat_completeness auto
termination
  by (relation "measure (\<lambda>(s, d, p). length s - p)") (auto dest: find_first_of_bound)

declare StringSplit_loop.simps [simp del]

definition StringSplit :: "AString \<Rightarrow> AString \<Rightarrow> AString list" where
  "StringSplit str delim = StringSplit_loop str delim 0"

function StringSplitWithQuotes_loop :: "AString \<Rightarrow> AString \<Rightarrow> nat \<Rightarrow> AString list" where
  "StringSplitWithQuotes_loop str delim Prev =
     (case find_first_of str delim Prev of
        Some cutAt \<Rightarrow>
          if cutAt = Prev then StringSplitWithQuotes_loop str delim (Prev + 1)
          else
            let current = substr str Prev (cutAt - Prev)
            in if hd current = 0x22 \<or> hd current = 0x27 then
                 (case find_first_of str [hd current] (Prev + 1) of
                    Some cutAtQuote \<Rightarrow>
                      substr str (Prev + 1) (cutAtQuote - (Prev + 1)) #
                        StringSplitWithQuotes_loop str delim (cutAtQuote + 1 + 1)
                  | None \<Rightarrow> current # StringSplitWithQuotes_loop str delim (cutAt + 1))
               else current # StringSplitWithQuotes_loop str delim (cutAt + 1)
      | None \<Rightarrow>
          if Prev < length str then
            let current = drop Prev str
            in [if length current \<ge> 2 \<and> (hd current = 0x22 \<or> hd current = 0x27) \<and> hd current = last current
                then substr current 1 (length current - 2) else current]
          else [])"
  by pat_completeness auto
termination
  by (relation "measure (\<lambda>(s, d, p). length s - p)")
    (auto dest!: find_first_of_bound)

declare StringSplitWithQuotes_loop.simps [simp del]

definition StringSplitWithQuotes :: "AString \<Rightarrow> AString \<Rightarrow> AString list" where
  "StringSplitWithQuotes str delim = StringSplitWithQuotes_loop str delim 0"

text \<open>
  \<open>TrimString\<close>: the first loop finds the first character above 32, the second walks down from the
  length of the string, whose terminating zero it reads first. The second loop stops at the latest
  at \<open>start\<close>.
\<close>

function TrimString_start :: "AString \<Rightarrow> nat \<Rightarrow> nat" where
  "TrimString_start str start =
     (if start < length str then
        if sint (str ! start) > 32 then start else TrimString_start str (start + 1)
      else start)"
  by pat_completeness auto
termination
  by (relation "measure (\<lambda>(s, p). length s - p)") auto

declare TrimString_start.simps [simp del]

fun TrimString_end :: "AString \<Rightarrow> nat \<Rightarrow> nat \<Rightarrow> nat" where
  "TrimString_end str start 0 = 0"
| "TrimString_end str start (Suc e) =
     (if Suc e \<ge> start then
        if sint (char_at str (Suc e)) > 32 then Suc e else TrimString_end str start e
      else Suc e)"

definition TrimString :: "AString \<Rightarrow> AString" where
  "TrimString str =
     (let start = TrimString_start str 0
      in if start = length str then []
         else let e = TrimString_end str start (length str)
              in substr str start (e - start + 1))"

function StringSplitAndTrim_loop :: "AString \<Rightarrow> AString \<Rightarrow> nat \<Rightarrow> AString list" where
  "StringSplitAndTrim_loop str delim Prev =
     (case find_first_of str delim Prev of
        Some cutAt \<Rightarrow>
          TrimString (substr str Prev (cutAt - Prev)) # StringSplitAndTrim_loop str delim (cutAt + 1)
      | None \<Rightarrow> (if Prev < length str then [TrimString (drop Prev str)] else []))"
  by pat_completeness auto
termination
  by (relation "measure (\<lambda>(s, d, p). length s - p)") (auto dest: find_first_of_bound)

declare StringSplitAndTrim_loop.simps [simp del]

definition StringSplitAndTrim :: "AString \<Rightarrow> AString \<Rightarrow> AString list" where
  "StringSplitAndTrim str delim = StringSplitAndTrim_loop str delim 0"

function SplitOneOf_loop :: "AString \<Rightarrow> AString \<Rightarrow> nat \<Rightarrow> nat \<Rightarrow> AString list" where
  "SplitOneOf_loop remaining delims maxSplits splits =
     (case (if maxSplits = 0 \<or> splits < maxSplits then find_first_of remaining delims 0 else None) of
        Some pos \<Rightarrow>
          substr remaining 0 pos # SplitOneOf_loop (drop (pos + 1) remaining) delims maxSplits (splits + 1)
      | None \<Rightarrow> (if length remaining > 0 then [remaining] else []))"
  by pat_completeness auto
termination
  by (relation "measure (\<lambda>(s, d, m, k). length s)")
    (auto dest!: find_first_of_bound split: if_splits)

declare SplitOneOf_loop.simps [simp del]

definition SplitOneOf :: "AString \<Rightarrow> AString \<Rightarrow> nat \<Rightarrow> AString list" where
  "SplitOneOf str delims maxSplits = SplitOneOf_loop str delims maxSplits 0"

section \<open>Case\<close>

definition c_tolower :: "u8 \<Rightarrow> u8" where
  "c_tolower c = (if 0x41 \<le> c \<and> c \<le> 0x5a then c + 0x20 else c)"

definition c_toupper :: "u8 \<Rightarrow> u8" where
  "c_toupper c = (if 0x61 \<le> c \<and> c \<le> 0x7a then c - 0x20 else c)"

definition InPlaceLowercase :: "AString \<Rightarrow> AString" where
  "InPlaceLowercase s = map c_tolower s"

definition InPlaceUppercase :: "AString \<Rightarrow> AString" where
  "InPlaceUppercase s = map c_toupper s"

definition StrToLower :: "AString \<Rightarrow> AString" where
  "StrToLower s = map c_tolower s"

definition StrToUpper :: "AString \<Rightarrow> AString" where
  "StrToUpper s = map c_toupper s"

text \<open>The sign of \<open>std::string::compare\<close>, which compares bytes unsigned.\<close>

fun string_compare :: "AString \<Rightarrow> AString \<Rightarrow> int" where
  "string_compare [] [] = 0"
| "string_compare [] (_ # _) = -1"
| "string_compare (_ # _) [] = 1"
| "string_compare (a # s) (b # t) = (if a < b then -1 else if b < a then 1 else string_compare s t)"

definition NoCaseCompare :: "AString \<Rightarrow> AString \<Rightarrow> int" where
  "NoCaseCompare s1 s2 = string_compare (StrToLower s1) (StrToLower s2)"

fun RateCompareString_loop :: "AString \<Rightarrow> AString \<Rightarrow> nat \<Rightarrow> nat" where
  "RateCompareString_loop (c1 # s1) (c2 # s2) MatchedLetters =
     (if c_toupper c1 = c_toupper c2 then RateCompareString_loop s1 s2 (MatchedLetters + 1)
      else MatchedLetters)"
| "RateCompareString_loop _ _ MatchedLetters = MatchedLetters"

definition RateCompareString :: "AString \<Rightarrow> AString \<Rightarrow> nat" where
  "RateCompareString s1 s2 = (if length s1 > length s2 then 0 else RateCompareString_loop s1 s2 0)"

section \<open>Replacing\<close>

text \<open>
  After a replacement the search goes on at the position of the replacement, so it sees the text
  just inserted; the loop may not end, in which case the result is \<open>None\<close>.
\<close>

partial_function (option) ReplaceString_loop ::
    "AString \<Rightarrow> AString \<Rightarrow> AString \<Rightarrow> nat option \<Rightarrow> AString option" where
  "ReplaceString_loop iHayStack iNeedle iReplaceWith pos1 =
     (if pos1 = None then Some iHayStack
      else
        ReplaceString_loop (string_replace iHayStack (the pos1) (length iNeedle) iReplaceWith) iNeedle
          iReplaceWith
          (find_string (string_replace iHayStack (the pos1) (length iNeedle) iReplaceWith) iNeedle (the pos1)))"

definition ReplaceString :: "AString \<Rightarrow> AString \<Rightarrow> AString \<Rightarrow> AString option" where
  "ReplaceString iHayStack iNeedle iReplaceWith =
     ReplaceString_loop iHayStack iNeedle iReplaceWith (find_string iHayStack iNeedle 0)"

definition ReplaceAllCharOccurrences :: "AString \<Rightarrow> u8 \<Rightarrow> u8 \<Rightarrow> AString" where
  "ReplaceAllCharOccurrences a_String a_From a_To = map (\<lambda>c. if c = a_From then a_To else c) a_String"

section \<open>Escaping and decoding\<close>

function EscapeString_loop :: "AString \<Rightarrow> nat \<Rightarrow> nat \<Rightarrow> AString \<Rightarrow> AString" where
  "EscapeString_loop a_Message i last_end EscapedMsg =
     (if i < length a_Message then
        let ch = a_Message ! i
        in if ch = 0x27 \<or> ch = 0x22 \<or> ch = 0x5c then
             EscapeString_loop a_Message (i + 1) (i + 1)
               ((if i > last_end then EscapedMsg @ substr a_Message last_end (i - last_end) else EscapedMsg) @ [0x5c, ch])
           else EscapeString_loop a_Message (i + 1) last_end EscapedMsg
      else if length a_Message > last_end then EscapedMsg @ substr a_Message last_end (length a_Message - last_end)
      else EscapedMsg)"
  by pat_completeness auto
termination
  by (relation "measure (\<lambda>(s, i, l, e). length s - i)") auto

declare EscapeString_loop.simps [simp del]

definition EscapeString :: "AString \<Rightarrow> AString" where
  "EscapeString a_Message = EscapeString_loop a_Message 0 0 []"

lemma find_string_bound:
  "find_string s n pos = Some k \<Longrightarrow> pos \<le> k \<and> k \<le> length s \<and> is_prefix n (drop k s)"
  by (auto simp: find_string_def find_Some_iff simp del: upt_Suc)

function StripColorCodes_loop :: "AString \<Rightarrow> nat \<Rightarrow> AString" where
  "StripColorCodes_loop res idx =
     (case find_string res [0xc2, 0xa7] idx of
        None \<Rightarrow> res
      | Some idx' \<Rightarrow> StripColorCodes_loop (string_replace res idx' 3 []) idx')"
  by pat_completeness auto
termination
proof (relation "measure (\<lambda>(s, i). length s)")
  fix res idx idx'
  assume "find_string res [0xc2, 0xa7] idx = Some idx'"
  then have "is_prefix [0xc2, 0xa7] (drop idx' res)" by (simp add: find_string_bound)
  then have "idx' < length res" by (rule contrapos_pp) (simp add: is_prefix_def)
  then show "((string_replace res idx' 3 [], idx'), res, idx) \<in> measure (\<lambda>(s, i). length s)"
    by (simp add: string_replace_def)
qed simp

declare StripColorCodes_loop.simps [simp del]

definition StripColorCodes :: "AString \<Rightarrow> AString" where
  "StripColorCodes a_Message = StripColorCodes_loop a_Message 0"

text \<open>
  The value of a hexadecimal digit as \<open>URLDecode\<close> computes it: for the first digit the upper-case
  branch subtracts the letter F (\<open>0x46\<close>), for the second the letter A.
\<close>

definition hex_hi :: "u8 \<Rightarrow> u8 option" where
  "hex_hi hi =
     (if 0x30 \<le> hi \<and> hi \<le> 0x39 then Some (hi - 0x30)
      else if 0x61 \<le> hi \<and> hi \<le> 0x66 then Some (hi - 0x61 + 10)
      else if 0x41 \<le> hi \<and> hi \<le> 0x46 then Some (hi - 0x46 + 10)
      else None)"

definition hex_lo :: "u8 \<Rightarrow> u8 option" where
  "hex_lo lo =
     (if 0x30 \<le> lo \<and> lo \<le> 0x39 then Some (lo - 0x30)
      else if 0x61 \<le> lo \<and> lo \<le> 0x66 then Some (lo - 0x61 + 10)
      else if 0x41 \<le> lo \<and> lo \<le> 0x46 then Some (lo - 0x41 + 10)
      else None)"

text \<open>
  \<open>len - 3\<close> is a \<open>size_t\<close> subtraction: below length 3 it wraps to a number no position exceeds. Reading
  past the terminating zero is the fault \<open>OutOfRange\<close>.
\<close>

function URLDecode_loop :: "AString \<Rightarrow> nat \<Rightarrow> AString \<Rightarrow> fault + AString" where
  "URLDecode_loop a_String i res =
     (if i < length a_String then
        let ch = a_String ! i
        in if ch \<noteq> 0x25 \<or> (3 \<le> length a_String \<and> i > length a_String - 3) then
             URLDecode_loop a_String (i + 1) (res @ [ch])
           else if i + 2 > length a_String then Inl OutOfRange
           else (case hex_hi (char_at a_String (i + 1)) of
                   None \<Rightarrow> URLDecode_loop a_String (i + 1) (res @ [ch])
                 | Some hi \<Rightarrow>
                     (case hex_lo (char_at a_String (i + 2)) of
                        None \<Rightarrow> URLDecode_loop a_String (i + 1) (res @ [ch])
                      | Some lo \<Rightarrow> URLDecode_loop a_String (i + 2 + 1) (res @ [push_bit 4 hi OR lo])))
      else Inr res)"
  by pat_completeness auto
termination
  by (relation "measure (\<lambda>(s, i, r). length s - i)") auto

declare URLDecode_loop.simps [simp del]

definition URLDecode :: "AString \<Rightarrow> fault + AString" where
  "URLDecode a_String = URLDecode_loop a_String 0 []"

section \<open>Big-endian integers in memory\<close>

definition GetBEInt :: "u8 list \<Rightarrow> u32" where
  "GetBEInt a_Mem =
     push_bit 24 (ucast (a_Mem ! 0)) OR push_bit 16 (ucast (a_Mem ! 1)) OR
     push_bit 8 (ucast (a_Mem ! 2)) OR ucast (a_Mem ! 3)"

definition SetBEInt :: "u8 list \<Rightarrow> u32 \<Rightarrow> u8 list" where
  "SetBEInt a_Mem a_Value =
     a_Mem[0 := ucast (signed_drop_bit 24 a_Value),
           1 := ucast (signed_drop_bit 16 a_Value AND 0xff),
           2 := ucast (signed_drop_bit 8 a_Value AND 0xff),
           3 := ucast (a_Value AND 0xff)]"

section \<open>Vectors of strings\<close>

function SplitZeroTerminatedStrings_loop ::
    "AString \<Rightarrow> nat \<Rightarrow> nat \<Rightarrow> bool \<Rightarrow> AString list \<Rightarrow> bool \<times> AString list" where
  "SplitZeroTerminatedStrings_loop a_Strings i start res a_Output =
     (if i < length a_Strings then
        if a_Strings ! i = 0 then
          SplitZeroTerminatedStrings_loop a_Strings (i + 1) (i + 1) True
            (a_Output @ [substr a_Strings start (i - start)])
        else SplitZeroTerminatedStrings_loop a_Strings (i + 1) start res a_Output
      else if start < length a_Strings then
        (True, a_Output @ [substr a_Strings start (length a_Strings - start)])
      else (res, a_Output))"
  by pat_completeness auto
termination
  by (relation "measure (\<lambda>(s, i, st, r, out). length s - i)") auto

declare SplitZeroTerminatedStrings_loop.simps [simp del]

definition SplitZeroTerminatedStrings :: "AString \<Rightarrow> bool \<times> AString list" where
  "SplitZeroTerminatedStrings a_Strings = SplitZeroTerminatedStrings_loop a_Strings 0 0 False []"

definition MergeStringVectors :: "AString list \<Rightarrow> AString list \<Rightarrow> AString list" where
  "MergeStringVectors a_Strings1 a_Strings2 =
     foldl (\<lambda>res item. if item \<in> set res then res else res @ [item]) a_Strings1 a_Strings2"

definition StringsConcat :: "AString list \<Rightarrow> u8 \<Rightarrow> AString" where
  "StringsConcat a_Strings a_Separator =
     (case a_Strings of
        [] \<Rightarrow> []
      | s # rest \<Rightarrow> foldl (\<lambda>res itr. res @ [a_Separator] @ itr) s rest)"

section \<open>Numbers\<close>

text \<open>
  \<open>StringToInteger\<close> for the integer type with the bounds \<open>lo\<close> and \<open>hi\<close>, signed when \<open>lo < 0\<close>.
  Division truncates toward zero. \<open>None\<close> is the return value \<open>false\<close>.
\<close>

definition trunc_div :: "int \<Rightarrow> int \<Rightarrow> int" where
  "trunc_div a b = sgn a * sgn b * (\<bar>a\<bar> div \<bar>b\<bar>)"

definition is_digit :: "u8 \<Rightarrow> bool" where
  "is_digit c \<longleftrightarrow> \<not> (sint c < 48 \<or> sint c > 57)"

fun StringToInteger_pos :: "int \<Rightarrow> AString \<Rightarrow> int \<Rightarrow> int option" where
  "StringToInteger_pos hi [] result = Some result"
| "StringToInteger_pos hi (c # cs) result =
     (if \<not> is_digit c then None
      else if trunc_div hi 10 < result then None
      else let result1 = result * 10; digit = sint c - 48
           in if hi - digit < result1 then None else StringToInteger_pos hi cs (result1 + digit))"

fun StringToInteger_neg :: "int \<Rightarrow> AString \<Rightarrow> int \<Rightarrow> int option" where
  "StringToInteger_neg lo [] result = Some result"
| "StringToInteger_neg lo (c # cs) result =
     (if \<not> is_digit c then None
      else if trunc_div lo 10 > result then None
      else let result1 = result * 10; digit = sint c - 48
           in if lo + digit > result1 then None else StringToInteger_neg lo cs (result1 - digit))"

definition StringToInteger :: "int \<Rightarrow> int \<Rightarrow> AString \<Rightarrow> int option" where
  "StringToInteger lo hi a_str =
     (let c0 = char_at a_str 0
      in if c0 = 0x2b then StringToInteger_pos hi (drop 1 a_str) 0
         else if c0 = 0x2d then (if lo < 0 then StringToInteger_neg lo (drop 1 a_str) 0 else None)
         else StringToInteger_pos hi a_str 0)"

definition GetStringMapInteger :: "int \<Rightarrow> int \<Rightarrow> (AString \<rightharpoonup> AString) \<Rightarrow> AString \<Rightarrow> int \<Rightarrow> int" where
  "GetStringMapInteger lo hi a_Map a_Key a_Default =
     (case a_Map a_Key of
        None \<Rightarrow> a_Default
      | Some v \<Rightarrow> (case StringToInteger lo hi v of None \<Rightarrow> a_Default | Some res \<Rightarrow> res))"

section \<open>What splitting computes\<close>

text \<open>The pieces between delimiters; a last piece is dropped when it is empty.\<close>

function cuts :: "(u8 \<Rightarrow> bool) \<Rightarrow> AString \<Rightarrow> AString list" where
  "cuts P s =
     (case dropWhile (\<lambda>c. \<not> P c) s of
        [] \<Rightarrow> (if s = [] then [] else [s])
      | _ # r \<Rightarrow> takeWhile (\<lambda>c. \<not> P c) s # cuts P r)"
  by pat_completeness auto
termination
proof (relation "measure (\<lambda>(P, s). length s)")
  fix P s c r
  assume "dropWhile (\<lambda>c. \<not> P c) s = c # r"
  then have "length (c # r) \<le> length s" using length_dropWhile_le [of "\<lambda>c. \<not> P c" s] by simp
  then show "((P, r), P, s) \<in> measure (\<lambda>(P, s). length s)" by simp
qed simp

declare cuts.simps [simp del]

text \<open>The lines \<open>getline\<close> delivers: those ended by a line feed, and a last one that is not empty.\<close>

definition text_lines :: "AString \<Rightarrow> AString list" where
  "text_lines s = cuts (\<lambda>c. c = 0x0a) s"

lemma find_first_of_split:
  "find_first_of s d p =
     (if dropWhile (\<lambda>c. c \<notin> set d) (drop p s) = [] then None
      else Some (p + length (takeWhile (\<lambda>c. c \<notin> set d) (drop p s))))"
proof -
  let ?x = "drop p s" and ?P = "\<lambda>c. c \<notin> set d"
  have l: "length (takeWhile ?P ?x) + length (dropWhile ?P ?x) = length s - p"
    by (metis length_append length_drop takeWhile_dropWhile_id)
  show ?thesis
  proof (cases "dropWhile ?P ?x = []")
    case True
    then have "length (takeWhile ?P ?x) = length s - p" using l by (simp del: dropWhile_eq_Nil_conv)
    then show ?thesis using True by (auto simp: find_first_of_def Let_def simp del: dropWhile_eq_Nil_conv)
  next
    case False
    then have "0 < length (dropWhile ?P ?x)" by simp
    then have "p + length (takeWhile ?P ?x) < length s" using l by linarith
    then show ?thesis using False by (simp add: find_first_of_def)
  qed
qed

lemma find_first_of_cut:
  assumes "find_first_of s d p = Some k"
  shows "takeWhile (\<lambda>c. c \<notin> set d) (drop p s) = substr s p (k - p)"
    and "dropWhile (\<lambda>c. c \<notin> set d) (drop p s) = s ! k # drop (k + 1) s"
proof -
  let ?P = "\<lambda>c. c \<notin> set d"
  have k: "k = p + length (takeWhile ?P (drop p s))"
    using assms by (simp add: find_first_of_split split: if_splits)
  show "takeWhile ?P (drop p s) = substr s p (k - p)"
    by (simp add: k substr_def flip: takeWhile_eq_take)
  have "dropWhile ?P (drop p s) = drop k s"
    by (simp add: k dropWhile_eq_drop add.commute)
  then show "dropWhile ?P (drop p s) = s ! k # drop (k + 1) s"
    using find_first_of_bound [OF assms] by (simp add: Cons_nth_drop_Suc)
qed

lemma StringSplit_loop_cuts: "StringSplit_loop s d p = cuts (\<lambda>c. c \<in> set d) (drop p s)"
proof (induction s d p rule: StringSplit_loop.induct)
  case (1 s d p)
  show ?case
  proof (cases "find_first_of s d p")
    case None
    then have "dropWhile (\<lambda>c. c \<notin> set d) (drop p s) = []"
      by (simp add: find_first_of_split del: dropWhile_eq_Nil_conv split: if_splits)
    then show ?thesis using None
      by (simp add: StringSplit_loop.simps [of s d p] cuts.simps [of _ "drop p s"] del: dropWhile_eq_Nil_conv)
  next
    case (Some k)
    from find_first_of_cut [OF Some] "1.IH" [OF Some] show ?thesis
      by (simp add: StringSplit_loop.simps [of s d p] cuts.simps [of _ "drop p s"] Some)
  qed
qed

lemma StringSplit_cuts: "StringSplit s d = cuts (\<lambda>c. c \<in> set d) s"
  by (simp add: StringSplit_def StringSplit_loop_cuts)

lemma StringSplitAndTrim_map: "StringSplitAndTrim s d = map TrimString (StringSplit s d)"
proof -
  have "StringSplitAndTrim_loop s d p = map TrimString (StringSplit_loop s d p)" for p
  proof (induction s d p rule: StringSplitAndTrim_loop.induct)
    case (1 s d p)
    then show ?case
      by (simp add: StringSplitAndTrim_loop.simps [of s d p] StringSplit_loop.simps [of s d p]
          split: option.split)
  qed
  then show ?thesis by (simp add: StringSplitAndTrim_def StringSplit_def)
qed

lemma SplitOneOf_unlimited: "SplitOneOf s d 0 = StringSplit s d"
proof -
  have "SplitOneOf_loop s d 0 k = cuts (\<lambda>c. c \<in> set d) s" for k
  proof (induction s d "0 :: nat" k rule: SplitOneOf_loop.induct)
    case (1 s d k)
    show ?case
    proof (cases "find_first_of s d 0")
      case None
      then have "dropWhile (\<lambda>c. c \<notin> set d) s = []"
        by (simp add: find_first_of_split del: dropWhile_eq_Nil_conv split: if_splits)
      then show ?thesis using None
        by (simp add: SplitOneOf_loop.simps [of s d 0 k] cuts.simps [of _ s] del: dropWhile_eq_Nil_conv)
    next
      case (Some j)
      from find_first_of_cut [OF Some] 1 [of j] Some show ?thesis
        by (simp add: SplitOneOf_loop.simps [of s d 0 k] cuts.simps [of _ s])
    qed
  qed
  then show ?thesis by (simp add: SplitOneOf_def StringSplit_cuts)
qed

lemma cuts_step: "c \<notin> set p \<Longrightarrow> cuts (\<lambda>x. x = c) (p @ c # r) = p # cuts (\<lambda>x. x = c) r"
proof -
  assume "c \<notin> set p"
  then have "dropWhile (\<lambda>x. x \<noteq> c) (p @ c # r) = c # r" "takeWhile (\<lambda>x. x \<noteq> c) (p @ c # r) = p"
    by (induction p) auto
  then show ?thesis by (subst cuts.simps) simp
qed

lemma cuts_last: "c \<notin> set p \<Longrightarrow> p \<noteq> [] \<Longrightarrow> cuts (\<lambda>x. x = c) p = [p]"
proof -
  assume "c \<notin> set p" "p \<noteq> []"
  then have "dropWhile (\<lambda>x. x \<noteq> c) p = []" by (induction p) auto
  then show ?thesis using \<open>p \<noteq> []\<close> by (subst cuts.simps) (simp del: dropWhile_eq_Nil_conv)
qed

fun join :: "u8 \<Rightarrow> AString list \<Rightarrow> AString" where
  "join c [] = []"
| "join c [p] = p"
| "join c (p # q # ps) = p @ c # join c (q # ps)"

lemma StringsConcat_join: "StringsConcat ps c = join c ps"
proof -
  have f: "foldl (\<lambda>res itr. res @ c # itr) s ps = join c (s # ps)" for s ps
  proof (induction ps arbitrary: s)
    case (Cons q ps)
    show ?case
    proof (cases ps)
      case Nil
      then show ?thesis by simp
    next
      case (Cons r rs)
      then show ?thesis using Cons.IH [of "s @ c # q"] by simp
    qed
  qed simp
  show ?thesis by (cases ps) (simp_all add: StringsConcat_def f)
qed

lemma split_of_join:
  assumes "\<forall>p \<in> set ps. c \<notin> set p" and "ps \<noteq> [] \<Longrightarrow> last ps \<noteq> []"
  shows "StringSplit (StringsConcat ps c) [c] = ps"
proof -
  have "cuts (\<lambda>x. x = c) (join c ps) = ps"
    using assms
  proof (induction c ps rule: join.induct)
    case (1 c)
    then show ?case by (simp add: cuts.simps)
  next
    case (2 c p)
    then show ?case by (simp add: cuts_last)
  next
    case (3 c p q ps)
    then show ?case by (simp add: cuts_step split: if_splits)
  qed
  then show ?thesis by (simp add: StringSplit_cuts StringsConcat_join)
qed

section \<open>Trimming\<close>

lemma TrimString_start_eq:
  "TrimString_start s p = p + length (takeWhile (\<lambda>c. sint c \<le> 32) (drop p s))"
proof (induction s p rule: TrimString_start.induct)
  case (1 s p)
  show ?case
  proof (cases "p < length s")
    case True
    then have d: "drop p s = s ! p # drop (p + 1) s" by (simp add: Cons_nth_drop_Suc)
    show ?thesis using 1 True by (subst TrimString_start.simps) (simp add: d)
  qed (subst TrimString_start.simps, simp)
qed

lemma TrimString_end_spec:
  assumes "start \<le> n" and "sint (char_at s start) > 32"
  shows "start \<le> TrimString_end s start n \<and> TrimString_end s start n \<le> n \<and>
    sint (char_at s (TrimString_end s start n)) > 32 \<and>
    (\<forall>k. TrimString_end s start n < k \<and> k \<le> n \<longrightarrow> sint (char_at s k) \<le> 32)"
  using assms
proof (induction n)
  case (Suc n)
  show ?case
  proof (cases "sint (char_at s (Suc n)) > 32")
    case False
    then have "start \<noteq> Suc n" using Suc.prems by auto
    then have "start \<le> n" using Suc.prems by simp
    from Suc.IH [OF this Suc.prems(2)] False Suc.prems show ?thesis
      by (auto simp: le_Suc_eq)
  qed (use Suc in auto)
qed simp

lemma TrimString_split:
  "\<exists>pre post. s = pre @ TrimString s @ post \<and> list_all (\<lambda>c. sint c \<le> 32) (pre @ post) \<and>
     (TrimString s = [] \<or> (sint (hd (TrimString s)) > 32 \<and> sint (last (TrimString s)) > 32))"
proof -
  let ?P = "\<lambda>c :: u8. sint c \<le> 32"
  let ?a = "length (takeWhile ?P s)"
  have st: "TrimString_start s 0 = ?a" by (simp add: TrimString_start_eq)
  have all: "\<forall>c \<in> set (takeWhile ?P s). ?P c" by (meson set_takeWhileD)
  show ?thesis
  proof (cases "?a = length s")
    case True
    then have "takeWhile ?P s = s" by (metis takeWhile_eq_take take_all order_refl)
    then have "list_all ?P s" using all by (simp add: list_all_iff)
    then show ?thesis using True by (intro exI [of _ s] exI [of _ "[]"]) (simp add: TrimString_def st)
  next
    case False
    then have lt: "?a < length s" using length_takeWhile_le [of ?P s] by linarith
    have big: "sint (char_at s ?a) > 32"
      using nth_length_takeWhile [of ?P s] lt by (simp add: char_at_def)
    define e where "e = TrimString_end s ?a (length s)"
    have e: "?a \<le> e" "e \<le> length s" "sint (char_at s e) > 32"
        "\<And>k. e < k \<Longrightarrow> k \<le> length s \<Longrightarrow> sint (char_at s k) \<le> 32"
      using TrimString_end_spec [OF _ big, of "length s"] lt by (auto simp: e_def)
    have "e \<noteq> length s" using e(3) by (auto simp: char_at_def)
    then have el: "e < length s" using e(2) by simp
    have t: "TrimString s = take (e - ?a + 1) (drop ?a s)"
      using False by (simp add: TrimString_def Let_def st substr_def flip: e_def)
    have len: "length (TrimString s) = e - ?a + 1" using el e(1) by (simp add: t)
    have split: "s = take ?a s @ TrimString s @ drop (e + 1) s"
    proof -
      have "drop ?a s = TrimString s @ drop (e - ?a + 1) (drop ?a s)" unfolding t by (rule append_take_drop_id [symmetric])
      moreover have "drop (e - ?a + 1) (drop ?a s) = drop (e + 1) s" using e(1) by simp
      ultimately show ?thesis by (metis append_take_drop_id)
    qed
    have e5: "sint (s ! k) \<le> 32" if "e < k" "k < length s" for k
      using e(4) [of k] that by (simp add: char_at_def)
    have "list_all ?P (drop (e + 1) s)"
      unfolding list_all_length using e5 by simp
    moreover have "take ?a s = takeWhile ?P s" by (rule takeWhile_eq_take [symmetric])
    then have "list_all ?P (take ?a s)" using all by (simp add: list_all_iff)
    moreover have "sint (hd (TrimString s)) > 32"
      using big lt by (simp add: t hd_conv_nth char_at_def)
    moreover have "last (TrimString s) = s ! e"
      using el e(1) by (subst last_conv_nth) (auto simp: len t)
    then have "sint (last (TrimString s)) > 32" using e(3) el by (simp add: char_at_def)
    ultimately show ?thesis using split by (intro exI [of _ "take ?a s"] exI [of _ "drop (e + 1) s"]) simp
  qed
qed

section \<open>Searching and replacing\<close>

lemma find_Some_upt:
  "List.find P [a..<b] = Some k \<longleftrightarrow> a \<le> k \<and> k < b \<and> P k \<and> (\<forall>i. a \<le> i \<and> i < k \<longrightarrow> \<not> P i)"
proof
  assume "List.find P [a..<b] = Some k"
  then obtain i where i: "i < b - a" "P (a + i)" "k = a + i" "\<forall>j<i. \<not> P (a + j)"
    by (auto simp: find_Some_iff)
  then have "\<not> P m" if "a \<le> m" "m < k" for m using that by (metis le_add_diff_inverse less_diff_conv2 add.commute less_diff_conv nat_add_left_cancel_less)
  then show "a \<le> k \<and> k < b \<and> P k \<and> (\<forall>i. a \<le> i \<and> i < k \<longrightarrow> \<not> P i)" using i by auto
next
  assume r: "a \<le> k \<and> k < b \<and> P k \<and> (\<forall>i. a \<le> i \<and> i < k \<longrightarrow> \<not> P i)"
  then show "List.find P [a..<b] = Some k"
    by (auto simp: find_Some_iff intro!: exI [of _ "k - a"])
qed

lemma find_string_Some:
  "find_string s n pos = Some k \<longleftrightarrow> pos \<le> k \<and> k \<le> length s \<and> is_prefix n (drop k s) \<and>
     (\<forall>i. pos \<le> i \<and> i < k \<longrightarrow> \<not> is_prefix n (drop i s))"
  unfolding find_string_def find_Some_upt by auto

lemma find_string_None:
  "find_string s n pos = None \<longleftrightarrow> (\<forall>i. pos \<le> i \<and> i \<le> length s \<longrightarrow> \<not> is_prefix n (drop i s))"
  by (auto simp: find_string_def find_None_iff simp del: upt_Suc)

lemma find_string_shift:
  "find_string (xs @ s) n (length xs) = map_option ((+) (length xs)) (find_string s n 0)"
proof (cases "find_string s n 0")
  case None
  have "\<not> is_prefix n (drop i (xs @ s))" if "length xs \<le> i" "i \<le> length (xs @ s)" for i
    using None that unfolding find_string_None by auto
  then have "find_string (xs @ s) n (length xs) = None" unfolding find_string_None by blast
  then show ?thesis using None by simp
next
  case (Some k)
  have "find_string (xs @ s) n (length xs) = Some (length xs + k)"
    using Some unfolding find_string_Some by auto
  then show ?thesis using Some by simp
qed

lemma is_prefix_append: "is_prefix n s \<Longrightarrow> is_prefix n (s @ t)"
  unfolding is_prefix_def by (metis append_eq_conv_conj append_assoc append_take_drop_id)

lemma is_prefix_hd: "is_prefix n (drop i s) \<Longrightarrow> n \<noteq> [] \<Longrightarrow> hd n = s ! i"
proof -
  assume p: "is_prefix n (drop i s)" and n: "n \<noteq> []"
  have "i < length s"
  proof (rule ccontr)
    assume "\<not> i < length s"
    then show False using p n by (simp add: is_prefix_def)
  qed
  then have "drop i s = s ! i # drop (Suc i) s" by (simp add: Cons_nth_drop_Suc)
  then show "hd n = s ! i" using p n unfolding is_prefix_def by (cases n) auto
qed

text \<open>No match starts inside text that does not contain the needle's first character.\<close>

lemma find_string_skip:
  assumes "n \<noteq> []" and "hd n \<notin> set r"
  shows "find_string (xs @ r @ s) n (length xs) = find_string (xs @ r @ s) n (length (xs @ r))"
proof -
  have no: "\<not> is_prefix n (drop i (xs @ r @ s))" if "length xs \<le> i" "i < length (xs @ r)" for i
  proof
    assume "is_prefix n (drop i (xs @ r @ s))"
    then have "hd n = (xs @ r @ s) ! i" using is_prefix_hd [OF _ assms(1)] by blast
    then show False using assms(2) that by (auto simp: nth_append split: if_splits)
  qed
  show ?thesis
  proof (cases "find_string (xs @ r @ s) n (length (xs @ r))")
    case None
    then have "find_string (xs @ r @ s) n (length xs) = None"
      unfolding find_string_None using no by (metis not_le_imp_less)
    then show ?thesis using None by simp
  next
    case (Some k)
    then have "find_string (xs @ r @ s) n (length xs) = Some k"
      unfolding find_string_Some using no by (metis le_add1 le_trans length_append not_le_imp_less)
    then show ?thesis using Some by simp
  qed
qed

function replace_all :: "AString \<Rightarrow> AString \<Rightarrow> AString \<Rightarrow> AString" where
  "replace_all n r s =
     (if s = [] then []
      else if n \<noteq> [] \<and> is_prefix n s then r @ replace_all n r (drop (length n) s)
      else hd s # replace_all n r (tl s))"
  by pat_completeness auto
termination
  by (relation "measure (\<lambda>(n, r, s). length s)") auto

declare replace_all.simps [simp del]

lemma replace_all_none:
  assumes "n \<noteq> []" "find_string s n 0 = None"
  shows "replace_all n r s = s"
  using assms(2)
proof (induction s)
  case (Cons c s)
  have "\<not> is_prefix n (c # s)" using Cons.prems by (auto simp: find_string_None dest: spec [of _ 0])
  moreover have "find_string s n 0 = None"
    using Cons.prems unfolding find_string_None by (metis drop_Suc_Cons le0 length_Cons Suc_le_mono)
  ultimately show ?case using Cons.IH by (simp add: replace_all.simps [of n r "c # s"])
qed (simp add: replace_all.simps)

lemma replace_all_some:
  assumes "n \<noteq> []" "find_string s n 0 = Some k"
  shows "replace_all n r s = take k s @ r @ replace_all n r (drop (k + length n) s)"
  using assms(2)
proof (induction k arbitrary: s)
  case 0
  then have p: "is_prefix n s" by (simp add: find_string_Some)
  then have "s \<noteq> []" using assms(1) by (auto simp: is_prefix_def)
  then show ?case using p assms(1) by (simp add: replace_all.simps [of n r s])
next
  case (Suc k)
  then obtain c s' where s: "s = c # s'" by (cases s) (auto simp: find_string_Some)
  have "\<not> is_prefix n s" using Suc.prems unfolding find_string_Some by (metis drop0 le0 zero_less_Suc)
  moreover have "find_string s' n 0 = Some k"
    using Suc.prems unfolding find_string_Some s
    by (metis Suc_le_mono Suc_less_eq drop_Suc_Cons le0 length_Cons)
  ultimately show ?case using Suc.IH [of s'] s by (simp add: replace_all.simps [of n r "c # s'"])
qed

lemma ReplaceString_loop_all:
  assumes "n \<noteq> []" and "hd n \<notin> set r"
  shows "ReplaceString_loop (xs @ s) n r (find_string (xs @ s) n (length xs)) = Some (xs @ replace_all n r s)"
proof (induction s arbitrary: xs rule: length_induct)
  case (1 s)
  show ?case
  proof (cases "find_string s n 0")
    case None
    then show ?thesis
      by (subst ReplaceString_loop.simps) (simp add: find_string_shift replace_all_none [OF assms(1)])
  next
    case (Some k)
    then have p: "is_prefix n (drop k s)" "k \<le> length s" by (simp_all add: find_string_Some)
    then have "k + length n \<le> length s" 
      unfolding is_prefix_def by (metis add.commute le_diff_conv2 length_drop length_take min.cobounded1)
    moreover have "0 < length n" using assms(1) by simp
    ultimately have shorter: "length (drop (k + length n) s) < length s"
      unfolding length_drop by linarith
    let ?xs = "xs @ take k s" and ?s = "drop (k + length n) s"
    have hay: "string_replace (xs @ s) (length xs + k) (length n) r = (?xs @ r) @ ?s"
      by (simp add: string_replace_def add.commute)
    have pos: "length xs + k = length ?xs" using p(2) by simp
    have f: "find_string ((?xs @ r) @ ?s) n (length xs + k) = find_string ((?xs @ r) @ ?s) n (length (?xs @ r))"
      unfolding pos using find_string_skip [OF assms, of ?xs ?s] by simp
    have "ReplaceString_loop (xs @ s) n r (find_string (xs @ s) n (length xs)) =
        ReplaceString_loop ((?xs @ r) @ ?s) n r (find_string ((?xs @ r) @ ?s) n (length (?xs @ r)))"
      by (subst ReplaceString_loop.simps) (simp only: find_string_shift Some option.map option.sel hay f, simp)
    also have "\<dots> = Some ((?xs @ r) @ replace_all n r ?s)" using 1 shorter by blast
    finally show ?thesis using replace_all_some [OF assms(1) Some] by simp
  qed
qed

lemma ReplaceString_all:
  "n \<noteq> [] \<Longrightarrow> hd n \<notin> set r \<Longrightarrow> ReplaceString s n r = Some (replace_all n r s)"
  using ReplaceString_loop_all [of n r "[]" s] by (simp add: ReplaceString_def)

lemma ReplaceString_loop_contains:
  assumes "ReplaceString_loop hay n r pos = Some y" and "is_prefix n (drop j r)" and "j \<le> length r"
    and "\<forall>p. pos = Some p \<longrightarrow> p \<le> length hay"
  shows "pos = None"
proof -
  have "is_prefix n (drop j r) \<longrightarrow> j \<le> length r \<longrightarrow> (\<forall>p. pos = Some p \<longrightarrow> p \<le> length hay) \<longrightarrow> pos = None"
  proof (rule ReplaceString_loop.raw_induct [where P = "\<lambda>hay n r pos y. is_prefix n (drop j r) \<longrightarrow>
        j \<le> length r \<longrightarrow> (\<forall>p. pos = Some p \<longrightarrow> p \<le> length hay) \<longrightarrow> pos = None", OF _ assms(1)])
    fix f hay n r pos y
    assume IH: "\<And>hay n r pos y. f hay n r pos = Some y \<Longrightarrow> is_prefix n (drop j r) \<longrightarrow>
        j \<le> length r \<longrightarrow> (\<forall>p. pos = Some p \<longrightarrow> p \<le> length hay) \<longrightarrow> pos = None"
      and run: "(if pos = None then Some hay else f (string_replace hay (the pos) (length n) r) n r
        (find_string (string_replace hay (the pos) (length n) r) n (the pos))) = Some y"
    show "is_prefix n (drop j r) \<longrightarrow> j \<le> length r \<longrightarrow>
        (\<forall>p. pos = Some p \<longrightarrow> p \<le> length hay) \<longrightarrow> pos = None"
    proof (intro impI, rule ccontr)
      assume j: "is_prefix n (drop j r)" "j \<le> length r"
        and pos: "\<forall>p. pos = Some p \<longrightarrow> p \<le> length hay" and "pos \<noteq> None"
      then obtain p where p: "pos = Some p" "p \<le> length hay" by auto
      let ?hay = "string_replace hay p (length n) r"
      have "is_prefix n (drop (p + j) ?hay)"
        using is_prefix_append [OF j(1)] j(2) p(2) by (simp add: string_replace_def)
      moreover have "p + j \<le> length ?hay" using j p(2) by (simp add: string_replace_def)
      ultimately have "find_string ?hay n p \<noteq> None" unfolding find_string_None by (auto intro!: exI [of _ "p + j"])
      moreover have "f ?hay n r (find_string ?hay n p) = Some y" using run p(1) by simp
      from IH [OF this] have "find_string ?hay n p = None" using j find_string_bound by blast
      ultimately show False by simp
    qed
  qed
  then show ?thesis using assms by blast
qed

section \<open>Escapes and colour codes\<close>

definition escape_char :: "u8 \<Rightarrow> AString" where
  "escape_char c = (if c = 0x27 \<or> c = 0x22 \<or> c = 0x5c then [0x5c, c] else [c])"

lemma EscapeString_loop_eq:
  assumes "l \<le> i" and "i \<le> length s"
  shows "EscapeString_loop s i l acc = acc @ substr s l (i - l) @ concat (map escape_char (drop i s))"
  using assms
proof (induction s i l acc rule: EscapeString_loop.induct)
  case (1 s i l acc)
  show ?case
  proof (cases "i < length s")
    case True
    then have d: "drop i s = s ! i # drop (i + 1) s" by (simp add: Cons_nth_drop_Suc)
    have sub: "substr s l (i - l) @ [s ! i] = substr s l (i + 1 - l)"
      using 1(3) True by (simp add: substr_def Suc_diff_le take_Suc_conv_app_nth)
    show ?thesis
    proof (cases "s ! i = 0x27 \<or> s ! i = 0x22 \<or> s ! i = 0x5c")
      case esc: True
      have ec: "escape_char (s ! i) = [0x5c, s ! i]" using esc by (simp add: escape_char_def)
      have "substr s (i + 1) (i + 1 - (i + 1)) = []" by (simp add: substr_def)
      moreover have "i > l \<or> substr s l (i - l) = []" using 1(3) by (auto simp: substr_def)
      ultimately show ?thesis using 1(1) [OF True refl esc] True esc
        by (subst EscapeString_loop.simps) (auto simp: d ec Let_def)
    next
      case False
      have ec: "escape_char (s ! i) = [s ! i]" using False by (simp add: escape_char_def)
      show ?thesis using 1(2) [OF True refl False] 1(3) True False sub
        by (subst EscapeString_loop.simps) (simp add: d ec Let_def)
    qed
  next
    case False
    then show ?thesis using 1(3,4) by (subst EscapeString_loop.simps) (auto simp: substr_def)
  qed
qed

lemma EscapeString_eq: "EscapeString s = concat (map escape_char s)"
  using EscapeString_loop_eq [of 0 0 s "[]"] by (simp add: EscapeString_def substr_def)

text \<open>One pass over the string that drops each colour code: the two bytes of the section sign and the
  byte after them.\<close>

function strip_codes :: "AString \<Rightarrow> AString" where
  "strip_codes s =
     (if s = [] then []
      else if is_prefix [0xc2, 0xa7] s then strip_codes (drop 3 s)
      else hd s # strip_codes (tl s))"
  by pat_completeness auto
termination
  by (relation "measure length") auto

declare strip_codes.simps [simp del]

lemma strip_codes_none: "find_string s [0xc2, 0xa7] 0 = None \<Longrightarrow> strip_codes s = s"
proof (induction s)
  case (Cons c s)
  have "\<not> is_prefix [0xc2, 0xa7] (c # s)"
    using Cons.prems by (auto simp: find_string_None dest: spec [of _ 0])
  moreover have "find_string s [0xc2, 0xa7] 0 = None"
    using Cons.prems unfolding find_string_None by (metis drop_Suc_Cons le0 length_Cons Suc_le_mono)
  ultimately show ?case using Cons.IH by (simp add: strip_codes.simps [of "c # s"])
qed (simp add: strip_codes.simps)

lemma strip_codes_some:
  "find_string s [0xc2, 0xa7] 0 = Some k \<Longrightarrow> strip_codes s = take k s @ strip_codes (drop (k + 3) s)"
proof (induction k arbitrary: s)
  case 0
  then have p: "is_prefix [0xc2, 0xa7] s" by (simp add: find_string_Some)
  then have "s \<noteq> []" by (auto simp: is_prefix_def)
  then show ?case using p by (simp add: strip_codes.simps [of s])
next
  case (Suc k)
  then obtain c s' where s: "s = c # s'" by (cases s) (auto simp: find_string_Some)
  have "\<not> is_prefix [0xc2, 0xa7] s"
    using Suc.prems unfolding find_string_Some by (metis drop0 le0 zero_less_Suc)
  moreover have "find_string s' [0xc2, 0xa7] 0 = Some k"
    using Suc.prems unfolding find_string_Some s
    by (metis Suc_le_mono Suc_less_eq drop_Suc_Cons le0 length_Cons)
  ultimately show ?case using Suc.IH [of s'] s by (simp add: strip_codes.simps [of "c # s'"] eval_nat_numeral)
qed

lemma StripColorCodes_loop_eq: "StripColorCodes_loop (xs @ s) (length xs) = xs @ strip_codes s"
proof (induction s arbitrary: xs rule: length_induct)
  case (1 s)
  show ?case
  proof (cases "find_string s [0xc2, 0xa7] 0")
    case None
    then show ?thesis
      by (subst StripColorCodes_loop.simps) (simp add: find_string_shift strip_codes_none)
  next
    case (Some k)
    then have k: "k \<le> length s" and "is_prefix [0xc2, 0xa7] (drop k s)" by (simp_all add: find_string_Some)
    then have "k < length s" by (cases "k = length s") (auto simp: is_prefix_def)
    then have shorter: "length (drop (k + 3) s) < length s" by simp
    have pos: "length xs + k = length (xs @ take k s)" using k by simp
    have hay: "string_replace (xs @ s) (length (xs @ take k s)) 3 [] = (xs @ take k s) @ drop (k + 3) s"
      unfolding pos [symmetric] by (simp add: string_replace_def add.commute)
    have "StripColorCodes_loop (xs @ s) (length xs) =
        StripColorCodes_loop ((xs @ take k s) @ drop (k + 3) s) (length (xs @ take k s))"
      by (subst StripColorCodes_loop.simps)
        (simp only: find_string_shift Some option.map option.case hay pos)
    also have "\<dots> = (xs @ take k s) @ strip_codes (drop (k + 3) s)" using 1 shorter by blast
    finally show ?thesis using strip_codes_some [OF Some] by simp
  qed
qed

lemma StripColorCodes_eq: "StripColorCodes s = strip_codes s"
  using StripColorCodes_loop_eq [of "[]" s] by (simp add: StripColorCodes_def)

section \<open>URL decoding\<close>

lemma URLDecode_loop_long:
  "3 \<le> length s \<Longrightarrow> \<exists>r. URLDecode_loop s i res = Inr r"
proof (induction s i res rule: URLDecode_loop.induct)
  case (1 s i res)
  show ?case
  proof (cases "i < length s")
    case False
    then show ?thesis by (subst URLDecode_loop.simps) simp
  next
    case i: True
    show ?thesis
    proof (cases "s ! i \<noteq> 0x25 \<or> (3 \<le> length s \<and> i > length s - 3)")
      case True
      from 1(1) [OF i refl True 1(5)] show ?thesis
        using i True by (subst URLDecode_loop.simps) (simp add: Let_def)
    next
      case False
      then have in_range: "\<not> i + 2 > length s" using 1(5) by auto
      note IH = 1(2) [OF i refl False in_range _ 1(5)] 1(3) [OF i refl False in_range _ _ 1(5)]
        1(4) [OF i refl False in_range _ _ 1(5)]
      show ?thesis
        using i False in_range IH
        by (subst URLDecode_loop.simps) (auto simp: Let_def split: option.split)
    qed
  qed
qed

definition hex_digit :: "u8 \<Rightarrow> u8" where
  "hex_digit n = (if n < 10 then 0x30 + n else 0x61 + (n - 10))"

lemma hex_digits_table:
  "list_all (\<lambda>k. hex_hi (hex_digit (of_nat k)) = Some (of_nat k) \<and>
                  hex_lo (hex_digit (of_nat k)) = Some (of_nat k)) [0..<16]"
  by code_simp

lemma hex_digits_decode:
  fixes n :: u8
  assumes "n < 16"
  shows "hex_hi (hex_digit n) = Some n" and "hex_lo (hex_digit n) = Some n"
proof -
  have "unat n < 16" using assms by (simp add: word_less_nat_alt)
  then show "hex_hi (hex_digit n) = Some n" "hex_lo (hex_digit n) = Some n"
    using bspec [OF hex_digits_table [unfolded list_all_iff], of "unat n"] by simp_all
qed

definition percent_encode :: "(u8 \<Rightarrow> bool) \<Rightarrow> AString \<Rightarrow> AString" where
  "percent_encode esc s = concat (map (\<lambda>c. if esc c \<or> c = 0x25
     then [0x25, hex_digit (drop_bit 4 c), hex_digit (c AND 0xf)] else [c]) s)"

lemma nibbles:
  fixes c :: u8
  shows "drop_bit 4 c < 16" and "c AND 0xf < 16" and "push_bit 4 (drop_bit 4 c) OR (c AND 0xf) = c"
proof -
  have m: "(0xf :: u8) = mask 4" by (simp add: mask_eq_decr_exp)
  show "drop_bit 4 c < 16"
    unfolding word_less_nat_alt unat_drop using unsigned_less [of c, where 'a = nat] by simp
  show "c AND 0xf < 16"
    unfolding m using and_mask_less' [of 4 c] by simp
  show "push_bit 4 (drop_bit 4 c) OR (c AND 0xf) = c"
    unfolding m by (intro bit_word_eqI) (auto simp: bit_simps)
qed

lemma URLDecode_loop_encoded:
  assumes "s = xs @ percent_encode esc t"
  shows "URLDecode_loop s (length xs) res = Inr (res @ t)"
  using assms
proof (induction t arbitrary: xs res)
  case Nil
  then show ?case by (subst URLDecode_loop.simps) (simp add: percent_encode_def)
next
  case (Cons c t)
  show ?case
  proof (cases "esc c \<or> c = 0x25")
    case True
    let ?e = "[0x25, hex_digit (drop_bit 4 c), hex_digit (c AND 0xf)]"
    have s: "s = (xs @ ?e) @ percent_encode esc t" using Cons.prems True by (simp add: percent_encode_def)
    have len: "length s = length xs + 3 + length (percent_encode esc t)" using s by simp
    have at: "s ! length xs = 0x25" "char_at s (length xs + 1) = hex_digit (drop_bit 4 c)"
        "char_at s (length xs + 2) = hex_digit (c AND 0xf)"
      using len by (simp_all add: s char_at_def nth_append)
    have "URLDecode_loop s (length xs) res = URLDecode_loop s (length xs + 2 + 1) (res @ [c])"
      using len at nibbles [of c] by (subst URLDecode_loop.simps) (simp add: Let_def hex_digits_decode)
    then show ?thesis using Cons.IH [OF s] by (simp add: eval_nat_numeral)
  next
    case False
    have s: "s = (xs @ [c]) @ percent_encode esc t" using Cons.prems False by (simp add: percent_encode_def)
    then have "s ! length xs = c" "length xs < length s" by (simp_all add: nth_append)
    then have "URLDecode_loop s (length xs) res = URLDecode_loop s (length xs + 1) (res @ [c])"
      using False by (subst URLDecode_loop.simps) (simp add: Let_def)
    then show ?thesis using Cons.IH [OF s] by simp
  qed
qed

section \<open>Numbers\<close>

definition decimal_from :: "int \<Rightarrow> AString \<Rightarrow> int" where
  "decimal_from r ds = foldl (\<lambda>a c. 10 * a + (sint c - 48)) r ds"


lemma decimal_from_Nil [simp]: "decimal_from r [] = r"
  by (simp add: decimal_from_def)

lemma decimal_from_Cons [simp]: "decimal_from r (c # cs) = decimal_from (10 * r + (sint c - 48)) cs"
  by (simp add: decimal_from_def)






section \<open>The other helpers\<close>

lemma GetBEInt_SetBEInt: "4 \<le> length m \<Longrightarrow> GetBEInt (SetBEInt m v) = v"
proof -
  assume m: "4 \<le> length m"
  then have m0: "m \<noteq> []" by auto
  have k: "(0xff :: u32) = mask 8" by (simp add: mask_eq_decr_exp)
  have at: "SetBEInt m v ! 0 = ucast (signed_drop_bit 24 v)"
    "SetBEInt m v ! 1 = ucast (signed_drop_bit 16 v AND mask 8)"
    "SetBEInt m v ! 2 = ucast (signed_drop_bit 8 v AND mask 8)"
    "SetBEInt m v ! 3 = ucast (v AND mask 8)"
    using m m0 unfolding SetBEInt_def k by simp_all
  show ?thesis
    unfolding GetBEInt_def at
  proof (rule bit_word_eqI)
    fix i assume "i < LENGTH(32)"
    then consider "i < 8" | "8 \<le> i" "i < 16" | "16 \<le> i" "i < 24" | "24 \<le> i" "i < 32" by fastforce
    then show "bit (push_bit 24 (ucast (ucast (signed_drop_bit 24 v) :: u8)) OR
        push_bit 16 (ucast (ucast (signed_drop_bit 16 v AND mask 8) :: u8)) OR
        push_bit 8 (ucast (ucast (signed_drop_bit 8 v AND mask 8) :: u8)) OR
        ucast (ucast (v AND mask 8) :: u8) :: u32) i = bit v i"
      by cases (auto simp: bit_simps bit_signed_drop_bit_iff dest: bit_imp_le_length)
  qed
qed

lemma cuts_Cons_yes: "P c \<Longrightarrow> cuts P (c # s) = [] # cuts P s"
  by (subst cuts.simps) simp

lemma SplitZeroTerminatedStrings_loop_eq:
  assumes "st \<le> i" "i \<le> length s" "0 \<notin> set (substr s st (i - st))" "res = (out \<noteq> [])"
  shows "SplitZeroTerminatedStrings_loop s i st res out =
    (out @ cuts (\<lambda>c. c = 0) (drop st s) \<noteq> [], out @ cuts (\<lambda>c. c = 0) (drop st s))"
  using assms
proof (induction s i st res out rule: SplitZeroTerminatedStrings_loop.induct)
  case (1 s i st res out)
  show ?case
  proof (cases "i < length s")
    case True
    have split: "drop st s = substr s st (i - st) @ s ! i # drop (i + 1) s"
    proof -
      have "drop st s = take (i - st) (drop st s) @ drop (i - st) (drop st s)"
        by (simp only: append_take_drop_id)
      also have "drop (i - st) (drop st s) = s ! i # drop (i + 1) s"
        using True 1(3) by (simp add: Cons_nth_drop_Suc)
      finally show ?thesis by (simp add: substr_def)
    qed
    show ?thesis
    proof (cases "s ! i = 0")
      case zero: True
      have "cuts (\<lambda>c. c = 0) (drop st s) = substr s st (i - st) # cuts (\<lambda>c. c = 0) (drop (i + 1) s)"
        using cuts_step [OF 1(5)] zero split by simp
      then show ?thesis using 1(1) [OF True zero] True zero
        by (subst SplitZeroTerminatedStrings_loop.simps) (simp add: substr_def)
    next
      case False
      have "substr s st (i + 1 - st) = substr s st (i - st) @ [s ! i]"
        using True 1(3) by (simp add: substr_def Suc_diff_le take_Suc_conv_app_nth)
      then have "0 \<notin> set (substr s st (i + 1 - st))" using 1(5) False by simp
      then show ?thesis using 1(2) [OF True False] True False 1(3,6)
        by (subst SplitZeroTerminatedStrings_loop.simps) simp
    qed
  next
    case False
    then have i: "i = length s" using 1(4) by simp
    show ?thesis
    proof (cases "st < length s")
      case True
      then have "cuts (\<lambda>c. c = 0) (drop st s) = [drop st s]"
        using 1(5) i by (intro cuts_last) (auto simp: substr_def)
      then show ?thesis using True i by (subst SplitZeroTerminatedStrings_loop.simps) (simp add: substr_def)
    next
      case False
      then show ?thesis using i 1(6) by (subst SplitZeroTerminatedStrings_loop.simps) (simp add: cuts.simps)
    qed
  qed
qed

lemma SplitZeroTerminatedStrings_eq:
  "SplitZeroTerminatedStrings s = (s \<noteq> [], cuts (\<lambda>c. c = 0) s)"
proof -
  have "cuts (\<lambda>c. c = 0) s \<noteq> [] \<longleftrightarrow> s \<noteq> []"
    by (subst cuts.simps) (auto split: list.split)
  then show ?thesis
    using SplitZeroTerminatedStrings_loop_eq [of 0 0 s False "[]"]
    by (simp add: SplitZeroTerminatedStrings_def substr_def)
qed

lemma MergeStringVectors_eq:
  "MergeStringVectors xs ys = xs @ filter (\<lambda>y. y \<notin> set xs) (rev (remdups (rev ys)))"
proof (induction ys rule: rev_induct)
  case (snoc y ys)
  then have "MergeStringVectors xs (ys @ [y]) =
      (let res = xs @ filter (\<lambda>y. y \<notin> set xs) (rev (remdups (rev ys)))
       in if y \<in> set res then res else res @ [y])"
    by (simp add: MergeStringVectors_def Let_def)
  then show ?case by auto
qed (simp add: MergeStringVectors_def)

section \<open>Properties\<close>

text \<open>
  \<open>StringSplit\<close> undoes \<open>StringsConcat\<close>: parts without the separator, the last one not empty,
  are recovered exactly, empty parts in between included.
\<close>

theorem StringSplit_of_StringsConcat:
  assumes "\<forall>p \<in> set ps. c \<notin> set p" and "ps \<noteq> [] \<Longrightarrow> last ps \<noteq> []"
  shows "StringSplit (StringsConcat ps c) [c] = ps"
  using assms by (rule split_of_join)

theorem StringSplit_of_StringsConcat_witness:
  "StringSplit (StringsConcat [[0x61], [], [0x62, 0x63]] 0x2c) [0x2c] = [[0x61], [], [0x62, 0x63]]"
  using StringSplit_of_StringsConcat [of "[[0x61], [], [0x62, 0x63]]" "0x2c"] by simp

text \<open>
  \<open>TrimString\<close> removes a prefix and a suffix of characters not above 32 and leaves a text that
  is empty or begins and ends with a character above 32. As \<open>char\<close> is signed, bytes from \<open>0x80\<close> on
  count as not above 32: letters outside ASCII are trimmed too.
\<close>

theorem TrimString_trims:
  "\<exists>pre post. s = pre @ TrimString s @ post \<and> list_all (\<lambda>c. sint c \<le> 32) (pre @ post) \<and>
     (TrimString s = [] \<or> (sint (hd (TrimString s)) > 32 \<and> sint (last (TrimString s)) > 32))"
  by (rule TrimString_split)

lemma URLDecode_short:
  "URLDecode [a] = (if a = 0x25 then Inl OutOfRange else Inr [a])"
  "URLDecode [a, b] = (if b = 0x25 then Inl OutOfRange else Inr [a, b])"
  by (simp_all add: URLDecode_def URLDecode_loop.simps Let_def char_at_def hex_lo_def hex_hi_def
      split: option.split)

text \<open>
  \<open>URLDecode\<close> reads outside its string exactly when the string has one or two characters and
  ends with a percent sign: the guard \<open>i > len - 3\<close> wraps around below length three.
\<close>

theorem URLDecode_out_of_range:
  "URLDecode s = Inl e \<longleftrightarrow> e = OutOfRange \<and> (length s = 1 \<or> length s = 2) \<and> last s = 0x25"
proof (cases "3 \<le> length s")
  case True
  then obtain r where "URLDecode s = Inr r" using URLDecode_loop_long [of s] by (auto simp: URLDecode_def)
  then show ?thesis using True by auto
next
  case False
  then consider "s = []" | a where "s = [a]" | a b where "s = [a, b]"
    by (cases s; cases "tl s"; cases "tl (tl s)") auto
  then show ?thesis
    by cases (auto simp: URLDecode_short, simp add: URLDecode_def URLDecode_loop.simps [of "[]"])
qed

text \<open>
  Decoding undoes percent-encoding with lower-case digits, whatever further characters are
  encoded beside the percent sign.
\<close>

theorem URLDecode_roundtrip: "URLDecode (percent_encode esc s) = Inr s"
  using URLDecode_loop_encoded [of "percent_encode esc s" "[]" esc s "[]"] by (simp add: URLDecode_def)

text \<open>
  An escape whose first digit is an upper-case letter is decoded to the wrong byte: the
  letters A to F count as 5 to 10 in that place.
\<close>

theorem URLDecode_upper_case:
  "list_all (\<lambda>(h, l). URLDecode [0x25, 0x41 + of_nat h, 0x30 + of_nat l] = Inr [of_nat (16 * (5 + h) + l)])
     (List.product [0..<6] [0..<10])"
  by code_simp

text \<open>
  When the needle is not empty and its first character does not occur in the replacement,
  \<open>ReplaceString\<close> returns, with every occurrence replaced from left to right.
\<close>

theorem ReplaceString_replaces:
  assumes "iNeedle \<noteq> []" and "hd iNeedle \<notin> set iReplaceWith"
  shows "ReplaceString iHayStack iNeedle iReplaceWith = Some (replace_all iNeedle iReplaceWith iHayStack)"
  using assms by (rule ReplaceString_all)

theorem ReplaceString_replaces_witness:
  "ReplaceString [1, 2, 3, 1, 2] [1, 2] [9] = Some (replace_all [1, 2] [9] [1, 2, 3, 1, 2])"
  using ReplaceString_replaces [of "[1, 2]" "[9]" "[1, 2, 3, 1, 2]"] by simp

text \<open>
  \<^bold>\<open>C40.\<close> When the replacement contains the needle and the needle occurs in the text,
  \<open>ReplaceString\<close> never returns: it finds the needle again in what it has just inserted.
\<close>

theorem ReplaceString_diverges:
  assumes "find_string iHayStack iNeedle 0 = Some p" and "find_string iReplaceWith iNeedle 0 = Some j"
  shows "ReplaceString iHayStack iNeedle iReplaceWith = None"
proof (cases "ReplaceString iHayStack iNeedle iReplaceWith")
  case (Some y)
  have "p \<le> length iHayStack" "j \<le> length iReplaceWith" "is_prefix iNeedle (drop j iReplaceWith)"
    using assms by (simp_all add: find_string_Some)
  with ReplaceString_loop_contains [of iHayStack iNeedle iReplaceWith "Some p" y j] Some assms
  show ?thesis by (simp add: ReplaceString_def)
qed

theorem ReplaceString_diverges_witness:
  "ReplaceString [1, 2] [2] [2, 3] = None"
  using ReplaceString_diverges [of "[1, 2]" "[2]" 1 "[2, 3]" 0]
  by (simp add: find_string_def is_prefix_def upt_rec)

text \<open>
  \<open>StripColorCodes\<close> is the single pass that drops each section sign with the character after
  it; it does not look again at what the removals bring together.
\<close>

theorem StripColorCodes_single_pass: "StripColorCodes s = strip_codes s"
  by (rule StripColorCodes_eq)

end
