(* ===== verification/Packetizer.thy ===== *)
theory Packetizer
  imports ByteBufferCodec
begin

text \<open>
  Packets on their way out: the two buffers of \<open>cProtocol\<close> (\<open>Src/Server/Protocol/Protocol.h\<close>), the
  writers of \<open>cPacketizer\<close> (\<open>Protocol/Packetizer.h\<close>, \<open>.cpp\<close>) and \<open>SendPacket\<close> of
  \<open>Protocol/cProtocol_impl.cpp\<close>, which the destructor of \<open>cPacketizer\<close> calls. Each writer ends the
  process when its \<open>VERIFY\<close> fails. The lemmas give the bytes a packet becomes: its length as a
  varint, its type as a varint, its fields.
\<close>

unbundle bit_operations_syntax

section \<open>State\<close>

text \<open>The members of \<open>cProtocol\<close> and \<open>cProtocol_impl\<close>; the client back pointer is the owner.\<close>

record cProtocol =
  m_OutPacketBuffer :: cByteBuffer
  m_OutPacketLenBuffer :: cByteBuffer
  m_ProtoState :: u32
  m_ReceivedData :: cByteBuffer

definition KiB :: nat where
  "KiB = 1024"

text \<open>\<open>garbage\<close> is the initial content of the memory each buffer allocates.\<close>

definition new_cProtocol :: "(nat \<Rightarrow> u8) \<Rightarrow> cProtocol" where
  "new_cProtocol garbage =
     \<lparr>m_OutPacketBuffer = new_cByteBuffer garbage (64 * KiB),
      m_OutPacketLenBuffer = new_cByteBuffer garbage 20,
      m_ProtoState = 1,
      m_ReceivedData = new_cByteBuffer garbage (64 * KiB)\<rparr>"

section \<open>The writers\<close>

text \<open>\<open>VERIFY\<close> of a buffer operation's result.\<close>

definition verify :: "bool \<times> cByteBuffer \<Rightarrow> fault + cByteBuffer" where
  "verify r = (case r of (ok, b) \<Rightarrow> if ok then Inr b else Inl VerifyFailed)"

text \<open>The constructor writes the packet type and ignores the result.\<close>

definition new_cPacketizer :: "u32 \<Rightarrow> cByteBuffer \<Rightarrow> cByteBuffer" where
  "new_cPacketizer a_PacketType m_Out = snd (WriteVarInt32 m_Out a_PacketType)"

definition pkt_WriteBool :: "bool \<Rightarrow> cByteBuffer \<Rightarrow> fault + cByteBuffer" where
  "pkt_WriteBool a_Value m_Out = verify (WriteBool m_Out a_Value)"

definition pkt_WriteBEUInt8 :: "u8 \<Rightarrow> cByteBuffer \<Rightarrow> fault + cByteBuffer" where
  "pkt_WriteBEUInt8 a_Value m_Out = verify (WriteBEUInt8 m_Out a_Value)"

definition pkt_WriteBEInt8 :: "u8 \<Rightarrow> cByteBuffer \<Rightarrow> fault + cByteBuffer" where
  "pkt_WriteBEInt8 a_Value m_Out = verify (WriteBEInt8 m_Out a_Value)"

definition pkt_WriteBEInt16 :: "u16 \<Rightarrow> cByteBuffer \<Rightarrow> fault + cByteBuffer" where
  "pkt_WriteBEInt16 a_Value m_Out = verify (WriteBEInt16 m_Out a_Value)"

definition pkt_WriteBEUInt16 :: "u16 \<Rightarrow> cByteBuffer \<Rightarrow> fault + cByteBuffer" where
  "pkt_WriteBEUInt16 a_Value m_Out = verify (WriteBEUInt16 m_Out a_Value)"

definition pkt_WriteBEInt32 :: "u32 \<Rightarrow> cByteBuffer \<Rightarrow> fault + cByteBuffer" where
  "pkt_WriteBEInt32 a_Value m_Out = verify (WriteBEInt32 m_Out a_Value)"

definition pkt_WriteBEUInt32 :: "u32 \<Rightarrow> cByteBuffer \<Rightarrow> fault + cByteBuffer" where
  "pkt_WriteBEUInt32 a_Value m_Out = verify (WriteBEUInt32 m_Out a_Value)"

definition pkt_WriteBEInt64 :: "u64 \<Rightarrow> cByteBuffer \<Rightarrow> fault + cByteBuffer" where
  "pkt_WriteBEInt64 a_Value m_Out = verify (WriteBEInt64 m_Out a_Value)"

definition pkt_WriteBEUInt64 :: "u64 \<Rightarrow> cByteBuffer \<Rightarrow> fault + cByteBuffer" where
  "pkt_WriteBEUInt64 a_Value m_Out = verify (WriteBEUInt64 m_Out a_Value)"

definition pkt_WriteBEFloat :: "u32 \<Rightarrow> cByteBuffer \<Rightarrow> fault + cByteBuffer" where
  "pkt_WriteBEFloat a_Value m_Out = verify (WriteBEFloat m_Out a_Value)"

definition pkt_WriteBEDouble :: "u64 \<Rightarrow> cByteBuffer \<Rightarrow> fault + cByteBuffer" where
  "pkt_WriteBEDouble a_Value m_Out = verify (WriteBEDouble m_Out a_Value)"

definition pkt_WriteVarInt32 :: "u32 \<Rightarrow> cByteBuffer \<Rightarrow> fault + cByteBuffer" where
  "pkt_WriteVarInt32 a_Value m_Out = verify (WriteVarInt32 m_Out a_Value)"

definition pkt_WriteString :: "AString \<Rightarrow> cByteBuffer \<Rightarrow> fault + cByteBuffer" where
  "pkt_WriteString a_Value m_Out = verify (WriteVarUTF8String m_Out a_Value)"

definition pkt_WriteBuf :: "u8 list \<Rightarrow> cByteBuffer \<Rightarrow> fault + cByteBuffer" where
  "pkt_WriteBuf a_Data m_Out = verify (Write m_Out a_Data)"

definition pkt_WritePosition64 :: "u32 \<Rightarrow> u32 \<Rightarrow> u32 \<Rightarrow> cByteBuffer \<Rightarrow> fault + cByteBuffer" where
  "pkt_WritePosition64 a_BlockX a_BlockY a_BlockZ m_Out =
     verify (WritePosition64 m_Out a_BlockX a_BlockY a_BlockZ)"

text \<open>The value of a hexadecimal digit; any other character counts as 0.\<close>

definition HexDigitValue :: "u8 \<Rightarrow> u8" where
  "HexDigitValue a_Character =
     (if 0x30 \<le> a_Character \<and> a_Character \<le> 0x39 then a_Character - 0x30
      else if 0x61 \<le> a_Character \<and> a_Character \<le> 0x66 then a_Character - 0x61 + 10
      else if 0x41 \<le> a_Character \<and> a_Character \<le> 0x46 then a_Character - 0x41 + 10
      else 0)"

fun pkt_WriteUUID_loop :: "AString \<Rightarrow> cByteBuffer \<Rightarrow> fault + cByteBuffer" where
  "pkt_WriteUUID_loop (h # l # rest) m_Out =
     and_then (verify (WriteBEUInt8 m_Out (push_bit 4 (HexDigitValue h) OR HexDigitValue l)))
       (pkt_WriteUUID_loop rest)"
| "pkt_WriteUUID_loop _ m_Out = Inr m_Out"

definition pkt_WriteUUID :: "AString \<Rightarrow> cByteBuffer \<Rightarrow> fault + cByteBuffer" where
  "pkt_WriteUUID a_UUID m_Out =
     (if length a_UUID \<noteq> 32 then Inr m_Out else pkt_WriteUUID_loop a_UUID m_Out)"

section \<open>Sending\<close>

text \<open>\<open>SendPacket\<close>: the bytes passed to \<open>SendData\<close>, and the protocol with its buffers drained.\<close>

definition SendPacket :: "cProtocol \<Rightarrow> AString \<times> cProtocol" where
  "SendPacket p =
     (let PacketLen = of_nat (GetUsedSpace (m_OutPacketBuffer p)) :: u32;
          len1 = snd (WriteVarInt32 (m_OutPacketLenBuffer p) PacketLen);
          (LenToSend, len2) = ReadAll len1 [];
          len3 = CommitRead len2;
          (DataToSend, out1) = ReadAll (m_OutPacketBuffer p) [];
          out2 = CommitRead out1
      in (LenToSend @ DataToSend,
          p\<lparr>m_OutPacketBuffer := out2, m_OutPacketLenBuffer := len3\<rparr>))"

text \<open>The life of one \<open>cPacketizer\<close>: constructor, writes, destructor.\<close>

definition packet :: "u32 \<Rightarrow> (cByteBuffer \<Rightarrow> fault + cByteBuffer) \<Rightarrow> cProtocol \<Rightarrow> fault + (AString \<times> cProtocol)" where
  "packet a_PacketType writes p =
     and_then (writes (new_cPacketizer a_PacketType (m_OutPacketBuffer p)))
       (\<lambda>out. Inr (SendPacket (p\<lparr>m_OutPacketBuffer := out\<rparr>)))"

section \<open>The bytes of a packet\<close>

definition frame :: "u8 list \<Rightarrow> u8 list" where
  "frame payload = varint_bytes (of_nat (length payload) :: u32) @ payload"

text \<open>Both out buffers are valid and, between packets, hold nothing.\<close>

definition out_ok :: "cProtocol \<Rightarrow> bool" where
  "out_ok p \<longleftrightarrow>
     buffer_ok (m_OutPacketBuffer p) \<and> contents (m_OutPacketBuffer p) = [] \<and>
     capacity (m_OutPacketBuffer p) = 65536 \<and>
     buffer_ok (m_OutPacketLenBuffer p) \<and> contents (m_OutPacketLenBuffer p) = [] \<and>
     capacity (m_OutPacketLenBuffer p) = 20"

text \<open>\<open>pkt_as k e\<close>: the writer \<open>k\<close> appends \<open>e\<close> when there is room.\<close>

definition pkt_as :: "(cByteBuffer \<Rightarrow> fault + cByteBuffer) \<Rightarrow> u8 list \<Rightarrow> bool" where
  "pkt_as k e \<longleftrightarrow>
     (\<forall>b. buffer_ok b \<longrightarrow> length (contents b) + length e \<le> capacity b \<longrightarrow>
        (\<exists>b'. k b = Inr b' \<and> buffer_ok b' \<and> contents b' = contents b @ e \<and>
              consumed b' = consumed b \<and> capacity b' = capacity b))"

lemma pkt_as_verify: "writes_as g e \<Longrightarrow> pkt_as (\<lambda>b. verify (g b)) e"
  unfolding pkt_as_def
proof (intro allI impI)
  fix b assume g: "writes_as g e" and b: "buffer_ok b" and fits: "length (contents b) + length e \<le> capacity b"
  from writes_asE [OF g b fits] obtain b' where "g b = (True, b')" "buffer_ok b'" "consumed b' = consumed b"
      "capacity b' = capacity b" "contents b' = contents b @ e" by metis
  then show "\<exists>b'. verify (g b) = Inr b' \<and> buffer_ok b' \<and> contents b' = contents b @ e \<and>
      consumed b' = consumed b \<and> capacity b' = capacity b" by (simp add: verify_def)
qed

lemma pkt_as_seq:
  assumes "pkt_as k e" and "pkt_as k' e'"
  shows "pkt_as (\<lambda>b. and_then (k b) k') (e @ e')"
  unfolding pkt_as_def
proof (intro allI impI)
  fix b assume b: "buffer_ok b" and fits: "length (contents b) + length (e @ e') \<le> capacity b"
  then obtain b1 where b1: "k b = Inr b1" "buffer_ok b1" "contents b1 = contents b @ e"
      "consumed b1 = consumed b" "capacity b1 = capacity b"
    using assms(1) unfolding pkt_as_def by (metis add_leE length_append add.assoc)
  have "length (contents b1) + length e' \<le> capacity b1"
    using fits b1(3,5) by (simp del: length_contents)
  then obtain b2 where "k' b1 = Inr b2" "buffer_ok b2" "contents b2 = contents b1 @ e'"
      "consumed b2 = consumed b1" "capacity b2 = capacity b1"
    using assms(2) b1(2) unfolding pkt_as_def by blast
  then show "\<exists>b'. and_then (k b) k' = Inr b' \<and> buffer_ok b' \<and> contents b' = contents b @ e @ e' \<and>
      consumed b' = consumed b \<and> capacity b' = capacity b"
    using b1 by simp
qed

lemma pkt_as_none: "pkt_as Inr []"
  by (simp add: pkt_as_def)

lemma pkt_writers:
  "pkt_as (pkt_WriteBEInt32 v) (be_store 4 v)"
  "pkt_as (pkt_WriteBEUInt32 v) (be_store 4 v)"
  "pkt_as (pkt_WriteBEInt64 d) (be_store 8 d)"
  "pkt_as (pkt_WriteVarInt32 v) (varint_bytes v)"
  "pkt_as (pkt_WriteString s) (string_bytes s)"
  unfolding pkt_WriteBEInt32_def pkt_WriteBEUInt32_def pkt_WriteBEInt64_def pkt_WriteVarInt32_def
    pkt_WriteString_def
  by (intro pkt_as_verify writes_all_as write_be write_varint WriteVarUTF8String_writes)+

lemma new_cPacketizer_as:
  assumes "buffer_ok b" and "contents b = []" and "5 \<le> capacity b"
  shows "buffer_ok (new_cPacketizer ty b)" and "contents (new_cPacketizer ty b) = varint_bytes ty"
    and "consumed (new_cPacketizer ty b) = []" and "capacity (new_cPacketizer ty b) = capacity b"
proof -
  have "length (varint_bytes ty) \<le> Suc 4"
    using unsigned_less [of ty, where 'a = nat] by (intro varint_bytes_length) simp_all
  then have fits: "length (contents b) + length (varint_bytes ty) \<le> capacity b"
    using assms(2,3) by (simp del: length_contents)
  have c: "consumed b = []" using assms(2) by (simp add: consumed_def)
  from writes_asE [OF writes_all_as [OF write_varint(1)] assms(1) fits]
  obtain b' where "WriteVarInt32 b ty = (True, b')" "buffer_ok b'" "consumed b' = consumed b"
      "capacity b' = capacity b" "contents b' = contents b @ varint_bytes ty" by metis
  then show "buffer_ok (new_cPacketizer ty b)" "contents (new_cPacketizer ty b) = varint_bytes ty"
    "consumed (new_cPacketizer ty b) = []" "capacity (new_cPacketizer ty b) = capacity b"
    using assms(2) c by (simp_all add: new_cPacketizer_def)
qed

lemma drained:
  assumes "buffer_ok b"
  shows "buffer_ok (CommitRead (snd (ReadAll b [])))" and "contents (CommitRead (snd (ReadAll b []))) = []"
    and "capacity (CommitRead (snd (ReadAll b []))) = capacity b"
  using CommitRead_ok [OF ReadAll_ok(2) [OF assms]] ReadAll_ok [OF assms] by simp_all

lemma ReadAll_contents:
  assumes "buffer_ok b" and "consumed b = []"
  shows "fst (ReadAll b []) = contents b"
  using ReadAll_ok(1) [OF assms(1)] consumed_unread [of b] assms(2) by simp

lemma SendPacket_frame:
  assumes out: "buffer_ok (m_OutPacketBuffer p)" "consumed (m_OutPacketBuffer p) = []"
      "capacity (m_OutPacketBuffer p) = 65536"
    and len: "buffer_ok (m_OutPacketLenBuffer p)" "contents (m_OutPacketLenBuffer p) = []"
      "capacity (m_OutPacketLenBuffer p) = 20"
  shows "fst (SendPacket p) = frame (contents (m_OutPacketBuffer p))" and "out_ok (snd (SendPacket p))"
    and "m_ProtoState (snd (SendPacket p)) = m_ProtoState p"
    and "m_ReceivedData (snd (SendPacket p)) = m_ReceivedData p"
proof -
  define n where "n = (of_nat (GetUsedSpace (m_OutPacketBuffer p)) :: u32)"
  have n: "n = of_nat (length (contents (m_OutPacketBuffer p)))"
    by (simp only: n_def GetUsedSpace_eq [OF out(1)])
  define b where "b = snd (WriteVarInt32 (m_OutPacketLenBuffer p) n)"
  have b: "buffer_ok b" "contents b = varint_bytes n" "consumed b = []" "capacity b = 20"
    using new_cPacketizer_as [OF len(1,2), of n] len(3) by (simp_all add: b_def new_cPacketizer_def)
  have e: "SendPacket p = (fst (ReadAll b []) @ fst (ReadAll (m_OutPacketBuffer p) []),
      p\<lparr>m_OutPacketBuffer := CommitRead (snd (ReadAll (m_OutPacketBuffer p) [])),
        m_OutPacketLenBuffer := CommitRead (snd (ReadAll b []))\<rparr>)"
    by (simp add: SendPacket_def Let_def case_prod_beta flip: n_def b_def)
  show "fst (SendPacket p) = frame (contents (m_OutPacketBuffer p))"
    by (simp add: e ReadAll_contents [OF b(1,3)] ReadAll_contents [OF out(1,2)] b(2) frame_def n)
  show "out_ok (snd (SendPacket p))"
    using drained [OF b(1)] drained [OF out(1)] b(4) out(3) by (simp add: e out_ok_def)
  show "m_ProtoState (snd (SendPacket p)) = m_ProtoState p" "m_ReceivedData (snd (SendPacket p)) = m_ReceivedData p"
    by (simp_all add: e)
qed

text \<open>A packet whose type and fields fit the buffer is sent as one frame and leaves the buffers empty.\<close>

lemma packet_frame:
  assumes "out_ok p" and "pkt_as writes e" and "length (varint_bytes ty) + length e \<le> 65536"
  obtains p' where "packet ty writes p = Inr (frame (varint_bytes ty @ e), p')" and "out_ok p'"
    and "m_ProtoState p' = m_ProtoState p" and "m_ReceivedData p' = m_ReceivedData p"
proof -
  let ?b = "new_cPacketizer ty (m_OutPacketBuffer p)"
  have b: "buffer_ok ?b" "contents ?b = varint_bytes ty" "consumed ?b = []" "capacity ?b = 65536"
    using new_cPacketizer_as [of "m_OutPacketBuffer p" ty] assms(1) by (simp_all add: out_ok_def)
  then have "length (contents ?b) + length e \<le> capacity ?b"
    using assms(3) by (simp del: length_contents)
  then obtain b' where b': "writes ?b = Inr b'" "buffer_ok b'" "contents b' = varint_bytes ty @ e"
      "consumed b' = []" "capacity b' = 65536"
    using assms(2) b unfolding pkt_as_def by metis
  let ?p = "p\<lparr>m_OutPacketBuffer := b'\<rparr>"
  have s: "packet ty writes p = Inr (SendPacket ?p)" by (simp add: packet_def b')
  have o: "buffer_ok (m_OutPacketBuffer ?p)" "consumed (m_OutPacketBuffer ?p) = []"
      "capacity (m_OutPacketBuffer ?p) = 65536" "buffer_ok (m_OutPacketLenBuffer ?p)"
      "contents (m_OutPacketLenBuffer ?p) = []" "capacity (m_OutPacketLenBuffer ?p) = 20"
    using assms(1) b' by (simp_all add: out_ok_def)
  from SendPacket_frame [OF o] b'(3) show thesis
    by (intro that [of "snd (SendPacket ?p)"]) (simp_all add: s prod_eq_iff)
qed

lemma new_cProtocol_out_ok: "out_ok (new_cProtocol g)"
  by (simp add: new_cProtocol_def out_ok_def new_cByteBuffer_ok KiB_def)

lemma varint_length_bounds:
  "length (varint_bytes (v :: u32)) \<le> 5"
  "unat (v :: u32) < 2 ^ 28 \<Longrightarrow> length (varint_bytes v) \<le> 4"
  "unat (v :: u32) < 2097152 \<Longrightarrow> length (varint_bytes v) \<le> 3"
  "unat (v :: u32) < 128 \<Longrightarrow> length (varint_bytes v) \<le> 1"
proof -
  show "length (varint_bytes v) \<le> 5"
    using varint_bytes_length [of v 4] unsigned_less [of v, where 'a = nat] by simp
  show "unat v < 2 ^ 28 \<Longrightarrow> length (varint_bytes v) \<le> 4" using varint_bytes_length [of v 3] by simp
  show "unat v < 2097152 \<Longrightarrow> length (varint_bytes v) \<le> 3" using varint_bytes_length [of v 2] by simp
  show "unat v < 128 \<Longrightarrow> length (varint_bytes v) \<le> 1" using varint_bytes_length [of v 0] by simp
qed

lemma string_bytes_bound:
  "length s \<le> 65536 \<Longrightarrow> length (string_bytes s) \<le> 3 + length s"
  using varint_length_bounds(3) [of "of_nat (length s)"]
  by (simp add: string_bytes_def unat_of_nat)

end
