(* ===== verification/Md5.thy ===== *)
theory Md5
  imports Prelude
begin

text \<open>
  The MD5 digest of \<open>Src/Server/md5.cpp\<close>: the context with its 64-byte buffer, the block transform,
  the streaming \<open>update\<close>, the padding of \<open>final\<close> and the hexadecimal output. The reference is the
  usual one: the message padded to whole blocks, the transform folded over the blocks.
\<close>

unbundle bit_operations_syntax

section \<open>The block transform\<close>

type_synonym md5_state = "u32 \<times> u32 \<times> u32 \<times> u32"

definition md5_F :: "u32 \<Rightarrow> u32 \<Rightarrow> u32 \<Rightarrow> u32" where
  "md5_F x y z = (x AND y) OR (NOT x AND z)"

definition md5_G :: "u32 \<Rightarrow> u32 \<Rightarrow> u32 \<Rightarrow> u32" where
  "md5_G x y z = (x AND z) OR (y AND NOT z)"

definition md5_H :: "u32 \<Rightarrow> u32 \<Rightarrow> u32 \<Rightarrow> u32" where
  "md5_H x y z = x XOR y XOR z"

definition md5_I :: "u32 \<Rightarrow> u32 \<Rightarrow> u32 \<Rightarrow> u32" where
  "md5_I x y z = y XOR (x OR NOT z)"

definition ROTATE_LEFT :: "u32 \<Rightarrow> nat \<Rightarrow> u32" where
  "ROTATE_LEFT x n = push_bit n x OR drop_bit (32 - n) x"

text \<open>
  The 64 steps: the function, the index into the block, the rotation and the constant. The source
  names the registers in the order \<open>a b c d\<close>, \<open>d a b c\<close>, \<open>c d a b\<close>, \<open>b c d a\<close>, and so on; \<open>md5_step\<close>
  rotates the tuple instead, which after 64 steps is back in its first order.
\<close>

definition md5_steps :: "((u32 \<Rightarrow> u32 \<Rightarrow> u32 \<Rightarrow> u32) \<times> nat \<times> nat \<times> u32) list" where
  "md5_steps =
    [(md5_F, 0, 7, 0xd76aa478), (md5_F, 1, 12, 0xe8c7b756), (md5_F, 2, 17, 0x242070db), (md5_F, 3, 22, 0xc1bdceee),
     (md5_F, 4, 7, 0xf57c0faf), (md5_F, 5, 12, 0x4787c62a), (md5_F, 6, 17, 0xa8304613), (md5_F, 7, 22, 0xfd469501),
     (md5_F, 8, 7, 0x698098d8), (md5_F, 9, 12, 0x8b44f7af), (md5_F, 10, 17, 0xffff5bb1), (md5_F, 11, 22, 0x895cd7be),
     (md5_F, 12, 7, 0x6b901122), (md5_F, 13, 12, 0xfd987193), (md5_F, 14, 17, 0xa679438e), (md5_F, 15, 22, 0x49b40821),
     (md5_G, 1, 5, 0xf61e2562), (md5_G, 6, 9, 0xc040b340), (md5_G, 11, 14, 0x265e5a51), (md5_G, 0, 20, 0xe9b6c7aa),
     (md5_G, 5, 5, 0xd62f105d), (md5_G, 10, 9, 0x2441453), (md5_G, 15, 14, 0xd8a1e681), (md5_G, 4, 20, 0xe7d3fbc8),
     (md5_G, 9, 5, 0x21e1cde6), (md5_G, 14, 9, 0xc33707d6), (md5_G, 3, 14, 0xf4d50d87), (md5_G, 8, 20, 0x455a14ed),
     (md5_G, 13, 5, 0xa9e3e905), (md5_G, 2, 9, 0xfcefa3f8), (md5_G, 7, 14, 0x676f02d9), (md5_G, 12, 20, 0x8d2a4c8a),
     (md5_H, 5, 4, 0xfffa3942), (md5_H, 8, 11, 0x8771f681), (md5_H, 11, 16, 0x6d9d6122), (md5_H, 14, 23, 0xfde5380c),
     (md5_H, 1, 4, 0xa4beea44), (md5_H, 4, 11, 0x4bdecfa9), (md5_H, 7, 16, 0xf6bb4b60), (md5_H, 10, 23, 0xbebfbc70),
     (md5_H, 13, 4, 0x289b7ec6), (md5_H, 0, 11, 0xeaa127fa), (md5_H, 3, 16, 0xd4ef3085), (md5_H, 6, 23, 0x4881d05),
     (md5_H, 9, 4, 0xd9d4d039), (md5_H, 12, 11, 0xe6db99e5), (md5_H, 15, 16, 0x1fa27cf8), (md5_H, 2, 23, 0xc4ac5665),
     (md5_I, 0, 6, 0xf4292244), (md5_I, 7, 10, 0x432aff97), (md5_I, 14, 15, 0xab9423a7), (md5_I, 5, 21, 0xfc93a039),
     (md5_I, 12, 6, 0x655b59c3), (md5_I, 3, 10, 0x8f0ccc92), (md5_I, 10, 15, 0xffeff47d), (md5_I, 1, 21, 0x85845dd1),
     (md5_I, 8, 6, 0x6fa87e4f), (md5_I, 15, 10, 0xfe2ce6e0), (md5_I, 6, 15, 0xa3014314), (md5_I, 13, 21, 0x4e0811a1),
     (md5_I, 4, 6, 0xf7537e82), (md5_I, 11, 10, 0xbd3af235), (md5_I, 2, 15, 0x2ad7d2bb), (md5_I, 9, 21, 0xeb86d391)]"

definition md5_step ::
    "u32 list \<Rightarrow> md5_state \<Rightarrow> (u32 \<Rightarrow> u32 \<Rightarrow> u32 \<Rightarrow> u32) \<times> nat \<times> nat \<times> u32 \<Rightarrow> md5_state" where
  "md5_step x st step =
     (case st of (a, b, c, d) \<Rightarrow> case step of (f, k, s, ac) \<Rightarrow>
        (let a1 = a + (f b c d + x ! k + ac);
             a2 = ROTATE_LEFT a1 s;
             a3 = a2 + b
         in (d, a3, b, c)))"

text \<open>\<open>decode\<close> and \<open>encode\<close> between bytes and little-endian words.\<close>

fun md5_decode :: "u8 list \<Rightarrow> u32 list" where
  "md5_decode (b0 # b1 # b2 # b3 # rest) =
     (ucast b0 OR push_bit 8 (ucast b1) OR push_bit 16 (ucast b2) OR push_bit 24 (ucast b3)) #
     md5_decode rest"
| "md5_decode _ = []"

fun md5_encode :: "u32 list \<Rightarrow> u8 list" where
  "md5_encode [] = []"
| "md5_encode (w # ws) =
     [ucast (w AND 0xff), ucast (drop_bit 8 w AND 0xff), ucast (drop_bit 16 w AND 0xff),
      ucast (drop_bit 24 w AND 0xff)] @ md5_encode ws"

definition md5_transform :: "md5_state \<Rightarrow> u8 list \<Rightarrow> md5_state" where
  "md5_transform st block =
     (let x = md5_decode block;
          (a, b, c, d) = foldl (md5_step x) st md5_steps;
          (s0, s1, s2, s3) = st
      in (s0 + a, s1 + b, s2 + c, s3 + d))"

section \<open>The context\<close>

record MD5 =
  md5_st :: md5_state
  md5_count0 :: u32
  md5_count1 :: u32
  md5_buffer :: "u8 list"
  md5_digest :: "u8 list"
  md5_finished :: bool

definition md5_reset :: "MD5 \<Rightarrow> MD5" where
  "md5_reset ctx = ctx\<lparr>md5_finished := False, md5_count0 := 0, md5_count1 := 0,
     md5_st := (0x67452301, 0xefcdab89, 0x98badcfe, 0x10325476)\<rparr>"

text \<open>The default constructor; \<open>garbage\<close> fills the two arrays it leaves uninitialised.\<close>

definition new_MD5 :: "(nat \<Rightarrow> u8) \<Rightarrow> MD5" where
  "new_MD5 garbage = md5_reset
     \<lparr>md5_st = (0, 0, 0, 0), md5_count0 = 0, md5_count1 = 0, md5_buffer = map garbage [0..<64],
      md5_digest = map garbage [0..<16], md5_finished = False\<rparr>"

text \<open>The loop over the whole blocks left in the input; the second component is what it leaves.\<close>

function md5_blocks :: "md5_state \<Rightarrow> u8 list \<Rightarrow> md5_state \<times> u8 list" where
  "md5_blocks st input =
     (if 63 < length input then md5_blocks (md5_transform st (take 64 input)) (drop 64 input)
      else (st, input))"
  by pat_completeness auto
termination
  by (relation "measure (\<lambda>(st, xs). length xs)") auto

declare md5_blocks.simps [simp del]

definition md5_update :: "MD5 \<Rightarrow> u8 list \<Rightarrow> MD5" where
  "md5_update ctx input =
     (let index = unat (drop_bit 3 (md5_count0 ctx) AND 0x3f);
          bits = push_bit 3 (of_nat (length input) :: u32);
          count0 = md5_count0 ctx + bits;
          count1 = (if count0 < bits then md5_count1 ctx + 1 else md5_count1 ctx) +
                   drop_bit 29 (of_nat (length input) :: u32);
          ctx1 = ctx\<lparr>md5_finished := False, md5_count0 := count0, md5_count1 := count1\<rparr>;
          partLen = 64 - index
      in if length input \<ge> partLen then
           (let buf = memcpy_to (md5_buffer ctx1) index (take partLen input);
                (st, rest) = md5_blocks (md5_transform (md5_st ctx1) buf) (drop partLen input)
            in ctx1\<lparr>md5_st := st, md5_buffer := memcpy_to buf 0 rest\<rparr>)
         else ctx1\<lparr>md5_buffer := memcpy_to (md5_buffer ctx1) index input\<rparr>)"

definition PADDING :: "u8 list" where
  "PADDING = 0x80 # replicate 63 0"

definition md5_words :: "md5_state \<Rightarrow> u32 list" where
  "md5_words st = (case st of (a, b, c, d) \<Rightarrow> [a, b, c, d])"

text \<open>\<open>final\<close> puts the state and the count back afterwards, but not the buffer.\<close>

definition md5_final :: "MD5 \<Rightarrow> MD5" where
  "md5_final ctx =
     (let bits = md5_encode [md5_count0 ctx, md5_count1 ctx];
          index = unat (drop_bit 3 (md5_count0 ctx) AND 0x3f);
          padLen = (if index < 56 then 56 - index else 120 - index);
          ctx1 = md5_update ctx (take padLen PADDING);
          ctx2 = md5_update ctx1 bits
      in ctx2\<lparr>md5_digest := md5_encode (md5_words (md5_st ctx2)),
              md5_st := md5_st ctx, md5_count0 := md5_count0 ctx, md5_count1 := md5_count1 ctx\<rparr>)"

definition md5_get_digest :: "MD5 \<Rightarrow> u8 list \<times> MD5" where
  "md5_get_digest ctx =
     (let ctx' = (if \<not> md5_finished ctx then md5_final (ctx\<lparr>md5_finished := True\<rparr>) else ctx)
      in (md5_digest ctx', ctx'))"

definition md5_HEX :: "u8 list" where
  "md5_HEX = ascii ''0123456789abcdef''"

definition bytesToHexString :: "u8 list \<Rightarrow> AString" where
  "bytesToHexString input = concat (map (\<lambda>t. [md5_HEX ! (unat t div 16), md5_HEX ! (unat t mod 16)]) input)"

definition md5_toString :: "MD5 \<Rightarrow> AString" where
  "md5_toString ctx = bytesToHexString (fst (md5_get_digest ctx))"

section \<open>The reference\<close>

function chunks :: "u8 list \<Rightarrow> u8 list list" where
  "chunks xs = (if length xs < 64 then [] else take 64 xs # chunks (drop 64 xs))"
  by pat_completeness auto
termination
  by (relation "measure length") auto

declare chunks.simps [simp del]

definition md5_chain :: "md5_state \<Rightarrow> u8 list \<Rightarrow> md5_state" where
  "md5_chain st xs = foldl md5_transform st (chunks xs)"

definition md5_init :: md5_state where
  "md5_init = (0x67452301, 0xefcdab89, 0x98badcfe, 0x10325476)"

definition md5_pad :: "u8 list \<Rightarrow> u8 list" where
  "md5_pad msg =
     (let n = length msg; k = n mod 64
      in msg @ [0x80] @ replicate (if k < 56 then 55 - k else 119 - k) 0 @ le_store 8 (of_nat (8 * n) :: u64))"

definition md5_hash :: "u8 list \<Rightarrow> u8 list" where
  "md5_hash msg = md5_encode (md5_words (md5_chain md5_init (md5_pad msg)))"

section \<open>Blocks\<close>

definition whole :: "'a list \<Rightarrow> nat" where
  "whole xs = 64 * (length xs div 64)"

lemma chunks_short [simp]: "length xs < 64 \<Longrightarrow> chunks xs = []"
  by (simp add: chunks.simps [of xs])

lemma chunks_step: "length xs = 64 \<Longrightarrow> chunks (xs @ ys) = xs # chunks ys"
  by (simp add: chunks.simps [of "xs @ ys"])

lemma chunks_append: "length xs = 64 * q \<Longrightarrow> chunks (xs @ ys) = chunks xs @ chunks ys"
proof (induction q arbitrary: xs)
  case (Suc q)
  have xs: "length (take 64 xs) = 64" "length (drop 64 xs) = 64 * q" using Suc.prems by simp_all
  have "chunks (xs @ ys) = take 64 xs # chunks (drop 64 xs @ ys)"
    using chunks_step [OF xs(1), of "drop 64 xs @ ys"] by (simp flip: append_assoc)
  moreover have "chunks xs = take 64 xs # chunks (drop 64 xs)"
    using chunks_step [OF xs(1), of "drop 64 xs"] by simp
  ultimately show ?case using Suc.IH [OF xs(2)] by simp
qed simp

lemma chunks_whole: "chunks (take (whole xs) xs) = chunks xs"
proof -
  have "whole xs \<le> length xs" "length (drop (whole xs) xs) < 64" by (simp_all add: whole_def)
  then have "chunks (take (whole xs) xs @ drop (whole xs) xs) = chunks (take (whole xs) xs) @ []"
    by (subst chunks_append [of _ "length xs div 64"]) (simp_all add: whole_def)
  then show ?thesis by simp
qed

lemma whole_step: "64 \<le> length xs \<Longrightarrow> whole xs = 64 + whole (drop 64 xs)"
  by (simp add: whole_def le_div_geq)

lemma md5_blocks_chain: "md5_blocks st xs = (md5_chain st xs, drop (whole xs) xs)"
proof (induction st xs rule: md5_blocks.induct)
  case (1 st xs)
  show ?case
  proof (cases "63 < length xs")
    case True
    then show ?thesis
      using 1 whole_step [of xs] by (simp add: md5_blocks.simps [of st xs] md5_chain_def chunks.simps [of xs] add.commute)
  next
    case False
    then show ?thesis by (simp add: md5_blocks.simps [of st xs] md5_chain_def whole_def)
  qed
qed

lemma md5_chain_append: "length xs = 64 * q \<Longrightarrow> md5_chain st (xs @ ys) = md5_chain (md5_chain st xs) ys"
  by (simp add: md5_chain_def chunks_append)

section \<open>What a context stands for\<close>

text \<open>The context after the bytes \<open>msg\<close>: the bit count as a 64-bit number in two words.\<close>

definition md5_rep :: "MD5 \<Rightarrow> u8 list \<Rightarrow> bool" where
  "md5_rep ctx msg \<longleftrightarrow>
     md5_count0 ctx = of_nat (8 * length msg) \<and> md5_count1 ctx = of_nat (8 * length msg div 2 ^ 32) \<and>
     md5_st ctx = md5_chain md5_init msg \<and> length (md5_buffer ctx) = 64 \<and>
     take (length msg mod 64) (md5_buffer ctx) = drop (whole msg) msg"

lemma md5_index:
  "unat (drop_bit 3 (of_nat (8 * n) :: u32) AND 0x3f) = n mod 64"
proof -
  have m: "(0x3f :: u32) = mask 6" by (simp add: mask_eq_decr_exp)
  have "unat (take_bit 6 (drop_bit 3 (of_nat (8 * n) :: u32))) = unat (drop_bit 3 (of_nat (8 * n) :: u32)) mod 64"
    by (simp only: unsigned_take_bit_eq take_bit_nat_def) simp
  also have "\<dots> = (8 * n mod 2 ^ 32) div 8 mod 64"
    by (simp only: unat_drop unat_of_nat) simp
  also have "8 * n mod 2 ^ 32 = 8 * (n mod 2 ^ 29)"
    using mult_mod_right [of 8 n "2 ^ 29"] by simp
  also have "8 * (n mod 2 ^ 29) div 8 mod 64 = n mod 64"
    by (simp add: mod_mod_cancel)
  finally show ?thesis by (simp only: m take_bit_eq_mask)
qed

lemma count_low: "push_bit 3 (of_nat n :: u32) = of_nat (8 * n)"
  by (simp add: push_bit_eq_mult)

lemma carry_nat:
  fixes a b M :: nat
  assumes "a < M" and "b < M"
  shows "(a + b) mod M < b \<longleftrightarrow> M \<le> a + b" and "(a + b) div M = (if M \<le> a + b then 1 else 0)"
proof -
  have "M \<le> a + b \<Longrightarrow> (a + b) mod M = a + b - M" using assms by (simp add: le_mod_geq)
  then show "(a + b) mod M < b \<longleftrightarrow> M \<le> a + b" using assms by (cases "M \<le> a + b") auto
  show "(a + b) div M = (if M \<le> a + b then 1 else 0)" using assms by (simp add: le_div_geq)
qed

lemma count_carry:
  fixes n m :: nat
  assumes "m < 2 ^ 32"
  shows "(if (of_nat (8 * n) + of_nat (8 * m) :: u32) < of_nat (8 * m)
          then of_nat (8 * n div 2 ^ 32) + 1 else of_nat (8 * n div 2 ^ 32)) + drop_bit 29 (of_nat m :: u32) =
         (of_nat (8 * (n + m) div 2 ^ 32) :: u32)"
proof -
  define M :: nat where "M = 2 ^ 32"
  let ?a = "8 * n mod M" and ?b = "8 * m mod M"
  have ab: "?a < M" "?b < M" by (simp_all add: M_def)
  have u: "unat (of_nat k :: u32) = k mod M" for k by (simp add: unat_of_nat M_def)
  have carry: "(of_nat (8 * n) + of_nat (8 * m) :: u32) < of_nat (8 * m) \<longleftrightarrow> M \<le> ?a + ?b"
    unfolding word_less_nat_alt of_nat_add [symmetric] u using carry_nat(1) [OF ab]
    by (simp only: mod_add_eq)
  have "8 * m div M = m div 2 ^ 29" by (simp add: M_def)
  moreover have "m div 2 ^ 29 < M" using assms by (simp add: M_def)
  ultimately have top: "drop_bit 29 (of_nat m :: u32) = of_nat (8 * m div M)"
    using assms by (simp only: word_unat_eq_iff unat_drop u) (simp add: M_def)
  have sum: "8 * (n + m) div M = 8 * n div M + 8 * m div M + (if M \<le> ?a + ?b then 1 else 0)"
    using div_add1_eq [of "8 * n" "8 * m" M] carry_nat(2) [OF ab] by (simp only: distrib_left)
  show ?thesis unfolding carry top sum M_def [symmetric] by simp
qed

section \<open>Streaming\<close>

lemma md5_reset_rep: "length (md5_buffer ctx) = 64 \<Longrightarrow> md5_rep (md5_reset ctx) []"
  by (simp add: md5_rep_def md5_reset_def md5_chain_def md5_init_def whole_def)

lemma length_whole_rest: "length xs = whole xs + length xs mod 64" "whole xs \<le> length xs"
  "length (drop (whole xs) xs) = length xs mod 64"
  by (simp_all add: whole_def minus_mult_div_eq_mod)

text \<open>A message cut after its whole blocks, the block filled up, and the rest.\<close>

lemma md5_chain_split:
  assumes "length (drop (whole msg) msg @ x) = 64"
  shows "md5_chain st (msg @ x @ y) =
      md5_chain (md5_transform (md5_chain st msg) (drop (whole msg) msg @ x)) y"
    and "drop (whole (msg @ x @ y)) (msg @ x @ y) = drop (whole y) y"
    and "length (msg @ x @ y) mod 64 = length y mod 64"
proof -
  let ?w = "take (whole msg) msg" and ?b = "drop (whole msg) msg @ x"
  have e: "msg @ x @ y = ?w @ ?b @ y" by simp
  have w: "length ?w = 64 * (length msg div 64)" using length_whole_rest(2) by (simp add: whole_def)
  have "md5_chain st (msg @ x @ y) = md5_chain (md5_chain st ?w) (?b @ y)"
    unfolding e by (rule md5_chain_append [OF w])
  also have "md5_chain st ?w = md5_chain st msg" by (simp add: md5_chain_def chunks_whole)
  also have "md5_chain (md5_chain st msg) (?b @ y) = md5_chain (md5_transform (md5_chain st msg) ?b) y"
    using assms by (simp only: md5_chain_def chunks_step) simp
  finally show "md5_chain st (msg @ x @ y) = md5_chain (md5_transform (md5_chain st msg) ?b) y" .
  have l: "length (msg @ x @ y) = 64 * (length msg div 64 + 1) + length y"
    unfolding e using w assms by simp
  show "length (msg @ x @ y) mod 64 = length y mod 64" unfolding l by (rule mod_mult_self4)
  have "whole (msg @ x @ y) = 64 * (length msg div 64 + 1) + whole y" 
    unfolding whole_def l using div_mult_self4 [of 64 "length msg div 64 + 1" "length y"] by (simp only: distrib_left)
  then have "whole (msg @ x @ y) = length (?w @ ?b) + whole y" using w assms by simp
  then show "drop (whole (msg @ x @ y)) (msg @ x @ y) = drop (whole y) y"
    using drop_drop [of "whole y" "length (?w @ ?b)" "(?w @ ?b) @ y"] length_whole_rest(2) [of msg] by (simp add: add.commute)
qed

lemma md5_update_rep:
  assumes "md5_rep ctx msg" and "length input < 2 ^ 32"
  shows "md5_rep (md5_update ctx input) (msg @ input)"
proof -
  let ?n = "length msg" and ?m = "length input" and ?rest = "drop (whole msg) msg"
  let ?k = "?n mod 64" and ?buf = "md5_buffer ctx"
  have r: "md5_count0 ctx = of_nat (8 * ?n)" "md5_count1 ctx = of_nat (8 * ?n div 2 ^ 32)"
    "md5_st ctx = md5_chain md5_init msg" "length ?buf = 64" "take ?k ?buf = ?rest"
    using assms(1) by (simp_all add: md5_rep_def)
  have k: "?k < 64" "length ?rest = ?k" using length_whole_rest(3) [of msg] by simp_all
  define c0 c1 where "c0 = (of_nat (8 * (?n + ?m)) :: u32)" and "c1 = (of_nat (8 * (?n + ?m) div 2 ^ 32) :: u32)"
  have count0: "md5_count0 ctx + push_bit 3 (of_nat ?m) = c0"
    by (simp only: r(1) c0_def count_low) simp
  have count1: "(if c0 < push_bit 3 (of_nat ?m)
        then md5_count1 ctx + 1 else md5_count1 ctx) + drop_bit 29 (of_nat ?m) = c1"
    unfolding count0 [symmetric] r(1,2) c1_def count_low using count_carry [OF assms(2)] .
  have index: "unat (drop_bit 3 (md5_count0 ctx) AND 0x3f) = ?k" by (simp only: r(1) md5_index)
  define ctx1 where "ctx1 = ctx\<lparr>md5_finished := False, md5_count0 := c0, md5_count1 := c1\<rparr>"
  have upd: "md5_update ctx input =
     (if ?m \<ge> 64 - ?k then
        (let buf = memcpy_to ?buf ?k (take (64 - ?k) input);
             (st, rest) = md5_blocks (md5_transform (md5_st ctx) buf) (drop (64 - ?k) input)
         in ctx1\<lparr>md5_st := st, md5_buffer := memcpy_to buf 0 rest\<rparr>)
      else ctx1\<lparr>md5_buffer := memcpy_to ?buf ?k input\<rparr>)"
    unfolding md5_update_def Let_def count0 count1 index ctx1_def by simp
  have counts: "md5_count0 ctx1 = c0" "md5_count1 ctx1 = c1" by (simp_all add: ctx1_def)
  show ?thesis
  proof (cases "?m \<ge> 64 - ?k")
    case True
    let ?x = "take (64 - ?k) input" and ?y = "drop (64 - ?k) input"
    have buf: "memcpy_to ?buf ?k ?x = ?rest @ ?x"
      using True r(4,5) k by (simp add: memcpy_to_def)
    have len: "length (?rest @ ?x) = 64" using True k by simp
    note split = md5_chain_split [OF len, where y = ?y]
    have "md5_update ctx input = ctx1\<lparr>md5_st := md5_chain (md5_transform (md5_chain md5_init msg) (?rest @ ?x)) ?y,
        md5_buffer := memcpy_to (?rest @ ?x) 0 (drop (whole ?y) ?y)\<rparr>"
      using True by (simp add: upd buf md5_blocks_chain r(3) Let_def)
    then have fields: "md5_count0 (md5_update ctx input) = c0" "md5_count1 (md5_update ctx input) = c1"
      "md5_st (md5_update ctx input) = md5_chain md5_init (msg @ ?x @ ?y)"
      "md5_buffer (md5_update ctx input) = memcpy_to (?rest @ ?x) 0 (drop (whole ?y) ?y)"
      using counts split(1) by simp_all
    have small: "length (drop (whole ?y) ?y) < 64" and left: "length (drop (whole ?y) ?y) = length ?y mod 64"
      unfolding length_whole_rest(3) by simp_all
    have fill: "length (memcpy_to b 0 d) = 64 \<and> take (length d) (memcpy_to b 0 d) = d"
      if "length b = 64" "length d < 64" for b d :: "u8 list" using that by (simp add: memcpy_to_def)
    note buffer = fill [OF len small, unfolded left]
    have l: "length (msg @ ?x @ ?y) = ?n + ?m" using True by simp
    have "md5_rep (md5_update ctx input) (msg @ ?x @ ?y)"
      unfolding md5_rep_def fields split(2,3) unfolding l c0_def c1_def using buffer by blast
    then show ?thesis by simp
  next
    case False
    then have small: "?k + ?m < 64" by simp
    have w: "whole (msg @ input) = whole msg"
    proof -
      have "(?n + ?m) div 64 = ?n div 64" using small div_add1_eq [of ?n ?m 64] by simp
      then show ?thesis by (simp add: whole_def)
    qed
    have "(?n + ?m) mod 64 = ?k + ?m" using small by (metis mod_add_left_eq mod_less)
    moreover have "chunks (msg @ input) = chunks msg"
      using chunks_whole [of "msg @ input"] chunks_whole [of msg] length_whole_rest(2) [of msg] by (simp add: w)
    ultimately show ?thesis
      using False r k small length_whole_rest(2) [of msg]
      by (simp add: upd md5_rep_def counts c0_def c1_def ctx1_def w md5_chain_def memcpy_to_def)
  qed
qed

text \<open>The digest: padding and the length are one more update, to a multiple of 64 bytes.\<close>

lemma md5_encode_words: "md5_encode ws = concat (map (le_store 4) ws)"
proof (induction ws)
  case (Cons w ws)
  have "le_store 4 w = [ucast w, ucast (drop_bit 8 w), ucast (drop_bit 16 w), ucast (drop_bit 24 w)]"
    by (simp add: numeral_eq_Suc drop_bit_drop_bit)
  moreover have m: "v AND 0xff = take_bit 8 v" for v :: u32 by (simp add: take_bit_eq_mask mask_eq_decr_exp)
  have "(ucast (v AND 0xff) :: u8) = ucast v" for v :: u32
    unfolding m by (intro bit_word_eqI) (auto simp: bit_simps)
  ultimately show ?case using Cons.IH by simp
qed simp

lemma length_count: "le_store 8 (of_nat n :: u64) = le_store 4 (of_nat n :: u32) @ le_store 4 (of_nat (n div 2 ^ 32) :: u32)"
proof (rule nth_equalityI)
  fix k assume "k < length (le_store 8 (of_nat n :: u64))"
  then have k: "k < 8" by simp
  show "le_store 8 (of_nat n :: u64) ! k = (le_store 4 (of_nat n :: u32) @ le_store 4 (of_nat (n div 2 ^ 32) :: u32)) ! k"
  proof (rule bit_word_eqI)
    fix i assume "i < LENGTH(8)"
    then have i: "i < 8" by simp
    show "bit (le_store 8 (of_nat n :: u64) ! k) i =
      bit ((le_store 4 (of_nat n :: u32) @ le_store 4 (of_nat (n div 2 ^ 32) :: u32)) ! k) i"
    proof (cases "k < 4")
      case True
      then show ?thesis using i k by (simp add: nth_append nth_le_store bit_simps)
    next
      case False
      then obtain j where j: "k = 4 + j" by (metis le_iff_add not_le)
      have "bit (n div 2 ^ 32) m = bit n (32 + m)" for m
        by (simp only: drop_bit_eq_div [symmetric] bit_drop_bit_eq o_apply)
      then show ?thesis using i k j by (simp add: nth_append nth_le_store bit_simps algebra_simps)
    qed
  qed
qed simp

lemma PADDING_take:
  "0 < n \<Longrightarrow> n \<le> 64 \<Longrightarrow> take n PADDING = [0x80] @ replicate (n - 1) 0"
  by (cases n) (simp_all add: PADDING_def)

lemma md5_final_digest:
  assumes "md5_rep ctx msg"
  shows "md5_digest (md5_final ctx) = md5_hash msg"
proof -
  let ?n = "length msg" and ?k = "length msg mod 64"
  define padLen where "padLen = (if ?k < 56 then 56 - ?k else 120 - ?k)"
  define bits where "bits = md5_encode [md5_count0 ctx, md5_count1 ctx]"
  have "0 < (if k < 56 then 56 - k else 120 - k) \<and> (if k < 56 then 56 - k else 120 - k) \<le> 64"
    if "k < 64" for k :: nat using that by auto
  from this [of ?k] have pad: "0 < padLen" "padLen \<le> 64" by (simp_all add: padLen_def)
  let ?ctx2 = "md5_update (md5_update ctx (take padLen PADDING)) bits"
  have idx: "unat (drop_bit 3 (md5_count0 ctx) AND 0x3f) = ?k"
    using assms by (simp only: md5_rep_def md5_index)
  have bits: "bits = le_store 8 (of_nat (8 * ?n) :: u64)"
    using assms by (simp only: bits_def md5_rep_def length_count md5_encode_words list.map concat.simps append_Nil2)
  have "md5_rep (md5_update ctx (take padLen PADDING)) (msg @ take padLen PADDING)"
    using pad by (intro md5_update_rep assms) (simp add: PADDING_def)
  then have "md5_rep ?ctx2 ((msg @ take padLen PADDING) @ bits)"
    by (rule md5_update_rep) (simp add: bits)
  moreover have "padLen - 1 = (if ?k < 56 then 55 - ?k else 119 - ?k)" by (simp add: padLen_def)
  then have "(msg @ take padLen PADDING) @ bits = md5_pad msg"
    unfolding PADDING_take [OF pad] by (simp add: md5_pad_def Let_def bits)
  moreover have "md5_digest (md5_final ctx) = md5_encode (md5_words (md5_st ?ctx2))"
    by (simp only: md5_final_def Let_def idx padLen_def bits_def) simp
  ultimately show ?thesis by (simp add: md5_rep_def md5_hash_def)
qed

lemma md5_updates_rep:
  "md5_rep ctx msg \<Longrightarrow> (\<And>p. p \<in> set parts \<Longrightarrow> length p \<le> 2 ^ 32 - 64) \<Longrightarrow>
   md5_rep (foldl md5_update ctx parts) (msg @ concat parts)"
proof (induction parts arbitrary: ctx msg)
  case (Cons p parts)
  have "md5_rep (md5_update ctx p) (msg @ p)" using Cons.prems(2) [of p] by (intro md5_update_rep Cons.prems(1)) simp
  from Cons.IH [OF this] Cons.prems(2) show ?case by simp
qed simp

lemma md5_new_rep: "md5_rep (md5_reset (new_MD5 garbage)) []"
  by (intro md5_reset_rep) (simp add: new_MD5_def md5_reset_def)

lemma md5_finished_update [simp]: "md5_finished (md5_update ctx d) = False"
  by (simp add: md5_update_def Let_def split: prod.split)

lemma md5_toString_hash:
  "md5_rep ctx msg \<Longrightarrow> \<not> md5_finished ctx \<Longrightarrow> md5_toString ctx = bytesToHexString (md5_hash msg)"
proof -
  assume r: "md5_rep ctx msg" and f: "\<not> md5_finished ctx"
  then have "md5_rep (ctx\<lparr>md5_finished := True\<rparr>) msg" by (simp add: md5_rep_def)
  from md5_final_digest [OF this] f show ?thesis by (simp add: md5_toString_def md5_get_digest_def)
qed

lemma md5_finished_updates: "\<not> md5_finished ctx \<Longrightarrow> \<not> md5_finished (foldl md5_update ctx parts)"
  by (induction parts arbitrary: ctx) simp_all

section \<open>The properties\<close>

text \<open>Lengths of digests and of their texts.\<close>

lemma length_md5_encode: "length (md5_encode ws) = 4 * length ws"
  by (induction ws) simp_all

lemma length_bytesToHexString: "length (bytesToHexString bs) = 2 * length bs"
  by (induction bs) (simp_all add: bytesToHexString_def)

lemma length_md5_toString: "\<not> md5_finished ctx \<Longrightarrow> length (md5_toString ctx) = 32"
  by (simp add: md5_toString_def md5_get_digest_def md5_final_def Let_def length_bytesToHexString
      length_md5_encode md5_words_def split: prod.split)

lemma length_md5_hash: "length (md5_hash msg) = 16"
  by (simp add: md5_hash_def length_md5_encode md5_words_def split: prod.split)

text \<open>
  \<^bold>\<open>C34.\<close> Streaming MD5 is MD5: however a message is cut into the parts passed to \<open>update\<close>, the text
  returned by \<open>toString\<close> is the hexadecimal form of the digest of the whole message, padded and
  hashed block by block. A part may have up to \<open>2 ^ 32 - 64\<close> bytes; beyond, the 32-bit index of
  the loop of \<open>update\<close> wraps.
\<close>
theorem md5_streaming:
  assumes "\<forall>p \<in> set parts. length p \<le> 2 ^ 32 - 64"
  shows "md5_toString (foldl md5_update (md5_reset (new_MD5 garbage)) parts) =
    bytesToHexString (md5_hash (concat parts))"
proof -
  have "md5_rep (foldl md5_update (md5_reset (new_MD5 garbage)) parts) ([] @ concat parts)"
    using assms by (intro md5_updates_rep md5_new_rep) blast
  moreover have "\<not> md5_finished (foldl md5_update (md5_reset (new_MD5 garbage)) parts)"
    by (intro md5_finished_updates) (simp add: md5_reset_def)
  ultimately show ?thesis by (simp add: md5_toString_hash)
qed

theorem md5_streaming_witness:
  "md5_toString (foldl md5_update (md5_reset (new_MD5 (\<lambda>_. 7))) [ascii ''ab'', [], ascii ''c'']) =
    bytesToHexString (md5_hash (ascii ''abc''))"
  using md5_streaming [of "[ascii ''ab'', [], ascii ''c'']" "\<lambda>_. 7"] by (simp add: ascii_def)

end
