(* ===== verification/Base64.thy ===== *)
theory Base64
  imports Prelude
begin

text \<open>
  The Base64 coding of \<open>Src/Common/StringUtils.cpp\<close>. The decoder gathers the six bits of each
  character into a zeroed string at a running bit offset; an access outside that string is a fault.
\<close>

unbundle bit_operations_syntax

section \<open>Decoding\<close>

text \<open>\<open>-1\<close> is the padding character, \<open>-2\<close> any character that is skipped.\<close>

definition UnBase64 :: "u8 \<Rightarrow> int" where
  "UnBase64 c =
     (if 0x41 \<le> c \<and> c \<le> 0x5a then int (unat c) - 0x41
      else if 0x61 \<le> c \<and> c \<le> 0x7a then int (unat c) - 0x61 + 26
      else if 0x30 \<le> c \<and> c \<le> 0x39 then int (unat c) - 0x30 + 52
      else if c = 0x2b then 62
      else if c = 0x2f then 63
      else if c = 0x3d then - 1
      else - 2)"

definition or_at :: "u8 list \<Rightarrow> nat \<Rightarrow> u8 \<Rightarrow> fault + u8 list" where
  "or_at res k v = (if k < length res then Inr (res[k := res ! k OR v]) else Inl OutOfRange)"

text \<open>The switch on the offset: six bits go into one byte or are split over two.\<close>

definition put_bits :: "u8 list \<Rightarrow> nat \<Rightarrow> u8 \<Rightarrow> fault + u8 list" where
  "put_bits res ofs c =
     (let k = ofs div 8; r = ofs mod 8
      in if r = 0 then or_at res k (push_bit 2 c)
         else if r = 6 then and_then (or_at res k (drop_bit 4 c)) (\<lambda>res. or_at res (k + 1) (push_bit 4 c))
         else if r = 4 then and_then (or_at res k (drop_bit 2 c)) (\<lambda>res. or_at res (k + 1) (push_bit 6 c))
         else if r = 2 then or_at res k c
         else Inr res)"

fun Base64Decode_loop :: "AString \<Rightarrow> nat \<Rightarrow> u8 list \<Rightarrow> fault + AString" where
  "Base64Decode_loop [] ofs res = Inr (take (ofs div 8) res)"
| "Base64Decode_loop (ch # cs) ofs res =
     (let c = UnBase64 ch
      in if c \<ge> 0 then and_then (put_bits res ofs (of_int c)) (Base64Decode_loop cs (ofs + 6))
         else if c = - 1 then Inr (take (ofs div 8) res)
         else Base64Decode_loop cs ofs res)"

definition Base64Decode :: "AString \<Rightarrow> fault + AString" where
  "Base64Decode a_Base64String =
     Base64Decode_loop a_Base64String 0 (replicate ((length a_Base64String * 4) div 3 + 5) 0)"

section \<open>Encoding\<close>

definition BASE64 :: "u8 list" where
  "BASE64 = ascii ''ABCDEFGHIJKLMNOPQRSTUVWXYZabcdefghijklmnopqrstuvwxyz0123456789+/''"

definition base64_char :: "u8 \<Rightarrow> u8" where
  "base64_char v = BASE64 ! unat v"

fun Base64Encode :: "AString \<Rightarrow> AString" where
  "Base64Encode (b0 # b1 # b2 # rest) =
     [base64_char (drop_bit 2 b0),
      base64_char ((push_bit 4 b0 OR drop_bit 4 b1) AND 63),
      base64_char ((push_bit 2 b1 OR drop_bit 6 b2) AND 63),
      base64_char (b2 AND 63)] @ Base64Encode rest"
| "Base64Encode [b0, b1] =
     [base64_char (drop_bit 2 b0), base64_char ((push_bit 4 b0 OR drop_bit 4 b1) AND 63),
      base64_char (push_bit 2 b1 AND 63), 0x3d]"
| "Base64Encode [b0] = [base64_char (drop_bit 2 b0), base64_char (push_bit 4 b0 AND 63), 0x3d, 0x3d]"
| "Base64Encode [] = []"

section \<open>The characters\<close>

lemma BASE64_decoded: "map UnBase64 BASE64 = [0..63]"
proof -
  have "map UnBase64 BASE64 = [0,1,2,3,4,5,6,7,8,9,10,11,12,13,14,15,16,17,18,19,20,21,22,23,24,25,26,27,28,29,30,31,
    32,33,34,35,36,37,38,39,40,41,42,43,44,45,46,47,48,49,50,51,52,53,54,55,56,57,58,59,60,61,62,63]"
    by (simp add: BASE64_def ascii_def UnBase64_def)
  also have "\<dots> = [0..63]" by (simp add: upto_rec1)
  finally show ?thesis .
qed

lemma UnBase64_char: "unat v < 64 \<Longrightarrow> UnBase64 (base64_char v) = int (unat v)"
proof -
  assume v: "unat v < 64"
  have "length BASE64 = 64" using arg_cong [OF BASE64_decoded, of length] by simp
  then have "UnBase64 (BASE64 ! unat v) = [0..63] ! unat v"
    using v by (simp add: flip: BASE64_decoded)
  moreover have "[0..63] ! k = int k" if "k < 64" for k :: nat using that nth_upto [of 0 k 63] by simp
  ultimately show ?thesis using v by (simp add: base64_char_def del: of_nat_unat)
qed

lemma six_bits: "unat ((w :: u8) AND 63) < 64" "unat (drop_bit 2 (w :: u8)) < 64"
proof -
  have "(63 :: u8) = mask 6" by (simp add: mask_eq_decr_exp)
  then have "unat (w AND 63) = unat w mod 64"
    by (simp only: take_bit_eq_mask [symmetric] unsigned_take_bit_eq take_bit_nat_def) simp
  then show "unat (w AND 63) < 64" by simp
  show "unat (drop_bit 2 w) < 64" using unsigned_less [of w, where 'a = nat] by (simp add: unat_drop)
qed

text \<open>One encoded character decodes to its six bits.\<close>

lemma decode_char:
  "unat v < 64 \<Longrightarrow> Base64Decode_loop (base64_char v # cs) ofs res =
     and_then (put_bits res ofs v) (Base64Decode_loop cs (ofs + 6))"
  by (simp add: UnBase64_char)

lemmas decode_chars = decode_char [OF six_bits(1)] decode_char [OF six_bits(2)]

lemma or_at_append: "or_at (xs @ y # ys) (length xs) v = Inr (xs @ (y OR v) # ys)"
  by (simp add: or_at_def)

lemma or_at_append2: "or_at (xs @ x # y # ys) (Suc (length xs)) v = Inr (xs @ x # (y OR v) # ys)"
  by (simp add: or_at_def nth_append list_update_append)

lemma mask_63: "(63 :: u8) = mask 6"
  by (simp add: mask_eq_decr_exp)

lemma byte_eqI:
  assumes "bit a 0 = bit b 0" and "bit a (Suc 0) = bit b (Suc 0)" and "bit a 2 = bit b 2" and "bit a 3 = bit b 3"
    and "bit a 4 = bit b 4" and "bit a 5 = bit b 5" and "bit a 6 = bit b 6" and "bit a 7 = bit b 7"
  shows "a = (b :: u8)"
proof (rule bit_word_eqI)
  fix i assume "i < LENGTH(8)"
  then have "i = 0 \<or> i = Suc 0 \<or> i = 2 \<or> i = 3 \<or> i = 4 \<or> i = 5 \<or> i = 6 \<or> i = 7" by auto
  then show "bit a i = bit b i" using assms by auto
qed

text \<open>The bytes of a group, from the six-bit pieces they were cut into.\<close>

lemma group_byte0: "push_bit 2 (drop_bit 2 b0) OR drop_bit 4 ((push_bit 4 b0 OR drop_bit 4 b1) AND 63) = (b0 :: u8)"
  unfolding mask_63 by (rule byte_eqI; simp add: bit_simps)

lemma group_byte1:
  "push_bit 4 ((push_bit 4 b0 OR drop_bit 4 b1) AND 63) OR drop_bit 2 ((push_bit 2 b1 OR drop_bit 6 b2) AND 63) = (b1 :: u8)"
  unfolding mask_63 by (rule byte_eqI; simp add: bit_simps)

lemma group_byte2: "push_bit 6 ((push_bit 2 b1 OR drop_bit 6 b2) AND 63) OR (b2 AND 63) = (b2 :: u8)"
  unfolding mask_63 by (rule byte_eqI; simp add: bit_simps)

lemma group_byte1_last:
  "push_bit 4 ((push_bit 4 b0 OR drop_bit 4 b1) AND 63) OR drop_bit 2 (push_bit 2 b1 AND 63) = (b1 :: u8)"
  unfolding mask_63 by (rule byte_eqI; simp add: bit_simps)

lemma group_byte0_last: "push_bit 2 (drop_bit 2 b0) OR drop_bit 4 (push_bit 4 b0 AND 63) = (b0 :: u8)"
  unfolding mask_63 by (rule byte_eqI; simp add: bit_simps)

lemmas group_bytes = group_byte0 group_byte1 group_byte2 group_byte1_last group_byte0_last

lemma offset_parts:
  "(8 * n) div 8 = (n :: nat)" "(8 * n) mod 8 = (0 :: nat)" "(8 * n + 6) div 8 = n" "(8 * n + 6) mod 8 = 6"
  "(8 * n + 12) div 8 = n + 1" "(8 * n + 12) mod 8 = 4" "(8 * n + 18) div 8 = n + 2" "(8 * n + 18) mod 8 = 2"
  by presburger+

lemma put_bits_at:
  assumes "length res = n"
  shows "put_bits (res @ y # ys) (8 * n) v = Inr (res @ (y OR push_bit 2 v) # ys)"
    and "put_bits (res @ y # z # ys) (8 * n + 6) v = Inr (res @ (y OR drop_bit 4 v) # (z OR push_bit 4 v) # ys)"
    and "put_bits (res @ x # y # z # ys) (8 * n + 12) v = Inr (res @ x # (y OR drop_bit 2 v) # (z OR push_bit 6 v) # ys)"
    and "put_bits (res @ w # x # y # ys) (8 * n + 18) v = Inr (res @ w # x # (y OR v) # ys)"
  unfolding put_bits_def Let_def offset_parts using assms
  by (simp_all add: or_at_def nth_append list_update_append)

text \<open>Whole groups, and the two ways a text can end.\<close>

lemma decode_group:
  assumes "length res = n"
  shows "Base64Decode_loop (base64_char (drop_bit 2 b0) # base64_char ((push_bit 4 b0 OR drop_bit 4 b1) AND 63) #
      base64_char ((push_bit 2 b1 OR drop_bit 6 b2) AND 63) # base64_char (b2 AND 63) # cs) (8 * n)
      (res @ 0 # 0 # 0 # ys) =
    Base64Decode_loop cs (8 * (n + 3)) ((res @ [b0, b1, b2]) @ ys)"
proof -
  have o: "8 * n + 6 + 6 = 8 * n + 12" "8 * n + 12 + 6 = 8 * n + 18" "8 * n + 18 + 6 = 8 * (n + 3)" by simp_all
  show ?thesis
    by (simp only: decode_chars o put_bits_at [OF assms] and_then_simps or.left_neutral group_bytes
        append.assoc append_Cons append_Nil)
qed

lemma decode_pad: "Base64Decode_loop (0x3d # cs) ofs res = Inr (take (ofs div 8) res)"
  by (simp add: UnBase64_def)

lemma decode_two:
  assumes "length res = n"
  shows "Base64Decode_loop [base64_char (drop_bit 2 b0), base64_char ((push_bit 4 b0 OR drop_bit 4 b1) AND 63),
      base64_char (push_bit 2 b1 AND 63), 0x3d] (8 * n) (res @ 0 # 0 # 0 # ys) = Inr (res @ [b0, b1])"
proof -
  have o: "8 * n + 6 + 6 = 8 * n + 12" "8 * n + 12 + 6 = 8 * n + 18" by simp_all
  show ?thesis
    by (simp only: decode_chars decode_pad o put_bits_at [OF assms] and_then_simps offset_parts or.left_neutral group_bytes)
      (simp add: assms)
qed

lemma decode_one:
  assumes "length res = n"
  shows "Base64Decode_loop [base64_char (drop_bit 2 b0), base64_char (push_bit 4 b0 AND 63), 0x3d, 0x3d] (8 * n)
    (res @ 0 # 0 # ys) = Inr (res @ [b0])"
proof -
  have o: "8 * n + 6 + 6 = 8 * n + 12" by simp
  show ?thesis
    by (simp only: decode_chars decode_pad o put_bits_at [OF assms] and_then_simps offset_parts or.left_neutral group_bytes)
      (simp add: assms)
qed

lemma decode_encoded:
  "length res = n \<Longrightarrow> length s + 3 \<le> m \<Longrightarrow>
   Base64Decode_loop (Base64Encode s) (8 * n) (res @ replicate m 0) = Inr (res @ s)"
proof (induction s arbitrary: res n m rule: Base64Encode.induct)
  case (1 b0 b1 b2 rest)
  define k where "k = m - 3"
  have m: "m = Suc (Suc (Suc k))" and k: "length rest + 3 \<le> k" using "1.prems"(2) by (simp_all add: k_def)
  show ?case
    using "1.IH" [of "res @ [b0, b1, b2]" "n + 3" k] "1.prems"(1) k
    by (simp add: m decode_group [OF "1.prems"(1)] del: Base64Decode_loop.simps(2))
next
  case (2 b0 b1)
  define k where "k = m - 3"
  have m: "m = Suc (Suc (Suc k))" using "2.prems"(2) by (simp add: k_def)
  show ?case by (simp add: m decode_two [OF "2.prems"(1)] del: Base64Decode_loop.simps(2))
next
  case (3 b0)
  define k where "k = m - 2"
  have m: "m = Suc (Suc k)" using "3.prems"(2) by (simp add: k_def)
  show ?case by (simp add: m decode_one [OF "3.prems"(1)] del: Base64Decode_loop.simps(2))
next
  case 4
  then show ?case by simp
qed

lemma length_Base64Encode: "length (Base64Encode s) = (length s + 2) div 3 * 4"
proof (induction s rule: Base64Encode.induct)
  case (1 b0 b1 b2 rest)
  have "(length (b0 # b1 # b2 # rest) + 2) div 3 = Suc ((length rest + 2) div 3)" by simp
  then show ?case using 1 by simp
qed simp_all

section \<open>No access outside the result\<close>

text \<open>The characters that count: the ones of the alphabet before the first padding character.\<close>

definition counted :: "AString \<Rightarrow> AString" where
  "counted s = filter (\<lambda>c. UnBase64 c \<ge> 0) (takeWhile (\<lambda>c. UnBase64 c \<noteq> - 1) s)"

lemma put_bits_room:
  assumes "ofs div 8 + 1 < length res"
  obtains res' where "put_bits res ofs c = Inr res'" and "length res' = length res"
proof -
  have "\<exists>res'. put_bits res ofs c = Inr res' \<and> length res' = length res"
    using assms by (auto simp: put_bits_def or_at_def Let_def)
  then show thesis using that by blast
qed

lemma decode_loop_total:
  "(ofs + 6 * length s) div 8 + 1 < length res \<Longrightarrow>
   \<exists>r. Base64Decode_loop s ofs res = Inr r \<and> length r = (ofs + 6 * length (counted s)) div 8"
proof (induction s arbitrary: ofs res)
  case Nil
  then show ?case by (simp add: counted_def)
next
  case (Cons c cs)
  have more: "ofs div 8 \<le> (ofs + 6 * length (c # cs)) div 8" by (intro div_le_mono) simp
  consider "UnBase64 c \<ge> 0" | "UnBase64 c = - 1" | "UnBase64 c < 0" "UnBase64 c \<noteq> - 1" by linarith
  then show ?case
  proof cases
    case 1
    obtain res' where r: "put_bits res ofs (of_int (UnBase64 c)) = Inr res'" "length res' = length res"
      using put_bits_room [of ofs res] Cons.prems more by (metis order_le_less_trans add_le_mono1)
    have "(ofs + 6 + 6 * length cs) div 8 + 1 < length res'" using Cons.prems r(2) by (simp add: ac_simps)
    from Cons.IH [OF this] 1 r show ?thesis by (auto simp: counted_def ac_simps)
  next
    case 2
    then show ?thesis using Cons.prems more by (simp add: counted_def)
  next
    case 3
    have "(ofs + 6 * length cs) div 8 \<le> (ofs + 6 * length (c # cs)) div 8" by (intro div_le_mono) simp
    then have "(ofs + 6 * length cs) div 8 + 1 < length res" using Cons.prems by linarith
    from Cons.IH [OF this] 3 show ?thesis by (auto simp: counted_def)
  qed
qed

section \<open>The properties\<close>

text \<open>
  \<^bold>\<open>C35.\<close> Decoding undoes encoding: \<open>Base64Decode (Base64Encode s)\<close> is \<open>s\<close>, for every byte string, whatever
  its length modulo three.
\<close>
theorem Base64_roundtrip: "Base64Decode (Base64Encode s) = Inr s"
proof -
  have "length s + 3 \<le> length (Base64Encode s) * 4 div 3 + 5"
    unfolding length_Base64Encode by linarith
  from decode_encoded [of "[]" 0 s, OF _ this] show ?thesis by (simp add: Base64Decode_def)
qed

text \<open>
  On any text at all \<open>Base64Decode\<close> stays inside the result string it allocated, and returns as many
  bytes as are complete in the six bits of each counted character, those of the alphabet before the
  first \<open>=\<close>.
\<close>
theorem Base64Decode_in_bounds:
  "\<exists>r. Base64Decode s = Inr r \<and> length r = 6 * length (counted s) div 8"
proof -
  have "(0 + 6 * length s) div 8 + 1 < length (replicate (length s * 4 div 3 + 5) (0 :: u8))" by simp
  from decode_loop_total [OF this] show ?thesis by (simp add: Base64Decode_def)
qed

end
