(* ===== verification/ServerState.thy ===== *)
theory ServerState
  imports Packetizer Md5
begin

text \<open>
  The state of the server process (\<open>Src/Server\<close>): client handles in an object store, the server's
  lists, the authenticator's queue, the root's command queue and the clock. An address of a
  \<open>cClientHandle\<close> is its position in \<open>objects\<close>; objects are only added, so a pointer stays valid.
  A function of the source that changes this state takes the world and returns the new one, or the
  fault that ended the execution.
\<close>

section \<open>Client states\<close>

datatype eState = csConnected | csAuthenticating | csAuthenticated | csWorking | csDestroying | csDestroyed

fun eState_num :: "eState \<Rightarrow> nat" where
  "eState_num csConnected = 0"
| "eState_num csAuthenticating = 1"
| "eState_num csAuthenticated = 2"
| "eState_num csWorking = 3"
| "eState_num csDestroying = 4"
| "eState_num csDestroyed = 5"

lemma eState_num_inj: "eState_num a = eState_num b \<Longrightarrow> a = b"
  by (cases a; cases b) simp_all

text \<open>The source compares states by their position in the enumeration.\<close>

instantiation eState :: linorder
begin

definition less_eq_eState :: "eState \<Rightarrow> eState \<Rightarrow> bool" where
  "less_eq_eState a b \<longleftrightarrow> eState_num a \<le> eState_num b"

definition less_eState :: "eState \<Rightarrow> eState \<Rightarrow> bool" where
  "less_eState a b \<longleftrightarrow> eState_num a < eState_num b"

instance
  by standard (auto simp: less_eq_eState_def less_eState_def dest: eState_num_inj)

end

lemmas eState_order = less_eq_eState_def less_eState_def

section \<open>Objects\<close>

text \<open>
  Times are milliseconds of the steady clock. \<open>m_Link\<close> is the link when it is not null; its value is
  every byte passed to its \<open>Send\<close>, which is what the link promises to deliver in order.
  \<open>sent\<close> keeps those bytes after the link is reset.
\<close>

record cClientHandle =
  m_IPString :: AString
  m_Username :: AString
  m_Password :: AString
  m_Protocol :: cProtocol
  m_IncomingData :: AString
  m_OutgoingData :: AString
  m_HasSentDC :: bool
  m_TicksSinceLastPacket :: int
  m_Ping :: int
  m_PingID :: u32
  m_PingStartTime :: int
  m_State :: eState
  m_UniqueID :: int
  m_Link :: bool
  sent :: AString

record cUser =
  user_ClientID :: int
  user_Username :: AString
  user_Password :: AString

record world =
  objects :: "cClientHandle list"
  s_ClientCount :: int
  m_Clients :: "nat list"
  m_ClientsToRemove :: "nat list"
  m_PlayerCount :: int
  m_PlayerCountDiff :: int
  m_bIsConnected :: bool
  m_bRestarting :: bool
  m_Port :: int
  m_ServerID :: AString
  m_Queue :: "cUser list"
  m_ShouldStop :: bool
  m_bRestart :: bool
  m_PendingCommands :: "AString list"
  console :: "AString list"
  now :: int
  uninit :: "nat \<Rightarrow> u8"

definition set_client :: "nat \<Rightarrow> cClientHandle \<Rightarrow> world \<Rightarrow> world" where
  "set_client c x w = w\<lparr>objects := (objects w)[c := x]\<rparr>"

definition upd_client :: "nat \<Rightarrow> (cClientHandle \<Rightarrow> cClientHandle) \<Rightarrow> world \<Rightarrow> world" where
  "upd_client c f w = set_client c (f (objects w ! c)) w"

definition client :: "world \<Rightarrow> nat \<Rightarrow> cClientHandle" where
  "client w c = objects w ! c"

definition protocol :: "world \<Rightarrow> nat \<Rightarrow> cProtocol" where
  "protocol w c = m_Protocol (client w c)"

lemma client_upd_same [simp]: "c < length (objects w) \<Longrightarrow> client (upd_client c f w) c = f (client w c)"
  by (simp add: client_def upd_client_def set_client_def)

lemma client_upd_other [simp]: "d \<noteq> c \<Longrightarrow> client (upd_client c f w) d = client w d"
  by (simp add: client_def upd_client_def set_client_def)

lemma length_objects_upd [simp]: "length (objects (upd_client c f w)) = length (objects w)"
  by (simp add: upd_client_def set_client_def)

lemma upd_client_rest [simp]:
  "s_ClientCount (upd_client c f w) = s_ClientCount w"
  "m_Clients (upd_client c f w) = m_Clients w"
  "m_ClientsToRemove (upd_client c f w) = m_ClientsToRemove w"
  "m_Queue (upd_client c f w) = m_Queue w"
  "now (upd_client c f w) = now w"
  "uninit (upd_client c f w) = uninit w"
  "m_bRestarting (upd_client c f w) = m_bRestarting w"
  by (simp_all add: upd_client_def set_client_def)

section \<open>Error codes\<close>

text \<open>\<open>Include/ErrorCode.h\<close>.\<close>

abbreviation (input) "ERROR_CODE_ACCOUNT_AUTH_OK \<equiv> (1 :: int)"
abbreviation (input) "ERROR_CODE_ACCOUNT_NOT_MATCH \<equiv> (0 :: int)"
abbreviation (input) "ERROR_CODE_ACCOUNT_NOT_EXIST \<equiv> (- 1 :: int)"
abbreviation (input) "ERROR_CODE_ACCOUNT_ALREADY_LOGIN \<equiv> (- 2 :: int)"
abbreviation (input) "ERROR_CODE_ACCOUNT_OTHER_LOGIN \<equiv> (- 3 :: int)"
abbreviation (input) "ERROR_CODE_PACKET_ERROR \<equiv> (- 4 :: int)"
abbreviation (input) "ERROR_CODE_PACKET_UNKONWN \<equiv> (- 5 :: int)"
abbreviation (input) "ERROR_CODE_SERVER_BUSY \<equiv> (- 6 :: int)"
abbreviation (input) "ERROR_CODE_SERVER_SHUTDOWN \<equiv> (- 7 :: int)"
abbreviation (input) "ERROR_CODE_CLIENT_TIMEOUT \<equiv> (- 8 :: int)"
abbreviation (input) "ERROR_CODE_BAD_APP \<equiv> (- 11 :: int)"

end
