(* ===== verification/PacketInput.thy ===== *)
theory PacketInput
  imports Packetizer "HOL-Library.While_Combinator"
begin

text \<open>
  Packets on their way in. \<open>AddReceivedData\<close> of the server (\<open>Src/Server/Protocol/cProtocol_impl.cpp\<close>)
  and of the client (\<open>Src/Client/peer_connection_client.cpp\<close>) begin each turn of their loop with the
  same statements, which cut the next complete packet out of the received data: \<open>cut_packet\<close>. The
  locale \<open>packet_reader\<close> is the loop of either, over any state that owns such a buffer.
\<close>

section \<open>Cutting a packet\<close>

text \<open>
  The received data with the packet taken out and the packet in a buffer of its own, or \<open>None\<close> when
  the packet is not complete; \<open>memory\<close> is the initial content of the new buffer.
\<close>

definition cut_packet :: "(nat \<Rightarrow> u8) \<Rightarrow> cByteBuffer \<Rightarrow> fault + cByteBuffer \<times> cByteBuffer option" where
  "cut_packet memory rd =
     and_then (ReadVarInt rd) (\<lambda>(n, rd).
       case n of
         None \<Rightarrow> Inr (ResetRead rd, None)
       | Some PacketLen \<Rightarrow>
           if \<not> CanReadBytes rd (unat (PacketLen :: u32)) then Inr (ResetRead rd, None)
           else and_then (ReadToByteBuffer rd (new_cByteBuffer memory (unat (PacketLen + 1))) (unat PacketLen))
             (\<lambda>(ok, rd, bb). if \<not> ok then Inl VerifyFailed else Inr (CommitRead rd, Some bb)))"

text \<open>The buffer of received data between packets.\<close>

definition received_ok :: "cByteBuffer \<Rightarrow> bool" where
  "received_ok b \<longleftrightarrow> buffer_ok b \<and> consumed b = [] \<and> capacity b = 65536"

lemma received_okD:
  assumes "received_ok b"
  shows "buffer_ok b" and "consumed b = []" and "capacity b = 65536" and "contents b = unread b"
    and "length (unread b) \<le> 65536"
proof -
  show "buffer_ok b" "consumed b = []" "capacity b = 65536" using assms by (simp_all add: received_ok_def)
  then show c: "contents b = unread b" using consumed_unread [of b] by simp
  show "length (unread b) \<le> 65536"
    using used_len_bound [OF \<open>buffer_ok b\<close>] \<open>capacity b = 65536\<close> by (simp flip: c)
qed

lemma ResetRead_received_ok:
  assumes "received_ok b" and "buffer_ok b'" and "contents b' = contents b" and "capacity b' = capacity b"
  shows "received_ok (ResetRead b')" and "unread (ResetRead b') = unread b"
  using ResetRead_ok [OF assms(2)] assms(3,4) received_okD [OF assms(1)] by (simp_all add: received_ok_def)

text \<open>Writing what has arrived keeps the buffer valid; it is dropped when it does not fit.\<close>

lemma Write_received_ok:
  assumes "received_ok b"
  obtains b' where "Write b d = (length (unread b) + length d \<le> 65536, b')" and "received_ok b'"
    and "unread b' = unread b @ (if length (unread b) + length d \<le> 65536 then d else [])"
proof -
  note r = received_okD [OF assms]
  have u: "used_len b = length (unread b)" using r(4) by (simp flip: length_contents)
  have e: "Write b d = WriteBuf b d" using r(1) by (rule Write_WriteBuf)
  show thesis
  proof (cases "length d \<le> capacity b - used_len b")
    case True
    from WriteBuf_ok [OF r(1) True] that [of "snd (WriteBuf b d)"] show ?thesis
      using True u r(2,3,5) by (cases "WriteBuf b d") (simp add: e received_ok_def)
  next
    case False
    then show ?thesis
      using WriteBuf_full [OF r(1), of d] False that [of b] assms u r(3,5) by (cases "WriteBuf b d") (simp add: e)
  qed
qed

lemma cut_cases [consumes 1, case_names overlong incomplete complete]:
  assumes rd: "received_ok rd"
  obtains e where "dec_varint (unread rd) = (Inl e :: fault + u32 option \<times> u8 list)"
    and "cut_packet memory rd = Inl e"
  | n rest rd' where "dec_varint (unread rd) = Inr (n, rest)"
    and "\<forall>k. n = Some k \<longrightarrow> length rest < unat (k :: u32)"
    and "received_ok rd'" and "unread rd' = unread rd" and "cut_packet memory rd = Inr (rd', None)"
  | n rest rd' bb where "dec_varint (unread rd) = Inr (Some (n :: u32), rest)" and "unat n \<le> length rest"
    and "length rest < length (unread rd)"
    and "received_ok rd'" and "unread rd' = drop (unat n) rest"
    and "buffer_ok bb" and "consumed bb = []" and "unread bb = take (unat n) rest"
    and "capacity bb = unat n + 1" and "unat n < 65536"
    and "cut_packet memory rd = Inr (rd', Some bb)"
proof -
  note rdD = received_okD [OF rd]
  show thesis
  proof (cases "dec_varint (unread rd) :: fault + u32 option \<times> u8 list")
    case (Inl e)
    then have "ReadVarInt rd = (Inl e :: fault + u32 option \<times> cByteBuffer)"
      by (rule reads_as_Inl [OF ReadVarInt_reads_as rdD(1)])
    then show ?thesis using that(1) [OF Inl] by (simp add: cut_packet_def)
  next
    case (Inr r)
    obtain n rest where d: "dec_varint (unread rd) = Inr (n :: u32 option, rest)" using Inr by (cases r) simp
    obtain rd1 where rd1: "ReadVarInt rd = Inr (n, rd1)" "buffer_ok rd1" "unread rd1 = rest"
        "contents rd1 = contents rd" "capacity rd1 = capacity rd"
      using reads_as_Inr [OF ReadVarInt_reads_as rdD(1)] d by metis
    note reset = ResetRead_received_ok [OF rd rd1(2,4,5)]
    show ?thesis
    proof (cases "\<forall>k. n = Some k \<longrightarrow> length rest < unat k")
      case True
      then have "cut_packet memory rd = Inr (ResetRead rd1, None)"
        using rd1 by (cases n) (simp_all add: cut_packet_def CanReadBytes_eq)
      then show ?thesis using that(2) [OF d True reset(1)] reset(2) by simp
    next
      case False
      then obtain k where k: "n = Some k" "unat k \<le> length rest" by auto
      have shorter: "length rest < length (unread rd)" using dec_varint_consumes [of "unread rd" k rest] d k by simp
      then have k16: "unat k < 65536" using k(2) rdD(5) by simp
      have "unat (k + 1) = unat k + 1" using k16 by (simp add: unat_word_ariths)
      let ?new = "new_cByteBuffer memory (unat (k + 1))"
      have room: "length (contents ?new) + unat k \<le> capacity ?new"
        using \<open>unat (k + 1) = unat k + 1\<close> by (simp add: new_cByteBuffer_ok)
      obtain rd2 bb where bb: "ReadToByteBuffer rd1 ?new (unat k) = Inr (True, rd2, bb)"
          "buffer_ok rd2" "buffer_ok bb" "unread rd2 = drop (unat k) rest" "consumed bb = []"
          "unread bb = take (unat k) rest" "capacity rd2 = 65536" "capacity bb = unat k + 1"
        using ReadToByteBuffer_ok [OF rd1(2) new_cByteBuffer_ok(1) _ room] k(2) rd1(3,5) rdD(3)
          \<open>unat (k + 1) = unat k + 1\<close> by (metis append_Nil new_cByteBuffer_ok(3,4,5))
      have "cut_packet memory rd = Inr (CommitRead rd2, Some bb)"
        using rd1 k bb(1) by (simp add: cut_packet_def CanReadBytes_eq Let_def)
      moreover have "received_ok (CommitRead rd2)" "unread (CommitRead rd2) = drop (unat k) rest"
        using CommitRead_ok [OF bb(2)] bb(4,7) by (simp_all add: received_ok_def)
      ultimately show ?thesis
        using that(3) [OF _ k(2) shorter _ _ bb(3,5,6,8) k16] d k(1) by blast
    qed
  qed
qed

text \<open>A packet that was cut leaves room for what the handler may forward of it.\<close>

lemma varint_prefix:
  assumes "dec_varint xs = Inr (Some (n :: u32), rest)" and "length xs \<le> 65536" and "unat n \<le> length rest"
  shows "unat n \<le> 65535" and "16384 \<le> unat n \<Longrightarrow> unat n \<le> 65533"
proof -
  note d = dec_varint_consumes [OF assms(1)]
  show "unat n \<le> 65535" using d assms(2,3) by linarith
  assume big: "16384 \<le> unat n"
  have "\<not> length xs - length rest \<le> 2"
  proof
    assume "length xs - length rest \<le> 2"
    then have "(128::nat) ^ (length xs - length rest) \<le> 128 ^ 2" by (intro power_increasing) simp_all
    with d big show False by simp
  qed
  then show "unat n \<le> 65533" using assms(2,3) by linarith
qed

text \<open>The type of the packet, and the zero byte appended so that reading too much is noticed.\<close>

lemma packet_type_read:
  assumes bb: "buffer_ok bb" "consumed bb = []" "capacity bb = length (unread bb) + 1"
    and d: "dec_varint (unread bb) = Inr (Some (ty :: u32), rest)"
  obtains b1 where "ReadVarInt bb = Inr (Some ty, b1)" and "buffer_ok (snd (Write b1 [0]))"
    and "unread (snd (Write b1 [0])) = rest @ [0]"
proof -
  obtain b1 where b1: "ReadVarInt bb = Inr (Some ty, b1)" "buffer_ok b1" "unread b1 = rest"
      "contents b1 = contents bb" "capacity b1 = capacity bb"
    using reads_as_Inr [OF ReadVarInt_reads_as bb(1) d] by metis
  have "contents b1 = unread bb" using consumed_unread [of bb] b1(4) bb(2) by simp
  then have "used_len b1 = length (unread bb)" by (simp flip: length_contents)
  then have "buffer_ok (snd (Write b1 [0]))" "unread (snd (Write b1 [0])) = rest @ [0]"
    using WriteBuf_ok [OF b1(2), of "[0]"] bb(3) b1(3,5) by (simp_all add: Write_WriteBuf [OF b1(2)])
  then show thesis using that b1(1) by blast
qed

section \<open>The loop\<close>

text \<open>
  \<open>rd\<close> and \<open>put\<close> read and replace the buffer of received data in the state, \<open>run\<close> handles a packet: it
  leaves the loop (\<open>Inl\<close>) or goes on (\<open>Inr\<close>), as a turn of the loop does.
\<close>

locale packet_reader =
  fixes good :: "'s \<Rightarrow> bool"
    and rd :: "'s \<Rightarrow> cByteBuffer"
    and put :: "cByteBuffer \<Rightarrow> 's \<Rightarrow> 's"
    and memory :: "'s \<Rightarrow> nat \<Rightarrow> u8"
    and run :: "cByteBuffer \<Rightarrow> 's \<Rightarrow> (fault + 's) + 's"
    and turn :: "'s \<Rightarrow> (fault + 's) + 's"
  assumes rd_put: "good s \<Longrightarrow> rd (put b s) = b"
    and good_put: "good s \<Longrightarrow> good (put b s)"
    and put_put: "put b (put b' s) = put b s"
    and turn_law: "turn s =
      (case cut_packet (memory s) (rd s) of
         Inl e \<Rightarrow> Inl (Inl e)
       | Inr (b, None) \<Rightarrow> Inl (Inr (put b s))
       | Inr (b, Some bb) \<Rightarrow> run bb (put b s))"
begin

lemma rd_put_put: "good s \<Longrightarrow> rd (put b (put b' s)) = b"
  by (simp add: rd_put good_put)

text \<open>Nothing received: the loop ends and only resets the buffer.\<close>

lemma turn_empty:
  assumes "received_ok (rd s)" and "unread (rd s) = []"
  obtains b where "turn s = Inl (Inr (put b s))" and "received_ok b" and "unread b = []"
  using assms(1)
proof (cases rule: cut_cases [where memory = "memory s"])
  case (overlong e)
  then show ?thesis by (simp add: assms(2) dec_varint_def dec_map_def)
next
  case (incomplete n rest b)
  then show ?thesis using that assms(2) by (simp add: turn_law)
next
  case (complete n rest b bb)
  then show ?thesis by (simp add: assms(2))
qed

text \<open>One frame, and nothing else: the handler runs once, on its payload, and the loop ends.\<close>

lemma loop_one_frame:
  assumes s: "good s" and b: "received_ok (rd s)" "unread (rd s) = frame payload" and len: "length payload < 65536"
    and handler: "\<And>b bb. received_ok b \<Longrightarrow> unread b = [] \<Longrightarrow> buffer_ok bb \<Longrightarrow> consumed bb = [] \<Longrightarrow>
      unread bb = payload \<Longrightarrow> capacity bb = length payload + 1 \<Longrightarrow>
      \<exists>s2. run bb (put b s) = Inr s2 \<and> received_ok (rd s2) \<and> unread (rd s2) = [] \<and> P s2"
  obtains b' s2 where "while_option (\<lambda>r. \<not> isl r) (\<lambda>r. turn (projr r)) (Inr s) = Some (Inl (Inr (put b' s2)))"
    and "received_ok b'" and "unread b' = []" and "P s2"
proof -
  have n: "unat (of_nat (length payload) :: u32) = length payload" using len by (simp add: unat_of_nat)
  have "\<exists>s2. turn s = Inr s2 \<and> received_ok (rd s2) \<and> unread (rd s2) = [] \<and> P s2"
    using b(1)
  proof (cases rule: cut_cases [where memory = "memory s"])
    case (overlong e)
    then show ?thesis by (simp add: b(2) frame_def dec_varint_bytes_32)
  next
    case (incomplete k r b')
    then show ?thesis using n by (auto simp: b(2) frame_def dec_varint_bytes_32)
  next
    case (complete k r b' bb)
    from complete(1) have k: "k = of_nat (length payload)" "r = payload"
      unfolding b(2) frame_def dec_varint_bytes_32 by (auto simp only: sum.inject prod.inject option.inject)
    have "unread bb = payload" "unread b' = []" "capacity bb = length payload + 1"
      using complete(5,8,9) n by (simp_all add: k)
    then show ?thesis using handler [OF complete(4) _ complete(6,7)] complete(11) by (simp add: turn_law)
  qed
  then obtain s2 where t1: "turn s = Inr s2" and s2: "received_ok (rd s2)" "unread (rd s2) = []" "P s2" by blast
  obtain b' where t2: "turn s2 = Inl (Inr (put b' s2))" "received_ok b'" "unread b' = []"
    using turn_empty [OF s2(1,2)] by metis
  have "while_option (\<lambda>r. \<not> isl r) (\<lambda>r. turn (projr r)) (Inr s) = Some (Inl (Inr (put b' s2)))"
    by (simp add: while_option_unfold t1 t2(1))
  then show thesis using that t2 s2 by blast
qed

text \<open>
  The loop ends, whatever has arrived, when handling a packet keeps an invariant \<open>I\<close> of the state and
  adds nothing to the received data; \<open>Q\<close> is what the ways out of the loop satisfy.
\<close>

lemma loop_ends:
  assumes start: "I s"
    and inv: "\<And>s. I s \<Longrightarrow> good s \<and> received_ok (rd s)"
    and put: "\<And>s b. I s \<Longrightarrow> received_ok b \<Longrightarrow> I (put b s)"
    and out: "\<And>s. I s \<Longrightarrow> Q (Inr s)" and overlong: "Q (Inl ShiftTooFar)"
    and handler: "\<And>s bb. I s \<Longrightarrow> buffer_ok bb \<Longrightarrow> consumed bb = [] \<Longrightarrow> capacity bb = length (unread bb) + 1 \<Longrightarrow>
      length (unread bb) < 65536 \<Longrightarrow> (16384 \<le> length (unread bb) \<Longrightarrow> length (unread bb) \<le> 65533) \<Longrightarrow>
      (case run bb s of Inl m \<Rightarrow> Q m | Inr s' \<Rightarrow> I s' \<and> length (unread (rd s')) \<le> length (unread (rd s)))"
  shows "\<exists>r. while_option (\<lambda>r. \<not> isl r) (\<lambda>r. turn (projr r)) (Inr s) = Some (Inl r) \<and> Q r"
proof -
  let ?P = "\<lambda>r. case r of Inl m \<Rightarrow> Q m | Inr s \<Rightarrow> I s"
  let ?f = "\<lambda>r. case r of Inl m \<Rightarrow> 0 | Inr s \<Rightarrow> Suc (length (unread (rd s)))"
  have turn: "?P (turn s) \<and> ?f (turn s) < ?f (Inr s)" if s: "I s" for s
    using inv [OF s, THEN conjunct2]
  proof (cases rule: cut_cases [where memory = "memory s"])
    case (overlong e)
    then show ?thesis using dec_faults(2) [OF overlong(1)] assms(5) by (simp add: turn_law)
  next
    case (incomplete n rest b)
    then show ?thesis using out [OF put [OF s incomplete(3)]] by (simp add: turn_law)
  next
    case (complete n rest b bb)
    note i = put [OF s complete(4)]
    have "rd (put b s) = b" using inv [OF s] by (simp add: rd_put)
    moreover have n: "length (unread bb) = unat n" using complete(2,8) by simp
    moreover have "length (unread (rd s)) \<le> 65536" using inv [OF s] received_okD(5) by blast
    note varint_prefix(2) [OF complete(1) this complete(2)]
    ultimately have "case run bb (put b s) of Inl m \<Rightarrow> Q m
        | Inr s' \<Rightarrow> I s' \<and> length (unread (rd s')) \<le> length (unread (rd (put b s)))"
      using complete(9,10) by (intro handler [OF i complete(6,7)]) simp_all
    then show ?thesis
      using \<open>rd (put b s) = b\<close> complete(3,5,11) by (auto simp: turn_law split: sum.splits)
  qed
  have step: "?P (turn (projr r)) \<and> ?f (turn (projr r)) < ?f r" if "?P r" and "\<not> isl r" for r
    using turn that by (cases r) auto
  have P0: "?P (Inr s)" using start by simp
  obtain t where t: "while_option (\<lambda>r. \<not> isl r) (\<lambda>r. turn (projr r)) (Inr s) = Some t"
    using measure_while_option_Some [of ?P "\<lambda>r. \<not> isl r" "\<lambda>r. turn (projr r)" ?f "Inr s"] step P0 by blast
  have "?P t" by (rule while_option_rule [where P = ?P, OF _ t P0]) (use step in blast)
  moreover have "isl t" using while_option_stop [OF t] by simp
  ultimately show ?thesis using t by (cases t) auto
qed

end

section \<open>Where a packet lies in the ring\<close>

text \<open>More data behind an integer does not change what is read.\<close>

lemma varint_dec_append:
  "varint_dec V s xs = Inl e \<Longrightarrow> varint_dec V s (xs @ ys) = Inl e"
  "varint_dec V s xs = Inr (Some v, rest) \<Longrightarrow> varint_dec V s (xs @ ys) = Inr (Some v, rest @ ys)"
  by (induction V s xs rule: varint_dec.induct) (auto simp: Let_def split: if_splits)

lemma dec_varint_append:
  "dec_varint xs = Inl e \<Longrightarrow> dec_varint (xs @ ys) = Inl e"
  "dec_varint xs = Inr (Some v, rest) \<Longrightarrow> dec_varint (xs @ ys) = Inr (Some v, rest @ ys)"
  by (auto simp: dec_varint_def dec_map_def and_then_Inl_iff and_then_Inr_iff varint_dec_append dest: varint_dec_append(2) split: prod.splits)

text \<open>What \<open>ReadToByteBuffer\<close> puts into its destination depends on the bytes only, not on where they lie in the ring.\<close>

lemma ReadToByteBuffer_loop_same:
  assumes "buffer_ok b" and "buffer_ok c" and "n \<le> length (unread b)" and "n \<le> length (unread c)"
    and "take n (unread b) = take n (unread c)"
    and "ReadToByteBuffer_loop b dst n = Inr (b', dst')" and "ReadToByteBuffer_loop c dst n = Inr (c', dst'')"
  shows "dst' = dst''"
  using assms
proof (induction b dst n arbitrary: c rule: ReadToByteBuffer_loop.induct)
  case (1 b dst n)
  show ?case
  proof (cases "n = 0")
    case True
    then show ?thesis using "1.prems"(6,7) by (simp add: ReadToByteBuffer_loop.simps [of _ _ 0])
  next
    case False
    let ?k = "if n > 1024 then 1024 else n"
    have k: "?k \<le> n" "0 < ?k" using False by auto
    then have bytes: "take ?k (unread b) = take ?k (unread c)" using "1.prems"(5) by (metis min.absorb1 take_take)
    obtain b1 where b1: "ReadBuf b ?k = (Some (take ?k (unread b)), b1)" "buffer_ok b1" "unread b1 = drop ?k (unread b)"
      using ReadBuf_ok [of b ?k] "1.prems" k by (cases "ReadBuf b ?k") auto
    obtain c1 where c1: "ReadBuf c ?k = (Some (take ?k (unread b)), c1)" "buffer_ok c1" "unread c1 = drop ?k (unread c)"
      using ReadBuf_ok [of c ?k] "1.prems" k by (cases "ReadBuf c ?k") (auto simp: bytes)
    obtain ok d1 where w: "Write dst (take ?k (unread b)) = (ok, d1)" by (cases "Write dst (take ?k (unread b))")
    have unfold: "ReadToByteBuffer_loop x dst n = (if ok then ReadToByteBuffer_loop y d1 (n - ?k) else Inl VerifyFailed)"
      if "ReadBuf x ?k = (Some (take ?k (unread b)), y)" for x y
      by (subst ReadToByteBuffer_loop.simps) (use False that w in \<open>simp add: Let_def split: bool.split\<close>)
    have ok: "ok" using "1.prems"(6) unfold [OF b1(1)] by (simp split: if_splits)
    have "take (n - ?k) (unread b1) = take (n - ?k) (unread c1)"
      using "1.prems"(5) b1(3) c1(3) by (metis drop_take)
    then show ?thesis
      using "1.prems" b1 c1 k unfold [OF b1(1)] unfold [OF c1(1)] ok w
      by (intro "1.IH" [OF False refl b1(1) [symmetric] refl w [symmetric], unfolded ok, of c1]) auto
  qed
qed

lemma cut_same:
  assumes "received_ok b" and "received_ok c" and "unread c = unread b @ ys" and "cut_packet memory b = Inr (b', Some bb)"
  obtains c' where "cut_packet memory c = Inr (c', Some bb)" and "received_ok c'" and "unread c' = unread b' @ ys" and "received_ok b'"
  using assms(1)
proof (cases rule: cut_cases [where memory = memory])
  case (complete n rest rd' bb')
  have d: "dec_varint (unread c) = Inr (Some n, rest @ ys)" using dec_varint_append(2) [OF complete(1)] assms(3) by simp
  from assms(2) show ?thesis
  proof (cases rule: cut_cases [where memory = memory])
    case c: (complete m r rd'' bb'')
    have m: "m = n" "r = rest @ ys" using c(1) d by simp_all
    obtain b1 where b1: "ReadVarInt b = Inr (Some n, b1)" "buffer_ok b1" "unread b1 = rest"
      using reads_as_Inr [OF ReadVarInt_reads_as received_okD(1) [OF assms(1)]] complete(1) by metis
    obtain c1 where c1: "ReadVarInt c = Inr (Some n, c1)" "buffer_ok c1" "unread c1 = rest @ ys"
      using reads_as_Inr [OF ReadVarInt_reads_as received_okD(1) [OF assms(2)]] d by metis
    let ?new = "new_cByteBuffer memory (unat (n + 1))"
    obtain x where x: "ReadToByteBuffer_loop b1 ?new (unat n) = Inr (x, bb')"
      using complete(11) b1 by (auto simp: cut_packet_def ReadToByteBuffer_def and_then_Inr_iff split: if_splits)
    obtain y where y: "ReadToByteBuffer_loop c1 ?new (unat n) = Inr (y, bb'')"
      using c(11) c1 m(1) by (auto simp: cut_packet_def ReadToByteBuffer_def and_then_Inr_iff split: if_splits)
    have "bb' = bb''"
      by (rule ReadToByteBuffer_loop_same [OF b1(2) c1(2) _ _ _ x y]) (use complete(2) b1(3) c1(3) in simp_all)
    then show ?thesis using that [of rd''] c(4,5,11) complete(2,4,5,11) assms(4) m by simp
  qed (use d complete(2) in auto)
qed (use assms(4) in simp_all)

section \<open>Received in parts\<close>

text \<open>No packet is complete in what has been received, nor is it overlong.\<close>

definition no_packet :: "u8 list \<Rightarrow> bool" where
  "no_packet bs \<longleftrightarrow>
     (case dec_varint bs of Inl _ \<Rightarrow> False | Inr (None, _) \<Rightarrow> True | Inr (Some n, rest) \<Rightarrow> length rest < unat (n :: u32))"

text \<open>Every complete packet has a type.\<close>

function all_typed :: "u8 list \<Rightarrow> bool" where
  "all_typed bs \<longleftrightarrow>
     (case dec_varint bs of
        Inr (Some n, rest) \<Rightarrow>
          if unat (n :: u32) \<le> length rest then
            (case dec_varint (take (unat n) rest) of Inr (Some (ty :: u32), _) \<Rightarrow> True | Inr (None, _) \<Rightarrow> False | Inl _ \<Rightarrow> True) \<and>
            all_typed (drop (unat n) rest)
          else True
      | _ \<Rightarrow> True)"
  by pat_completeness auto
termination
  by (relation "measure length") (auto dest!: dec_varint_consumes)

declare all_typed.simps [simp del]

text \<open>
  When handling a packet neither reads nor writes the received data, it makes no difference where the received data is
  cut: \<open>extends ys s t\<close> when \<open>t\<close> is \<open>s\<close> with \<open>ys\<close> received in addition.
\<close>

locale blind_packet_reader = packet_reader good rd put memory run turn
  for good :: "'s \<Rightarrow> bool" and rd and put and memory and run and turn +
  fixes stopped :: "'s \<Rightarrow> bool"
  assumes run_put: "run bb (put b s) = map_sum (map_sum id (put b)) (put b) (run bb s)"
    and good_run: "good s \<Longrightarrow> run bb s = Inr s' \<or> run bb s = Inl (Inr s') \<Longrightarrow> good s'"
    and put_rd: "put (rd s) s = s"
    and memory_put: "memory (put b s) = memory s"
    and run_stops: "good s \<Longrightarrow> run bb s = Inl (Inr s') \<Longrightarrow> buffer_ok bb \<Longrightarrow> dec_varint (unread bb) = Inr (Some (ty :: u32), rest) \<Longrightarrow> stopped s'"
    and run_overlong: "buffer_ok bb \<Longrightarrow> dec_varint (unread bb) = (Inl e :: fault + u32 option \<times> u8 list) \<Longrightarrow> run bb s = Inl (Inl e)"
begin

definition extends :: "u8 list \<Rightarrow> 's \<Rightarrow> 's \<Rightarrow> bool" where
  "extends ys s t \<longleftrightarrow> (\<exists>b. received_ok b \<and> unread b = unread (rd s) @ ys \<and> t = put b s)"

lemma run_rd:
  assumes "good s" and "run bb s = Inr s' \<or> run bb s = Inl (Inr s')"
  shows "rd s' = rd s"
proof -
  have "s' = put (rd s) s'" using assms(2) run_put [of bb "rd s" s] by (auto simp: put_rd)
  then show ?thesis using rd_put [OF good_run [OF assms]] by metis
qed

text \<open>A turn that takes a packet out takes it out of the longer data as well.\<close>

lemma turn_extends:
  assumes s: "good s" "received_ok (rd s)" and e: "extends ys s t"
    and packet: "\<not> no_packet (unread (rd s))"
  shows "turn t = turn s \<and> isl (turn s) \<and> isl (projl (turn s))
    \<or> (\<exists>s' t'. turn s = Inl (Inr s') \<and> turn t = Inl (Inr t') \<and> extends ys s' t' \<and> (all_typed (unread (rd s)) \<longrightarrow> stopped s'))
    \<or> (\<exists>s' t'. turn s = Inr s' \<and> turn t = Inr t' \<and> extends ys s' t' \<and> good s' \<and> received_ok (rd s') \<and>
         length (unread (rd s')) < length (unread (rd s)) \<and> (all_typed (unread (rd s)) \<longrightarrow> all_typed (unread (rd s'))))"
proof -
  obtain b where b: "received_ok b" "unread b = unread (rd s) @ ys" "t = put b s" using e by (auto simp: extends_def)
  have mem: "memory t = memory s" using b(3) by (simp add: memory_put)
  have rdt: "rd t = b" using b(3) s(1) by (simp add: rd_put)
  from s(2) show ?thesis
  proof (cases rule: cut_cases [where memory = "memory s"])
    case (overlong x)
    then have "dec_varint (unread (rd t)) = (Inl x :: fault + u32 option \<times> u8 list)"
      using dec_varint_append(1) [of "unread (rd s)"] b(2) rdt by simp
    moreover have "received_ok (rd t)" using b(1) rdt by simp
    ultimately have "cut_packet (memory t) (rd t) = Inl x"
      by (cases rule: cut_cases [where memory = "memory t", consumes 0]) auto
    then show ?thesis using overlong(2) by (simp add: turn_law mem)
  next
    case (incomplete n rest rd')
    then show ?thesis using packet by (auto simp: no_packet_def split: option.splits)
  next
    case (complete n rest rd' bb)
    obtain c' where c': "cut_packet (memory s) b = Inr (c', Some bb)" "received_ok c'" "unread c' = unread rd' @ ys"
      by (rule cut_same [OF s(2) b(1,2) complete(11)], rule that)
    have ts: "turn s = run bb (put rd' s)" by (simp add: turn_law complete(11))
    have "turn t = run bb (put c' (put rd' s))" using c'(1) by (simp add: turn_law mem rdt) (simp add: b(3) put_put)
    then have tt: "turn t = map_sum (map_sum id (put c')) (put c') (turn s)" by (simp only: run_put ts)
    have g: "good (put rd' s)" "rd (put rd' s) = rd'" using s(1) by (simp_all add: good_put rd_put)
    have ext: "good s' \<and> rd s' = rd' \<and> extends ys s' (put c' s')" if "turn s = Inr s' \<or> turn s = Inl (Inr s')" for s'
      using good_run [OF g(1)] run_rd [OF g(1)] g(2) c'(2,3) that ts by (auto simp: extends_def)
    have shorter: "length (unread rd') < length (unread (rd s))" using complete(3,5) by simp
    have typed: "(case dec_varint (unread bb) of Inr (Some (ty :: u32), _) \<Rightarrow> True | Inr (None, _) \<Rightarrow> False | Inl _ \<Rightarrow> True)"
        "all_typed (unread rd')" if "all_typed (unread (rd s))"
      using that complete(1,2,5,8) all_typed.simps [of "unread (rd s)"] by simp_all
    show ?thesis
    proof (cases "turn s")
      case (Inl m)
      show ?thesis
      proof (cases m)
        case (Inr s')
        have "stopped s'" if t: "all_typed (unread (rd s))"
        proof (cases "dec_varint (unread bb) :: fault + u32 option \<times> u8 list")
          case (Inr r)
          then show ?thesis using typed(1) [OF t] run_stops [of "put rd' s" bb s'] ts \<open>turn s = Inl m\<close> \<open>m = Inr s'\<close> complete(6) g(1)
            by (cases r) (auto split: option.splits)
        next
          case (Inl x)
          show ?thesis using run_overlong [OF complete(6) Inl] ts \<open>turn s = Inl m\<close> \<open>m = Inr s'\<close> by simp
        qed
        then show ?thesis using ext [of s'] tt Inl Inr by simp
      qed (use Inl tt in simp)
    next
      case (Inr s')
      then show ?thesis using ext [of s'] tt complete(4) shorter typed(2) by simp
    qed
  qed
qed

definition loop :: "'s \<Rightarrow> ((fault + 's) + 's) option" where
  "loop s = while_option (\<lambda>r. \<not> isl r) (\<lambda>r. turn (projr r)) (Inr s)"

lemma loop_step: "loop s = (case turn s of Inl m \<Rightarrow> Some (Inl m) | Inr s' \<Rightarrow> loop s')"
proof -
  have u: "while_option (\<lambda>r. \<not> isl r) (\<lambda>r. turn (projr r)) r =
      (if isl r then Some r else while_option (\<lambda>r. \<not> isl r) (\<lambda>r. turn (projr r)) (turn (projr r)))" for r
    by (subst while_option_unfold) simp
  show ?thesis using u [of "Inr s"] u [of "turn s"] by (cases "turn s") (simp_all add: loop_def)
qed

lemma turn_incomplete:
  assumes "received_ok (rd s)" and "no_packet (unread (rd s))"
  obtains b where "turn s = Inl (Inr (put b s))" and "received_ok b" and "unread b = unread (rd s)"
  using assms(1)
proof (cases rule: cut_cases [where memory = "memory s"])
  case (complete n rest rd' bb)
  then show ?thesis using assms(2) by (simp add: no_packet_def)
qed (use assms(2) that in \<open>auto simp: no_packet_def turn_law\<close>)

text \<open>Two states that differ in the position of the received data in the ring come to the same end.\<close>

lemma loop_same:
  assumes "good s" and "received_ok (rd s)" and "extends [] s t" and "loop s = Some (Inl m)"
  shows "case m of Inl e \<Rightarrow> loop t = Some (Inl (Inl e)) | Inr s' \<Rightarrow> \<exists>t'. loop t = Some (Inl (Inr t')) \<and> extends [] s' t'"
  using assms
proof (induction "length (unread (rd s))" arbitrary: s t rule: less_induct)
  case less
  obtain b where b: "received_ok b" "unread b = unread (rd s)" "t = put b s" using less.prems(3) by (auto simp: extends_def)
  show ?case
  proof (cases "no_packet (unread (rd s))")
    case True
    obtain b1 where b1: "turn s = Inl (Inr (put b1 s))" "received_ok b1" "unread b1 = unread (rd s)"
      by (rule turn_incomplete [OF less.prems(2) True], rule that)
    have rdt: "rd t = b" using b(3) less.prems(1) by (simp add: rd_put)
    obtain b2 where b2: "turn t = Inl (Inr (put b2 t))" "received_ok b2" "unread b2 = unread (rd t)"
      by (rule turn_incomplete [of t]) (use b rdt True that in auto)
    have "extends [] (put b1 s) (put b2 t)" using b b1 b2 rdt less.prems(1) by (auto simp: extends_def rd_put put_put)
    then show ?thesis using less.prems(4) b1(1) b2(1) loop_step [of s] loop_step [of t] by auto
  next
    case False
    from turn_extends [OF less.prems(1,2,3) False] show ?thesis
    proof (elim disjE exE conjE)
      assume "turn t = turn s" "isl (turn s)" "isl (projl (turn s))"
      then show ?thesis using less.prems(4) loop_step [of s] loop_step [of t] by (auto split: sum.splits)
    next
      fix s' t' assume "turn s = Inl (Inr s')" "turn t = Inl (Inr t')" "extends [] s' t'"
      then show ?thesis using less.prems(4) loop_step [of s] loop_step [of t] by auto
    next
      fix s' t' assume *: "turn s = Inr s'" "turn t = Inr t'" "extends [] s' t'" "good s'" "received_ok (rd s')"
        "length (unread (rd s')) < length (unread (rd s))"
      have "loop s' = Some (Inl m)" using less.prems(4) loop_step [of s] *(1) by simp
      moreover have "loop t = loop t'" using loop_step [of t] *(2) by simp
      ultimately show ?thesis using less.hyps [OF *(6,4,5,3)] by (simp only:)
    qed
  qed
qed

text \<open>What is left over when the loop ends is handled when the rest arrives, as if all had arrived at once.\<close>

lemma loop_in_parts:
  assumes "good s" and "received_ok (rd s)" and "extends ys s t" and "loop s = Some (Inl m)" and "all_typed (unread (rd s))"
  shows "case m of Inl e \<Rightarrow> loop t = Some (Inl (Inl e))
    | Inr s' \<Rightarrow> stopped s' \<or> (\<exists>t'. good s' \<and> received_ok (rd s') \<and> length (unread (rd s')) \<le> length (unread (rd s)) \<and>
        extends ys s' t' \<and> loop t = loop t')"
  using assms
proof (induction "length (unread (rd s))" arbitrary: s t rule: less_induct)
  case less
  show ?case
  proof (cases "no_packet (unread (rd s))")
    case True
    obtain b1 where b1: "turn s = Inl (Inr (put b1 s))" "received_ok b1" "unread b1 = unread (rd s)"
      by (rule turn_incomplete [OF less.prems(2) True], rule that)
    have "extends ys (put b1 s) t" "good (put b1 s)" "rd (put b1 s) = b1"
      using less.prems(1,3) b1 by (auto simp: extends_def rd_put put_put good_put)
    then show ?thesis using less.prems(4) b1 loop_step [of s] by auto
  next
    case False
    from turn_extends [OF less.prems(1,2,3) False] show ?thesis
    proof (elim disjE exE conjE)
      assume "turn t = turn s" "isl (turn s)" "isl (projl (turn s))"
      then show ?thesis using less.prems(4) loop_step [of s] loop_step [of t] by (auto split: sum.splits)
    next
      fix s' t' assume "turn s = Inl (Inr s')" "all_typed (unread (rd s)) \<longrightarrow> stopped s'"
      then show ?thesis using less.prems(4,5) loop_step [of s] by auto
    next
      fix s' t' assume *: "turn s = Inr s'" "turn t = Inr t'" "extends ys s' t'" "good s'" "received_ok (rd s')"
        "length (unread (rd s')) < length (unread (rd s))" "all_typed (unread (rd s)) \<longrightarrow> all_typed (unread (rd s'))"
      have "loop s' = Some (Inl m)" "all_typed (unread (rd s'))" using less.prems(4,5) loop_step [of s] *(1,7) by simp_all
      moreover have "loop t = loop t'" using loop_step [of t] *(2) by simp
      ultimately show ?thesis using less.hyps [OF *(6,4,5,3)] *(6) by (cases m) auto
    qed
  qed
qed

end

end
