(* ===== verification/Server.thy ===== *)
theory Server
  imports ServerState StringUtils PacketInput
begin

text \<open>
  The operations of the server: \<open>cClientHandle\<close> (\<open>ClientHandle.cpp\<close>), \<open>cProtocol_impl\<close>
  (\<open>Protocol/cProtocol_impl.cpp\<close>), \<open>cServer\<close> (\<open>Server.cpp\<close>), \<open>cAuthenticator\<close>
  (\<open>Protocol/Authenticator.cpp\<close>) and the command handling of \<open>cRoot\<close> (\<open>Root.cpp\<close>), in the order of
  their calls. Logging is left out. A critical section protects each of the events of the last
  section as a whole or protects only the queue they exchange data through, so they are the atomic
  steps of the system.
\<close>

unbundle bit_operations_syntax

section \<open>Sending to one client\<close>

definition ClientHandle_SendData :: "nat \<Rightarrow> AString \<Rightarrow> world \<Rightarrow> world" where
  "ClientHandle_SendData c a_Data w =
     (if m_HasSentDC (client w c) then w
      else upd_client c (\<lambda>x. x\<lparr>m_OutgoingData := m_OutgoingData x @ a_Data\<rparr>) w)"

text \<open>One packet of the protocol of client \<open>c\<close>: built, framed, and given to \<open>SendData\<close>.\<close>

definition send_packet ::
    "nat \<Rightarrow> u32 \<Rightarrow> (cByteBuffer \<Rightarrow> fault + cByteBuffer) \<Rightarrow> world \<Rightarrow> fault + world" where
  "send_packet c a_PacketType writes w =
     and_then (packet a_PacketType writes (protocol w c)) (\<lambda>(bytes, p).
       Inr (ClientHandle_SendData c bytes (upd_client c (\<lambda>x. x\<lparr>m_Protocol := p\<rparr>) w)))"

definition Protocol_SendDisconnect :: "nat \<Rightarrow> int \<Rightarrow> world \<Rightarrow> fault + world" where
  "Protocol_SendDisconnect c a_Reason w =
     (if m_ProtoState (protocol w c) = 2 then
        send_packet c 0 (pkt_WriteBEInt32 (word_of_int a_Reason)) w
      else if m_ProtoState (protocol w c) = 3 then
        send_packet c 0x40 (pkt_WriteBEUInt32 (word_of_int a_Reason)) w
      else Inr w)"

definition set_proto_state :: "nat \<Rightarrow> u32 \<Rightarrow> world \<Rightarrow> world" where
  "set_proto_state c s w =
     upd_client c (\<lambda>x. x\<lparr>m_Protocol := (m_Protocol x)\<lparr>m_ProtoState := s\<rparr>\<rparr>) w"

definition Protocol_SendLoginSuccess :: "nat \<Rightarrow> world \<Rightarrow> fault + world" where
  "Protocol_SendLoginSuccess c w =
     and_then (send_packet c 0x01 Inr w) (\<lambda>w. Inr (set_proto_state c 3 w))"

definition Protocol_SendKeepAlive :: "nat \<Rightarrow> u32 \<Rightarrow> world \<Rightarrow> fault + world" where
  "Protocol_SendKeepAlive c a_PingID w =
     (if m_ProtoState (protocol w c) \<noteq> 3 then Inr w
      else send_packet c 0x00 (pkt_WriteVarInt32 a_PingID) w)"

definition Protocol_BroadcastUserInfo :: "nat \<Rightarrow> u32 \<Rightarrow> AString \<Rightarrow> u32 \<Rightarrow> world \<Rightarrow> fault + world" where
  "Protocol_BroadcastUserInfo c a_Id a_Name a_State =
     send_packet c 0x01 (\<lambda>b. and_then (pkt_WriteVarInt32 a_Id b) (\<lambda>b.
       and_then (pkt_WriteString a_Name b) (pkt_WriteVarInt32 a_State)))"

definition Protocol_ForwardMedia :: "nat \<Rightarrow> u32 \<Rightarrow> u32 \<Rightarrow> world \<Rightarrow> fault + world" where
  "Protocol_ForwardMedia c from_id type =
     send_packet c 0x11 (\<lambda>b. and_then (pkt_WriteVarInt32 from_id b) (pkt_WriteVarInt32 type))"

definition Protocol_ForwardMediaMsg :: "nat \<Rightarrow> u32 \<Rightarrow> AString \<Rightarrow> world \<Rightarrow> fault + world" where
  "Protocol_ForwardMediaMsg c from_id msg =
     send_packet c 0x12 (\<lambda>b. and_then (pkt_WriteVarInt32 from_id b) (pkt_WriteString msg))"

section \<open>The client handle: disconnecting\<close>

text \<open>The reason text of the source is only logged.\<close>

definition ClientHandle_SendDisconnect :: "nat \<Rightarrow> int \<Rightarrow> world \<Rightarrow> fault + world" where
  "ClientHandle_SendDisconnect c a_Reason w =
     (if \<not> m_HasSentDC (client w c) then
        and_then (Protocol_SendDisconnect c a_Reason w) (\<lambda>w.
          Inr (upd_client c (\<lambda>x. x\<lparr>m_HasSentDC := True\<rparr>) w))
      else Inr w)"

definition ClientHandle_Kick :: "nat \<Rightarrow> int \<Rightarrow> world \<Rightarrow> fault + world" where
  "ClientHandle_Kick c a_Reason w = ClientHandle_SendDisconnect c a_Reason w"

definition PacketBufferFull :: "nat \<Rightarrow> world \<Rightarrow> fault + world" where
  "PacketBufferFull c = ClientHandle_SendDisconnect c ERROR_CODE_SERVER_BUSY"

definition PacketUnknown :: "nat \<Rightarrow> u32 \<Rightarrow> world \<Rightarrow> fault + world" where
  "PacketUnknown c a_PacketType = ClientHandle_SendDisconnect c ERROR_CODE_PACKET_UNKONWN"

definition PacketError :: "nat \<Rightarrow> u32 \<Rightarrow> world \<Rightarrow> fault + world" where
  "PacketError c a_PacketType = ClientHandle_SendDisconnect c ERROR_CODE_PACKET_ERROR"

section \<open>The server: lists of clients\<close>

fun for_clients :: "(nat \<Rightarrow> world \<Rightarrow> fault + world) \<Rightarrow> nat list \<Rightarrow> world \<Rightarrow> fault + world" where
  "for_clients f [] w = Inr w"
| "for_clients f (c # cs) w = and_then (f c w) (for_clients f cs)"

definition IsPlayerInQueue :: "world \<Rightarrow> AString \<Rightarrow> bool" where
  "IsPlayerInQueue w a_Username = list_ex (\<lambda>c. m_Username (client w c) = a_Username) (m_Clients w)"

text \<open>\<open>cClientHandle::BroadcastUserInfo\<close>: tells client \<open>c\<close> about client \<open>p\<close>.\<close>

definition ClientHandle_BroadcastUserInfo :: "nat \<Rightarrow> nat \<Rightarrow> world \<Rightarrow> fault + world" where
  "ClientHandle_BroadcastUserInfo c p w =
     Protocol_BroadcastUserInfo c (word_of_int (m_UniqueID (client w p))) (m_Username (client w p))
       (of_nat (eState_num (m_State (client w p)))) w"

definition IsLoggedIn :: "cClientHandle \<Rightarrow> bool" where
  "IsLoggedIn x \<longleftrightarrow> m_State x \<ge> csAuthenticating"

definition BroadcastUserInfo_one :: "nat \<Rightarrow> nat \<Rightarrow> world \<Rightarrow> fault + world" where
  "BroadcastUserInfo_one p c w =
     (if m_UniqueID (client w c) \<noteq> m_UniqueID (client w p) then
        and_then (ClientHandle_BroadcastUserInfo c p w) (\<lambda>w.
          if IsLoggedIn (client w p) then ClientHandle_BroadcastUserInfo p c w else Inr w)
      else Inr w)"

definition Server_BroadcastUserInfo :: "nat \<Rightarrow> world \<Rightarrow> fault + world" where
  "Server_BroadcastUserInfo p w = for_clients (BroadcastUserInfo_one p) (m_Clients w) w"

text \<open>The identifier compared is the signed member converted to unsigned.\<close>

definition find_id :: "world \<Rightarrow> u32 \<Rightarrow> nat option" where
  "find_id w to_id = List.find (\<lambda>c. word_of_int (m_UniqueID (client w c)) = to_id) (m_Clients w)"

definition Server_ForwardMedia :: "u32 \<Rightarrow> u32 \<Rightarrow> u32 \<Rightarrow> world \<Rightarrow> fault + world" where
  "Server_ForwardMedia to_id from_id type w =
     (case find_id w to_id of None \<Rightarrow> Inr w | Some c \<Rightarrow> Protocol_ForwardMedia c from_id type w)"

definition Server_ForwardMediaMsg :: "u32 \<Rightarrow> u32 \<Rightarrow> AString \<Rightarrow> world \<Rightarrow> fault + world" where
  "Server_ForwardMediaMsg to_id from_id msg w =
     (case find_id w to_id of None \<Rightarrow> Inr w | Some c \<Rightarrow> Protocol_ForwardMediaMsg c from_id msg w)"

section \<open>The client handle: logging in and out\<close>

definition CheckMultiLogin :: "nat \<Rightarrow> AString \<Rightarrow> world \<Rightarrow> fault + (bool \<times> world)" where
  "CheckMultiLogin c a_Username w =
     (if IsPlayerInQueue w a_Username then
        and_then (ClientHandle_Kick c ERROR_CODE_ACCOUNT_ALREADY_LOGIN w) (\<lambda>w. Inr (False, w))
      else Inr (True, w))"

definition HandleHandshake :: "nat \<Rightarrow> AString \<Rightarrow> world \<Rightarrow> fault + (bool \<times> world)" where
  "HandleHandshake c a_Username w = CheckMultiLogin c a_Username w"

definition ClientHandle_Authenticate :: "nat \<Rightarrow> AString \<Rightarrow> world \<Rightarrow> fault + world" where
  "ClientHandle_Authenticate c a_Name w =
     (if m_State (client w c) \<noteq> csAuthenticating then Inr w
      else and_then (CheckMultiLogin c a_Name w) (\<lambda>(ok, w).
        if \<not> ok then Inr w
        else
          and_then (Protocol_SendLoginSuccess c (upd_client c (\<lambda>x. x\<lparr>m_Username := a_Name\<rparr>) w)) (\<lambda>w.
          and_then (Server_BroadcastUserInfo c (upd_client c (\<lambda>x. x\<lparr>m_State := csAuthenticated\<rparr>) w)) (\<lambda>w.
          Inr (upd_client c (\<lambda>x. x\<lparr>m_PingStartTime := now w + 3000\<rparr>) w)))))"

definition ClientHandle_Destroy :: "nat \<Rightarrow> world \<Rightarrow> fault + world" where
  "ClientHandle_Destroy c w =
     (let w = upd_client c (\<lambda>x. x\<lparr>m_Link := False\<rparr>) w
      in if m_State (client w c) \<ge> csDestroying then Inr w
         else
           let w = upd_client c (\<lambda>x. x\<lparr>m_State := csDestroying\<rparr>) w;
               w = upd_client c (\<lambda>x. x\<lparr>m_State := csDestroyed\<rparr>) w
           in Server_BroadcastUserInfo c w)"

definition Authenticator_Authenticate :: "int \<Rightarrow> AString \<Rightarrow> AString \<Rightarrow> world \<Rightarrow> world" where
  "Authenticator_Authenticate a_ClientID a_UserName a_PassWord w =
     w\<lparr>m_Queue := m_Queue w @
        [\<lparr>user_ClientID = a_ClientID, user_Username = a_UserName, user_Password = a_PassWord\<rparr>]\<rparr>"

definition ClientHandle_HandleLogin :: "nat \<Rightarrow> AString \<Rightarrow> AString \<Rightarrow> world \<Rightarrow> bool \<times> world" where
  "ClientHandle_HandleLogin c a_Username a_Password w =
     (True, Authenticator_Authenticate (m_UniqueID (client w c)) a_Username a_Password
        (upd_client c (\<lambda>x. x\<lparr>m_State := csAuthenticating\<rparr>) w))"

definition ClientHandle_HandleKeepAlive :: "nat \<Rightarrow> u32 \<Rightarrow> world \<Rightarrow> world" where
  "ClientHandle_HandleKeepAlive c a_KeepAliveID w =
     (if a_KeepAliveID = m_PingID (client w c) then
        upd_client c (\<lambda>x. x\<lparr>m_Ping := now w - m_PingStartTime x\<rparr>) w
      else w)"

section \<open>The protocol: handling packets\<close>

text \<open>
  \<open>HANDLE_READ\<close>: a read that fails returns from the handler, with whatever it has read from the
  packet's buffer.
\<close>

definition handle_read ::
    "'a rd \<Rightarrow> ('a \<Rightarrow> cByteBuffer \<Rightarrow> world \<Rightarrow> fault + (cByteBuffer \<times> world)) \<Rightarrow> cByteBuffer \<Rightarrow> world \<Rightarrow>
     fault + (cByteBuffer \<times> world)" where
  "handle_read f k bb w =
     and_then (f bb) (\<lambda>(v, bb). case v of None \<Rightarrow> Inr (bb, w) | Some x \<Rightarrow> k x bb w)"

definition done_with :: "cByteBuffer \<Rightarrow> fault + world \<Rightarrow> fault + (cByteBuffer \<times> world)" where
  "done_with bb m = and_then m (\<lambda>w. Inr (bb, w))"

definition app_name :: AString where
  "app_name = ascii ''p2pchat''"

text \<open>What \<open>HandlePacketStatusRequest\<close> does once it has read the four fields.\<close>

definition StatusRequest_reply ::
    "nat \<Rightarrow> AString \<Rightarrow> u32 \<Rightarrow> cByteBuffer \<Rightarrow> world \<Rightarrow> fault + (cByteBuffer \<times> world)" where
  "StatusRequest_reply c appName state bb w =
     (if appName \<noteq> app_name \<or> sint state < 1 \<or> sint state > 2 then
        done_with bb (ClientHandle_Kick c ERROR_CODE_BAD_APP w)
      else
        done_with bb (send_packet c 0x00
          (\<lambda>b. and_then (pkt_WriteBEInt32 state b) (pkt_WriteString (m_IPString (client w c))))
          (set_proto_state c state w)))"

definition HandlePacketStatusRequest :: "nat \<Rightarrow> cByteBuffer \<Rightarrow> world \<Rightarrow> fault + (cByteBuffer \<times> world)" where
  "HandlePacketStatusRequest c =
     handle_read ReadVarUTF8String (\<lambda>appName.
     handle_read ReadVarUTF8String (\<lambda>server.
     handle_read ReadBEInt32 (\<lambda>port.
     handle_read ReadBEInt32 (\<lambda>state. StatusRequest_reply c appName state))))"

definition HandlePacketStatusPing :: "nat \<Rightarrow> cByteBuffer \<Rightarrow> world \<Rightarrow> fault + (cByteBuffer \<times> world)" where
  "HandlePacketStatusPing c =
     handle_read ReadBEInt64 (\<lambda>Timestamp bb w.
       done_with bb (send_packet c 0x01 (pkt_WriteBEInt64 Timestamp) w))"

definition HandlePacketLoginInfo :: "nat \<Rightarrow> cByteBuffer \<Rightarrow> world \<Rightarrow> fault + (cByteBuffer \<times> world)" where
  "HandlePacketLoginInfo c =
     handle_read ReadVarUTF8String (\<lambda>username.
     handle_read ReadVarUTF8String (\<lambda>password bb w.
       Inr (bb, snd (ClientHandle_HandleLogin c username password w))))"

definition HandlePacketKeepAlive :: "nat \<Rightarrow> cByteBuffer \<Rightarrow> world \<Rightarrow> fault + (cByteBuffer \<times> world)" where
  "HandlePacketKeepAlive c =
     handle_read ReadVarInt32 (\<lambda>KeepAliveID bb w.
       Inr (bb, ClientHandle_HandleKeepAlive c KeepAliveID w))"

definition HandlePacketMedia :: "nat \<Rightarrow> cByteBuffer \<Rightarrow> world \<Rightarrow> fault + (cByteBuffer \<times> world)" where
  "HandlePacketMedia c =
     handle_read ReadVarInt32 (\<lambda>peer_id.
     handle_read ReadVarInt32 (\<lambda>type bb w.
       done_with bb (Server_ForwardMedia peer_id (word_of_int (m_UniqueID (client w c))) type w)))"

definition HandlePacketMediaMsg :: "nat \<Rightarrow> cByteBuffer \<Rightarrow> world \<Rightarrow> fault + (cByteBuffer \<times> world)" where
  "HandlePacketMediaMsg c =
     handle_read ReadVarInt32 (\<lambda>peer_id.
     handle_read ReadVarUTF8String (\<lambda>strMsg bb w.
       done_with bb (Server_ForwardMediaMsg peer_id (word_of_int (m_UniqueID (client w c))) strMsg w)))"

definition understood :: "fault + (cByteBuffer \<times> world) \<Rightarrow> fault + (bool \<times> cByteBuffer \<times> world)" where
  "understood m = and_then m (\<lambda>(bb, w). Inr (True, bb, w))"

definition HandlePacket :: "nat \<Rightarrow> cByteBuffer \<Rightarrow> u32 \<Rightarrow> world \<Rightarrow> fault + (bool \<times> cByteBuffer \<times> world)" where
  "HandlePacket c bb a_PacketType w =
     (let s = m_ProtoState (protocol w c);
          unknown = and_then (PacketUnknown c a_PacketType w) (\<lambda>w. Inr (False, bb, w))
      in if s = 1 then
           (if a_PacketType = 0x00 then understood (HandlePacketStatusRequest c bb w)
            else if a_PacketType = 0x01 then understood (HandlePacketStatusPing c bb w)
            else unknown)
         else if s = 2 then
           (if a_PacketType = 0x00 then understood (HandlePacketLoginInfo c bb w) else unknown)
         else if s = 3 then
           (if a_PacketType = 0x00 then understood (HandlePacketKeepAlive c bb w)
            else if a_PacketType = 0x11 then understood (HandlePacketMedia c bb w)
            else if a_PacketType = 0x12 then understood (HandlePacketMediaMsg c bb w)
            else unknown)
         else if s = 255 then Inr (False, bb, w)
         else Inr (False, bb, set_proto_state c 255 w))"

definition set_received :: "nat \<Rightarrow> cByteBuffer \<Rightarrow> world \<Rightarrow> world" where
  "set_received c b w =
     upd_client c (\<lambda>x. x\<lparr>m_Protocol := (m_Protocol x)\<lparr>m_ReceivedData := b\<rparr>\<rparr>) w"

text \<open>
  The endless loop of \<open>AddReceivedData\<close>: a turn leaves it (\<open>Inl\<close>, with a fault or with the world it
  leaves) or goes round again (\<open>Inr\<close>). \<open>run_packet\<close> is the part of a turn that handles the packet
  cut out of the received data.
\<close>

definition run_packet :: "nat \<Rightarrow> cByteBuffer \<Rightarrow> world \<Rightarrow> (fault + world) + world" where
  "run_packet c bb w =
     (case ReadVarInt bb of
        Inl e \<Rightarrow> Inl (Inl e)
      | Inr (None, _) \<Rightarrow> Inl (Inr w)
      | Inr (Some PacketType, bb) \<Rightarrow>
          (case HandlePacket c (snd (Write bb [0])) PacketType w of
             Inl e \<Rightarrow> Inl (Inl e)
           | Inr (False, _, w) \<Rightarrow> Inl (Inr w)
           | Inr (True, bb, w) \<Rightarrow>
               if GetReadableSpace bb \<noteq> 1 then
                 (case PacketError c PacketType w of Inl e \<Rightarrow> Inl (Inl e) | Inr w \<Rightarrow> Inr w)
               else Inr w))"

definition AddReceivedData_turn :: "nat \<Rightarrow> world \<Rightarrow> (fault + world) + world" where
  "AddReceivedData_turn c w =
     (case cut_packet (uninit w) (m_ReceivedData (protocol w c)) of
        Inl e \<Rightarrow> Inl (Inl e)
      | Inr (rd, None) \<Rightarrow> Inl (Inr (set_received c rd w))
      | Inr (rd, Some bb) \<Rightarrow> run_packet c bb (set_received c rd w))"

text \<open>The whole loop.\<close>

definition AddReceivedData_loop :: "nat \<Rightarrow> world \<Rightarrow> fault + world" where
  "AddReceivedData_loop c w =
     (case while_option (\<lambda>r. \<not> isl r) (\<lambda>r. AddReceivedData_turn c (projr r)) (Inr w) of
        None \<Rightarrow> Inl NoReturn
      | Some r \<Rightarrow> projl r)"

definition AddReceivedData :: "nat \<Rightarrow> AString \<Rightarrow> world \<Rightarrow> fault + world" where
  "AddReceivedData c a_Data w =
     (case Write (m_ReceivedData (protocol w c)) a_Data of
        (False, rd) \<Rightarrow> PacketBufferFull c (set_received c rd w)
      | (True, rd) \<Rightarrow> AddReceivedData_loop c (set_received c rd w))"

definition Protocol_DataReceived :: "nat \<Rightarrow> AString \<Rightarrow> world \<Rightarrow> fault + world" where
  "Protocol_DataReceived c a_Data w = AddReceivedData c a_Data w"

section \<open>The client handle: ticking and link callbacks\<close>

definition PING_TIME_MS :: int where
  "PING_TIME_MS = 1000 * 15"

text \<open>The four parts of \<open>ServerTick\<close>, in its order.\<close>

definition Tick_incoming :: "nat \<Rightarrow> world \<Rightarrow> fault + world" where
  "Tick_incoming c w =
     (let IncomingData = m_IncomingData (client w c);
          w = upd_client c (\<lambda>x. x\<lparr>m_IncomingData := []\<rparr>) w
      in if IncomingData \<noteq> [] then Protocol_DataReceived c IncomingData w else Inr w)"

definition Tick_outgoing :: "nat \<Rightarrow> world \<Rightarrow> world" where
  "Tick_outgoing c w =
     (let OutgoingData = m_OutgoingData (client w c);
          w = upd_client c (\<lambda>x. x\<lparr>m_OutgoingData := []\<rparr>) w
      in if m_Link (client w c) \<and> OutgoingData \<noteq> [] then
           upd_client c (\<lambda>x. x\<lparr>sent := sent x @ OutgoingData\<rparr>) w
         else w)"

definition Tick_ping :: "nat \<Rightarrow> world \<Rightarrow> fault + world" where
  "Tick_ping c w =
     (let w = (if m_State (client w c) = csAuthenticated
               then upd_client c (\<lambda>x. x\<lparr>m_State := csWorking\<rparr>) w else w)
      in if m_State (client w c) = csWorking \<and> m_PingStartTime (client w c) + PING_TIME_MS \<le> now w then
           let w = upd_client c (\<lambda>x. x\<lparr>m_PingID := m_PingID x + 1, m_PingStartTime := now w\<rparr>) w
           in Protocol_SendKeepAlive c (m_PingID (client w c)) w
         else Inr w)"

definition Tick_timeout :: "nat \<Rightarrow> world \<Rightarrow> fault + world" where
  "Tick_timeout c w =
     (let w = upd_client c (\<lambda>x. x\<lparr>m_TicksSinceLastPacket := m_TicksSinceLastPacket x + 1\<rparr>) w
      in if m_TicksSinceLastPacket (client w c) > 600 then
           ClientHandle_SendDisconnect c ERROR_CODE_CLIENT_TIMEOUT w
         else Inr w)"

definition ClientHandle_ServerTick :: "nat \<Rightarrow> world \<Rightarrow> fault + world" where
  "ClientHandle_ServerTick c w =
     and_then (Tick_incoming c w) (\<lambda>w.
     and_then (Tick_ping c (Tick_outgoing c w)) (Tick_timeout c))"

definition ClientHandle_OnLinkCreated :: "nat \<Rightarrow> world \<Rightarrow> world" where
  "ClientHandle_OnLinkCreated c w = upd_client c (\<lambda>x. x\<lparr>m_Link := True\<rparr>) w"

definition ClientHandle_OnReceivedData :: "nat \<Rightarrow> AString \<Rightarrow> world \<Rightarrow> world" where
  "ClientHandle_OnReceivedData c a_Data w =
     upd_client c (\<lambda>x. x\<lparr>m_TicksSinceLastPacket := 0, m_IncomingData := m_IncomingData x @ a_Data\<rparr>) w"

definition ClientHandle_SocketClosed :: "nat \<Rightarrow> world \<Rightarrow> fault + world" where
  "ClientHandle_SocketClosed c w = ClientHandle_Destroy c w"

definition ClientHandle_OnRemoteClosed :: "nat \<Rightarrow> world \<Rightarrow> fault + world" where
  "ClientHandle_OnRemoteClosed c w =
     ClientHandle_SocketClosed c (upd_client c (\<lambda>x. x\<lparr>m_Link := False\<rparr>) w)"

definition ClientHandle_OnError :: "nat \<Rightarrow> int \<Rightarrow> world \<Rightarrow> fault + world" where
  "ClientHandle_OnError c a_ErrorCode w =
     ClientHandle_SocketClosed c (upd_client c (\<lambda>x. x\<lparr>m_Link := False\<rparr>) w)"

text \<open>The constructor; the counter is an \<open>int\<close>, whose overflow is undefined.\<close>

definition new_cClientHandle :: "AString \<Rightarrow> int \<Rightarrow> world \<Rightarrow> cClientHandle" where
  "new_cClientHandle a_IPString ident w =
     \<lparr>m_IPString = a_IPString, m_Username = [], m_Password = [], m_Protocol = new_cProtocol (uninit w),
      m_IncomingData = [], m_OutgoingData = [], m_HasSentDC = False, m_TicksSinceLastPacket = 0,
      m_Ping = 1000, m_PingID = 1, m_PingStartTime = now w, m_State = csConnected, m_UniqueID = ident,
      m_Link = False, sent = []\<rparr>"

definition ClientHandle_destructor :: "nat \<Rightarrow> world \<Rightarrow> fault + world" where
  "ClientHandle_destructor c w =
     (if \<not> m_HasSentDC (client w c) then ClientHandle_SendDisconnect c ERROR_CODE_SERVER_SHUTDOWN w
      else Inr w)"

section \<open>The server\<close>

definition Server_OnConnectionAccepted :: "AString \<Rightarrow> world \<Rightarrow> fault + (nat \<times> world)" where
  "Server_OnConnectionAccepted a_RemoteIPAddress w =
     (if s_ClientCount w = 2 ^ 31 - 1 then Inl SignedOverflow
      else
        let n = s_ClientCount w + 1; c = length (objects w)
        in Inr (c, w\<lparr>s_ClientCount := n, objects := objects w @ [new_cClientHandle a_RemoteIPAddress n w],
                    m_Clients := m_Clients w @ [c]\<rparr>))"

definition Server_KickUser :: "int \<Rightarrow> int \<Rightarrow> world \<Rightarrow> fault + world" where
  "Server_KickUser a_ClientID a_Reason w =
     for_clients (\<lambda>c w. if m_UniqueID (client w c) = a_ClientID then ClientHandle_Kick c a_Reason w else Inr w)
       (m_Clients w) w"

definition Server_AuthenticateUser :: "int \<Rightarrow> AString \<Rightarrow> world \<Rightarrow> fault + world" where
  "Server_AuthenticateUser a_ClientID a_Name w =
     (case List.find (\<lambda>c. m_UniqueID (client w c) = a_ClientID) (m_Clients w) of
        None \<Rightarrow> Inr w
      | Some c \<Rightarrow> ClientHandle_Authenticate c a_Name w)"

text \<open>
  \<open>TickClients\<close>: first the clients to remove leave the list; then each client in turn is taken out
  when it has been destroyed and ticked otherwise; the ones taken out are deleted at the end.
\<close>

fun TickClients_loop :: "nat list \<Rightarrow> world \<Rightarrow> fault + (nat list \<times> world)" where
  "TickClients_loop [] w = Inr ([], w)"
| "TickClients_loop (c # cs) w =
     (if m_State (client w c) = csDestroyed then
        and_then (TickClients_loop cs (w\<lparr>m_Clients := remove1 c (m_Clients w)\<rparr>))
          (\<lambda>(removed, w). Inr (c # removed, w))
      else and_then (ClientHandle_ServerTick c w) (TickClients_loop cs))"

definition Server_TickClients :: "world \<Rightarrow> fault + world" where
  "Server_TickClients w =
     (let w = w\<lparr>m_Clients := foldl (\<lambda>cs c. remove1 c cs) (m_Clients w) (m_ClientsToRemove w),
               m_ClientsToRemove := []\<rparr>
      in and_then (TickClients_loop (m_Clients w) w) (\<lambda>(RemoveClients, w).
           for_clients ClientHandle_destructor RemoveClients w))"

definition Server_ExecuteConsoleCommand :: "AString \<Rightarrow> world \<Rightarrow> world" where
  "Server_ExecuteConsoleCommand a_Cmd w =
     (let split = StringSplit a_Cmd [0x20]
      in if split = [] then w
         else if hd split = ascii ''help'' then w
         else if hd split = ascii ''reload'' then w
         else if hd split = ascii ''reloadplugins'' then
           w\<lparr>console := console w @ [ascii ''Plugins reloaded'']\<rparr>
         else w\<lparr>console := console w @ [ascii ''Unknown command, type 'help' for all commands.'']\<rparr>)"

definition Root_ExecuteConsoleCommand :: "AString \<Rightarrow> world \<Rightarrow> world" where
  "Root_ExecuteConsoleCommand a_Cmd w =
     (if a_Cmd = ascii ''stop'' then w\<lparr>m_ShouldStop := True\<rparr>
      else if a_Cmd = ascii ''restart'' then w\<lparr>m_bRestart := True\<rparr>
      else Server_ExecuteConsoleCommand a_Cmd w)"

text \<open>One line read by the input thread.\<close>

definition Root_InputLine :: "AString \<Rightarrow> world \<Rightarrow> world" where
  "Root_InputLine line w =
     (if line \<noteq> [] then Root_ExecuteConsoleCommand (TrimString line) w else w)"

definition Root_QueueExecuteConsoleCommand :: "AString \<Rightarrow> world \<Rightarrow> world" where
  "Root_QueueExecuteConsoleCommand a_Cmd w =
     (let w = (if a_Cmd = ascii ''stop'' then w\<lparr>m_ShouldStop := True\<rparr>
               else if a_Cmd = ascii ''restart'' then w\<lparr>m_bRestart := True\<rparr> else w)
      in w\<lparr>m_PendingCommands := m_PendingCommands w @ [a_Cmd]\<rparr>)"

definition Root_TickCommands :: "world \<Rightarrow> world" where
  "Root_TickCommands w =
     (let PendingCommands = m_PendingCommands w
      in foldl (\<lambda>w cmd. Root_ExecuteConsoleCommand cmd w) (w\<lparr>m_PendingCommands := []\<rparr>) PendingCommands)"

text \<open>The result is \<open>false\<close> when the tick thread is to end.\<close>

definition Server_Tick :: "world \<Rightarrow> fault + (bool \<times> world)" where
  "Server_Tick w =
     (let w = w\<lparr>m_PlayerCount := m_PlayerCount w + m_PlayerCountDiff w, m_PlayerCountDiff := 0\<rparr>
      in and_then (Server_TickClients (Root_TickCommands w)) (\<lambda>w.
           if \<not> m_bRestarting w then Inr (True, w) else Inr (False, w\<lparr>m_bRestarting := False\<rparr>)))"

text \<open>\<open>Shutdown\<close>: before it waits for the tick thread, and after.\<close>

definition Server_Shutdown_begin :: "world \<Rightarrow> world" where
  "Server_Shutdown_begin w = w\<lparr>m_bRestarting := True\<rparr>"

definition Server_Shutdown_end :: "world \<Rightarrow> fault + world" where
  "Server_Shutdown_end w =
     and_then (for_clients ClientHandle_Destroy (m_Clients w) w) (\<lambda>w. Inr (w\<lparr>m_Clients := []\<rparr>))"

section \<open>The authenticator\<close>

text \<open>
  \<open>AuthFromDBPoll\<close>: no account is looked up; the password must be the MD5 of the user name. The
  result is the comparison, which is \<open>ERROR_CODE_ACCOUNT_AUTH_OK\<close> or \<open>ERROR_CODE_ACCOUNT_NOT_MATCH\<close>.
\<close>

definition AuthFromDBPoll :: "(nat \<Rightarrow> u8) \<Rightarrow> AString \<Rightarrow> AString \<Rightarrow> int" where
  "AuthFromDBPoll garbage a_UserName a_PassWord =
     (let md5 = md5_update (md5_reset (new_MD5 garbage)) a_UserName;
          strPassWord = map c_tolower (md5_toString md5)
      in if strPassWord = a_PassWord then 1 else 0)"

text \<open>What \<open>Execute\<close> does with a user it has taken from the queue, and its whole turn.\<close>

definition Authenticator_decide :: "cUser \<Rightarrow> world \<Rightarrow> fault + world" where
  "Authenticator_decide User w =
     (let ret = AuthFromDBPoll (uninit w) (user_Username User) (user_Password User)
      in if ret = ERROR_CODE_ACCOUNT_AUTH_OK then Server_AuthenticateUser (user_ClientID User) (user_Username User) w
         else Server_KickUser (user_ClientID User) ret w)"

definition Authenticator_turn :: "world \<Rightarrow> fault + world" where
  "Authenticator_turn w =
     (case m_Queue w of
        [] \<Rightarrow> Inr w
      | User # rest \<Rightarrow> Authenticator_decide User (w\<lparr>m_Queue := rest\<rparr>))"

section \<open>The system\<close>

text \<open>
  The events of the running process: callbacks of the network library, turns of the tick thread and
  of the authenticator's thread, console input, the passing of time, and the end of a shutdown.
\<close>

datatype event = Accept AString | LinkCreated nat | DataIn nat AString | RemoteClosed nat | LinkError nat int
  | TickEvent | AuthEvent | ConsoleLine AString | QueueCommand AString | Elapse nat | ShutdownBegin | ShutdownEnd

fun server_event :: "event \<Rightarrow> world \<Rightarrow> fault + world" where
  "server_event (Accept ip) w = and_then (Server_OnConnectionAccepted ip w) (\<lambda>(c, w). Inr w)"
| "server_event (LinkCreated c) w = Inr (ClientHandle_OnLinkCreated c w)"
| "server_event (DataIn c d) w = Inr (ClientHandle_OnReceivedData c d w)"
| "server_event (RemoteClosed c) w = ClientHandle_OnRemoteClosed c w"
| "server_event (LinkError c e) w = ClientHandle_OnError c e w"
| "server_event TickEvent w = and_then (Server_Tick w) (\<lambda>(go_on, w). Inr w)"
| "server_event AuthEvent w = Authenticator_turn w"
| "server_event (ConsoleLine line) w = Inr (Root_InputLine line w)"
| "server_event (QueueCommand cmd) w = Inr (Root_QueueExecuteConsoleCommand cmd w)"
| "server_event (Elapse n) w = Inr (w\<lparr>now := now w + int n\<rparr>)"
| "server_event ShutdownBegin w = Inr (Server_Shutdown_begin w)"
| "server_event ShutdownEnd w = Server_Shutdown_end w"

definition initial_world :: "int \<Rightarrow> (nat \<Rightarrow> u8) \<Rightarrow> world" where
  "initial_world t garbage =
     \<lparr>objects = [], s_ClientCount = 0, m_Clients = [], m_ClientsToRemove = [], m_PlayerCount = 0,
      m_PlayerCountDiff = 0, m_bIsConnected = True, m_bRestarting = False, m_Port = 6666,
      m_ServerID = ascii ''-'', m_Queue = [], m_ShouldStop = False, m_bRestart = False,
      m_PendingCommands = [], console = [], now = t, uninit = garbage\<rparr>"

text \<open>
  What the network library guarantees of its callbacks: they name a handle that was created, and the
  address of a peer is a numeric address, at most 45 characters long.
\<close>

definition enabled :: "event \<Rightarrow> world \<Rightarrow> bool" where
  "enabled e w =
     (case e of
        Accept ip \<Rightarrow> length ip \<le> 45
      | LinkCreated c \<Rightarrow> c < length (objects w)
      | DataIn c _ \<Rightarrow> c < length (objects w)
      | RemoteClosed c \<Rightarrow> c < length (objects w)
      | LinkError c _ \<Rightarrow> c < length (objects w)
      | _ \<Rightarrow> True)"

text \<open>The states the server reaches, with the number of connections accepted on the way.\<close>

fun accepts :: "event \<Rightarrow> nat" where
  "accepts (Accept _) = 1"
| "accepts _ = 0"

inductive reachable :: "nat \<Rightarrow> world \<Rightarrow> bool" where
  start: "reachable 0 (initial_world t garbage)"
| step: "reachable n w \<Longrightarrow> enabled e w \<Longrightarrow> server_event e w = Inr w' \<Longrightarrow> reachable (n + accepts e) w'"

inductive_cases reachableE: "reachable n w"

end
