(* ===== verification/ServerInvariants.thy ===== *)
theory ServerInvariants
  imports Server
begin

text \<open>
  What stays true of the server while it runs. Sending a packet changes only the out buffers and
  the outgoing data of one client: \<open>quietly\<close> says that an operation succeeds and changes nothing
  else, and the locale \<open>client_op\<close> lifts it to the loops over the clients. \<open>server_inv\<close> is the invariant
  of the whole state; every event keeps it, and none ends the process.
\<close>

unbundle bit_operations_syntax

section \<open>What sending leaves alone\<close>

definition core :: "cClientHandle \<Rightarrow> cClientHandle" where
  "core x = x\<lparr>m_OutgoingData := [], m_HasSentDC := False,
     m_Protocol := (m_Protocol x)\<lparr>m_OutPacketBuffer := new_cByteBuffer (\<lambda>_. 0) 0,
       m_OutPacketLenBuffer := new_cByteBuffer (\<lambda>_. 0) 0\<rparr>\<rparr>"

definition same_core :: "world \<Rightarrow> world \<Rightarrow> bool" where
  "same_core w w' \<longleftrightarrow> w'\<lparr>objects := objects w\<rparr> = w \<and> length (objects w') = length (objects w) \<and>
     (\<forall>c < length (objects w). core (client w' c) = core (client w c))"

lemma same_core_refl [simp]: "same_core w w"
  by (simp add: same_core_def)

lemma same_core_trans: "same_core u v \<Longrightarrow> same_core v w \<Longrightarrow> same_core u w"
proof -
  assume uv: "same_core u v" and vw: "same_core v w"
  have "w\<lparr>objects := objects v\<rparr> = v" using vw by (simp add: same_core_def)
  then have "w\<lparr>objects := objects u\<rparr> = v\<lparr>objects := objects u\<rparr>" by (metis world.update_convs(1) world.surjective)
  then show "same_core u w" using uv vw by (simp add: same_core_def)
qed

lemma same_core_fields:
  assumes "same_core w w'"
  shows "length (objects w') = length (objects w)" and "s_ClientCount w' = s_ClientCount w"
    and "m_Clients w' = m_Clients w" and "m_ClientsToRemove w' = m_ClientsToRemove w"
    and "m_Queue w' = m_Queue w" and "now w' = now w" and "uninit w' = uninit w"
    and "m_bRestarting w' = m_bRestarting w"
proof -
  have e: "w = w'\<lparr>objects := objects w\<rparr>" using assms by (simp add: same_core_def)
  show "length (objects w') = length (objects w)" using assms by (simp add: same_core_def)
  show "s_ClientCount w' = s_ClientCount w" "m_Clients w' = m_Clients w"
    "m_ClientsToRemove w' = m_ClientsToRemove w" "m_Queue w' = m_Queue w" "now w' = now w"
    "uninit w' = uninit w" "m_bRestarting w' = m_bRestarting w"
    by (subst e, simp)+
qed

lemma core_fields:
  assumes "core x = core y"
  shows "m_IPString x = m_IPString y" and "m_Username x = m_Username y" and "m_State x = m_State y"
    and "m_UniqueID x = m_UniqueID y" and "m_Link x = m_Link y" and "sent x = sent y"
    and "m_IncomingData x = m_IncomingData y" and "m_PingID x = m_PingID y"
    and "m_ProtoState (m_Protocol x) = m_ProtoState (m_Protocol y)"
    and "m_ReceivedData (m_Protocol x) = m_ReceivedData (m_Protocol y)"
proof -
  show "m_IPString x = m_IPString y" using assms by (auto simp: core_def dest: arg_cong [where f = m_IPString])
  show "m_Username x = m_Username y" using assms by (auto simp: core_def dest: arg_cong [where f = m_Username])
  show "m_State x = m_State y" using assms by (auto simp: core_def dest: arg_cong [where f = m_State])
  show "m_UniqueID x = m_UniqueID y" using assms by (auto simp: core_def dest: arg_cong [where f = m_UniqueID])
  show "m_Link x = m_Link y" using assms by (auto simp: core_def dest: arg_cong [where f = m_Link])
  show "sent x = sent y" using assms by (auto simp: core_def dest: arg_cong [where f = sent])
  show "m_IncomingData x = m_IncomingData y"
    using assms by (auto simp: core_def dest: arg_cong [where f = m_IncomingData])
  show "m_PingID x = m_PingID y" using assms by (auto simp: core_def dest: arg_cong [where f = m_PingID])
  show "m_ProtoState (m_Protocol x) = m_ProtoState (m_Protocol y)"
    using assms by (auto simp: core_def dest: arg_cong [where f = "\<lambda>x. m_ProtoState (m_Protocol x)"])
  show "m_ReceivedData (m_Protocol x) = m_ReceivedData (m_Protocol y)"
    using assms by (auto simp: core_def dest: arg_cong [where f = "\<lambda>x. m_ReceivedData (m_Protocol x)"])
qed

lemma same_core_client:
  "same_core w w' \<Longrightarrow> c < length (objects w) \<Longrightarrow> core (client w' c) = core (client w c)"
  by (simp add: same_core_def)

lemma same_core_upd:
  "core (f (client w c)) = core (client w c) \<Longrightarrow> same_core w (upd_client c f w)"
  by (cases "c < length (objects w)")
    (auto simp: same_core_def upd_client_def set_client_def client_def nth_list_update)

definition outs :: "world \<Rightarrow> bool" where
  "outs w \<longleftrightarrow> (\<forall>c < length (objects w). out_ok (protocol w c))"

definition quietly :: "fault + world \<Rightarrow> world \<Rightarrow> bool" where
  "quietly m w \<longleftrightarrow> (\<exists>w'. m = Inr w' \<and> same_core w w' \<and> outs w')"

lemma quietlyE:
  assumes "quietly m w"
  obtains w' where "m = Inr w'" and "same_core w w'" and "outs w'"
  using assms by (auto simp: quietly_def)

lemma quietly_refl: "outs w \<Longrightarrow> quietly (Inr w) w"
  by (simp add: quietly_def)

lemma quietly_then:
  assumes "quietly m w" and "\<And>w'. same_core w w' \<Longrightarrow> outs w' \<Longrightarrow> quietly (k w') w'"
  shows "quietly (and_then m k) w"
proof -
  obtain w1 where w1: "m = Inr w1" "same_core w w1" "outs w1" using assms(1) by (rule quietlyE)
  then obtain w2 where "k w1 = Inr w2" "same_core w1 w2" "outs w2" using assms(2) by (blast elim: quietlyE)
  then show ?thesis using w1 same_core_trans by (auto simp: quietly_def)
qed

text \<open>An operation on one client that sends at most; \<open>pre\<close> must not depend on what sending changes.\<close>

locale client_op =
  fixes pre :: "world \<Rightarrow> nat \<Rightarrow> bool" and f :: "nat \<Rightarrow> world \<Rightarrow> fault + world"
  assumes pre_core: "same_core w w' \<Longrightarrow> pre w c \<Longrightarrow> pre w' c"
    and runs: "outs w \<Longrightarrow> pre w c \<Longrightarrow> quietly (f c w) w"
begin

lemma for_all: "outs w \<Longrightarrow> (\<And>c. c \<in> set cs \<Longrightarrow> pre w c) \<Longrightarrow> quietly (for_clients f cs w) w"
proof (induction cs arbitrary: w)
  case Nil
  then show ?case by (simp add: quietly_refl)
next
  case (Cons c cs)
  have "quietly (and_then (f c w) (for_clients f cs)) w"
  proof (rule quietly_then)
    show "quietly (f c w) w" using Cons.prems by (intro runs) simp_all
    fix w' assume w': "same_core w w'" "outs w'"
    show "quietly (for_clients f cs w') w'"
      using Cons.prems(2) pre_core [OF w'(1)] by (intro Cons.IH w'(2)) simp
  qed
  then show ?case by simp
qed

end

section \<open>Sending operations\<close>

lemma protocol_upd_same:
  "c < length (objects w) \<Longrightarrow> protocol (upd_client c f w) c = m_Protocol (f (client w c))"
  by (simp add: protocol_def)

lemma protocol_upd_other: "d \<noteq> c \<Longrightarrow> protocol (upd_client c f w) d = protocol w d"
  by (simp add: protocol_def)

lemma outs_upd:
  assumes "outs w" and "out_ok (m_Protocol (f (client w c)))"
  shows "outs (upd_client c f w)"
  unfolding outs_def
proof (intro allI impI)
  fix d assume "d < length (objects (upd_client c f w))"
  then show "out_ok (protocol (upd_client c f w) d)"
    using assms by (cases "d = c") (simp_all add: protocol_upd_same protocol_upd_other outs_def)
qed

text \<open>What a packet does to the client it is sent to.\<close>

lemma send_packet_effect:
  assumes "outs w" and "c < length (objects w)" and "pkt_as writes e"
    and "length (varint_bytes ty) + length e \<le> 65536"
  obtains w' where "send_packet c ty writes w = Inr w'" and "same_core w w'" and "outs w'"
    and "m_OutgoingData (client w' c) = (if m_HasSentDC (client w c) then m_OutgoingData (client w c)
           else m_OutgoingData (client w c) @ frame (varint_bytes ty @ e))"
    and "m_HasSentDC (client w' c) = m_HasSentDC (client w c)"
    and "\<And>d. d \<noteq> c \<Longrightarrow> client w' d = client w d"
proof -
  have "out_ok (protocol w c)" using assms(1,2) by (simp add: outs_def)
  from packet_frame [OF this assms(3,4)] obtain p where
    p: "packet ty writes (protocol w c) = Inr (frame (varint_bytes ty @ e), p)" "out_ok p"
      "m_ProtoState p = m_ProtoState (protocol w c)" "m_ReceivedData p = m_ReceivedData (protocol w c)"
    by blast
  let ?w1 = "upd_client c (\<lambda>x. x\<lparr>m_Protocol := p\<rparr>) w"
  let ?w2 = "ClientHandle_SendData c (frame (varint_bytes ty @ e)) ?w1"
  have c1: "client ?w1 c = (client w c)\<lparr>m_Protocol := p\<rparr>" using assms(2) by simp
  have s1: "same_core w ?w1"
    using p(3,4) by (intro same_core_upd) (simp add: core_def protocol_def)
  have s2: "same_core ?w1 ?w2"
    by (auto simp: ClientHandle_SendData_def core_def intro!: same_core_upd)
  have o1: "outs ?w1" using assms(1) p(2) by (intro outs_upd) simp_all
  have o2: "outs ?w2"
    using o1 p(2) c1 by (auto simp: ClientHandle_SendData_def intro!: outs_upd)
  show thesis
  proof (rule that [of ?w2])
    show "send_packet c ty writes w = Inr ?w2" by (simp add: send_packet_def p)
    show "same_core w ?w2" by (rule same_core_trans [OF s1 s2])
    show "outs ?w2" by (rule o2)
    show "m_OutgoingData (client ?w2 c) = (if m_HasSentDC (client w c) then m_OutgoingData (client w c)
           else m_OutgoingData (client w c) @ frame (varint_bytes ty @ e))"
      using assms(2) by (simp add: ClientHandle_SendData_def)
    show "m_HasSentDC (client ?w2 c) = m_HasSentDC (client w c)"
      using assms(2) by (simp add: ClientHandle_SendData_def)
    show "client ?w2 d = client w d" if "d \<noteq> c" for d using that by (simp add: ClientHandle_SendData_def)
  qed
qed

lemma send_packet_quietly:
  "outs w \<Longrightarrow> c < length (objects w) \<Longrightarrow> pkt_as writes e \<Longrightarrow>
   length (varint_bytes ty) + length e \<le> 65536 \<Longrightarrow> quietly (send_packet c ty writes w) w"
  by (rule send_packet_effect [where writes = writes and e = e and w = w and c = c and ty = ty])
    (auto simp: quietly_def)

lemma small_type: "unat (ty :: u32) < 128 \<Longrightarrow> length (varint_bytes ty) \<le> 1"
  by (rule varint_length_bounds)

lemma Protocol_SendDisconnect_quietly:
  "outs w \<Longrightarrow> c < length (objects w) \<Longrightarrow> quietly (Protocol_SendDisconnect c r w) w"
  using small_type [of 0] small_type [of "0x40"]
  by (auto simp: Protocol_SendDisconnect_def quietly_refl intro!: send_packet_quietly pkt_writers)

lemma HasSentDC_quietly:
  "outs w \<Longrightarrow> quietly (Inr (upd_client c (\<lambda>x. x\<lparr>m_HasSentDC := b\<rparr>) w)) w"
proof -
  assume o: "outs w"
  show ?thesis
  proof (cases "c < length (objects w)")
    case True
    then have "out_ok (m_Protocol (client w c))" using o by (simp add: outs_def protocol_def)
    then show ?thesis
      by (auto simp: quietly_def core_def intro!: same_core_upd outs_upd [OF o])
  next
    case False
    then have "upd_client c (\<lambda>x. x\<lparr>m_HasSentDC := b\<rparr>) w = w"
      by (simp add: upd_client_def set_client_def list_update_beyond)
    then show ?thesis using o by (simp add: quietly_refl)
  qed
qed

lemma ClientHandle_SendDisconnect_quietly:
  assumes "outs w" and "c < length (objects w)"
  shows "quietly (ClientHandle_SendDisconnect c r w) w"
proof (cases "m_HasSentDC (client w c)")
  case True
  then show ?thesis using assms by (simp add: ClientHandle_SendDisconnect_def quietly_refl)
next
  case False
  have "quietly (and_then (Protocol_SendDisconnect c r w) (\<lambda>w. Inr (upd_client c (\<lambda>x. x\<lparr>m_HasSentDC := True\<rparr>) w))) w"
    by (rule quietly_then [OF Protocol_SendDisconnect_quietly [OF assms]]) (rule HasSentDC_quietly)
  then show ?thesis using False by (simp add: ClientHandle_SendDisconnect_def)
qed

lemma SendKeepAlive_quietly:
  assumes "outs w" and "c < length (objects w)"
  shows "quietly (Protocol_SendKeepAlive c i w) w"
proof (cases "m_ProtoState (protocol w c) = 3")
  case True
  have "length (varint_bytes (0 :: u32)) + length (varint_bytes i) \<le> 65536"
    using small_type [of 0] varint_length_bounds(1) [of i] by simp
  then show ?thesis using assms True
    by (auto simp: Protocol_SendKeepAlive_def intro!: send_packet_quietly pkt_writers)
qed (use assms in \<open>simp add: Protocol_SendKeepAlive_def quietly_refl\<close>)

lemma BroadcastUserInfo_quietly:
  assumes "outs w" and "c < length (objects w)" and "length name \<le> 65501"
  shows "quietly (Protocol_BroadcastUserInfo c i name s w) w"
proof -
  have w: "pkt_as (\<lambda>b. and_then (pkt_WriteVarInt32 i b) (\<lambda>b. and_then (pkt_WriteString name b) (pkt_WriteVarInt32 s)))
      (varint_bytes i @ string_bytes name @ varint_bytes s)"
    by (intro pkt_as_seq pkt_writers)
  have "length (varint_bytes (1 :: u32)) + length (varint_bytes i @ string_bytes name @ varint_bytes s) \<le> 65536"
    using small_type [of 1] varint_length_bounds(1) [of i] varint_length_bounds(1) [of s]
      string_bytes_bound [of name] assms(3) by simp
  from send_packet_quietly [OF assms(1,2) w this] show ?thesis by (simp add: Protocol_BroadcastUserInfo_def)
qed

lemma ForwardMedia_quietly:
  assumes "outs w" and "c < length (objects w)"
  shows "quietly (Protocol_ForwardMedia c i t w) w"
proof -
  have w: "pkt_as (\<lambda>b. and_then (pkt_WriteVarInt32 i b) (pkt_WriteVarInt32 t)) (varint_bytes i @ varint_bytes t)"
    by (intro pkt_as_seq pkt_writers)
  have "length (varint_bytes (0x11 :: u32)) + length (varint_bytes i @ varint_bytes t) \<le> 65536"
    using small_type [of "0x11"] varint_length_bounds(1) [of i] varint_length_bounds(1) [of t] by simp
  from send_packet_quietly [OF assms w this] show ?thesis by (simp add: Protocol_ForwardMedia_def)
qed

text \<open>
  A forwarded message fits the packet when it was cut from a packet the server received (at most
  65529 bytes of text) and the sender's identifier takes at most three bytes.
\<close>

lemma ForwardMediaMsg_writes:
  "pkt_as (\<lambda>b. and_then (pkt_WriteVarInt32 i b) (pkt_WriteString msg)) (varint_bytes i @ string_bytes msg)"
  by (intro pkt_as_seq pkt_writers)

lemma ForwardMediaMsg_fits:
  assumes "length msg \<le> 65529" and "unat (i :: u32) < 2097152"
  shows "length (varint_bytes (0x12 :: u32)) + length (varint_bytes i @ string_bytes msg) \<le> 65536"
  using small_type [of "0x12"] varint_length_bounds(3) [of i] string_bytes_bound [of msg] assms by simp

lemma ForwardMediaMsg_quietly:
  assumes "outs w" and "c < length (objects w)" and "length msg \<le> 65529" and "unat i < 2097152"
  shows "quietly (Protocol_ForwardMediaMsg c i msg w) w"
  using send_packet_quietly [OF assms(1,2) ForwardMediaMsg_writes ForwardMediaMsg_fits [OF assms(3,4)]]
  by (simp add: Protocol_ForwardMediaMsg_def)

section \<open>The loops over the clients\<close>

text \<open>The name of a client is short enough to be sent in one packet.\<close>

definition named :: "world \<Rightarrow> nat \<Rightarrow> bool" where
  "named w c \<longleftrightarrow> c < length (objects w) \<and> length (m_Username (client w c)) \<le> 65501"

lemma named_core: "same_core w w' \<Longrightarrow> named w c \<Longrightarrow> named w' c"
  using same_core_fields(1) [of w w'] core_fields(2) [OF same_core_client [of w w' c]]
  by (auto simp: named_def)

lemma ClientHandle_BroadcastUserInfo_quietly:
  "outs w \<Longrightarrow> named w c \<Longrightarrow> named w p \<Longrightarrow> quietly (ClientHandle_BroadcastUserInfo c p w) w"
  unfolding ClientHandle_BroadcastUserInfo_def by (intro BroadcastUserInfo_quietly) (simp_all add: named_def)

interpretation broadcast: client_op "\<lambda>w c. named w c \<and> named w p" "BroadcastUserInfo_one p" for p
proof (unfold_locales, goal_cases)
  case (1 w w' c)
  then show ?case using named_core by blast
next
  case (2 w c)
  then show ?case
    using named_core
    by (auto simp: BroadcastUserInfo_one_def quietly_refl
        intro!: quietly_then ClientHandle_BroadcastUserInfo_quietly)
qed

lemma Server_BroadcastUserInfo_quietly:
  "outs w \<Longrightarrow> named w p \<Longrightarrow> (\<And>c. c \<in> set (m_Clients w) \<Longrightarrow> named w c) \<Longrightarrow>
   quietly (Server_BroadcastUserInfo p w) w"
  unfolding Server_BroadcastUserInfo_def by (intro broadcast.for_all) auto

lemma same_core_length: "same_core w w' \<Longrightarrow> c < length (objects w) \<Longrightarrow> c < length (objects w')"
  by (simp add: same_core_fields(1))

interpretation kick: client_op "\<lambda>w c. c < length (objects w)"
  "\<lambda>c w. if m_UniqueID (client w c) = ident then ClientHandle_Kick c reason w else Inr w" for ident reason
  by unfold_locales
    (auto simp: ClientHandle_Kick_def quietly_refl same_core_length intro: ClientHandle_SendDisconnect_quietly)

interpretation delete: client_op "\<lambda>w c. c < length (objects w)" ClientHandle_destructor
  by unfold_locales
    (auto simp: ClientHandle_destructor_def quietly_refl same_core_length
      intro: ClientHandle_SendDisconnect_quietly)

lemma Server_KickUser_quietly:
  "outs w \<Longrightarrow> set (m_Clients w) \<subseteq> {..<length (objects w)} \<Longrightarrow> quietly (Server_KickUser i r w) w"
  unfolding Server_KickUser_def by (intro kick.for_all) auto

lemma find_id_Some: "find_id w i = Some c \<Longrightarrow> c \<in> set (m_Clients w)"
  by (auto simp: find_id_def find_Some_iff)

lemma Server_ForwardMedia_quietly:
  "outs w \<Longrightarrow> set (m_Clients w) \<subseteq> {..<length (objects w)} \<Longrightarrow> quietly (Server_ForwardMedia t i y w) w"
  by (auto simp: Server_ForwardMedia_def quietly_refl split: option.split dest!: find_id_Some
      intro!: ForwardMedia_quietly)

lemma Server_ForwardMediaMsg_quietly:
  "outs w \<Longrightarrow> set (m_Clients w) \<subseteq> {..<length (objects w)} \<Longrightarrow> length msg \<le> 65529 \<Longrightarrow> unat i < 2097152 \<Longrightarrow>
   quietly (Server_ForwardMediaMsg t i msg w) w"
  by (auto simp: Server_ForwardMediaMsg_def quietly_refl split: option.split dest!: find_id_Some
      intro!: ForwardMediaMsg_quietly)

section \<open>The invariant\<close>

text \<open>How the state of the handle and the state of its protocol go together.\<close>

definition agree :: "eState \<Rightarrow> u32 \<Rightarrow> bool" where
  "agree s p =
     (case s of
        csConnected \<Rightarrow> p = 1 \<or> p = 2
      | csAuthenticating \<Rightarrow> p = 2
      | csAuthenticated \<Rightarrow> p = 3
      | csWorking \<Rightarrow> p = 3
      | csDestroying \<Rightarrow> False
      | csDestroyed \<Rightarrow> p = 1 \<or> p = 2 \<or> p = 3)"

definition handle_ok :: "nat \<Rightarrow> cClientHandle \<Rightarrow> bool" where
  "handle_ok c x \<longleftrightarrow>
     m_UniqueID x = int c + 1 \<and> length (m_IPString x) \<le> 45 \<and> length (m_Username x) \<le> 65501 \<and>
     agree (m_State x) (m_ProtoState (m_Protocol x)) \<and>
     (m_Username x = [] \<longleftrightarrow> m_ProtoState (m_Protocol x) \<noteq> 3) \<and>
     received_ok (m_ReceivedData (m_Protocol x))"

definition names_unique :: "world \<Rightarrow> bool" where
  "names_unique w \<longleftrightarrow>
     (\<forall>a \<in> set (m_Clients w). \<forall>b \<in> set (m_Clients w).
        m_Username (client w a) = m_Username (client w b) \<longrightarrow> m_Username (client w a) \<noteq> [] \<longrightarrow> a = b)"

definition server_inv :: "world \<Rightarrow> bool" where
  "server_inv w \<longleftrightarrow>
     outs w \<and> s_ClientCount w = int (length (objects w)) \<and>
     set (m_Clients w) \<subseteq> {..<length (objects w)} \<and> distinct (m_Clients w) \<and>
     m_ClientsToRemove w = [] \<and>
     (\<forall>c < length (objects w). handle_ok c (client w c)) \<and>
     (\<forall>u \<in> set (m_Queue w). length (user_Username u) + length (user_Password u) \<le> 65533) \<and>
     names_unique w"

lemma server_invD:
  assumes "server_inv w"
  shows "outs w" and "s_ClientCount w = int (length (objects w))"
    and "set (m_Clients w) \<subseteq> {..<length (objects w)}" and "distinct (m_Clients w)"
    and "m_ClientsToRemove w = []"
    and "c < length (objects w) \<Longrightarrow> handle_ok c (client w c)"
    and "u \<in> set (m_Queue w) \<Longrightarrow> length (user_Username u) + length (user_Password u) \<le> 65533"
    and "names_unique w" and "c \<in> set (m_Clients w) \<Longrightarrow> c < length (objects w)"
  using assms by (auto simp: server_inv_def)

lemma handle_ok_core: "core x = core y \<Longrightarrow> handle_ok c x \<longleftrightarrow> handle_ok c y"
  using core_fields [of x y] by (simp add: handle_ok_def)

lemma names_unique_cong:
  assumes "m_Clients w' = m_Clients w"
    and "\<And>c. c \<in> set (m_Clients w) \<Longrightarrow> m_Username (client w' c) = m_Username (client w c)"
  shows "names_unique w' \<longleftrightarrow> names_unique w"
  using assms by (simp add: names_unique_def)

lemma server_inv_same_core:
  assumes "server_inv w" and "same_core w w'" and "outs w'"
  shows "server_inv w'"
proof -
  note f = same_core_fields [OF assms(2)] and d = server_invD [OF assms(1)]
  have h: "handle_ok c (client w' c)" if "c < length (objects w)" for c
    using handle_ok_core [OF same_core_client [OF assms(2) that]] d(6) [OF that] by simp
  have "names_unique w' \<longleftrightarrow> names_unique w"
    using core_fields(2) [OF same_core_client [OF assms(2)]] d(9) by (intro names_unique_cong f) auto
  then show ?thesis using d f h assms(3) by (simp add: server_inv_def)
qed

lemma server_inv_upd:
  assumes "server_inv w" and "c < length (objects w)" and "handle_ok c (f (client w c))"
    and "out_ok (m_Protocol (f (client w c)))"
    and "m_Username (f (client w c)) = m_Username (client w c)"
  shows "server_inv (upd_client c f w)"
proof -
  note d = server_invD [OF assms(1)]
  have h: "handle_ok e (client (upd_client c f w) e)" if "e < length (objects w)" for e
    using that d(6) [OF that] assms(2,3) by (cases "e = c") simp_all
  have n: "m_Username (client (upd_client c f w) e) = m_Username (client w e)" for e
    using assms(2,5) by (cases "e = c") simp_all
  have "names_unique (upd_client c f w) \<longleftrightarrow> names_unique w"
    by (intro names_unique_cong n) simp
  then show ?thesis using d h outs_upd [of w f c] assms(4)
    by (simp add: server_inv_def)
qed

lemma server_inv_named: "server_inv w \<Longrightarrow> c < length (objects w) \<Longrightarrow> named w c"
  using server_invD(6) by (auto simp: named_def handle_ok_def)

lemma server_inv_out_ok: "server_inv w \<Longrightarrow> c < length (objects w) \<Longrightarrow> out_ok (m_Protocol (client w c))"
  using server_invD(1) by (auto simp: outs_def protocol_def)

text \<open>
  \<open>safe w m\<close>: the operation \<open>m\<close>, started in \<open>w\<close>, either returns in a state that satisfies the
  invariant, with the same objects and the same received data, or ends with the undefined shift
  of an overlong variable-length integer.
\<close>

definition keeps :: "world \<Rightarrow> world \<Rightarrow> bool" where
  "keeps w w' \<longleftrightarrow> length (objects w') = length (objects w) \<and> uninit w' = uninit w \<and>
     m_bRestarting w' = m_bRestarting w \<and>
     (\<forall>c < length (objects w). m_ReceivedData (protocol w' c) = m_ReceivedData (protocol w c) \<and>
        (m_State (client w c) \<noteq> csDestroyed \<longrightarrow> m_State (client w' c) \<noteq> csDestroyed \<and>
           m_Username (client w' c) = m_Username (client w c) \<and> (c \<in> set (m_Clients w) \<longrightarrow> c \<in> set (m_Clients w'))))"

definition safe :: "world \<Rightarrow> fault + world \<Rightarrow> bool" where
  "safe w m \<longleftrightarrow> (case m of Inl e \<Rightarrow> e = ShiftTooFar | Inr w' \<Rightarrow> server_inv w' \<and> keeps w w')"

lemma keeps_refl [simp]: "keeps w w"
  by (simp add: keeps_def)

lemma keeps_trans: "keeps u v \<Longrightarrow> keeps v w \<Longrightarrow> keeps u w"
  by (simp add: keeps_def)

lemma keeps_same_core: "same_core w w' \<Longrightarrow> keeps w w'"
  using same_core_fields(1,3,7,8) [of w w'] core_fields(2,3,10) [OF same_core_client [of w w']]
  by (simp add: keeps_def protocol_def)

lemma safe_quietly: "server_inv w \<Longrightarrow> quietly m w \<Longrightarrow> safe w m"
  using server_inv_same_core keeps_same_core by (auto simp: safe_def elim!: quietlyE)

lemma upd_client_twice: "upd_client c f (upd_client c g w) = upd_client c (\<lambda>x. f (g x)) w"
  by (cases "c < length (objects w)")
    (simp_all add: upd_client_def set_client_def list_update_beyond)

section \<open>Handlers keep the invariant\<close>

definition safe2 :: "world \<Rightarrow> fault + (cByteBuffer \<times> world) \<Rightarrow> bool" where
  "safe2 w m \<longleftrightarrow> (case m of Inl e \<Rightarrow> e = ShiftTooFar | Inr (bb, w') \<Rightarrow> server_inv w' \<and> keeps w w')"

lemma handle_read_safe:
  assumes "reads_as f p" and "buffer_ok bb" and "server_inv w"
    and "\<And>e. p (unread bb) = Inl e \<Longrightarrow> e = ShiftTooFar"
    and "\<And>x bb'. p (unread bb) = Inr (Some x, unread bb') \<Longrightarrow> buffer_ok bb' \<Longrightarrow> safe2 w (k x bb' w)"
  shows "safe2 w (handle_read f k bb w)"
proof (cases "p (unread bb)")
  case (Inl e)
  then show ?thesis using reads_as_Inl [OF assms(1,2) Inl] assms(4) by (simp add: handle_read_def safe2_def)
next
  case (Inr r)
  obtain v rest where r: "r = (v, rest)" by (cases r)
  obtain bb' where bb': "f bb = Inr (v, bb')" "buffer_ok bb'" "unread bb' = rest"
    using reads_as_Inr [OF assms(1,2)] Inr r by metis
  then show ?thesis using assms(3,5) Inr r by (cases v) (simp_all add: handle_read_def safe2_def)
qed

lemma safe2_done: "safe w m \<Longrightarrow> safe2 w (done_with bb m)"
  by (cases m) (auto simp: safe_def safe2_def done_with_def)

lemma server_inv_upd_keeps:
  assumes "server_inv w" and "c < length (objects w)" and "handle_ok c (f (client w c))"
    and "m_Protocol (f (client w c)) = m_Protocol (client w c)"
    and "m_Username (f (client w c)) = m_Username (client w c)"
    and "m_State (client w c) \<noteq> csDestroyed \<Longrightarrow> m_State (f (client w c)) \<noteq> csDestroyed"
  shows "server_inv (upd_client c f w)" and "keeps w (upd_client c f w)"
proof -
  show "server_inv (upd_client c f w)"
    using assms server_inv_out_ok [OF assms(1,2)] by (intro server_inv_upd) simp_all
  have "m_ReceivedData (protocol (upd_client c f w) d) = m_ReceivedData (protocol w d) \<and>
      (m_State (client w d) \<noteq> csDestroyed \<longrightarrow> m_State (client (upd_client c f w) d) \<noteq> csDestroyed) \<and>
      m_Username (client (upd_client c f w) d) = m_Username (client w d)" for d
    using assms(2,4,5,6) by (cases "d = c") (simp_all add: protocol_def)
  then show "keeps w (upd_client c f w)" by (simp add: keeps_def)
qed

lemma set_proto_state_inv:
  assumes "server_inv w" and "c < length (objects w)" and "m_ProtoState (protocol w c) = 1"
    and "m_State (client w c) \<noteq> csDestroyed" and "s = 1 \<or> s = 2"
  shows "server_inv (set_proto_state c s w)" and "keeps w (set_proto_state c s w)"
proof -
  let ?f = "\<lambda>x. x\<lparr>m_Protocol := (m_Protocol x)\<lparr>m_ProtoState := s\<rparr>\<rparr>"
  have h: "handle_ok c (client w c)" by (rule server_invD(6) [OF assms(1,2)])
  then have "m_State (client w c) = csConnected"
    using assms(3,4) by (auto simp: handle_ok_def agree_def protocol_def split: eState.splits)
  then have "handle_ok c (?f (client w c))"
    using h assms(3,5) by (auto simp: handle_ok_def agree_def protocol_def)
  then show "server_inv (set_proto_state c s w)"
    unfolding set_proto_state_def using assms(1,2) server_inv_out_ok [OF assms(1,2)]
    by (intro server_inv_upd) (simp_all add: out_ok_def)
  have "m_ReceivedData (protocol (upd_client c ?f w) d) = m_ReceivedData (protocol w d) \<and>
      m_State (client (upd_client c ?f w) d) = m_State (client w d) \<and>
      m_Username (client (upd_client c ?f w) d) = m_Username (client w d)" for d
    using assms(2) by (cases "d = c") (simp_all add: protocol_def)
  then show "keeps w (set_proto_state c s w)" by (simp add: keeps_def set_proto_state_def)
qed

lemma safe_Inr: "server_inv w' \<Longrightarrow> keeps w w' \<Longrightarrow> safe w (Inr w')"
  by (simp add: safe_def)

lemma safe_from: "keeps u w \<Longrightarrow> safe w m \<Longrightarrow> safe u m"
  using keeps_trans by (auto simp: safe_def split: sum.splits)

lemma safe_then:
  assumes "safe w m" and "\<And>w'. server_inv w' \<Longrightarrow> keeps w w' \<Longrightarrow> safe w' (k w')"
  shows "safe w (and_then m k)"
proof (cases m)
  case (Inr w')
  then show ?thesis using assms safe_from by (fastforce simp: safe_def)
qed (use assms in \<open>simp add: safe_def\<close>)

lemma SendDisconnect_safe:
  "server_inv w \<Longrightarrow> c < length (objects w) \<Longrightarrow> safe w (ClientHandle_SendDisconnect c r w)"
  by (intro safe_quietly ClientHandle_SendDisconnect_quietly server_invD(1))

lemma sint_range_word:
  fixes x :: u32
  assumes "\<not> (sint x < 1 \<or> sint x > 2)"
  shows "x = 1 \<or> x = 2"
proof -
  have "sint x = 1 \<or> sint x = 2" using assms by linarith
  then have "sint x = sint (1 :: u32) \<or> sint x = sint (2 :: u32)" by simp
  then show ?thesis by (metis signed_word_eqI)
qed

lemma read_safe:
  assumes "buffer_ok bb" and "server_inv w"
  shows read_string_safe: "(\<And>x bb'. dec_string (unread bb) = Inr (Some x, unread bb') \<Longrightarrow> buffer_ok bb' \<Longrightarrow>
      safe2 w (kS x bb' w)) \<Longrightarrow> safe2 w (handle_read ReadVarUTF8String kS bb w)"
    and read_int32_safe: "(\<And>x bb'. buffer_ok bb' \<Longrightarrow> length (unread bb') \<le> length (unread bb) \<Longrightarrow>
      safe2 w (kI x bb' w)) \<Longrightarrow> safe2 w (handle_read ReadBEInt32 kI bb w)"
    and read_int64_safe: "(\<And>x bb'. buffer_ok bb' \<Longrightarrow> safe2 w (kL x bb' w)) \<Longrightarrow>
      safe2 w (handle_read ReadBEInt64 kL bb w)"
    and read_varint32_safe: "(\<And>x bb'. buffer_ok bb' \<Longrightarrow> length (unread bb') < length (unread bb) \<Longrightarrow>
      safe2 w (kV x bb' w)) \<Longrightarrow> safe2 w (handle_read ReadVarInt32 kV bb w)"
proof -
  show "safe2 w (handle_read ReadVarUTF8String kS bb w)"
    if "\<And>x bb'. dec_string (unread bb) = Inr (Some x, unread bb') \<Longrightarrow> buffer_ok bb' \<Longrightarrow> safe2 w (kS x bb' w)"
    by (rule handle_read_safe [OF ReadVarUTF8String_reads_as assms]) (use dec_string_fault that in auto)
  show "safe2 w (handle_read ReadBEInt32 kI bb w)"
    if "\<And>x bb'. buffer_ok bb' \<Longrightarrow> length (unread bb') \<le> length (unread bb) \<Longrightarrow> safe2 w (kI x bb' w)"
  proof (rule handle_read_safe [OF read_be(5) assms])
    fix x :: u32 and bb' assume "dec_fixed 4 be_load (unread bb) = Inr (Some x, unread bb')" and "buffer_ok bb'"
    moreover from this(1) have "length (unread bb') \<le> length (unread bb)"
      by (auto simp: dec_fixed_def split: if_splits dest: arg_cong [where f = length])
    ultimately show "safe2 w (kI x bb' w)" by (intro that)
  qed (simp add: dec_fixed_no_fault)
  show "safe2 w (handle_read ReadBEInt64 kL bb w)" if "\<And>x bb'. buffer_ok bb' \<Longrightarrow> safe2 w (kL x bb' w)"
    by (rule handle_read_safe [OF read_be(7) assms]) (use that in \<open>auto simp: dec_fixed_no_fault\<close>)
  show "safe2 w (handle_read ReadVarInt32 kV bb w)"
    if "\<And>x bb'. buffer_ok bb' \<Longrightarrow> length (unread bb') < length (unread bb) \<Longrightarrow> safe2 w (kV x bb' w)"
    by (rule handle_read_safe [OF read_varint(1) assms])
      (use that dec_faults(1) varint_dec_consumes [of 0 0] in \<open>fastforce+\<close>)
qed

lemma StatusRequest_reply_safe:
  assumes "server_inv w" and "c < length (objects w)"
    and "m_ProtoState (protocol w c) = 1" and "m_State (client w c) \<noteq> csDestroyed"
  shows "safe2 w (StatusRequest_reply c appName state bb w)"
proof (cases "appName \<noteq> app_name \<or> sint state < 1 \<or> sint state > 2")
  case True
  then show ?thesis
    by (auto simp: StatusRequest_reply_def ClientHandle_Kick_def intro!: safe2_done SendDisconnect_safe assms)
next
  case False
  then have s: "state = 1 \<or> state = 2" using sint_range_word [of state] by blast
  let ?w = "set_proto_state c state w" and ?ip = "m_IPString (client w c)"
  note inv = set_proto_state_inv [OF assms s]
  have "length ?ip \<le> 45" using server_invD(6) [OF assms(1,2)] by (simp add: handle_ok_def)
  then have fits: "length (varint_bytes (0 :: u32)) + length (be_store 4 state @ string_bytes ?ip) \<le> 65536"
    using small_type [of 0] string_bytes_bound [of ?ip] by simp
  have len: "c < length (objects ?w)" using assms(2) by (simp add: set_proto_state_def)
  have "pkt_as (\<lambda>b. and_then (pkt_WriteBEInt32 state b) (pkt_WriteString ?ip)) (be_store 4 state @ string_bytes ?ip)"
    by (intro pkt_as_seq pkt_writers)
  from send_packet_quietly [OF server_invD(1) [OF inv(1)] len this fits]
  have "quietly (send_packet c 0 (\<lambda>b. and_then (pkt_WriteBEInt32 state b) (pkt_WriteString ?ip)) ?w) ?w" .
  then have "safe w (send_packet c 0 (\<lambda>b. and_then (pkt_WriteBEInt32 state b) (pkt_WriteString ?ip)) ?w)"
    by (intro safe_from [OF inv(2)] safe_quietly inv(1))
  then show ?thesis using False by (simp add: StatusRequest_reply_def safe2_done)
qed

lemma StatusRequest_safe:
  assumes "server_inv w" and "c < length (objects w)" and "buffer_ok bb"
    and "m_ProtoState (protocol w c) = 1" and "m_State (client w c) \<noteq> csDestroyed"
  shows "safe2 w (HandlePacketStatusRequest c bb w)"
  unfolding HandlePacketStatusRequest_def
  by (intro read_string_safe read_int32_safe StatusRequest_reply_safe assms)

lemma StatusPing_safe:
  assumes "server_inv w" and "c < length (objects w)" and "buffer_ok bb"
  shows "safe2 w (HandlePacketStatusPing c bb w)"
proof -
  have fits: "length (varint_bytes (1 :: u32)) + length (be_store 8 (t :: u64)) \<le> 65536" for t
    using small_type [of 1] by simp
  have "quietly (send_packet c 1 (pkt_WriteBEInt64 t) w) w" for t
    by (rule send_packet_quietly [OF server_invD(1) [OF assms(1)] assms(2) pkt_writers(3) fits])
  then show ?thesis
    unfolding HandlePacketStatusPing_def
    by (intro read_int64_safe safe2_done safe_quietly assms)
qed

lemma LoginInfo_safe:
  assumes "server_inv w" and "c < length (objects w)" and "buffer_ok bb"
    and "m_ProtoState (protocol w c) = 2" and "length (unread bb) \<le> 65535"
  shows "safe2 w (HandlePacketLoginInfo c bb w)"
  unfolding HandlePacketLoginInfo_def
proof (intro read_string_safe assms)
  fix name bb1 pwd bb2
  assume 1: "dec_string (unread bb) = Inr (Some name, unread bb1)"
    and 2: "dec_string (unread bb1) = Inr (Some pwd, unread bb2)"
  let ?w = "upd_client c (\<lambda>x. x\<lparr>m_State := csAuthenticating\<rparr>) w"
  have len: "length name + length pwd \<le> 65533"
    using dec_string_consumes(1) [OF 1] dec_string_consumes(1) [OF 2] assms(5) by simp
  have "handle_ok c (client w c)" by (rule server_invD(6) [OF assms(1,2)])
  then have "handle_ok c ((client w c)\<lparr>m_State := csAuthenticating\<rparr>)"
    using assms(4) by (simp add: handle_ok_def agree_def protocol_def)
  then have inv: "server_inv ?w" "keeps w ?w"
    by (intro server_inv_upd_keeps assms; simp)+
  have "server_inv (Authenticator_Authenticate i name pwd ?w)" for i
  proof -
    have "names_unique (Authenticator_Authenticate i name pwd ?w) \<longleftrightarrow> names_unique ?w"
      by (intro names_unique_cong) (simp_all add: Authenticator_Authenticate_def client_def)
    then show ?thesis using inv(1) len
      by (auto simp: server_inv_def Authenticator_Authenticate_def outs_def protocol_def client_def)
  qed
  moreover have "keeps w (Authenticator_Authenticate i name pwd ?w)" for i
    using inv(2) by (simp add: keeps_def Authenticator_Authenticate_def protocol_def client_def)
  ultimately show "safe2 w (Inr (bb2, snd (ClientHandle_HandleLogin c name pwd w)))"
    by (simp add: safe2_def ClientHandle_HandleLogin_def)
qed

lemma KeepAlive_safe:
  assumes "server_inv w" and "c < length (objects w)" and "buffer_ok bb"
  shows "safe2 w (HandlePacketKeepAlive c bb w)"
proof -
  have "handle_ok c (client w c)" by (rule server_invD(6) [OF assms(1,2)])
  then have "server_inv (ClientHandle_HandleKeepAlive c i w) \<and> keeps w (ClientHandle_HandleKeepAlive c i w)" for i
    using assms(1,2)
    by (auto simp: ClientHandle_HandleKeepAlive_def handle_ok_def intro!: server_inv_upd_keeps)
  then show ?thesis
    unfolding HandlePacketKeepAlive_def by (intro read_varint32_safe assms) (simp add: safe2_def)
qed

lemma Media_safe:
  assumes "server_inv w" and "buffer_ok bb"
  shows "safe2 w (HandlePacketMedia c bb w)"
  unfolding HandlePacketMedia_def
  by (intro read_varint32_safe safe2_done safe_quietly Server_ForwardMedia_quietly assms
      server_invD(1,3) [OF assms(1)])

lemma sender_id:
  assumes "server_inv w" and "c < length (objects w)" and "length (objects w) < 2097152"
  shows "unat (word_of_int (m_UniqueID (client w c)) :: u32) < 2097152"
proof -
  have "m_UniqueID (client w c) = int (Suc c)"
    using server_invD(6) [OF assms(1,2)] by (simp add: handle_ok_def)
  then have "(word_of_int (m_UniqueID (client w c)) :: u32) = of_nat (Suc c)"
    by (simp only: of_int_of_nat_eq)
  moreover have "unat (of_nat (Suc c) :: u32) = Suc c"
    using assms(2,3) by (simp add: unat_of_nat del: of_nat_Suc)
  ultimately show ?thesis using assms(2,3) by simp
qed

lemma MediaMsg_safe:
  assumes "server_inv w" and "c < length (objects w)" and "length (objects w) < 2097152"
    and "buffer_ok bb" and "length (unread bb) \<le> 65535"
    and "16384 \<le> length (unread bb) \<Longrightarrow> length (unread bb) \<le> 65533"
  shows "safe2 w (HandlePacketMediaMsg c bb w)"
  unfolding HandlePacketMediaMsg_def
proof (intro read_varint32_safe read_string_safe assms)
  fix peer_id bb1 msg bb2
  assume 1: "length (unread bb1) < length (unread bb)"
    and 2: "dec_string (unread bb1) = Inr (Some msg, unread bb2)"
  have "length msg \<le> 65529"
    using dec_string_consumes [OF 2] 1 assms(5,6) by linarith
  then show "safe2 w (done_with bb2
      (Server_ForwardMediaMsg peer_id (word_of_int (m_UniqueID (client w c))) msg w))"
    by (intro safe2_done safe_quietly Server_ForwardMediaMsg_quietly sender_id assms
        server_invD(1,3) [OF assms(1)])
qed

definition safe3 :: "world \<Rightarrow> fault + (bool \<times> cByteBuffer \<times> world) \<Rightarrow> bool" where
  "safe3 w m \<longleftrightarrow> (case m of Inl e \<Rightarrow> e = ShiftTooFar | Inr (_, _, w') \<Rightarrow> server_inv w' \<and> keeps w w')"

lemma understood_safe: "safe2 w m \<Longrightarrow> safe3 w (understood m)"
  by (cases m) (auto simp: safe2_def safe3_def understood_def)

lemma unknown_safe: "safe w m \<Longrightarrow> safe3 w (and_then m (\<lambda>w. Inr (False, bb, w)))"
  by (cases m) (auto simp: safe_def safe3_def)

lemma proto_states:
  assumes "server_inv w" and "c < length (objects w)"
  shows "m_ProtoState (protocol w c) = 1 \<or> m_ProtoState (protocol w c) = 2 \<or> m_ProtoState (protocol w c) = 3"
  using server_invD(6) [OF assms] by (auto simp: handle_ok_def agree_def protocol_def split: eState.splits)

lemma HandlePacket_safe:
  assumes "server_inv w" and "c < length (objects w)" and "length (objects w) < 2097152"
    and "buffer_ok bb" and "length (unread bb) \<le> 65535"
    and "16384 \<le> length (unread bb) \<Longrightarrow> length (unread bb) \<le> 65533"
    and "m_State (client w c) \<noteq> csDestroyed"
  shows "safe3 w (HandlePacket c bb ty w)"
proof -
  have u: "safe3 w (and_then (PacketUnknown c ty w) (\<lambda>w. Inr (False, bb, w)))"
    unfolding PacketUnknown_def by (intro unknown_safe SendDisconnect_safe assms(1,2))
  from proto_states [OF assms(1,2)] consider "m_ProtoState (protocol w c) = 1" |
    "m_ProtoState (protocol w c) = 2" | "m_ProtoState (protocol w c) = 3" by blast
  then show ?thesis
  proof cases
    case 1
    have "safe3 w (understood (HandlePacketStatusRequest c bb w))" "safe3 w (understood (HandlePacketStatusPing c bb w))"
      by (intro understood_safe StatusRequest_safe StatusPing_safe assms 1)+
    then show ?thesis using 1 u by (simp add: HandlePacket_def Let_def)
  next
    case 2
    have "safe3 w (understood (HandlePacketLoginInfo c bb w))"
      by (intro understood_safe LoginInfo_safe assms 2)
    then show ?thesis using 2 u by (simp add: HandlePacket_def Let_def)
  next
    case 3
    have "safe3 w (understood (HandlePacketKeepAlive c bb w))" "safe3 w (understood (HandlePacketMedia c bb w))"
      by (intro understood_safe KeepAlive_safe Media_safe assms)+
    moreover have "safe3 w (understood (HandlePacketMediaMsg c bb w))"
      by (rule understood_safe, rule MediaMsg_safe) (use assms in auto)
    ultimately show ?thesis using 3 u by (simp add: HandlePacket_def Let_def)
  qed
qed

section \<open>The loop over the packets received\<close>

text \<open>What stays when data is consumed too.\<close>

definition stays :: "world \<Rightarrow> world \<Rightarrow> bool" where
  "stays w w' \<longleftrightarrow> length (objects w') = length (objects w) \<and> uninit w' = uninit w \<and>
     m_bRestarting w' = m_bRestarting w \<and>
     (\<forall>c < length (objects w). m_State (client w c) \<noteq> csDestroyed \<longrightarrow> m_State (client w' c) \<noteq> csDestroyed \<and>
        m_Username (client w' c) = m_Username (client w c) \<and> (c \<in> set (m_Clients w) \<longrightarrow> c \<in> set (m_Clients w')))"

definition well :: "world \<Rightarrow> fault + world \<Rightarrow> bool" where
  "well w m \<longleftrightarrow> (case m of Inl e \<Rightarrow> e = ShiftTooFar | Inr w' \<Rightarrow> server_inv w' \<and> stays w w')"

lemma stays_refl [simp]: "stays w w"
  by (simp add: stays_def)

lemma stays_trans: "stays u v \<Longrightarrow> stays v w \<Longrightarrow> stays u w"
  by (simp add: stays_def)

lemma keeps_stays: "keeps w w' \<Longrightarrow> stays w w'"
  by (simp add: keeps_def stays_def)

lemma safe_well: "safe w m \<Longrightarrow> well w m"
  using keeps_stays by (auto simp: safe_def well_def split: sum.splits)

lemma well_from: "stays u w \<Longrightarrow> well w m \<Longrightarrow> well u m"
  using stays_trans by (auto simp: well_def split: sum.splits)

lemma well_Inr: "server_inv w' \<Longrightarrow> stays w w' \<Longrightarrow> well w (Inr w')"
  by (simp add: well_def)

lemma well_then:
  assumes "well w m" and "\<And>w'. server_inv w' \<Longrightarrow> stays w w' \<Longrightarrow> well w' (k w')"
  shows "well w (and_then m k)"
proof (cases m)
  case (Inr w')
  then show ?thesis using assms well_from by (fastforce simp: well_def)
qed (use assms in \<open>simp add: well_def\<close>)

lemma set_received_inv:
  assumes "server_inv w" and "c < length (objects w)" and "received_ok b"
  shows "server_inv (set_received c b w)" and "stays w (set_received c b w)"
    and "m_ReceivedData (protocol (set_received c b w) c) = b"
proof -
  let ?f = "\<lambda>x. x\<lparr>m_Protocol := (m_Protocol x)\<lparr>m_ReceivedData := b\<rparr>\<rparr>"
  have h: "handle_ok c (client w c)" by (rule server_invD(6) [OF assms(1,2)])
  then have "handle_ok c (?f (client w c))" using assms(3) by (simp add: handle_ok_def)
  then show "server_inv (set_received c b w)"
    unfolding set_received_def using assms(1,2) server_inv_out_ok [OF assms(1,2)]
    by (intro server_inv_upd) (simp_all add: out_ok_def)
  have "m_State (client (upd_client c ?f w) d) = m_State (client w d) \<and>
      m_Username (client (upd_client c ?f w) d) = m_Username (client w d)" for d
    using assms(2) by (cases "d = c") simp_all
  then show "stays w (set_received c b w)" by (simp add: stays_def set_received_def)
  show "m_ReceivedData (protocol (set_received c b w) c) = b"
    using assms(2) by (simp add: set_received_def protocol_upd_same)
qed

text \<open>What one turn does, by what the received bytes start with.\<close>

definition received :: "world \<Rightarrow> nat \<Rightarrow> u8 list" where
  "received w c = unread (m_ReceivedData (protocol w c))"

text \<open>The loop of \<open>AddReceivedData\<close> reads packets from the received data of its client.\<close>

interpretation server_in: packet_reader "\<lambda>w. c < length (objects w)" "\<lambda>w. m_ReceivedData (protocol w c)"
  "set_received c" uninit "run_packet c" "AddReceivedData_turn c" for c
  by unfold_locales (simp_all add: set_received_def protocol_upd_same upd_client_twice AddReceivedData_turn_def)

lemma run_packet_safe:
  assumes "server_inv w" and "c < length (objects w)" and "length (objects w) < 2097152"
    and "m_State (client w c) \<noteq> csDestroyed"
    and "buffer_ok bb" and "consumed bb = []" and "capacity bb = length (unread bb) + 1"
    and "length (unread bb) \<le> 65535"
    and "16384 \<le> length (unread bb) \<Longrightarrow> length (unread bb) \<le> 65533"
  shows "case run_packet c bb w of Inl m \<Rightarrow> safe w m | Inr w' \<Rightarrow> safe w (Inr w')"
proof (cases "dec_varint (unread bb) :: fault + u32 option \<times> u8 list")
  case (Inl e)
  have "ReadVarInt bb = (Inl e :: fault + u32 option \<times> cByteBuffer)"
    by (rule reads_as_Inl [OF ReadVarInt_reads_as assms(5) Inl])
  then show ?thesis using dec_faults(2) [OF Inl] by (simp add: run_packet_def safe_def)
next
  case (Inr r)
  obtain v rest where d: "dec_varint (unread bb) = Inr (v :: u32 option, rest)" using Inr by (cases r) simp
  show ?thesis
  proof (cases v)
    case None
    obtain b1 where "ReadVarInt bb = Inr (None :: u32 option, b1)"
      using reads_as_Inr [OF ReadVarInt_reads_as assms(5) d] None by metis
    then show ?thesis using assms(1) by (simp add: run_packet_def safe_def)
  next
    case (Some ty)
    note d' = d [unfolded Some]
    obtain b1 where b1: "ReadVarInt bb = Inr (Some ty, b1)" "buffer_ok (snd (Write b1 [0]))"
        "unread (snd (Write b1 [0])) = rest @ [0]"
      using packet_type_read [OF assms(5-7) d'] by blast
    have "length rest < length (unread bb)" using dec_varint_consumes [OF d'] by simp
    then have h: "safe3 w (HandlePacket c (snd (Write b1 [0])) ty w)"
      using assms(8,9) b1(3) by (intro HandlePacket_safe assms b1(2)) auto
    have e: "safe w (PacketError c ty w')" if "server_inv w'" "keeps w w'" for w'
      unfolding PacketError_def
      using that assms(2) by (intro safe_from [OF that(2)] SendDisconnect_safe) (simp_all add: keeps_def)
    show ?thesis
    proof (cases "HandlePacket c (snd (Write b1 [0])) ty w")
      case (Inl e)
      then show ?thesis using h b1(1) by (simp add: run_packet_def safe3_def safe_def)
    next
      case (Inr t)
      obtain ok b3 w3 where t: "t = (ok, b3, w3)" by (cases t)
      have w3: "server_inv w3" "keeps w w3" using h Inr t by (simp_all add: safe3_def)
      from e [OF w3] w3 show ?thesis
        by (cases ok; cases "PacketError c ty w3") (simp_all add: run_packet_def b1(1) Inr t safe_def)
    qed
  qed
qed

lemma server_inv_received_ok:
  "server_inv w \<Longrightarrow> c < length (objects w) \<Longrightarrow> received_ok (m_ReceivedData (protocol w c))"
  using server_invD(6) by (auto simp: handle_ok_def protocol_def)

lemma AddReceivedData_loop_well:
  assumes "server_inv w" and "c < length (objects w)" and "length (objects w) < 2097152"
    and "m_State (client w c) \<noteq> csDestroyed"
  shows "\<exists>r. while_option (\<lambda>r. \<not> isl r) (\<lambda>r. AddReceivedData_turn c (projr r)) (Inr w) = Some (Inl r) \<and> well w r"
proof (rule server_in.loop_ends [where I = "\<lambda>w'. server_inv w' \<and> stays w w'"])
  show "server_inv w \<and> stays w w" using assms(1) by simp
next
  fix w' assume i: "server_inv w' \<and> stays w w'"
  then have c: "c < length (objects w')" "length (objects w') < 2097152" "m_State (client w' c) \<noteq> csDestroyed"
    using assms(2-4) by (simp_all add: stays_def)
  show "c < length (objects w') \<and> received_ok (m_ReceivedData (protocol w' c))"
    using c(1) i server_inv_received_ok by blast
  show "server_inv (set_received c b w') \<and> stays w (set_received c b w')" if "received_ok b" for b
    using set_received_inv(1,2) [OF _ c(1) that] i stays_trans by blast
  show "well w (Inr w')" using i by (simp add: well_def)
  fix bb assume bb: "buffer_ok bb" "consumed bb = []" "capacity bb = length (unread bb) + 1" "length (unread bb) < 65536"
    "16384 \<le> length (unread bb) \<Longrightarrow> length (unread bb) \<le> 65533"
  have "case run_packet c bb w' of Inl m \<Rightarrow> safe w' m | Inr w2 \<Rightarrow> safe w' (Inr w2)"
    using i bb by (intro run_packet_safe c) simp_all
  then show "case run_packet c bb w' of Inl m \<Rightarrow> well w m | Inr w2 \<Rightarrow> (server_inv w2 \<and> stays w w2) \<and>
      length (unread (m_ReceivedData (protocol w2 c))) \<le> length (unread (m_ReceivedData (protocol w' c)))"
    using well_from [of w w', OF conjunct2 [OF i] safe_well] stays_trans [of w w'] keeps_stays [of w'] i c(1)
    by (auto simp: safe_def keeps_def split: sum.splits)
qed (simp add: well_def)

lemma AddReceivedData_well:
  assumes "server_inv w" and "c < length (objects w)" and "length (objects w) < 2097152"
    and "m_State (client w c) \<noteq> csDestroyed"
  shows "well w (AddReceivedData c d w)"
proof -
  let ?rd = "m_ReceivedData (protocol w c)"
  obtain f rd where rd: "Write ?rd d = (f, rd)" and rok: "received_ok rd"
    using Write_received_ok [OF server_inv_received_ok [OF assms(1,2)], of d] by metis
  let ?w = "set_received c rd w"
  note inv = set_received_inv [OF assms(1,2) rok]
  have o: "c < length (objects ?w)" "length (objects ?w) < 2097152" "m_State (client ?w c) \<noteq> csDestroyed"
    using inv(2) assms(2,3,4) by (simp_all add: stays_def)
  have "well ?w (PacketBufferFull c ?w)"
    unfolding PacketBufferFull_def by (intro safe_well SendDisconnect_safe inv(1) o(1))
  moreover have "well ?w (AddReceivedData_loop c ?w)"
    using AddReceivedData_loop_well [OF inv(1) o] by (auto simp: AddReceivedData_loop_def)
  ultimately show ?thesis
    using well_from [OF inv(2)] by (cases f) (simp_all add: AddReceivedData_def rd)
qed

section \<open>Ticking a client\<close>

lemma upd_well:
  assumes "server_inv w" and "c < length (objects w)" and "handle_ok c (f (client w c))"
    and "m_Protocol (f (client w c)) = m_Protocol (client w c)"
    and "m_Username (f (client w c)) = m_Username (client w c)"
    and "m_State (client w c) \<noteq> csDestroyed \<Longrightarrow> m_State (f (client w c)) \<noteq> csDestroyed"
  shows "server_inv (upd_client c f w)" and "stays w (upd_client c f w)"
  using server_inv_upd_keeps [where f = f, OF assms] keeps_stays by blast+

lemma stays_bounds:
  "stays w w' \<Longrightarrow> c < length (objects w) \<Longrightarrow> c < length (objects w')"
  "stays w w' \<Longrightarrow> length (objects w) < n \<Longrightarrow> length (objects w') < n"
  "stays w w' \<Longrightarrow> c < length (objects w) \<Longrightarrow> m_State (client w c) \<noteq> csDestroyed \<Longrightarrow>
   m_State (client w' c) \<noteq> csDestroyed"
  by (simp_all add: stays_def)

lemma Tick_incoming_well:
  assumes "server_inv w" and "c < length (objects w)" and "length (objects w) < 2097152"
    and "m_State (client w c) \<noteq> csDestroyed"
  shows "well w (Tick_incoming c w)"
proof -
  let ?w = "upd_client c (\<lambda>x. x\<lparr>m_IncomingData := []\<rparr>) w"
  have "handle_ok c ((client w c)\<lparr>m_IncomingData := []\<rparr>)"
    using server_invD(6) [OF assms(1,2)] by (simp add: handle_ok_def)
  then have i: "server_inv ?w" "stays w ?w" by (intro upd_well assms(1,2); simp)+
  have "well ?w (AddReceivedData c d ?w)" for d
    by (intro AddReceivedData_well i(1) stays_bounds [OF i(2)] assms)
  then show ?thesis
    using well_from [OF i(2)] i(1) by (simp add: Tick_incoming_def Let_def Protocol_DataReceived_def well_Inr i(2))
qed

lemma Tick_outgoing_inv:
  assumes "server_inv w" and "c < length (objects w)"
  shows "server_inv (Tick_outgoing c w)" and "stays w (Tick_outgoing c w)"
proof -
  let ?f = "\<lambda>x. x\<lparr>m_OutgoingData := []\<rparr>" and ?g = "\<lambda>d x. x\<lparr>m_OutgoingData := [], sent := sent x @ d\<rparr>"
  have h: "handle_ok c (client w c)" by (rule server_invD(6) [OF assms])
  have "server_inv (upd_client c ?f w)" "stays w (upd_client c ?f w)"
    using h by (intro upd_well assms; simp add: handle_ok_def)+
  moreover have "server_inv (upd_client c (?g d) w)" "stays w (upd_client c (?g d) w)" for d
    using h by (intro upd_well assms; simp add: handle_ok_def)+
  ultimately show "server_inv (Tick_outgoing c w)" "stays w (Tick_outgoing c w)"
    by (simp_all add: Tick_outgoing_def Let_def upd_client_twice)
qed

lemma Tick_ping_well:
  assumes "server_inv w" and "c < length (objects w)"
  shows "well w (Tick_ping c w)"
proof -
  define w1 where "w1 = (if m_State (client w c) = csAuthenticated
    then upd_client c (\<lambda>x. x\<lparr>m_State := csWorking\<rparr>) w else w)"
  define w2 where "w2 = upd_client c (\<lambda>x. x\<lparr>m_PingID := m_PingID x + 1, m_PingStartTime := now w1\<rparr>) w1"
  have h: "handle_ok c (client w c)" by (rule server_invD(6) [OF assms])
  have i1: "server_inv w1" "stays w w1"
    using h assms by (auto simp: w1_def handle_ok_def agree_def intro!: upd_well)
  then have c1: "c < length (objects w1)" using assms(2) by (simp add: stays_def)
  have "handle_ok c (client w1 c)" by (rule server_invD(6) [OF i1(1) c1])
  then have i2: "server_inv w2" "stays w1 w2"
    unfolding w2_def by (intro upd_well i1(1) c1; simp add: handle_ok_def)+
  have "well w2 (Protocol_SendKeepAlive c i w2)" for i
    by (intro safe_well safe_quietly SendKeepAlive_quietly i2(1) server_invD(1) [OF i2(1)]
        stays_bounds(1) [OF i2(2) c1])
  note send = well_from [OF stays_trans [OF i1(2) i2(2)] this]
  have "Tick_ping c w =
      (if m_State (client w1 c) = csWorking \<and> m_PingStartTime (client w1 c) + PING_TIME_MS \<le> now w1
       then Protocol_SendKeepAlive c (m_PingID (client w2 c)) w2 else Inr w1)"
    by (simp only: Tick_ping_def Let_def w1_def [symmetric] w2_def [symmetric])
  then show ?thesis using send well_Inr [OF i1] by simp
qed

lemma Tick_timeout_well:
  assumes "server_inv w" and "c < length (objects w)"
  shows "well w (Tick_timeout c w)"
proof -
  let ?w = "upd_client c (\<lambda>x. x\<lparr>m_TicksSinceLastPacket := m_TicksSinceLastPacket x + 1\<rparr>) w"
  have "handle_ok c (client w c)" by (rule server_invD(6) [OF assms])
  then have i: "server_inv ?w" "stays w ?w" by (intro upd_well assms; simp add: handle_ok_def)+
  have "well ?w (ClientHandle_SendDisconnect c r ?w)" for r
    by (intro safe_well SendDisconnect_safe i(1) stays_bounds(1) [OF i(2) assms(2)])
  from well_from [OF i(2) this] well_Inr [OF i] show ?thesis by (simp add: Tick_timeout_def Let_def)
qed

lemma ServerTick_well:
  assumes "server_inv w" and "c < length (objects w)" and "length (objects w) < 2097152"
    and "m_State (client w c) \<noteq> csDestroyed"
  shows "well w (ClientHandle_ServerTick c w)"
  unfolding ClientHandle_ServerTick_def
proof (rule well_then [OF Tick_incoming_well [OF assms]])
  fix w1 assume w1: "server_inv w1" "stays w w1"
  note c1 = stays_bounds(1) [OF w1(2) assms(2)]
  note o = Tick_outgoing_inv [OF w1(1) c1]
  have "well (Tick_outgoing c w1) (and_then (Tick_ping c (Tick_outgoing c w1)) (Tick_timeout c))"
  proof (rule well_then)
    note c2 = stays_bounds(1) [OF o(2) c1]
    show "well (Tick_outgoing c w1) (Tick_ping c (Tick_outgoing c w1))" by (rule Tick_ping_well [OF o(1) c2])
    show "well w3 (Tick_timeout c w3)" if "server_inv w3" "stays (Tick_outgoing c w1) w3" for w3
      by (rule Tick_timeout_well [OF that(1) stays_bounds(1) [OF that(2) c2]])
  qed
  then show "well w1 (and_then (Tick_ping c (Tick_outgoing c w1)) (Tick_timeout c))"
    by (rule well_from [OF o(2)])
qed

section \<open>Ticking the clients\<close>

text \<open>The invariant only looks at some of the fields.\<close>

lemma server_inv_fields:
  assumes "server_inv w" and "objects w' = objects w" and "s_ClientCount w' = s_ClientCount w"
    and "set (m_Clients w') \<subseteq> set (m_Clients w)" and "distinct (m_Clients w')" and "m_ClientsToRemove w' = []"
    and "set (m_Queue w') \<subseteq> set (m_Queue w)"
  shows "server_inv w'"
  using assms by (auto simp: server_inv_def outs_def protocol_def client_def names_unique_def subset_iff)

lemma server_inv_rest [simp]:
  "server_inv (w\<lparr>m_ShouldStop := b\<rparr>) = server_inv w"
  "server_inv (w\<lparr>m_bRestart := b\<rparr>) = server_inv w"
  "server_inv (w\<lparr>m_bRestarting := b\<rparr>) = server_inv w"
  "server_inv (w\<lparr>m_PendingCommands := l\<rparr>) = server_inv w"
  "server_inv (w\<lparr>console := l\<rparr>) = server_inv w"
  "server_inv (w\<lparr>now := t\<rparr>) = server_inv w"
  "server_inv (w\<lparr>m_PlayerCount := t\<rparr>) = server_inv w"
  "server_inv (w\<lparr>m_PlayerCountDiff := t\<rparr>) = server_inv w"
  by (simp_all add: server_inv_def outs_def protocol_def client_def names_unique_def)

lemma ExecuteConsoleCommand_inv [simp]:
  "server_inv (Root_ExecuteConsoleCommand cmd w) = server_inv w"
  "objects (Root_ExecuteConsoleCommand cmd w) = objects w"
  by (simp_all add: Root_ExecuteConsoleCommand_def Server_ExecuteConsoleCommand_def Let_def)

lemma TickCommands_inv [simp]:
  "server_inv (Root_TickCommands w) = server_inv w"
  "objects (Root_TickCommands w) = objects w"
proof -
  have "server_inv (foldl (\<lambda>w cmd. Root_ExecuteConsoleCommand cmd w) w cmds) = server_inv w \<and>
      objects (foldl (\<lambda>w cmd. Root_ExecuteConsoleCommand cmd w) w cmds) = objects w" for cmds w
    by (induction cmds arbitrary: w) simp_all
  then show "server_inv (Root_TickCommands w) = server_inv w" "objects (Root_TickCommands w) = objects w"
    by (simp_all add: Root_TickCommands_def)
qed

text \<open>A client that has been destroyed leaves the list; the others keep their place.\<close>

lemma stays_remove: "m_State (client w c) = csDestroyed \<Longrightarrow> stays w (w\<lparr>m_Clients := remove1 c (m_Clients w)\<rparr>)"
  by (auto simp: stays_def client_def intro!: in_set_remove1 [THEN iffD2])

lemma TickClients_loop_well:
  "server_inv w \<Longrightarrow> set cs \<subseteq> {..<length (objects w)} \<Longrightarrow> length (objects w) < 2097152 \<Longrightarrow>
   (case TickClients_loop cs w of Inl e \<Rightarrow> e = ShiftTooFar
      | Inr (removed, w') \<Rightarrow> server_inv w' \<and> stays w w' \<and> set removed \<subseteq> set cs)"
proof (induction cs arbitrary: w)
  case Nil
  then show ?case by simp
next
  case (Cons c cs)
  show ?case
  proof (cases "m_State (client w c) = csDestroyed")
    case True
    let ?w = "w\<lparr>m_Clients := remove1 c (m_Clients w)\<rparr>"
    have "server_inv ?w"
      using Cons.prems(1) by (rule server_inv_fields)
        (use server_invD(4,5) [OF Cons.prems(1)] set_remove1_subset [of c "m_Clients w"] in auto)
    from Cons.IH [OF this] Cons.prems(2,3) True stays_trans [OF stays_remove [OF True]] show ?thesis
      by (auto split: sum.splits)
  next
    case False
    have "well w (ClientHandle_ServerTick c w)"
      by (rule ServerTick_well) (use Cons.prems False in auto)
    then show ?thesis
    proof (cases "ClientHandle_ServerTick c w")
      case (Inr w1)
      with \<open>well w _\<close> have w1: "server_inv w1" "stays w w1" by (simp_all add: well_def)
      then have l: "length (objects w1) = length (objects w)" by (simp add: stays_def)
      from Cons.IH [OF w1(1)] Cons.prems(2,3) show ?thesis
        using False Inr stays_trans [OF w1(2)] by (auto simp: l split: sum.splits)
    qed (use False in \<open>simp add: well_def\<close>)
  qed
qed

lemma Server_TickClients_well:
  assumes "server_inv w" and "length (objects w) < 2097152"
  shows "well w (Server_TickClients w)"
proof -
  note d = server_invD [OF assms(1)]
  have e: "w\<lparr>m_Clients := foldl (\<lambda>cs c. remove1 c cs) (m_Clients w) (m_ClientsToRemove w),
      m_ClientsToRemove := []\<rparr> = w" using d(5) by simp
  from TickClients_loop_well [OF assms(1) d(3) assms(2)] show ?thesis
  proof (cases "TickClients_loop (m_Clients w) w")
    case (Inr r)
    obtain removed w1 where r: "r = (removed, w1)" by (cases r)
    with Inr TickClients_loop_well [OF assms(1) d(3) assms(2)]
    have w1: "server_inv w1" "stays w w1" "set removed \<subseteq> set (m_Clients w)" by auto
    have "quietly (for_clients ClientHandle_destructor removed w1) w1"
      using w1 d(9) by (intro delete.for_all server_invD(1)) (auto simp: stays_def)
    then have "well w (for_clients ClientHandle_destructor removed w1)"
      by (intro well_from [OF w1(2)] safe_well safe_quietly w1(1))
    then show ?thesis using Inr r by (simp add: Server_TickClients_def e Let_def)
  qed (simp add: Server_TickClients_def e well_def Let_def)
qed

section \<open>Logging in and out\<close>

text \<open>
  What does not read from a client returns to the invariant, and leaves the handles, the queue of the authenticator
  and the mark of a restart as they are.
\<close>

definition fine_to :: "world \<Rightarrow> world \<Rightarrow> bool" where
  "fine_to w w' \<longleftrightarrow> server_inv w' \<and> length (objects w') = length (objects w) \<and> m_Queue w' = m_Queue w \<and>
     m_bRestarting w' = m_bRestarting w"

definition fine :: "world \<Rightarrow> fault + world \<Rightarrow> bool" where
  "fine w m \<longleftrightarrow> (\<exists>w'. m = Inr w' \<and> fine_to w w')"

lemma fine_to_inv: "fine_to w w' \<Longrightarrow> server_inv w' \<and> length (objects w') = length (objects w)"
  by (simp add: fine_to_def)

lemma fine_to_trans: "fine_to u v \<Longrightarrow> fine_to v w \<Longrightarrow> fine_to u w"
  by (simp add: fine_to_def)

lemma fine_quietly: "server_inv w \<Longrightarrow> quietly m w \<Longrightarrow> fine w m"
  using server_inv_same_core same_core_fields by (auto simp: fine_def fine_to_def elim!: quietlyE)

lemma fine_then:
  assumes "fine w m" and "\<And>w'. fine_to w w' \<Longrightarrow> fine w' (k w')"
  shows "fine w (and_then m k)"
  using assms fine_to_trans by (fastforce simp: fine_def)

lemma fine_from: "fine_to u w \<Longrightarrow> fine w m \<Longrightarrow> fine u m"
  using fine_to_trans by (auto simp: fine_def)

lemma fine_Inr: "fine_to w w' \<Longrightarrow> fine w (Inr w')"
  by (simp add: fine_def)

lemma fine_done: "server_inv w \<Longrightarrow> fine w (Inr w)"
  by (simp add: fine_def fine_to_def)

lemma fine_to_upd: "server_inv (upd_client c f w) \<Longrightarrow> fine_to w (upd_client c f w)"
  by (simp add: fine_to_def)

lemma fine_broadcast:
  "server_inv w \<Longrightarrow> c < length (objects w) \<Longrightarrow> fine w (Server_BroadcastUserInfo c w)"
  by (intro fine_quietly Server_BroadcastUserInfo_quietly server_invD(1))
    (auto intro: server_inv_named dest: server_invD(9))

lemma Destroy_fine:
  assumes "server_inv w" and "c < length (objects w)"
  shows "fine w (ClientHandle_Destroy c w)"
proof -
  let ?w1 = "upd_client c (\<lambda>x. x\<lparr>m_Link := False\<rparr>) w"
  let ?w2 = "upd_client c (\<lambda>x. x\<lparr>m_Link := False, m_State := csDestroyed\<rparr>) w"
  have h: "handle_ok c (client w c)" by (rule server_invD(6) [OF assms])
  have i1: "server_inv ?w1"
    using h assms server_inv_out_ok [OF assms] by (intro server_inv_upd) (simp_all add: handle_ok_def)
  have i2: "server_inv ?w2"
    using h assms server_inv_out_ok [OF assms] proto_states [OF assms]
    by (intro server_inv_upd) (auto simp: handle_ok_def agree_def protocol_def split: eState.splits)
  have "fine ?w2 (Server_BroadcastUserInfo c ?w2)" using assms(2) by (intro fine_broadcast i2) simp
  then have "fine w (Server_BroadcastUserInfo c ?w2)" by (rule fine_from [OF fine_to_upd [OF i2]])
  then show ?thesis
    using fine_Inr [OF fine_to_upd [OF i1]] by (simp add: ClientHandle_Destroy_def Let_def upd_client_twice)
qed

lemma Shutdown_end_fine:
  assumes "server_inv w"
  shows "fine w (Server_Shutdown_end w)"
proof -
  have "server_inv w \<Longrightarrow> set cs \<subseteq> {..<length (objects w)} \<Longrightarrow> fine w (for_clients ClientHandle_Destroy cs w)" for cs w
  proof (induction cs arbitrary: w)
    case Nil
    then show ?case by (simp add: fine_done)
  next
    case (Cons c cs)
    have "fine w (and_then (ClientHandle_Destroy c w) (for_clients ClientHandle_Destroy cs))"
      by (rule fine_then [OF Destroy_fine]) (use Cons in \<open>auto simp: fine_to_def\<close>)
    then show ?case by simp
  qed
  from this [OF assms server_invD(3) [OF assms]] show ?thesis
    unfolding Server_Shutdown_end_def
  proof (rule fine_then)
    fix w' assume "fine_to w w'"
    then have i: "server_inv w'" by (simp add: fine_to_def)
    then have "server_inv (w'\<lparr>m_Clients := []\<rparr>)" by (rule server_inv_fields) (simp_all add: server_invD(5) [OF i])
    then show "fine w' (Inr (w'\<lparr>m_Clients := []\<rparr>))" by (simp add: fine_Inr fine_to_def)
  qed
qed

lemma IsPlayerInQueue_iff:
  "IsPlayerInQueue w name \<longleftrightarrow> (\<exists>c \<in> set (m_Clients w). m_Username (client w c) = name)"
  by (simp add: IsPlayerInQueue_def list_ex_iff)

text \<open>The state once \<open>Authenticate\<close> has sent the login-success packet.\<close>

lemma login_inv:
  assumes "server_inv w" and c: "c \<in> set (m_Clients w)" and "m_State (client w c) = csAuthenticating"
    and fresh: "\<not> IsPlayerInQueue w name" and len: "length name \<le> 65501"
  obtains w' where
    "Protocol_SendLoginSuccess c (upd_client c (\<lambda>x. x\<lparr>m_Username := name\<rparr>) w) = Inr w'"
    and "server_inv (upd_client c (\<lambda>x. x\<lparr>m_State := csAuthenticated\<rparr>) w')"
    and "length (objects w') = length (objects w)" and "m_Queue w' = m_Queue w"
    and "m_Username (client w' c) = name" and "m_ProtoState (protocol w' c) = 3"
    and "m_bRestarting w' = m_bRestarting w"
proof -
  note d = server_invD [OF assms(1)]
  have cl: "c < length (objects w)" by (rule d(9) [OF c])
  let ?w1 = "upd_client c (\<lambda>x. x\<lparr>m_Username := name\<rparr>) w"
  have o1: "outs ?w1" using server_inv_out_ok [OF assms(1) cl] by (intro outs_upd d(1)) simp
  have fits: "length (varint_bytes (1 :: u32)) + length ([] :: u8 list) \<le> 65536"
    using small_type [of 1] by simp
  have "c < length (objects ?w1)" using cl by simp
  from quietlyE [OF send_packet_quietly [OF o1 this pkt_as_none fits]] obtain w2 where
    w2: "send_packet c 1 Inr ?w1 = Inr w2" "same_core ?w1 w2" "outs w2" by metis
  let ?w3 = "set_proto_state c 3 w2"
  let ?w4 = "upd_client c (\<lambda>x. x\<lparr>m_State := csAuthenticated\<rparr>) ?w3"
  have e4: "?w4 = upd_client c (\<lambda>x. x\<lparr>m_Protocol := (m_Protocol x)\<lparr>m_ProtoState := 3\<rparr>, m_State := csAuthenticated\<rparr>) w2"
    by (simp add: set_proto_state_def upd_client_twice)
  note f = same_core_fields [OF w2(2)]
  have l2: "length (objects w2) = length (objects w)" using f(1) by simp
  have other: "core (client w2 e) = core (client w e)" if "e < length (objects w)" "e \<noteq> c" for e
    using same_core_client [OF w2(2), of e] that by simp
  have self: "core (client w2 c) = core ((client w c)\<lparr>m_Username := name\<rparr>)"
    using same_core_client [OF w2(2), of c] cl by simp
  have h: "handle_ok c (client w c)" by (rule d(6) [OF cl])
  have u: "m_Username (client w c) = []"
    using h assms(3) by (simp add: handle_ok_def agree_def)
  then have ne: "name \<noteq> []" using fresh c by (auto simp: IsPlayerInQueue_iff)
  have name: "m_Username (client ?w4 e) = (if e = c then name else m_Username (client w e))"
    if "e < length (objects w)" for e
    using that core_fields(2) [OF other] core_fields(2) [OF self] cl l2 by (auto simp: e4)
  have "handle_ok e (client ?w4 e)" if e: "e < length (objects w)" for e
  proof (cases "e = c")
    case True
    then show ?thesis
      using h len ne core_fields [OF self] cl l2 by (simp add: e4 handle_ok_def agree_def)
  next
    case False
    then show ?thesis using handle_ok_core [OF other [OF e False]] d(6) [OF e] by (simp add: e4)
  qed
  moreover have "outs ?w4"
    using w2(3) cl l2 unfolding e4 by (intro outs_upd) (simp_all add: outs_def protocol_def out_ok_def)
  moreover have "names_unique ?w4"
    unfolding names_unique_def
  proof (intro ballI impI)
    fix a b assume ab: "a \<in> set (m_Clients ?w4)" "b \<in> set (m_Clients ?w4)"
      and eq: "m_Username (client ?w4 a) = m_Username (client ?w4 b)" "m_Username (client ?w4 a) \<noteq> []"
    have in_w: "a \<in> set (m_Clients w)" "b \<in> set (m_Clients w)" using ab f(3) by (simp_all add: e4)
    have no: "m_Username (client w x) \<noteq> name" if "x \<in> set (m_Clients w)" for x
      using fresh that by (auto simp: IsPlayerInQueue_iff)
    show "a = b"
      using eq in_w d(8) no name [OF d(9)] unfolding names_unique_def by (auto split: if_splits)
  qed
  ultimately have "server_inv ?w4" using d f by (simp add: server_inv_def e4)
  moreover have "Protocol_SendLoginSuccess c ?w1 = Inr ?w3" by (simp add: Protocol_SendLoginSuccess_def w2(1))
  moreover have "length (objects ?w3) = length (objects w)" "m_Queue ?w3 = m_Queue w"
    "m_Username (client ?w3 c) = name" "m_ProtoState (protocol ?w3 c) = 3" "m_bRestarting ?w3 = m_bRestarting w"
    using l2 f(5,8) cl core_fields(2) [OF self] by (simp_all add: set_proto_state_def protocol_def)
  ultimately show thesis by (intro that)
qed

lemma Authenticate_fine:
  assumes "server_inv w" and c: "c \<in> set (m_Clients w)" and len: "length name \<le> 65501"
  shows "fine w (ClientHandle_Authenticate c name w)"
proof (cases "m_State (client w c) = csAuthenticating")
  case auth: True
  have cl: "c < length (objects w)" by (rule server_invD(9) [OF assms(1) c])
  show ?thesis
  proof (cases "IsPlayerInQueue w name")
    case True
    have "fine w (ClientHandle_SendDisconnect c r w)" for r
      by (intro fine_quietly ClientHandle_SendDisconnect_quietly server_invD(1) assms(1) cl)
    from fine_then [OF this, of Inr] fine_done fine_to_inv have "fine w (and_then (ClientHandle_SendDisconnect c r w) Inr)" for r
      by blast
    then show ?thesis
      using True auth by (simp add: ClientHandle_Authenticate_def CheckMultiLogin_def ClientHandle_Kick_def and_then_assoc)
  next
    case False
    obtain w2 where w2:
      "Protocol_SendLoginSuccess c (upd_client c (\<lambda>x. x\<lparr>m_Username := name\<rparr>) w) = Inr w2"
      "server_inv (upd_client c (\<lambda>x. x\<lparr>m_State := csAuthenticated\<rparr>) w2)"
      "length (objects w2) = length (objects w)" "m_Queue w2 = m_Queue w" "m_bRestarting w2 = m_bRestarting w"
      using login_inv [OF assms(1) c auth False len] by metis
    let ?w3 = "upd_client c (\<lambda>x. x\<lparr>m_State := csAuthenticated\<rparr>) w2"
    have "fine ?w3 (and_then (Server_BroadcastUserInfo c ?w3)
        (\<lambda>w. Inr (upd_client c (\<lambda>x. x\<lparr>m_PingStartTime := now w + 3000\<rparr>) w)))"
    proof (rule fine_then)
      show "fine ?w3 (Server_BroadcastUserInfo c ?w3)" using w2(3) cl by (intro fine_broadcast w2(2)) simp
      fix w4 assume "fine_to ?w3 w4"
      then have w4: "server_inv w4" and c4: "c < length (objects w4)" using w2(3) cl by (simp_all add: fine_to_def)
      have "handle_ok c (client w4 c)" by (rule server_invD(6) [OF w4 c4])
      then have "server_inv (upd_client c (\<lambda>x. x\<lparr>m_PingStartTime := now w4 + 3000\<rparr>) w4)"
        by (intro upd_well(1) w4 c4) (simp_all add: handle_ok_def)
      then show "fine w4 (Inr (upd_client c (\<lambda>x. x\<lparr>m_PingStartTime := now w4 + 3000\<rparr>) w4))"
        by (intro fine_Inr fine_to_upd)
    qed
    moreover have "fine_to w ?w3" using w2 by (simp add: fine_to_def)
    ultimately show ?thesis
      using fine_from w2(1) auth False by (simp add: ClientHandle_Authenticate_def CheckMultiLogin_def)
  qed
qed (simp add: ClientHandle_Authenticate_def fine_done assms(1))

section \<open>The authenticator\<close>

lemma AuthFromDBPoll_length: "AuthFromDBPoll g name pwd = 1 \<Longrightarrow> length pwd = 32"
  by (auto simp: AuthFromDBPoll_def Let_def length_md5_toString split: if_splits)

definition user_ok :: "cUser \<Rightarrow> bool" where
  "user_ok u \<longleftrightarrow> length (user_Username u) + length (user_Password u) \<le> 65533"

lemma Authenticator_decide_fine:
  assumes i: "server_inv w" and "user_ok u"
  shows "fine w (Authenticator_decide u w)"
proof -
  have kick: "fine w (Server_KickUser k r w)" for k r
    using server_invD(3) [OF i] by (intro fine_quietly Server_KickUser_quietly server_invD(1) i)
  have auth: "fine w (Server_AuthenticateUser k (user_Username u) w)"
    if ok: "AuthFromDBPoll g (user_Username u) (user_Password u) = 1" for k g
  proof -
    have "length (user_Username u) \<le> 65501" using assms(2) AuthFromDBPoll_length [OF ok] by (simp add: user_ok_def)
    from Authenticate_fine [OF i _ this] show ?thesis
      using i by (auto simp: Server_AuthenticateUser_def fine_done find_Some_iff split: option.split)
  qed
  show ?thesis using kick auth by (simp add: Authenticator_decide_def Let_def)
qed

lemma pop_inv: "server_inv w \<Longrightarrow> m_Queue w = u # rest \<Longrightarrow> server_inv (w\<lparr>m_Queue := rest\<rparr>) \<and> user_ok u"
  using server_invD(4,5,7) [of w] by (auto simp: user_ok_def intro!: server_inv_fields [of w])

lemma Authenticator_turn_fine:
  assumes "server_inv w"
  shows "\<exists>w'. Authenticator_turn w = Inr w' \<and> server_inv w' \<and> length (objects w') = length (objects w)"
proof (cases "m_Queue w")
  case (Cons u rest)
  then show ?thesis
    using Authenticator_decide_fine [of "w\<lparr>m_Queue := rest\<rparr>" u] pop_inv [OF assms Cons]
    by (auto simp: Authenticator_turn_def fine_def fine_to_def)
qed (use assms in \<open>simp add: Authenticator_turn_def\<close>)

section \<open>Every event\<close>

lemma outs_append:
  assumes "outs w" and "out_ok (m_Protocol x)"
  shows "outs (w\<lparr>objects := objects w @ [x], s_ClientCount := n, m_Clients := cs\<rparr>)"
  using assms by (auto simp: outs_def protocol_def client_def nth_append)

lemma Accept_inv:
  assumes "server_inv w" and "length ip \<le> 45" and "s_ClientCount w < 2 ^ 31 - 1"
  obtains c w' where "Server_OnConnectionAccepted ip w = Inr (c, w')" and "server_inv w'"
    and "length (objects w') = Suc (length (objects w))" and "c = length (objects w)"
proof -
  note d = server_invD [OF assms(1)]
  let ?n = "s_ClientCount w + 1" and ?c = "length (objects w)"
  let ?x = "new_cClientHandle ip ?n w"
  let ?w = "w\<lparr>s_ClientCount := ?n, objects := objects w @ [?x], m_Clients := m_Clients w @ [?c]\<rparr>"
  have e: "Server_OnConnectionAccepted ip w = Inr (?c, ?w)"
    using assms(3) by (simp add: Server_OnConnectionAccepted_def Let_def)
  have old: "client ?w e = client w e" if "e < ?c" for e using that by (simp add: client_def nth_append)
  have new: "client ?w ?c = ?x" by (simp add: client_def)
  have "received_ok (m_ReceivedData (new_cProtocol g))" for g
    by (simp add: new_cProtocol_def received_ok_def new_cByteBuffer_ok KiB_def)
  then have "handle_ok ?c ?x"
    using d(2) assms(2) by (simp add: handle_ok_def new_cClientHandle_def agree_def new_cProtocol_def)
  then have h: "handle_ok e (client ?w e)" if "e < length (objects ?w)" for e
    using that d(6) old new by (cases "e = ?c") (simp_all add: less_Suc_eq)
  have o: "outs ?w" using outs_append [OF d(1), of ?x] new_cProtocol_out_ok
    by (auto simp: outs_def protocol_def client_def nth_append new_cClientHandle_def)
  have "m_Username ?x = []" by (simp add: new_cClientHandle_def)
  then have "names_unique ?w"
    using d(8) d(9) old new unfolding names_unique_def by (auto simp: nth_append) 
  then have "server_inv ?w"
    using d(2,4,5,7) h o by (auto simp: server_inv_def intro: less_SucI dest: d(9))
  then show thesis by (rule that [OF e]) simp_all
qed

text \<open>The one event theorem: it needs room for another client identifier of three bytes.\<close>

lemma server_event_fine:
  assumes "server_inv w" and "enabled e w" and "length (objects w) < 2097152"
  shows "case server_event e w of Inl f \<Rightarrow> f = ShiftTooFar
    | Inr w' \<Rightarrow> server_inv w' \<and> length (objects w') = length (objects w) + accepts e"
proof (cases e)
  case (Accept ip)
  have "s_ClientCount w < 2 ^ 31 - 1" using server_invD(2) [OF assms(1)] assms(3) by simp
  from Accept_inv [OF assms(1) _ this] Accept assms(2) show ?thesis
    by (fastforce simp: enabled_def)
next
  case (LinkCreated c)
  then have c: "c < length (objects w)" using assms(2) by (simp add: enabled_def)
  show ?thesis
    using server_invD(6) [OF assms(1) c] LinkCreated
    by (auto simp: ClientHandle_OnLinkCreated_def handle_ok_def intro!: upd_well(1) [OF assms(1) c])
next
  case (DataIn c data)
  then have c: "c < length (objects w)" using assms(2) by (simp add: enabled_def)
  show ?thesis
    using server_invD(6) [OF assms(1) c] DataIn
    by (auto simp: ClientHandle_OnReceivedData_def handle_ok_def intro!: upd_well(1) assms(1) c)
next
  case (RemoteClosed c)
  then have c: "c < length (objects w)" using assms(2) by (simp add: enabled_def)
  have "server_inv (upd_client c (\<lambda>x. x\<lparr>m_Link := False\<rparr>) w)"
    using server_invD(6) [OF assms(1) c] by (intro upd_well(1) assms(1) c) (simp_all add: handle_ok_def)
  from Destroy_fine [OF this, of c] show ?thesis
    using RemoteClosed c
    by (auto simp: ClientHandle_OnRemoteClosed_def ClientHandle_SocketClosed_def fine_def dest: fine_to_inv)
next
  case (LinkError c code)
  then have c: "c < length (objects w)" using assms(2) by (simp add: enabled_def)
  have "server_inv (upd_client c (\<lambda>x. x\<lparr>m_Link := False\<rparr>) w)"
    using server_invD(6) [OF assms(1) c] by (intro upd_well(1) assms(1) c) (simp_all add: handle_ok_def)
  from Destroy_fine [OF this, of c] show ?thesis
    using LinkError c
    by (auto simp: ClientHandle_OnError_def ClientHandle_SocketClosed_def fine_def dest: fine_to_inv)
next
  case TickEvent
  let ?w = "Root_TickCommands (w\<lparr>m_PlayerCount := m_PlayerCount w + m_PlayerCountDiff w, m_PlayerCountDiff := 0\<rparr>)"
  have "well ?w (Server_TickClients ?w)" using assms(1,3) by (intro Server_TickClients_well) simp_all
  then show ?thesis
    using TickEvent by (cases "Server_TickClients ?w") (simp_all add: Server_Tick_def Let_def well_def stays_def)
next
  case AuthEvent
  then show ?thesis using Authenticator_turn_fine [OF assms(1)] by auto
next
  case (ConsoleLine line)
  then show ?thesis using assms(1) by (simp add: Root_InputLine_def)
next
  case (QueueCommand cmd)
  then show ?thesis using assms(1) by (simp add: Root_QueueExecuteConsoleCommand_def Let_def)
next
  case (Elapse n)
  then show ?thesis using assms(1) by simp
next
  case ShutdownBegin
  then show ?thesis using assms(1) by (simp add: Server_Shutdown_begin_def)
next
  case ShutdownEnd
  then show ?thesis using Shutdown_end_fine [OF assms(1)] by (auto simp: fine_def dest: fine_to_inv)
qed

section \<open>Reachable states\<close>

lemma initial_inv: "server_inv (initial_world t garbage)"
  by (simp add: initial_world_def server_inv_def outs_def names_unique_def)

lemma reachable_inv: "reachable n w \<Longrightarrow> n < 2097152 \<Longrightarrow> server_inv w \<and> length (objects w) = n"
proof (induction rule: reachable.induct)
  case (start t garbage)
  then show ?case by (simp add: initial_inv) (simp add: initial_world_def)
next
  case (step n w e w')
  then have w: "server_inv w" "length (objects w) = n" by simp_all
  from server_event_fine [OF w(1) step.hyps(2)] step.hyps(3) step.prems w(2) show ?case by simp
qed

section \<open>The password check\<close>

lemma hex_lower: "k < 16 \<Longrightarrow> c_tolower (md5_HEX ! k) = md5_HEX ! k"
proof -
  assume k: "k < 16"
  have "map c_tolower md5_HEX = md5_HEX" by (simp add: md5_HEX_def ascii_def c_tolower_def)
  moreover have "length md5_HEX = 16" by (simp add: md5_HEX_def ascii_def)
  ultimately show ?thesis using k by (metis nth_map)
qed

lemma bytesToHexString_lower: "map c_tolower (bytesToHexString bs) = bytesToHexString bs"
proof (induction bs)
  case (Cons b bs)
  have "unat b div 16 < 16" "unat b mod 16 < 16" using unsigned_less [of b, where 'a = nat] by simp_all
  then show ?case using Cons by (simp add: bytesToHexString_def hex_lower)
qed (simp add: bytesToHexString_def)

lemma AuthFromDBPoll_iff:
  assumes "length name \<le> 2 ^ 32 - 64"
  shows "AuthFromDBPoll g name pwd = (if pwd = bytesToHexString (md5_hash name) then 1 else 0)"
proof -
  have "md5_rep (md5_update (md5_reset (new_MD5 g)) name) ([] @ name)"
    using assms by (intro md5_update_rep md5_new_rep) simp
  from md5_toString_hash [OF this] show ?thesis
    by (auto simp: AuthFromDBPoll_def Let_def bytesToHexString_lower)
qed

end
