(* ===== verification/ServerProperties.thy ===== *)
theory ServerProperties
  imports ServerInvariants
begin

text \<open>
  The properties of the running server: it is never ended by a failed \<open>VERIFY\<close> or by a loop, what holds
  in every reachable state, what a packet does when it arrives, and what the authenticator decides.
\<close>

unbundle bit_operations_syntax

section \<open>One packet\<close>

lemma set_received_twice [simp]: "set_received c b (set_received c b' w) = set_received c b w"
  by (simp add: set_received_def upd_client_twice)

lemma set_received_other [simp]: "d \<noteq> c \<Longrightarrow> client (set_received c b w) d = client w d"
  by (simp add: set_received_def)

lemma set_received_same:
  "c < length (objects w) \<Longrightarrow> client (set_received c b w) c =
     (client w c)\<lparr>m_Protocol := (m_Protocol (client w c))\<lparr>m_ReceivedData := b\<rparr>\<rparr>"
  by (simp add: set_received_def)

lemma set_received_rest [simp]:
  "length (objects (set_received c b w)) = length (objects w)"
  "m_Clients (set_received c b w) = m_Clients w" "m_Queue (set_received c b w) = m_Queue w"
  "now (set_received c b w) = now w" "uninit (set_received c b w) = uninit w"
  by (simp_all add: set_received_def)

lemma received_set [simp]: "c < length (objects w) \<Longrightarrow> received (set_received c b w) c = unread b"
  by (simp add: received_def protocol_def set_received_same)

text \<open>
  A frame that arrives when nothing is left from before is handled as one packet. \<open>P\<close> is what the
  handler establishes when it reads exactly the fields of the packet.
\<close>

lemma AddReceivedData_frame:
  assumes rd: "received_ok (m_ReceivedData (protocol w c))" and c: "c < length (objects w)"
    and empty: "received w c = []"
    and len: "length (frame (varint_bytes ty @ rest)) \<le> 65536"
    and handler: "\<And>rd bb. received_ok rd \<Longrightarrow> unread rd = [] \<Longrightarrow> buffer_ok bb \<Longrightarrow> unread bb = rest @ [0] \<Longrightarrow>
      \<exists>bb' w2. HandlePacket c bb (ty :: u32) (set_received c rd w) = Inr (True, bb', w2) \<and>
        buffer_ok bb' \<and> length (unread bb') = 1 \<and> m_ReceivedData (protocol w2 c) = rd \<and> P w2"
  obtains rd w2 where "AddReceivedData c (frame (varint_bytes ty @ rest)) w = Inr (set_received c rd w2)"
    and "received_ok rd" and "unread rd = []" and "P w2"
proof -
  let ?p = "varint_bytes ty @ rest" and ?rd = "m_ReceivedData (protocol w c)"
  have pl: "length ?p < 65536" using len varint_bytes_step [of "of_nat (length ?p) :: u32"] by (simp add: frame_def)
  obtain rd1 where w1: "Write ?rd (frame ?p) = (True, rd1)" and rd1: "received_ok rd1" "unread rd1 = frame ?p"
    using Write_received_ok [OF rd, of "frame ?p"] empty len by (auto simp: received_def)
  let ?w1 = "set_received c rd1 w"
  have w1_rd: "m_ReceivedData (protocol ?w1 c) = rd1" using c by (simp add: protocol_def set_received_same)
  obtain rd2 w2 where l: "while_option (\<lambda>r. \<not> isl r) (\<lambda>r. AddReceivedData_turn c (projr r)) (Inr ?w1) =
      Some (Inl (Inr (set_received c rd2 w2)))" "received_ok rd2" "unread rd2 = []" "P w2"
  proof (rule server_in.loop_one_frame [where s = ?w1 and P = P and payload = ?p])
    fix b bb assume b: "received_ok b" "unread b = []" "buffer_ok bb" "consumed bb = []" "unread bb = ?p"
      "capacity bb = length ?p + 1"
    have d: "dec_varint (unread bb) = Inr (Some ty, rest)" unfolding b(5) by (rule dec_varint_bytes_32)
    obtain b1 where b1: "ReadVarInt bb = Inr (Some ty, b1)" "buffer_ok (snd (Write b1 [0]))"
        "unread (snd (Write b1 [0])) = rest @ [0]"
      using packet_type_read [OF b(3,4) _ d] b(5,6) by auto
    from handler [OF b(1,2) b1(2,3)] obtain b3 w3 where
      "HandlePacket c (snd (Write b1 [0])) ty (set_received c b w) = Inr (True, b3, w3)"
        "buffer_ok b3" "length (unread b3) = 1" "m_ReceivedData (protocol w3 c) = b" "P w3" by metis
    then show "\<exists>s2. run_packet c bb (set_received c b ?w1) = Inr s2 \<and> received_ok (m_ReceivedData (protocol s2 c)) \<and>
        unread (m_ReceivedData (protocol s2 c)) = [] \<and> P s2"
      using b(1,2) by (simp add: run_packet_def b1(1) GetReadableSpace_eq)
  qed (use c pl rd1 w1_rd in simp_all)
  then have "AddReceivedData c (frame ?p) w = Inr (set_received c rd2 w2)"
    by (simp add: AddReceivedData_def AddReceivedData_loop_def w1)
  with l show thesis by (intro that)
qed

lemma handle_read_Some:
  assumes "reads_as f p" and "buffer_ok bb" and "p (unread bb) = Inr (Some x, rest)"
  obtains bb' where "\<And>k w. handle_read f k bb w = k x bb' w" and "buffer_ok bb'" and "unread bb' = rest"
proof -
  obtain b' where "f bb = Inr (Some x, b')" "buffer_ok b'" "unread b' = rest"
    using reads_as_Inr [OF assms] by metis
  then show thesis by (intro that [of b']) (simp_all add: handle_read_def)
qed

section \<open>Forwarding\<close>

lemma unique_id: "server_inv w \<Longrightarrow> c < length (objects w) \<Longrightarrow> m_UniqueID (client w c) = int (Suc c)"
  using server_invD(6) by (auto simp: handle_ok_def)

lemma find_id_client:
  assumes "server_inv w" and "length (objects w) < 2097152" and b: "b \<in> set (m_Clients w)"
  shows "find_id w (word_of_int (m_UniqueID (client w b))) = Some b"
proof -
  note d = server_invD [OF assms(1)]
  have id: "unat (word_of_int (m_UniqueID (client w c)) :: u32) = Suc c" if "c \<in> set (m_Clients w)" for c
  proof -
    have c: "c < length (objects w)" by (rule d(9) [OF that])
    have "(word_of_int (m_UniqueID (client w c)) :: u32) = of_nat (Suc c)"
      unfolding unique_id [OF assms(1) c] by (rule of_int_of_nat_eq)
    then show ?thesis using c assms(2) by (simp add: unat_of_nat del: of_nat_Suc)
  qed
  obtain i where i: "i < length (m_Clients w)" "m_Clients w ! i = b" using b by (metis in_set_conv_nth)
  have "\<not> word_of_int (m_UniqueID (client w (m_Clients w ! j))) =
      (word_of_int (m_UniqueID (client w b)) :: u32)" if "j < i" for j
  proof
    assume "word_of_int (m_UniqueID (client w (m_Clients w ! j))) = (word_of_int (m_UniqueID (client w b)) :: u32)"
    then have "Suc (m_Clients w ! j) = Suc b" using id [OF b] id [of "m_Clients w ! j"] that i(1) by simp
    then show False using d(4) that i by (metis Suc_inject nat_neq_iff nth_eq_iff_index_eq order_less_trans)
  qed
  then show ?thesis unfolding find_id_def find_Some_iff using i by blast
qed

lemma frame_length:
  assumes "length p < 2097152"
  shows "length (frame p) \<le> 3 + length p"
  using varint_length_bounds(3) [of "of_nat (length p)"] assms by (simp add: frame_def unat_of_nat)

lemma HandlePacketMediaMsg_forwards:
  assumes inv: "server_inv w" and n: "length (objects w) < 2097152" and b: "b \<in> set (m_Clients w)"
    and a: "a < length (objects w)" and len: "length msg \<le> 65526"
    and bb: "buffer_ok bb"
    and u: "unread bb = varint_bytes (word_of_int (m_UniqueID (client w b)) :: u32) @ string_bytes msg @ rest"
  shows "\<exists>bb' w'. HandlePacketMediaMsg a bb w = Inr (bb', w') \<and> buffer_ok bb' \<and> unread bb' = rest \<and> same_core w w' \<and>
    (\<forall>d. d \<noteq> b \<longrightarrow> client w' d = client w d) \<and>
    m_OutgoingData (client w' b) = m_OutgoingData (client w b) @ (if m_HasSentDC (client w b) then []
      else frame (varint_bytes (0x12 :: u32) @ varint_bytes (word_of_int (m_UniqueID (client w a)) :: u32) @ string_bytes msg))"
proof -
  let ?id = "\<lambda>c. word_of_int (m_UniqueID (client w c)) :: u32"
  note d = server_invD [OF inv]
  have "varint_dec 0 0 (unread bb) = Inr (Some (?id b), string_bytes msg @ rest)"
    unfolding u using varint_dec_bytes [of 0 "?id b" 0] unsigned_less [of "?id b", where 'a = nat] by simp
  from handle_read_Some [OF read_varint(1) bb this] obtain b1 where
    b1: "\<And>k w. handle_read ReadVarInt32 k bb w = k (?id b) b1 w" "buffer_ok b1" "unread b1 = string_bytes msg @ rest"
    by blast
  have "dec_string (unread b1) = Inr (Some msg, rest)" using len by (simp add: b1(3) dec_string_bytes)
  from handle_read_Some [OF ReadVarUTF8String_reads_as b1(2) this] obtain b2 where
    b2: "\<And>k w. handle_read ReadVarUTF8String k b1 w = k msg b2 w" "buffer_ok b2" "unread b2 = rest"
    by blast
  have fits: "length (varint_bytes (0x12 :: u32)) + length (varint_bytes (?id a) @ string_bytes msg) \<le> 65536"
    using len sender_id [OF inv a n] by (intro ForwardMediaMsg_fits) simp_all
  obtain w' where
    w': "send_packet b 0x12 (\<lambda>b. and_then (pkt_WriteVarInt32 (?id a) b) (pkt_WriteString msg)) w = Inr w'"
    "same_core w w'" "outs w'"
    "m_OutgoingData (client w' b) = (if m_HasSentDC (client w b) then m_OutgoingData (client w b)
           else m_OutgoingData (client w b) @ frame (varint_bytes (0x12 :: u32) @ varint_bytes (?id a) @ string_bytes msg))"
    "m_HasSentDC (client w' b) = m_HasSentDC (client w b)" "\<And>d. d \<noteq> b \<Longrightarrow> client w' d = client w d"
    by (rule send_packet_effect [OF d(1) d(9) [OF b] ForwardMediaMsg_writes fits], rule that)
  have "HandlePacketMediaMsg a bb w = Inr (b2, w')"
    by (simp add: HandlePacketMediaMsg_def b1(1) b2(1) Server_ForwardMediaMsg_def find_id_client [OF inv n b] Protocol_ForwardMediaMsg_def w'(1) done_with_def)
  then show ?thesis using b2(2,3) w'(2,4,6) by (cases "m_HasSentDC (client w b)") auto
qed

lemma HandlePacket_playing:
  assumes "m_ProtoState (protocol w c) = 3"
  shows "HandlePacket c bb 0x00 w = understood (HandlePacketKeepAlive c bb w)"
    and "HandlePacket c bb 0x11 w = understood (HandlePacketMedia c bb w)"
    and "HandlePacket c bb 0x12 w = understood (HandlePacketMediaMsg c bb w)"
  using assms by (simp_all add: HandlePacket_def Let_def)

text \<open>
  What a forwarded packet with the bytes \<open>e\<close> does: it is appended to the outgoing data of \<open>b\<close>, and no other client
  changes but for the received data of the sender \<open>a\<close>.
\<close>

definition relayed :: "nat \<Rightarrow> nat \<Rightarrow> u8 list \<Rightarrow> world \<Rightarrow> world \<Rightarrow> bool" where
  "relayed a b e w w2 \<longleftrightarrow>
     length (objects w2) = length (objects w) \<and> m_Clients w2 = m_Clients w \<and>
     (\<forall>d. d \<noteq> a \<longrightarrow> d \<noteq> b \<longrightarrow> client w2 d = client w d) \<and>
     (\<forall>d < length (objects w). m_UniqueID (client w2 d) = m_UniqueID (client w d)) \<and>
     (b \<noteq> a \<longrightarrow> core (client w2 b) = core (client w b)) \<and>
     (a \<noteq> b \<longrightarrow> m_OutgoingData (client w2 a) = m_OutgoingData (client w a) \<and> m_HasSentDC (client w2 a) = m_HasSentDC (client w a)) \<and>
     m_OutgoingData (client w2 b) = m_OutgoingData (client w b) @ (if m_HasSentDC (client w b) then [] else frame e)"

definition relays :: "(nat \<Rightarrow> cByteBuffer \<Rightarrow> world \<Rightarrow> fault + (cByteBuffer \<times> world)) \<Rightarrow> nat \<Rightarrow> nat \<Rightarrow> u8 list \<Rightarrow> u8 list \<Rightarrow> world \<Rightarrow> bool" where
  "relays H a b rest e w \<longleftrightarrow>
     (\<forall>bb. buffer_ok bb \<longrightarrow> unread bb = rest @ [0] \<longrightarrow>
       (\<exists>bb' w'. H a bb w = Inr (bb', w') \<and> buffer_ok bb' \<and> unread bb' = [0] \<and> same_core w w' \<and>
         (\<forall>d. d \<noteq> b \<longrightarrow> client w' d = client w d) \<and>
         m_OutgoingData (client w' b) = m_OutgoingData (client w b) @ (if m_HasSentDC (client w b) then [] else frame e)))"

lemma HandlePacket_relays:
  assumes inv: "server_inv w" and a: "a < length (objects w)" and b: "b < length (objects w)" and rd: "received_ok rd"
    and h: "relays H a b rest e (set_received a rd w)"
    and ty: "\<And>bb. HandlePacket a bb ty (set_received a rd w) = understood (H a bb (set_received a rd w))"
    and bb: "buffer_ok bb" "unread bb = rest @ [0]"
  shows "\<exists>bb' w2. HandlePacket a bb ty (set_received a rd w) = Inr (True, bb', w2) \<and> buffer_ok bb' \<and>
    length (unread bb') = 1 \<and> m_ReceivedData (protocol w2 a) = rd \<and> relayed a b e w w2"
proof -
  let ?w = "set_received a rd w"
  note i = set_received_inv [OF inv a rd]
  have same: "m_UniqueID (client ?w c) = m_UniqueID (client w c)" "m_HasSentDC (client ?w c) = m_HasSentDC (client w c)"
    "m_OutgoingData (client ?w c) = m_OutgoingData (client w c)" for c
    using a by (cases "c = a"; simp add: set_received_same)+
  obtain bb' w' where h: "H a bb ?w = Inr (bb', w')" "buffer_ok bb'" "unread bb' = [0]" "same_core ?w w'"
    "\<forall>d. d \<noteq> b \<longrightarrow> client w' d = client ?w d"
    "m_OutgoingData (client w' b) = m_OutgoingData (client w b) @ (if m_HasSentDC (client w b) then [] else frame e)"
    using h bb unfolding relays_def same by blast
  have "m_ReceivedData (protocol w' a) = rd"
    using core_fields(10) [OF same_core_client [OF h(4)]] a i(3) by (simp add: protocol_def)
  moreover have "relayed a b e w w'"
    using h(4-6) same_core_fields(1,3) [OF h(4)] same same_core_client [OF h(4)] core_fields(4) [OF same_core_client [OF h(4)]] b
    by (auto simp: relayed_def)
  ultimately show ?thesis using h(1-3) by (simp add: ty understood_def)
qed

lemma frame_relayed:
  assumes inv: "server_inv w" and n: "length (objects w) < 2097152" and a: "a < length (objects w)" and b: "b < length (objects w)"
    and empty: "received w a = []" and fits: "length (frame (varint_bytes ty @ rest)) \<le> 65536"
    and h: "\<And>rd. received_ok rd \<Longrightarrow> relays H a b rest e (set_received a rd w)"
    and ty: "\<And>rd bb. HandlePacket a bb ty (set_received a rd w) = understood (H a bb (set_received a rd w))"
  obtains w' where "AddReceivedData a (frame (varint_bytes ty @ rest)) w = Inr w'" and "relayed a b e w w'"
    and "received w' a = []" and "m_State (client w a) \<noteq> csDestroyed \<Longrightarrow> server_inv w'"
proof -
  obtain rd w2 where r: "AddReceivedData a (frame (varint_bytes ty @ rest)) w = Inr (set_received a rd w2)"
    "received_ok rd" "unread rd = []" "relayed a b e w w2"
  proof (rule AddReceivedData_frame [where P = "relayed a b e w", OF server_inv_received_ok [OF inv a] a empty fits])
    show "\<exists>bb' w2. HandlePacket a bb ty (set_received a rd w) = Inr (True, bb', w2) \<and> buffer_ok bb' \<and>
        length (unread bb') = 1 \<and> m_ReceivedData (protocol w2 a) = rd \<and> relayed a b e w w2"
      if "received_ok rd" "unread rd = []" "buffer_ok bb" "unread bb = rest @ [0]" for rd bb
      using HandlePacket_relays [OF inv a b that(1) h [OF that(1)] ty that(3,4)] .
  qed
  have al: "a < length (objects w2)" using r(4) a by (simp add: relayed_def)
  then have "m_OutgoingData (client (set_received a rd w2) c) = m_OutgoingData (client w2 c)"
    "m_HasSentDC (client (set_received a rd w2) c) = m_HasSentDC (client w2 c)"
    "m_UniqueID (client (set_received a rd w2) c) = m_UniqueID (client w2 c)" for c
    by (cases "c = a"; simp add: set_received_same)+
  then have "relayed a b e w (set_received a rd w2)" using r(4) by (auto simp: relayed_def)
  moreover have "server_inv (set_received a rd w2)" if "m_State (client w a) \<noteq> csDestroyed"
    using that AddReceivedData_well [OF inv a n, of "frame (varint_bytes ty @ rest)"] by (simp add: r(1) well_def)
  ultimately show thesis using that r al by simp
qed


lemma set_received_same_fields:
  "a < length (objects w) \<Longrightarrow> m_UniqueID (client (set_received a rd w) c) = m_UniqueID (client w c)"
  "a < length (objects w) \<Longrightarrow> m_HasSentDC (client (set_received a rd w) c) = m_HasSentDC (client w c)"
  "a < length (objects w) \<Longrightarrow> m_OutgoingData (client (set_received a rd w) c) = m_OutgoingData (client w c)"
  "a < length (objects w) \<Longrightarrow> m_ProtoState (protocol (set_received a rd w) c) = m_ProtoState (protocol w c)"
  by (cases "c = a"; simp add: set_received_same protocol_def)+

lemma HandlePacketMediaMsg_relays:
  assumes "server_inv w" and "length (objects w) < 2097152" and "a < length (objects w)" and "b \<in> set (m_Clients w)"
    and "length msg \<le> 65526" and "received_ok rd"
  shows "relays HandlePacketMediaMsg a b (varint_bytes (word_of_int (m_UniqueID (client w b)) :: u32) @ string_bytes msg)
    (varint_bytes (0x12 :: u32) @ varint_bytes (word_of_int (m_UniqueID (client w a)) :: u32) @ string_bytes msg) (set_received a rd w)"
proof -
  note i = set_received_inv [OF assms(1,3,6)]
  show ?thesis
    using HandlePacketMediaMsg_forwards [OF i(1) _ _ _ assms(5), of b a _ "[0]"] assms(2-4)
    unfolding relays_def set_received_same_fields [OF assms(3)] by simp
qed

lemma HandlePacketMedia_forwards:
  assumes inv: "server_inv w" and n: "length (objects w) < 2097152" and b: "b \<in> set (m_Clients w)" and bb: "buffer_ok bb"
    and u: "unread bb = varint_bytes (word_of_int (m_UniqueID (client w b)) :: u32) @ varint_bytes (t :: u32) @ rest"
  shows "\<exists>bb' w'. HandlePacketMedia a bb w = Inr (bb', w') \<and> buffer_ok bb' \<and> unread bb' = rest \<and> same_core w w' \<and>
    (\<forall>d. d \<noteq> b \<longrightarrow> client w' d = client w d) \<and>
    m_OutgoingData (client w' b) = m_OutgoingData (client w b) @ (if m_HasSentDC (client w b) then []
      else frame (varint_bytes (0x11 :: u32) @ varint_bytes (word_of_int (m_UniqueID (client w a)) :: u32) @ varint_bytes t))"
proof -
  let ?id = "\<lambda>c. word_of_int (m_UniqueID (client w c)) :: u32"
  note d = server_invD [OF inv]
  have "varint_dec 0 0 (unread bb) = Inr (Some (?id b), varint_bytes t @ rest)"
    unfolding u using varint_dec_bytes [of 0 "?id b" 0] unsigned_less [of "?id b", where 'a = nat] by simp
  from handle_read_Some [OF read_varint(1) bb this] obtain b1 where
    b1: "\<And>k w. handle_read ReadVarInt32 k bb w = k (?id b) b1 w" "buffer_ok b1" "unread b1 = varint_bytes t @ rest"
    by blast
  have "varint_dec 0 0 (unread b1) = Inr (Some t, rest)"
    unfolding b1(3) using varint_dec_bytes [of 0 t 0] unsigned_less [of t, where 'a = nat] by simp
  from handle_read_Some [OF read_varint(1) b1(2) this] obtain b2 where
    b2: "\<And>k w. handle_read ReadVarInt32 k b1 w = k t b2 w" "buffer_ok b2" "unread b2 = rest"
    by blast
  have writes: "pkt_as (\<lambda>b. and_then (pkt_WriteVarInt32 (?id a) b) (pkt_WriteVarInt32 t)) (varint_bytes (?id a) @ varint_bytes t)"
    by (intro pkt_as_seq pkt_writers)
  have fits: "length (varint_bytes (0x11 :: u32)) + length (varint_bytes (?id a) @ varint_bytes t) \<le> 65536"
    using small_type [of "0x11"] varint_length_bounds(1) [of "?id a"] varint_length_bounds(1) [of t] by simp
  obtain w' where
    w': "send_packet b 0x11 (\<lambda>b. and_then (pkt_WriteVarInt32 (?id a) b) (pkt_WriteVarInt32 t)) w = Inr w'"
    "same_core w w'" "outs w'"
    "m_OutgoingData (client w' b) = (if m_HasSentDC (client w b) then m_OutgoingData (client w b)
           else m_OutgoingData (client w b) @ frame (varint_bytes (0x11 :: u32) @ varint_bytes (?id a) @ varint_bytes t))"
    "m_HasSentDC (client w' b) = m_HasSentDC (client w b)" "\<And>d. d \<noteq> b \<Longrightarrow> client w' d = client w d"
    by (rule send_packet_effect [OF d(1) d(9) [OF b] writes fits], rule that)
  have "HandlePacketMedia a bb w = Inr (b2, w')"
    by (simp add: HandlePacketMedia_def b1(1) b2(1) Server_ForwardMedia_def find_id_client [OF inv n b] Protocol_ForwardMedia_def w'(1) done_with_def)
  then show ?thesis using b2(2,3) w'(2,4,6) by (cases "m_HasSentDC (client w b)") auto
qed

lemma HandlePacketMedia_relays:
  assumes "server_inv w" and "length (objects w) < 2097152" and "a < length (objects w)" and "b \<in> set (m_Clients w)"
    and "received_ok rd"
  shows "relays HandlePacketMedia a b (varint_bytes (word_of_int (m_UniqueID (client w b)) :: u32) @ varint_bytes (t :: u32))
    (varint_bytes (0x11 :: u32) @ varint_bytes (word_of_int (m_UniqueID (client w a)) :: u32) @ varint_bytes t) (set_received a rd w)"
proof -
  note i = set_received_inv [OF assms(1,3,5)]
  show ?thesis
    using HandlePacketMedia_forwards [OF i(1), of b _ t "[0]" a] assms(2-4)
    unfolding relays_def set_received_same_fields [OF assms(3)] by simp
qed

lemma frame_forwarded:
  assumes inv: "server_inv w" and n: "length (objects w) < 2097152" and a: "a \<in> set (m_Clients w)" and b: "b \<in> set (m_Clients w)"
    and state: "m_ProtoState (protocol w a) = 3" and empty: "received w a = []" and len: "length msg \<le> 65526"
  obtains w' where "AddReceivedData a (frame (varint_bytes (0x12 :: u32) @
      varint_bytes (word_of_int (m_UniqueID (client w b)) :: u32) @ string_bytes msg)) w = Inr w'"
    and "relayed a b (varint_bytes (0x12 :: u32) @ varint_bytes (word_of_int (m_UniqueID (client w a)) :: u32) @ string_bytes msg) w w'"
    and "received w' a = []"
proof -
  let ?rest = "varint_bytes (word_of_int (m_UniqueID (client w b)) :: u32) @ string_bytes msg"
  note al = server_invD(9) [OF inv a] and bl = server_invD(9) [OF inv b]
  have "length (varint_bytes (0x12 :: u32) @ ?rest) \<le> 65533"
    using small_type [of "0x12"] varint_length_bounds(3) [OF sender_id [OF inv bl n]] string_bytes_bound [of msg] len
    by simp
  then have fits: "length (frame (varint_bytes (0x12 :: u32) @ ?rest)) \<le> 65536"
    using frame_length [of "varint_bytes (0x12 :: u32) @ ?rest"] by simp
  show thesis
    by (rule frame_relayed [OF inv n al bl empty fits HandlePacketMediaMsg_relays [OF inv n al b len]])
      (use that in \<open>simp_all add: HandlePacket_playing set_received_same_fields [OF al] state\<close>)
qed

lemma media_forwarded:
  assumes inv: "server_inv w" and n: "length (objects w) < 2097152" and a: "a \<in> set (m_Clients w)" and b: "b \<in> set (m_Clients w)"
    and state: "m_ProtoState (protocol w a) = 3" and empty: "received w a = []"
  obtains w' where "AddReceivedData a (frame (varint_bytes (0x11 :: u32) @
      varint_bytes (word_of_int (m_UniqueID (client w b)) :: u32) @ varint_bytes (t :: u32))) w = Inr w'"
    and "relayed a b (varint_bytes (0x11 :: u32) @ varint_bytes (word_of_int (m_UniqueID (client w a)) :: u32) @ varint_bytes t) w w'"
    and "received w' a = []" and "m_State (client w a) \<noteq> csDestroyed \<Longrightarrow> server_inv w'"
proof -
  let ?rest = "varint_bytes (word_of_int (m_UniqueID (client w b)) :: u32) @ varint_bytes t"
  note al = server_invD(9) [OF inv a] and bl = server_invD(9) [OF inv b]
  have "length (varint_bytes (0x11 :: u32) @ ?rest) \<le> 11"
    using small_type [of "0x11"] varint_length_bounds(1) [of "word_of_int (m_UniqueID (client w b)) :: u32"]
      varint_length_bounds(1) [of t] by simp
  then have fits: "length (frame (varint_bytes (0x11 :: u32) @ ?rest)) \<le> 65536"
    using frame_length [of "varint_bytes (0x11 :: u32) @ ?rest"] by simp
  show thesis
    by (rule frame_relayed [OF inv n al bl empty fits HandlePacketMedia_relays [OF inv n al b]])
      (use that in \<open>simp_all add: HandlePacket_playing set_received_same_fields [OF al] state\<close>)
qed

text \<open>
  \<^bold>\<open>C6.\<close> A chat message is delivered: when a logged-in client sends the packet 0x12 with the
  identifier of another connected client and a text, the server appends to the outgoing data of that
  client exactly one frame, the packet 0x12 with the identifier of the sender and the same text,
  and changes no other client; the received data of the sender is consumed. A client that has been
  sent its disconnect packet gets nothing.
\<close>
theorem message_forwarded:
  assumes inv: "server_inv w" and n: "length (objects w) < 2097152" and a: "a \<in> set (m_Clients w)" and b: "b \<in> set (m_Clients w)"
    and state: "m_ProtoState (protocol w a) = 3" and empty: "received w a = []"
    and len: "length msg \<le> 65526"
  shows "\<exists>w'. AddReceivedData a (frame (varint_bytes (0x12 :: u32) @
        varint_bytes (word_of_int (m_UniqueID (client w b)) :: u32) @ string_bytes msg)) w = Inr w' \<and>
      m_OutgoingData (client w' b) = m_OutgoingData (client w b) @
        (if m_HasSentDC (client w b) then [] else frame (varint_bytes (0x12 :: u32) @
          varint_bytes (word_of_int (m_UniqueID (client w a)) :: u32) @ string_bytes msg)) \<and>
      (a \<noteq> b \<longrightarrow> m_OutgoingData (client w' a) = m_OutgoingData (client w a)) \<and>
      (\<forall>d. d \<noteq> a \<longrightarrow> d \<noteq> b \<longrightarrow> client w' d = client w d) \<and> received w' a = []"
  by (rule frame_forwarded [OF assms]) (simp add: relayed_def)

section \<open>A sample state\<close>

text \<open>Two clients that have logged in, for the witnesses.\<close>

definition sample_client :: "nat \<Rightarrow> AString \<Rightarrow> cClientHandle" where
  "sample_client c name = (new_cClientHandle (ascii ''127.0.0.1'') (int (Suc c)) (initial_world 0 (\<lambda>_. 0)))
     \<lparr>m_Username := name, m_State := csWorking,
      m_Protocol := (new_cProtocol (\<lambda>_. 0))\<lparr>m_ProtoState := 3\<rparr>\<rparr>"

definition sample_world :: world where
  "sample_world = (initial_world 0 (\<lambda>_. 0))
     \<lparr>objects := [sample_client 0 (ascii ''ann''), sample_client 1 (ascii ''bob'')],
      s_ClientCount := 2, m_Clients := [0, 1]\<rparr>"

lemma new_cProtocol_received: "received_ok (m_ReceivedData (new_cProtocol g))"
  "unread (m_ReceivedData (new_cProtocol g)) = []"
  by (simp_all add: new_cProtocol_def received_ok_def new_cByteBuffer_ok KiB_def)

lemma sample_client_ok:
  "name \<noteq> [] \<Longrightarrow> length name \<le> 65501 \<Longrightarrow> handle_ok c (sample_client c name)"
  "out_ok (m_Protocol (sample_client c name))"
  using new_cProtocol_out_ok [of "\<lambda>_. 0"]
  by (simp_all add: sample_client_def handle_ok_def new_cClientHandle_def agree_def new_cProtocol_received
      ascii_def out_ok_def)

lemma sample_world_simps:
  "length (objects sample_world) = 2" "m_Clients sample_world = [0, 1]" "m_Queue sample_world = []"
  "client sample_world 0 = sample_client 0 (ascii ''ann'')" "client sample_world (Suc 0) = sample_client 1 (ascii ''bob'')"
  by (simp_all add: sample_world_def client_def initial_world_def)

lemma sample_world_inv: "server_inv sample_world"
proof -
  have "sample_client 0 (ascii ''ann'') \<noteq> sample_client 1 (ascii ''bob'')"
    by (simp add: sample_client_def new_cClientHandle_def ascii_def)
  have two: "c = 0 \<or> c = 1" if "c < 2" for c :: nat using that by auto
  have "handle_ok c (client sample_world c) \<and> out_ok (m_Protocol (client sample_world c))" if "c < 2" for c
    using two [OF that] sample_client_ok(1) [of "ascii ''ann''" 0] sample_client_ok(1) [of "ascii ''bob''" 1]
      sample_client_ok(2)
    by (auto simp: sample_world_simps ascii_def)
  moreover have "names_unique sample_world"
    by (simp add: names_unique_def sample_world_simps sample_client_def ascii_def)
  moreover have "s_ClientCount sample_world = 2" "m_ClientsToRemove sample_world = []"
    by (simp_all add: sample_world_def initial_world_def)
  ultimately show ?thesis
    by (simp add: server_inv_def outs_def protocol_def sample_world_simps)
qed

theorem message_forwarded_witness:
  "\<exists>w'. AddReceivedData 0 (frame (varint_bytes (0x12 :: u32) @
      varint_bytes (word_of_int (m_UniqueID (client sample_world 1)) :: u32) @ string_bytes (ascii ''hello''))) sample_world = Inr w' \<and>
    m_OutgoingData (client w' 1) = frame (varint_bytes (0x12 :: u32) @
      varint_bytes (word_of_int (m_UniqueID (client sample_world 0)) :: u32) @ string_bytes (ascii ''hello''))"
proof -
  have "m_ProtoState (protocol sample_world 0) = 3" "received sample_world 0 = []"
    "m_HasSentDC (client sample_world 1) = False" "m_OutgoingData (client sample_world 1) = []"
    by (simp_all add: protocol_def received_def sample_world_simps sample_client_def new_cProtocol_received
        new_cClientHandle_def)
  with message_forwarded [OF sample_world_inv, of 0 1 "ascii ''hello''"] show ?thesis
    by (auto simp: sample_world_simps ascii_def)
qed

section \<open>The server goes on\<close>





section \<open>What holds in every reachable state\<close>

text \<open>
  \<^bold>\<open>C15.\<close> In every reachable state the handle of a client and its protocol agree: a client that is logged
  in (authenticated or working) has a name and its protocol is in the last state, one that waits for the
  authenticator is in the login state, a fresh one in the status or login state; no client is left in
  the state \<open>csDestroying\<close>, and the protocol is never in a state its packet switch does not know.
\<close>
theorem states_agree:
  assumes "reachable n w" and "n < 2097152" and "c < length (objects w)"
  shows "case m_State (client w c) of
      csConnected \<Rightarrow> m_ProtoState (protocol w c) \<in> {1, 2} \<and> m_Username (client w c) = []
    | csAuthenticating \<Rightarrow> m_ProtoState (protocol w c) = 2 \<and> m_Username (client w c) = []
    | csAuthenticated \<Rightarrow> m_ProtoState (protocol w c) = 3 \<and> m_Username (client w c) \<noteq> []
    | csWorking \<Rightarrow> m_ProtoState (protocol w c) = 3 \<and> m_Username (client w c) \<noteq> []
    | csDestroying \<Rightarrow> False
    | csDestroyed \<Rightarrow> m_ProtoState (protocol w c) \<in> {1, 2, 3}"
proof -
  have "server_inv w" using reachable_inv [OF assms(1,2)] by simp
  from server_invD(6) [OF this assms(3)] show ?thesis
    by (auto simp: handle_ok_def agree_def protocol_def split: eState.splits)
qed

text \<open>
  \<^bold>\<open>C16.\<close> In every reachable state the connected clients have different identifiers, and no two of them
  are logged in under the same name.
\<close>
theorem names_and_ids_unique:
  assumes "reachable n w" and "n < 2097152" and "a \<in> set (m_Clients w)" and "b \<in> set (m_Clients w)" and "a \<noteq> b"
  shows "m_UniqueID (client w a) \<noteq> m_UniqueID (client w b) \<and>
    (m_Username (client w a) \<noteq> [] \<longrightarrow> m_Username (client w a) \<noteq> m_Username (client w b))"
proof -
  have i: "server_inv w" using reachable_inv [OF assms(1,2)] by simp
  moreover have "m_UniqueID (client w a) \<noteq> m_UniqueID (client w b)"
    using unique_id [OF i] server_invD(9) [OF i] assms(3-5) by simp
  moreover have "m_Username (client w a) \<noteq> [] \<longrightarrow> m_Username (client w a) \<noteq> m_Username (client w b)"
    using server_invD(8) [OF i] assms(3-5) by (auto simp: names_unique_def)
  ultimately show ?thesis by blast
qed

lemma two_accepted:
  obtains w where "reachable 2 w" and "m_Clients w = [0, 1]" and "length (objects w) = 2"
    and "m_UniqueID (client w 0) = 1" and "m_UniqueID (client w 1) = 2" and "m_Username (client w 0) = []"
    and "m_State (client w 0) = csConnected" and "m_ProtoState (protocol w 0) = 1"
proof -
  let ?w0 = "initial_world 0 (\<lambda>_. 0)"
  let ?w1 = "?w0\<lparr>s_ClientCount := 1, objects := [new_cClientHandle [] 1 ?w0], m_Clients := [0]\<rparr>"
  let ?w2 = "?w1\<lparr>s_ClientCount := 2, objects := [new_cClientHandle [] 1 ?w0, new_cClientHandle [] 2 ?w1],
    m_Clients := [0, 1]\<rparr>"
  have "reachable (0 + accepts (Accept [])) ?w1"
    by (rule reachable.step [OF reachable.start [of 0 "\<lambda>_. 0"]])
      (simp_all add: enabled_def Server_OnConnectionAccepted_def initial_world_def Let_def)
  then have "reachable (0 + accepts (Accept []) + accepts (Accept [])) ?w2"
    by (rule reachable.step) (simp_all add: enabled_def Server_OnConnectionAccepted_def initial_world_def Let_def)
  then have "reachable 2 ?w2" by (simp add: numeral_2_eq_2)
  then show thesis
    by (rule that) (simp_all add: client_def protocol_def new_cClientHandle_def new_cProtocol_def)
qed

theorem names_and_ids_unique_witness:
  "\<exists>w. reachable 2 w \<and> m_UniqueID (client w 0) \<noteq> m_UniqueID (client w 1)"
proof -
  obtain w where w: "reachable 2 w" "m_Clients w = [0, 1]" using two_accepted by metis
  from names_and_ids_unique [OF w(1), of 0 1] w show ?thesis by auto
qed

theorem states_agree_witness:
  "\<exists>w. reachable 2 w \<and> m_State (client w 0) = csConnected \<and> m_Username (client w 0) = []"
proof -
  obtain w where w: "reachable 2 w" "length (objects w) = 2" "m_State (client w 0) = csConnected"
    using two_accepted by metis
  from states_agree [OF w(1), of 0] w show ?thesis by auto
qed

section \<open>The authenticator decides\<close>

lemma find_user:
  assumes "server_inv w" and c: "c \<in> set (m_Clients w)"
  shows "List.find (\<lambda>e. m_UniqueID (client w e) = m_UniqueID (client w c)) (m_Clients w) = Some c"
proof -
  note d = server_invD [OF assms(1)]
  obtain i where i: "i < length (m_Clients w)" "m_Clients w ! i = c" using c by (metis in_set_conv_nth)
  have "m_UniqueID (client w (m_Clients w ! j)) \<noteq> m_UniqueID (client w c)" if "j < i" for j
  proof -
    have "m_Clients w ! j \<noteq> c" using d(4) that i by (metis nat_neq_iff nth_eq_iff_index_eq order_less_trans)
    then show ?thesis using unique_id [OF assms(1) d(9)] c that i(1) by simp
  qed
  then show ?thesis unfolding find_Some_iff using i by blast
qed

lemma kick_only:
  assumes "outs w" and "set cs \<subseteq> {..<length (objects w)}" and "distinct cs"
    and "\<And>e. e \<in> set cs \<Longrightarrow> m_UniqueID (client w e) = ident \<longleftrightarrow> e = c"
  shows "for_clients (\<lambda>e w. if m_UniqueID (client w e) = ident then ClientHandle_Kick e r w else Inr w) cs w =
    (if c \<in> set cs then ClientHandle_Kick c r w else Inr w)"
  using assms
proof (induction cs arbitrary: w)
  case (Cons e cs)
  show ?case
  proof (cases "e = c")
    case True
    have c: "c < length (objects w)" using Cons.prems(2) True by simp
    from quietlyE [OF ClientHandle_SendDisconnect_quietly [OF Cons.prems(1) c, of r]] obtain w1 where
      w1: "ClientHandle_SendDisconnect c r w = Inr w1" "same_core w w1" "outs w1" by metis
    have id: "m_UniqueID (client w1 x) = m_UniqueID (client w x)" if "x \<in> set cs" for x
      using core_fields(4) [OF same_core_client [OF w1(2)]] that Cons.prems(2) by auto
    have "for_clients (\<lambda>e w. if m_UniqueID (client w e) = ident then ClientHandle_Kick e r w else Inr w) cs w1 =
      (if c \<in> set cs then ClientHandle_Kick c r w1 else Inr w1)"
      using Cons.prems id same_core_fields(1) [OF w1(2)] by (intro Cons.IH w1(3)) auto
    then show ?thesis using True Cons.prems(3,4) w1(1) by (simp add: ClientHandle_Kick_def)
  next
    case False
    then show ?thesis using Cons by simp
  qed
qed simp

lemma Authenticate_login:
  assumes "server_inv w" and c: "c \<in> set (m_Clients w)" and "m_State (client w c) = csAuthenticating"
    and "\<not> IsPlayerInQueue w name" and "length name \<le> 65501"
  obtains w' where "ClientHandle_Authenticate c name w = Inr w'" and "m_State (client w' c) = csAuthenticated"
    and "m_Username (client w' c) = name" and "m_ProtoState (protocol w' c) = 3" and "m_Queue w' = m_Queue w"
proof -
  have cl: "c < length (objects w)" by (rule server_invD(9) [OF assms(1) c])
  obtain w2 where w2:
    "Protocol_SendLoginSuccess c (upd_client c (\<lambda>x. x\<lparr>m_Username := name\<rparr>) w) = Inr w2"
    "server_inv (upd_client c (\<lambda>x. x\<lparr>m_State := csAuthenticated\<rparr>) w2)"
    "length (objects w2) = length (objects w)" "m_Queue w2 = m_Queue w"
    "m_Username (client w2 c) = name" "m_ProtoState (protocol w2 c) = 3"
    using login_inv [OF assms] by metis
  let ?w3 = "upd_client c (\<lambda>x. x\<lparr>m_State := csAuthenticated\<rparr>) w2"
  have c3: "c < length (objects ?w3)" using w2(3) cl by simp
  from quietlyE [OF Server_BroadcastUserInfo_quietly [OF server_invD(1) [OF w2(2)] server_inv_named [OF w2(2) c3]]]
  obtain w4 where w4: "Server_BroadcastUserInfo c ?w3 = Inr w4" "same_core ?w3 w4"
    using server_inv_named [OF w2(2)] server_invD(9) [OF w2(2)] by metis
  note f = core_fields [OF same_core_client [OF w4(2) c3]]
  let ?w5 = "upd_client c (\<lambda>x. x\<lparr>m_PingStartTime := now w4 + 3000\<rparr>) w4"
  have c4: "c < length (objects w4)" using same_core_fields(1) [OF w4(2)] c3 by simp
  show thesis
  proof (rule that [of ?w5])
    show "ClientHandle_Authenticate c name w = Inr ?w5"
      using assms(3,4) w2(1) w4(1) by (simp add: ClientHandle_Authenticate_def CheckMultiLogin_def)
    show "m_State (client ?w5 c) = csAuthenticated" "m_Username (client ?w5 c) = name"
      "m_ProtoState (protocol ?w5 c) = 3" "m_Queue ?w5 = m_Queue w"
      using f c3 c4 w2 same_core_fields(5) [OF w4(2)] by (simp_all add: protocol_def)
  qed
qed

lemma Kick_in_login:
  assumes "server_inv w" and cl: "c < length (objects w)" and "m_ProtoState (protocol w c) = 2"
  obtains w' where "ClientHandle_Kick c r w = Inr w'" and "same_core w w'" and "m_HasSentDC (client w' c)"
    and "m_OutgoingData (client w' c) = m_OutgoingData (client w c) @
      (if m_HasSentDC (client w c) then [] else frame (varint_bytes (0 :: u32) @ be_store 4 (word_of_int r :: u32)))"
proof (cases "m_HasSentDC (client w c)")
  case True
  then show thesis using that [of w] by (simp add: ClientHandle_Kick_def ClientHandle_SendDisconnect_def)
next
  case False
  have fits: "length (varint_bytes (0 :: u32)) + length (be_store 4 (word_of_int r :: u32)) \<le> 65536"
    using small_type [of 0] by simp
  obtain w1 where w1: "send_packet c 0 (pkt_WriteBEInt32 (word_of_int r)) w = Inr w1" "same_core w w1" "outs w1"
    "m_OutgoingData (client w1 c) = (if m_HasSentDC (client w c) then m_OutgoingData (client w c)
       else m_OutgoingData (client w c) @ frame (varint_bytes (0 :: u32) @ be_store 4 (word_of_int r :: u32)))"
    "m_HasSentDC (client w1 c) = m_HasSentDC (client w c)" "\<And>d. d \<noteq> c \<Longrightarrow> client w1 d = client w d"
    by (rule send_packet_effect [OF server_invD(1) [OF assms(1)] cl pkt_writers(1) fits], rule that)
  let ?w2 = "upd_client c (\<lambda>x. x\<lparr>m_HasSentDC := True\<rparr>) w1"
  have c1: "c < length (objects w1)" using same_core_fields(1) [OF w1(2)] cl by simp
  have "same_core w1 ?w2" by (rule same_core_upd) (simp add: core_def)
  from same_core_trans [OF w1(2) this] show thesis
    using that [of ?w2] w1(1,4) c1 False assms(3)
    by (simp add: ClientHandle_Kick_def ClientHandle_SendDisconnect_def Protocol_SendDisconnect_def)
qed

text \<open>A client that is kicked while it waits for the authenticator: it stays in the login state.\<close>

lemma Kick_waiting:
  assumes i: "server_inv w" and c: "c \<in> set (m_Clients w)" and st: "m_State (client w c) = csAuthenticating"
  shows "\<exists>w'. ClientHandle_Kick c r w = Inr w' \<and> m_Queue w' = m_Queue w \<and> m_State (client w' c) = csAuthenticating \<and>
    m_Username (client w' c) = [] \<and> m_HasSentDC (client w' c) \<and>
    m_OutgoingData (client w' c) = m_OutgoingData (client w c) @
      (if m_HasSentDC (client w c) then [] else frame (varint_bytes (0 :: u32) @ be_store 4 (word_of_int r :: u32)))"
proof -
  note d = server_invD [OF i]
  have cl: "c < length (objects w)" using d(9) [OF c] by simp
  have "handle_ok c (client w c)" using d(6) cl by simp
  then have p2: "m_ProtoState (protocol w c) = 2" and nm: "m_Username (client w c) = []"
    using st by (simp_all add: handle_ok_def agree_def protocol_def)
  from Kick_in_login [OF i cl, of r] p2 obtain w' where w': "ClientHandle_Kick c r w = Inr w'" "same_core w w'"
    "m_HasSentDC (client w' c)" "m_OutgoingData (client w' c) = m_OutgoingData (client w c) @
      (if m_HasSentDC (client w c) then [] else frame (varint_bytes (0 :: u32) @ be_store 4 (word_of_int r :: u32)))"
    by auto
  then show ?thesis
    using core_fields(2,3) [OF same_core_client [OF w'(2) cl]] same_core_fields(5) [OF w'(2)] st nm by simp
qed

text \<open>
  \<^bold>\<open>C7.\<close> A turn of the authenticator logs the waiting client in exactly when the password is the MD5 of
  the name, in lower-case hexadecimal, and no connected client has that name; then the client is
  authenticated under the name. Otherwise it stays in the login state and is sent one disconnect packet with
  the reason: \<open>ERROR_CODE_ACCOUNT_NOT_MATCH\<close>, or \<open>ERROR_CODE_ACCOUNT_ALREADY_LOGIN\<close> for a name in use.
  No account is looked up. The empty name counts as in use, because the client itself still has it.
\<close>
theorem authenticator_decides:
  assumes "server_inv w" and c: "c \<in> set (m_Clients w)" and st: "m_State (client w c) = csAuthenticating"
    and q: "m_Queue w = \<lparr>user_ClientID = m_UniqueID (client w c), user_Username = name, user_Password = pwd\<rparr> # rest"
  shows "\<exists>w'. Authenticator_turn w = Inr w' \<and> m_Queue w' = rest \<and>
    (if pwd = bytesToHexString (md5_hash name) \<and> \<not> IsPlayerInQueue w name
     then m_State (client w' c) = csAuthenticated \<and> m_Username (client w' c) = name \<and>
          m_ProtoState (protocol w' c) = 3
     else m_State (client w' c) = csAuthenticating \<and> m_Username (client w' c) = [] \<and> m_HasSentDC (client w' c) \<and>
          m_OutgoingData (client w' c) = m_OutgoingData (client w c) @
            (if m_HasSentDC (client w c) then [] else frame (varint_bytes (0 :: u32) @ be_store 4
              (word_of_int (if pwd = bytesToHexString (md5_hash name) then ERROR_CODE_ACCOUNT_ALREADY_LOGIN
                 else ERROR_CODE_ACCOUNT_NOT_MATCH) :: u32))))"
proof -
  let ?w = "w\<lparr>m_Queue := rest\<rparr>"
  note d = server_invD [OF assms(1)]
  have i: "server_inv ?w" and "length name + length pwd \<le> 65533"
    using pop_inv [OF assms(1) q] by (simp_all add: user_ok_def)
  then have len: "length name \<le> 2 ^ 32 - 64" by simp
  have same: "client ?w e = client w e" "m_Clients ?w = m_Clients w" for e by (simp_all add: client_def)
  have inq: "IsPlayerInQueue ?w name = IsPlayerInQueue w name" by (simp add: IsPlayerInQueue_def client_def)
  note kicked = Kick_waiting [OF i, unfolded same, OF c st]
  note auth = AuthFromDBPoll_iff [OF len, of "uninit w" pwd]
  show ?thesis
  proof (cases "pwd = bytesToHexString (md5_hash name)")
    case False
    have "Server_KickUser (m_UniqueID (client w c)) 0 ?w = ClientHandle_Kick c 0 ?w"
      unfolding Server_KickUser_def
      by (subst kick_only [where c = c]) (use server_invD [OF i] unique_id [OF assms(1)] c d(9) in \<open>auto simp: same\<close>)
    then show ?thesis
      using False q auth kicked [of 0] by (auto simp: Authenticator_turn_def Authenticator_decide_def Let_def)
  next
    case True
    then have name: "length name \<le> 65501"
      using AuthFromDBPoll_length [of "uninit w" name pwd] auth \<open>length name + length pwd \<le> 65533\<close> by simp
    have turn: "Authenticator_turn w = ClientHandle_Authenticate c name ?w"
      using True q auth find_user [OF i, of c] c
      by (simp add: Authenticator_turn_def Authenticator_decide_def Let_def Server_AuthenticateUser_def same)
    show ?thesis
    proof (cases "IsPlayerInQueue w name")
      case False
      from Authenticate_login [OF i _ _ _ name, of c] c st False inq show ?thesis using True turn by (auto simp: same)
    next
      case taken: True
      obtain w' where "ClientHandle_Kick c ERROR_CODE_ACCOUNT_ALREADY_LOGIN ?w = Inr w'"
        using kicked [of ERROR_CODE_ACCOUNT_ALREADY_LOGIN] by blast
      with st taken inq have "ClientHandle_Authenticate c name ?w = Inr w'"
        by (simp add: ClientHandle_Authenticate_def CheckMultiLogin_def same)
      then show ?thesis
        using True taken turn kicked [of ERROR_CODE_ACCOUNT_ALREADY_LOGIN] \<open>ClientHandle_Kick c ERROR_CODE_ACCOUNT_ALREADY_LOGIN ?w = Inr w'\<close>
        by auto
    qed
  qed
qed

text \<open>A client that waits for the authenticator, with the right password.\<close>

definition waiting_world :: world where
  "waiting_world = sample_world
     \<lparr>objects := [(sample_client 0 [])\<lparr>m_State := csAuthenticating, m_Protocol := (new_cProtocol (\<lambda>_. 0))\<lparr>m_ProtoState := 2\<rparr>\<rparr>],
      s_ClientCount := 1, m_Clients := [0],
      m_Queue := [\<lparr>user_ClientID = 1, user_Username = ascii ''ann'',
        user_Password = bytesToHexString (md5_hash (ascii ''ann''))\<rparr>]\<rparr>"

lemma waiting_world_inv: "server_inv waiting_world"
  using new_cProtocol_out_ok [of "\<lambda>_. 0"]
  by (simp add: server_inv_def outs_def protocol_def client_def names_unique_def waiting_world_def sample_world_def
      initial_world_def handle_ok_def sample_client_def new_cClientHandle_def agree_def new_cProtocol_received
      length_bytesToHexString length_md5_hash ascii_def out_ok_def)

theorem authenticator_decides_witness:
  "\<exists>w'. Authenticator_turn waiting_world = Inr w' \<and> m_State (client w' 0) = csAuthenticated \<and>
     m_Username (client w' 0) = ascii ''ann''"
proof -
  have "\<not> IsPlayerInQueue waiting_world (ascii ''ann'')"
    by (simp add: IsPlayerInQueue_iff waiting_world_def client_def sample_client_def new_cClientHandle_def ascii_def)
  with authenticator_decides [OF waiting_world_inv, of 0 "ascii ''ann''" "bytesToHexString (md5_hash (ascii ''ann''))" "[]"]
  show ?thesis
    by (auto simp: waiting_world_def client_def sample_client_def new_cClientHandle_def)
qed

end
