(* ===== verification/LoginRace.thy ===== *)
theory LoginRace
  imports ServerProperties
begin

text \<open>
  How long a login lasts, and what becomes of a connection that closes while it logs in. The events of
  \<open>Server\<close> are whole turns of a thread; here \<open>Authenticate\<close> and \<open>Destroy\<close>
  (\<open>ClientHandle.cpp\<close>) are cut in two where the thread of the network can come between them: \<open>Destroy\<close>
  changes the state of the handle before it waits for the lock of the list of clients, which the authenticator
  holds during the whole of \<open>Authenticate\<close>, and no lock makes the test of the state and its change in
  \<open>Authenticate\<close> and \<open>HandleLogin\<close> one step.
\<close>

section \<open>Being logged in\<close>

definition logged_in :: "nat \<Rightarrow> AString \<Rightarrow> world \<Rightarrow> bool" where
  "logged_in c name w \<longleftrightarrow> c < length (objects w) \<and> c \<in> set (m_Clients w) \<and>
     m_State (client w c) \<noteq> csDestroyed \<and> m_Username (client w c) = name \<and> name \<noteq> []"

text \<open>A step that succeeds leaves the client logged in.\<close>

definition retains :: "nat \<Rightarrow> AString \<Rightarrow> fault + world \<Rightarrow> bool" where
  "retains c name m \<longleftrightarrow> (\<forall>w. m = Inr w \<longrightarrow> logged_in c name w)"

lemma retains_Inr [simp]: "retains c name (Inr w) \<longleftrightarrow> logged_in c name w"
  by (simp add: retains_def)

lemma retains_Inl [simp]: "retains c name (Inl e)"
  by (simp add: retains_def)

lemma logged_in_fields [simp]:
  "logged_in c name (w\<lparr>m_Queue := q\<rparr>) = logged_in c name w"
  "logged_in c name (w\<lparr>now := t\<rparr>) = logged_in c name w"
  "logged_in c name (w\<lparr>m_bRestarting := b\<rparr>) = logged_in c name w"
  "logged_in c name (w\<lparr>m_ShouldStop := b\<rparr>) = logged_in c name w"
  "logged_in c name (w\<lparr>m_bRestart := b\<rparr>) = logged_in c name w"
  "logged_in c name (w\<lparr>m_PendingCommands := cs\<rparr>) = logged_in c name w"
  "logged_in c name (w\<lparr>console := cs\<rparr>) = logged_in c name w"
  "logged_in c name (w\<lparr>m_PlayerCount := n, m_PlayerCountDiff := k\<rparr>) = logged_in c name w"
  by (simp_all add: logged_in_def client_def)

lemma logged_in_upd:
  assumes "logged_in c name w"
    and "d = c \<Longrightarrow> m_State (f (client w c)) = m_State (client w c) \<and> m_Username (f (client w c)) = m_Username (client w c)"
  shows "logged_in c name (upd_client d f w)"
  using assms by (cases "d = c") (auto simp: logged_in_def)

lemma logged_in_core: "same_core w w' \<Longrightarrow> logged_in c name w \<Longrightarrow> logged_in c name w'"
  using same_core_fields(1,3) [of w w'] core_fields(2,3) [OF same_core_client [of w w' c]]
  by (auto simp: logged_in_def)

lemma logged_in_stays: "stays w w' \<Longrightarrow> logged_in c name w \<Longrightarrow> logged_in c name w'"
  by (auto simp: logged_in_def stays_def)

lemma retains_quietly: "quietly m w \<Longrightarrow> logged_in c name w \<Longrightarrow> retains c name m"
  using logged_in_core by (auto simp: retains_def elim!: quietlyE)

text \<open>Logged in means past the login: authenticated or working.\<close>

lemma logged_in_state:
  assumes "server_inv w" and "logged_in c name w"
  shows "m_State (client w c) \<in> {csAuthenticated, csWorking}"
proof -
  have "handle_ok c (client w c)" using assms by (intro server_invD(6)) (simp_all add: logged_in_def)
  then show ?thesis using assms(2)
    by (auto simp: logged_in_def handle_ok_def agree_def split: eState.splits)
qed

lemma logged_in_taken: "logged_in c name w \<Longrightarrow> IsPlayerInQueue w name"
  by (auto simp: logged_in_def IsPlayerInQueue_iff)

lemma logged_in_only: "server_inv w \<Longrightarrow> logged_in c name w \<Longrightarrow> d \<in> set (m_Clients w) \<Longrightarrow>
   m_Username (client w d) = name \<Longrightarrow> d = c"
  using server_invD(8) [of w] by (auto simp: logged_in_def names_unique_def)

section \<open>Events that leave a client logged in\<close>

lemma broadcast_quietly:
  "server_inv w \<Longrightarrow> d < length (objects w) \<Longrightarrow> quietly (Server_BroadcastUserInfo d w) w"
  by (intro Server_BroadcastUserInfo_quietly server_invD(1)) (auto intro: server_inv_named dest: server_invD(9))

lemma Destroy_retains:
  assumes "server_inv w" and "d < length (objects w)" and "logged_in c name w" and "d \<noteq> c"
  shows "retains c name (ClientHandle_Destroy d w)"
proof -
  let ?w2 = "upd_client d (\<lambda>x. x\<lparr>m_Link := False, m_State := csDestroyed\<rparr>) w"
  have "handle_ok d (client w d)" by (rule server_invD(6) [OF assms(1,2)])
  then have "server_inv ?w2"
    using assms(1,2) server_inv_out_ok [OF assms(1,2)] proto_states [OF assms(1,2)]
    by (intro server_inv_upd) (auto simp: handle_ok_def agree_def protocol_def split: eState.splits)
  then have "quietly (Server_BroadcastUserInfo d ?w2) ?w2" using assms(2) by (intro broadcast_quietly) simp_all
  moreover have "logged_in c name ?w2" using assms(3,4) by (intro logged_in_upd) simp_all
  ultimately have "retains c name (Server_BroadcastUserInfo d ?w2)" by (rule retains_quietly)
  moreover have "logged_in c name (upd_client d (\<lambda>x. x\<lparr>m_Link := False\<rparr>) w)"
    using assms(3) by (intro logged_in_upd) simp_all
  ultimately show ?thesis by (simp add: ClientHandle_Destroy_def Let_def upd_client_twice)
qed

lemma closed_retains:
  assumes "server_inv w" and "d < length (objects w)" and "logged_in c name w" and "d \<noteq> c"
  shows "retains c name (ClientHandle_Destroy d (upd_client d (\<lambda>x. x\<lparr>m_Link := False\<rparr>) w))"
proof (rule Destroy_retains [OF _ _ _ assms(4)])
  show "server_inv (upd_client d (\<lambda>x. x\<lparr>m_Link := False\<rparr>) w)"
    using server_invD(6) [OF assms(1,2)] by (intro upd_well(1) assms(1,2)) (simp_all add: handle_ok_def)
  show "logged_in c name (upd_client d (\<lambda>x. x\<lparr>m_Link := False\<rparr>) w)"
    using assms(3) by (intro logged_in_upd) simp_all
qed (use assms(2) in simp)

lemma SendLoginSuccess_retains:
  assumes "outs w" and "d < length (objects w)" and "logged_in c name w"
  shows "retains c name (Protocol_SendLoginSuccess d w)"
proof -
  have "length (varint_bytes (1 :: u32)) + length ([] :: u8 list) \<le> 65536" using small_type [of 1] by simp
  from quietlyE [OF send_packet_quietly [OF assms(1,2) pkt_as_none this]] obtain w2
    where w2: "send_packet d 1 Inr w = Inr w2" "same_core w w2" by metis
  have "logged_in c name (set_proto_state d 3 w2)"
    unfolding set_proto_state_def by (intro logged_in_upd logged_in_core [OF w2(2)] assms(3)) simp
  then show ?thesis by (simp add: Protocol_SendLoginSuccess_def w2(1))
qed

lemma Authenticate_retains:
  assumes "server_inv w" and d: "d \<in> set (m_Clients w)" and len: "length name' \<le> 65501"
    and c: "logged_in c name w"
  shows "retains c name (ClientHandle_Authenticate d name' w)"
proof (cases "m_State (client w d) = csAuthenticating \<and> \<not> IsPlayerInQueue w name'")
  case True
  then have dc: "d \<noteq> c" using logged_in_state [OF assms(1) c] by auto
  have dl: "d < length (objects w)" by (rule server_invD(9) [OF assms(1) d])
  let ?w1 = "upd_client d (\<lambda>x. x\<lparr>m_Username := name'\<rparr>) w"
  obtain w2 where w2: "Protocol_SendLoginSuccess d ?w1 = Inr w2"
    "server_inv (upd_client d (\<lambda>x. x\<lparr>m_State := csAuthenticated\<rparr>) w2)" "length (objects w2) = length (objects w)"
    using login_inv [OF assms(1) d _ _ len] True by metis
  let ?w3 = "upd_client d (\<lambda>x. x\<lparr>m_State := csAuthenticated\<rparr>) w2"
  have "outs ?w1" using server_inv_out_ok [OF assms(1) dl] by (intro outs_upd server_invD(1) assms(1)) simp
  then have "retains c name (Protocol_SendLoginSuccess d ?w1)"
    using dl dc by (intro SendLoginSuccess_retains logged_in_upd c) simp_all
  then have "logged_in c name ?w3" using dc by (intro logged_in_upd) (simp_all add: w2(1))
  moreover have "quietly (Server_BroadcastUserInfo d ?w3) ?w3" using w2(2,3) dl by (intro broadcast_quietly) simp_all
  ultimately obtain w4 where "Server_BroadcastUserInfo d ?w3 = Inr w4" "logged_in c name w4"
    using logged_in_core by (metis quietlyE)
  then show ?thesis using True w2(1) dc
    by (simp add: ClientHandle_Authenticate_def CheckMultiLogin_def logged_in_upd)
next
  case False
  have "quietly (ClientHandle_SendDisconnect d r w) w" for r
    by (intro ClientHandle_SendDisconnect_quietly server_invD(1,9) assms(1) d)
  then obtain w' where "ClientHandle_SendDisconnect d ERROR_CODE_ACCOUNT_ALREADY_LOGIN w = Inr w'" "logged_in c name w'"
    using logged_in_core [OF _ c] by (metis quietlyE)
  then show ?thesis
    using False c by (simp add: ClientHandle_Authenticate_def CheckMultiLogin_def ClientHandle_Kick_def)
qed

lemma Authenticator_turn_retains:
  assumes "server_inv w" and c: "logged_in c name w"
  shows "retains c name (Authenticator_turn w)"
proof (cases "m_Queue w")
  case (Cons u rest)
  let ?w = "w\<lparr>m_Queue := rest\<rparr>"
  have i: "server_inv ?w" and u: "user_ok u" using pop_inv [OF assms(1) Cons] by simp_all
  have l: "logged_in c name ?w" using c by simp
  have "retains c name (Server_KickUser k r ?w)" for k r
    using server_invD(3) [OF i] by (intro retains_quietly [OF _ l] Server_KickUser_quietly server_invD(1) i)
  moreover have "retains c name (Server_AuthenticateUser k (user_Username u) ?w)"
    if ok: "AuthFromDBPoll g (user_Username u) (user_Password u) = 1" for k g
  proof -
    have "length (user_Username u) \<le> 65501" using u AuthFromDBPoll_length [OF ok] by (simp add: user_ok_def)
    from Authenticate_retains [OF i _ this l] show ?thesis
      using l by (auto simp: Server_AuthenticateUser_def find_Some_iff split: option.split)
  qed
  ultimately show ?thesis by (simp add: Authenticator_turn_def Cons Authenticator_decide_def Let_def)
qed (simp add: Authenticator_turn_def c)

lemma ConsoleCommand_logged_in [simp]:
  "logged_in c name (Root_ExecuteConsoleCommand cmd w) = logged_in c name w"
  by (simp add: Root_ExecuteConsoleCommand_def Server_ExecuteConsoleCommand_def Let_def)

lemma TickCommands_logged_in [simp]: "logged_in c name (Root_TickCommands w) = logged_in c name w"
proof -
  have "logged_in c name (foldl (\<lambda>w cmd. Root_ExecuteConsoleCommand cmd w) w cmds) = logged_in c name w" for cmds w
    by (induction cmds arbitrary: w) simp_all
  then show ?thesis by (simp add: Root_TickCommands_def)
qed

text \<open>The events that end the connection of a client.\<close>

fun closes :: "nat \<Rightarrow> event \<Rightarrow> bool" where
  "closes c (RemoteClosed d) \<longleftrightarrow> d = c"
| "closes c (LinkError d e) \<longleftrightarrow> d = c"
| "closes c ShutdownEnd \<longleftrightarrow> True"
| "closes c _ \<longleftrightarrow> False"

lemma event_retains:
  assumes i: "server_inv w" and "enabled e w" and n: "length (objects w) < 2097152"
    and c: "logged_in c name w" and "\<not> closes c e"
  shows "retains c name (server_event e w)"
proof (cases e)
  case (Accept ip)
  then show ?thesis using c
    by (auto simp: Server_OnConnectionAccepted_def Let_def logged_in_def client_def nth_append)
next
  case TickEvent
  let ?w = "Root_TickCommands (w\<lparr>m_PlayerCount := m_PlayerCount w + m_PlayerCountDiff w, m_PlayerCountDiff := 0\<rparr>)"
  have "well ?w (Server_TickClients ?w)" using i n by (intro Server_TickClients_well) simp_all
  moreover have "logged_in c name ?w" using c by simp
  ultimately show ?thesis using TickEvent logged_in_stays
    by (cases "Server_TickClients ?w") (auto simp: Server_Tick_def Let_def well_def retains_def)
next
  case AuthEvent
  then show ?thesis using Authenticator_turn_retains [OF i c] by simp
qed (use assms in \<open>auto simp: enabled_def ClientHandle_OnLinkCreated_def ClientHandle_OnReceivedData_def
      ClientHandle_OnRemoteClosed_def ClientHandle_OnError_def ClientHandle_SocketClosed_def closed_retains
      Root_InputLine_def Root_QueueExecuteConsoleCommand_def Let_def Server_Shutdown_begin_def
      intro: logged_in_upd\<close>)

section \<open>Runs\<close>

fun happens :: "event list \<Rightarrow> world \<Rightarrow> fault + world" where
  "happens [] w = Inr w"
| "happens (e # es) w = and_then (server_event e w) (happens es)"

text \<open>Every event of the run is one the network library can report when it occurs.\<close>

fun possible :: "event list \<Rightarrow> world \<Rightarrow> bool" where
  "possible [] w \<longleftrightarrow> True"
| "possible (e # es) w \<longleftrightarrow>
     enabled e w \<and> (case server_event e w of Inl f \<Rightarrow> True | Inr w' \<Rightarrow> possible es w')"

lemma happens_retains:
  "server_inv w \<Longrightarrow> logged_in c name w \<Longrightarrow> possible es w \<Longrightarrow> happens es w = Inr w' \<Longrightarrow>
   length (objects w) + (\<Sum>e\<leftarrow>es. accepts e) < 2097152 \<Longrightarrow> (\<And>e. e \<in> set es \<Longrightarrow> \<not> closes c e) \<Longrightarrow>
   server_inv w' \<and> logged_in c name w'"
proof (induction es arbitrary: w)
  case (Cons e es)
  obtain w1 where w1: "server_event e w = Inr w1" "happens es w1 = Inr w'"
    using Cons.prems(4) by (cases "server_event e w") simp_all
  have e: "enabled e w" "possible es w1" using Cons.prems(3) w1(1) by simp_all
  have n: "length (objects w) < 2097152" using Cons.prems(5) by simp
  have i1: "server_inv w1" and len: "length (objects w1) = length (objects w) + accepts e"
    using server_event_fine [OF Cons.prems(1) e(1) n] w1(1) by simp_all
  have n1: "length (objects w1) + (\<Sum>e\<leftarrow>es. accepts e) < 2097152" using Cons.prems(5) len by simp
  have "logged_in c name w1"
    using event_retains [OF Cons.prems(1) e(1) n Cons.prems(2)] Cons.prems(6) w1(1) by simp
  from Cons.IH [OF i1 this e(2) w1(2) n1] Cons.prems(6) show ?case by simp
qed simp

text \<open>
  \<^bold>\<open>C17.\<close> A login lasts until its connection closes: whatever else occurs - other clients connecting,
  logging in and leaving, packets, ticks, commands, the start of a shutdown - a client that is logged in under a
  name stays in the list, authenticated or working, under this name, and the name counts as in use and belongs to
  no other client.
\<close>
theorem login_lasts:
  assumes "server_inv w" and "c \<in> set (m_Clients w)" and "m_State (client w c) \<in> {csAuthenticated, csWorking}"
    and "possible es w" and "happens es w = Inr w'"
    and "length (objects w) + (\<Sum>e\<leftarrow>es. accepts e) < 2097152" and "\<And>e. e \<in> set es \<Longrightarrow> \<not> closes c e"
  shows "c \<in> set (m_Clients w') \<and> m_State (client w' c) \<in> {csAuthenticated, csWorking} \<and>
    m_Username (client w' c) = m_Username (client w c) \<and> IsPlayerInQueue w' (m_Username (client w c)) \<and>
    (\<forall>d \<in> set (m_Clients w'). m_Username (client w' d) = m_Username (client w c) \<longrightarrow> d = c)"
proof -
  have "handle_ok c (client w c)" using assms(1,2) by (intro server_invD(6,9))
  then have "logged_in c (m_Username (client w c)) w"
    using assms(1-3) server_invD(9) by (auto simp: logged_in_def handle_ok_def agree_def)
  from happens_retains [OF assms(1) this assms(4-7)]
  have i: "server_inv w'" and l: "logged_in c (m_Username (client w c)) w'" by blast+
  show ?thesis
    using logged_in_state [OF i l] logged_in_taken [OF l] logged_in_only [OF i l] l by (auto simp: logged_in_def)
qed

theorem login_lasts_witness:
  "\<exists>w'. happens [RemoteClosed 1, DataIn 0 [7], Elapse 5, ShutdownBegin] sample_world = Inr w' \<and>
     0 \<in> set (m_Clients w') \<and> m_Username (client w' 0) = ascii ''ann''"
proof -
  let ?es = "[RemoteClosed 1, DataIn 0 [7], Elapse 5, ShutdownBegin]"
  have "server_inv (upd_client 1 (\<lambda>x. x\<lparr>m_Link := False\<rparr>) sample_world)"
    using server_invD(6) [OF sample_world_inv, of 1]
    by (intro upd_well(1) sample_world_inv) (simp_all add: handle_ok_def sample_world_simps)
  from Destroy_fine [OF this, of 1] obtain w1
    where w1: "server_event (RemoteClosed 1) sample_world = Inr w1" "length (objects w1) = 2"
    by (auto simp: fine_def fine_to_def sample_world_simps ClientHandle_OnRemoteClosed_def ClientHandle_SocketClosed_def)
  then obtain w' where w': "happens ?es sample_world = Inr w'" and p: "possible ?es sample_world"
    by (auto simp: enabled_def sample_world_simps ClientHandle_OnReceivedData_def simp del: server_event.simps(4))
  have "m_Username (client sample_world 0) = ascii ''ann''" and c: "0 \<in> set (m_Clients sample_world)"
    and s: "m_State (client sample_world 0) \<in> {csAuthenticated, csWorking}"
    by (simp_all add: sample_world_simps sample_client_def)
  moreover have "length (objects sample_world) + (\<Sum>e\<leftarrow>?es. accepts e) < 2097152" by (simp add: sample_world_simps)
  moreover have "\<not> closes 0 e" if "e \<in> set ?es" for e using that by auto
  ultimately show ?thesis using login_lasts [OF sample_world_inv c s p w'] w' by metis
qed

section \<open>A connection that closes while it logs in\<close>

text \<open>\<open>Destroy\<close> up to the state \<open>csDestroyed\<close>; the result says whether it goes on to tell the other clients.\<close>

definition Destroy_begin :: "nat \<Rightarrow> world \<Rightarrow> bool \<times> world" where
  "Destroy_begin c w =
     (let w = upd_client c (\<lambda>x. x\<lparr>m_Link := False\<rparr>) w
      in if m_State (client w c) \<ge> csDestroying then (False, w)
         else
           let w = upd_client c (\<lambda>x. x\<lparr>m_State := csDestroying\<rparr>) w
           in (True, upd_client c (\<lambda>x. x\<lparr>m_State := csDestroyed\<rparr>) w))"

text \<open>\<open>Authenticate\<close> up to the login-success packet, and from the change of the state on.\<close>

definition Authenticate_begin :: "nat \<Rightarrow> AString \<Rightarrow> world \<Rightarrow> fault + (bool \<times> world)" where
  "Authenticate_begin c a_Name w =
     (if m_State (client w c) \<noteq> csAuthenticating then Inr (False, w)
      else and_then (CheckMultiLogin c a_Name w) (\<lambda>(ok, w).
        if \<not> ok then Inr (False, w)
        else and_then (Protocol_SendLoginSuccess c (upd_client c (\<lambda>x. x\<lparr>m_Username := a_Name\<rparr>) w)) (\<lambda>w.
          Inr (True, w))))"

definition Authenticate_end :: "nat \<Rightarrow> world \<Rightarrow> fault + world" where
  "Authenticate_end c w =
     and_then (Server_BroadcastUserInfo c (upd_client c (\<lambda>x. x\<lparr>m_State := csAuthenticated\<rparr>) w)) (\<lambda>w.
     Inr (upd_client c (\<lambda>x. x\<lparr>m_PingStartTime := now w + 3000\<rparr>) w))"

text \<open>Without anything between them the parts are the whole.\<close>

lemma Destroy_parts:
  "ClientHandle_Destroy c w =
     (let (go_on, w) = Destroy_begin c w in if go_on then Server_BroadcastUserInfo c w else Inr w)"
  by (simp add: ClientHandle_Destroy_def Destroy_begin_def Let_def)

lemma Authenticate_parts:
  "ClientHandle_Authenticate c a_Name w =
     and_then (Authenticate_begin c a_Name w) (\<lambda>(go_on, w). if go_on then Authenticate_end c w else Inr w)"
  by (auto simp: ClientHandle_Authenticate_def Authenticate_begin_def Authenticate_end_def and_then_assoc
      intro!: arg_cong [where f = "and_then _"])

text \<open>When \<open>Destroy\<close> is first, the connection is not logged in.\<close>

lemma Destroy_then_Authenticate:
  assumes "Destroy_begin c w = (go_on, w1)" and "c < length (objects w)"
  shows "ClientHandle_Authenticate c name w1 = Inr w1"
proof -
  have "m_State (client w1 c) \<ge> csDestroying"
    using assms by (auto simp: Destroy_begin_def Let_def eState_order split: if_splits)
  then show ?thesis by (auto simp: ClientHandle_Authenticate_def eState_order)
qed

text \<open>\<open>HandleLogin\<close> does not test the state at all: a handle destroyed during the tick that logs it in waits again.\<close>

lemma Destroy_then_HandleLogin:
  assumes "Destroy_begin c w = (go_on, w1)" and "c < length (objects w)"
  shows "m_State (client (snd (ClientHandle_HandleLogin c name pwd w1)) c) = csAuthenticating \<and>
    \<not> m_Link (client (snd (ClientHandle_HandleLogin c name pwd w1)) c)"
proof -
  have "c < length (objects w1)" and "\<not> m_Link (client w1 c)"
    using assms by (auto simp: Destroy_begin_def Let_def split: if_splits)
  then show ?thesis
    by (simp add: ClientHandle_HandleLogin_def Authenticator_Authenticate_def client_def [of "_ \<lparr>m_Queue := _\<rparr>"]
        flip: client_def)
qed

lemma SendLoginSuccess_same:
  assumes "outs w" and "d < length (objects w)"
  shows "\<exists>w'. Protocol_SendLoginSuccess d w = Inr w' \<and> m_State (client w' d) = m_State (client w d) \<and>
    m_Clients w' = m_Clients w"
proof -
  have "length (varint_bytes (1 :: u32)) + length ([] :: u8 list) \<le> 65536" using small_type [of 1] by simp
  from quietlyE [OF send_packet_quietly [OF assms pkt_as_none this]] obtain w2
    where w2: "send_packet d 1 Inr w = Inr w2" "same_core w w2" by metis
  then show ?thesis
    using core_fields(3) [OF same_core_client [OF w2(2) assms(2)]] same_core_fields(1,3) [OF w2(2)] assms(2)
    by (simp add: Protocol_SendLoginSuccess_def set_proto_state_def)
qed

text \<open>What \<open>Authenticate\<close> leaves when it is about to change the state.\<close>

lemma Authenticate_begin_ok:
  assumes "server_inv w" and c: "c \<in> set (m_Clients w)" and st: "m_State (client w c) = csAuthenticating"
    and fresh: "\<not> IsPlayerInQueue w name" and len: "length name \<le> 65501"
  obtains w1 where "Authenticate_begin c name w = Inr (True, w1)"
    and "server_inv (upd_client c (\<lambda>x. x\<lparr>m_State := csAuthenticated\<rparr>) w1)"
    and "length (objects w1) = length (objects w)" and "c \<in> set (m_Clients w1)"
    and "m_State (client w1 c) = csAuthenticating" and "m_Username (client w1 c) = name"
proof -
  have cl: "c < length (objects w)" by (rule server_invD(9) [OF assms(1) c])
  let ?w = "upd_client c (\<lambda>x. x\<lparr>m_Username := name\<rparr>) w"
  obtain w1 where w1: "Protocol_SendLoginSuccess c ?w = Inr w1"
    "server_inv (upd_client c (\<lambda>x. x\<lparr>m_State := csAuthenticated\<rparr>) w1)"
    "length (objects w1) = length (objects w)" "m_Username (client w1 c) = name"
    using login_inv [OF assms] by metis
  have "outs ?w" using server_inv_out_ok [OF assms(1) cl] by (intro outs_upd server_invD(1) assms(1)) simp
  from SendLoginSuccess_same [OF this, of c] cl c st w1(1)
  have "m_State (client w1 c) = csAuthenticating" "c \<in> set (m_Clients w1)" by auto
  moreover have "Authenticate_begin c name w = Inr (True, w1)"
    using st fresh w1(1) by (simp add: Authenticate_begin_def CheckMultiLogin_def)
  ultimately show thesis using w1 by (intro that)
qed

text \<open>
  \<^bold>\<open>C18.\<close> A connection that closes while the authenticator logs it in keeps its name for ever. When the thread
  of the network runs \<open>Destroy\<close> after \<open>Authenticate\<close> has tested the state and before it sets it, the
  handle goes back from destroyed to authenticated: it has no link, but is in the list under the name. Nothing but
  the closing of its connection, which has been reported already, or the end of the server changes this, so that in
  every later state the name counts as in use.
\<close>
theorem closed_login_keeps_name:
  assumes "server_inv w" and "c \<in> set (m_Clients w)" and "m_State (client w c) = csAuthenticating"
    and "\<not> IsPlayerInQueue w name" and "length name \<le> 65501"
  shows "\<exists>w1 w2 w3 w4. Authenticate_begin c name w = Inr (True, w1) \<and> Destroy_begin c w1 = (True, w2) \<and>
    m_State (client w2 c) = csDestroyed \<and>
    Authenticate_end c w2 = Inr w3 \<and> Server_BroadcastUserInfo c w3 = Inr w4 \<and>
    m_State (client w4 c) = csAuthenticated \<and> \<not> m_Link (client w4 c) \<and>
    (\<forall>es w'. possible es w4 \<longrightarrow> happens es w4 = Inr w' \<longrightarrow>
       length (objects w) + (\<Sum>e\<leftarrow>es. accepts e) < 2097152 \<longrightarrow> (\<forall>e \<in> set es. \<not> closes c e) \<longrightarrow>
       c \<in> set (m_Clients w') \<and> m_State (client w' c) \<in> {csAuthenticated, csWorking} \<and> IsPlayerInQueue w' name)"
proof -
  obtain w1 where w1: "Authenticate_begin c name w = Inr (True, w1)"
    "server_inv (upd_client c (\<lambda>x. x\<lparr>m_State := csAuthenticated\<rparr>) w1)"
    "length (objects w1) = length (objects w)" "c \<in> set (m_Clients w1)"
    "m_State (client w1 c) = csAuthenticating" "m_Username (client w1 c) = name"
    using Authenticate_begin_ok [OF assms] by metis
  have c1: "c < length (objects w1)" using server_invD(9) [OF assms(1,2)] w1(3) by simp
  have ne: "name \<noteq> []"
  proof -
    have "handle_ok c (client w c)" by (rule server_invD(6) [OF assms(1) server_invD(9) [OF assms(1,2)]])
    then have "m_Username (client w c) = []" using assms(3) by (simp add: handle_ok_def agree_def)
    then show ?thesis using assms(2,4) by (auto simp: IsPlayerInQueue_iff)
  qed
  define w2 where "w2 = snd (Destroy_begin c w1)"
  have d: "Destroy_begin c w1 = (True, w2)" and s2: "m_State (client w2 c) = csDestroyed"
    using w1(5) c1 by (simp_all add: w2_def Destroy_begin_def Let_def eState_order)
  define v where "v = upd_client c (\<lambda>x. x\<lparr>m_State := csAuthenticated\<rparr>) w2"
  have v: "v = upd_client c (\<lambda>x. x\<lparr>m_Link := False\<rparr>) (upd_client c (\<lambda>x. x\<lparr>m_State := csAuthenticated\<rparr>) w1)"
  proof -
    have "(\<lambda>x. x\<lparr>m_Link := False, m_State := csAuthenticated\<rparr>) =
        (\<lambda>x :: cClientHandle. x\<lparr>m_State := csAuthenticated, m_Link := False\<rparr>)" by (intro ext) simp
    then show ?thesis using w1(5) c1 by (simp add: v_def w2_def Destroy_begin_def Let_def eState_order upd_client_twice)
  qed
  have iv: "server_inv v"
    using server_invD(6) [OF w1(2), of c] c1 unfolding v
    by (intro upd_well(1) w1(2)) (simp_all add: handle_ok_def)
  have lv: "logged_in c name v" using w1(4,6) ne c1 by (simp add: v logged_in_def)
  have cv: "c < length (objects v)" using c1 by (simp add: v)
  obtain v2 where v2: "Server_BroadcastUserInfo c v = Inr v2" "same_core v v2" "outs v2"
    using quietlyE [OF broadcast_quietly [OF iv cv]] by metis
  have i2: "server_inv v2" by (rule server_inv_same_core [OF iv v2(2,3)])
  note f2 = core_fields(3,5) [OF same_core_client [OF v2(2) cv]]
  define w3 where "w3 = upd_client c (\<lambda>x. x\<lparr>m_PingStartTime := now v2 + 3000\<rparr>) v2"
  have e: "Authenticate_end c w2 = Inr w3" by (simp add: Authenticate_end_def v_def [symmetric] v2(1) w3_def)
  have c2: "c < length (objects v2)" by (rule same_core_length [OF v2(2) cv])
  have i3: "server_inv w3"
    using server_invD(6) [OF i2 c2] unfolding w3_def by (intro upd_well(1) i2 c2) (simp_all add: handle_ok_def)
  have l3: "logged_in c name w3" unfolding w3_def by (intro logged_in_upd logged_in_core [OF v2(2) lv]) simp
  have c3: "c < length (objects w3)" using c2 by (simp add: w3_def)
  obtain w4 where w4: "Server_BroadcastUserInfo c w3 = Inr w4" "same_core w3 w4" "outs w4"
    using quietlyE [OF broadcast_quietly [OF i3 c3]] by metis
  have i4: "server_inv w4" by (rule server_inv_same_core [OF i3 w4(2,3)])
  have l4: "logged_in c name w4" by (rule logged_in_core [OF w4(2) l3])
  note f4 = core_fields(3,5) [OF same_core_client [OF w4(2) c3]]
  have "m_State (client w4 c) = csAuthenticated" "\<not> m_Link (client w4 c)"
    using f2 f4 c1 c2 by (simp_all add: w3_def v)
  moreover have "length (objects w4) = length (objects w)"
    using same_core_fields(1) [OF w4(2)] same_core_fields(1) [OF v2(2)] w1(3) by (simp add: w3_def v)
  moreover have "c \<in> set (m_Clients w') \<and> m_State (client w' c) \<in> {csAuthenticated, csWorking} \<and> IsPlayerInQueue w' name"
    if "possible es w4" "happens es w4 = Inr w'" "length (objects w4) + (\<Sum>e\<leftarrow>es. accepts e) < 2097152"
      "\<forall>e \<in> set es. \<not> closes c e" for es w'
  proof -
    have i: "server_inv w'" and l: "logged_in c name w'"
      using happens_retains [OF i4 l4 that(1,2,3)] that(4) by blast+
    then show ?thesis using logged_in_state [OF i l] logged_in_taken [OF l] by (simp add: logged_in_def)
  qed
  ultimately show ?thesis using w1(1) d s2 e w4(1) by (metis (no_types, lifting))
qed

theorem closed_login_keeps_name_witness:
  "\<exists>w1 w2 w3 w4. Authenticate_begin 0 (ascii ''ann'') waiting_world = Inr (True, w1) \<and>
     Destroy_begin 0 w1 = (True, w2) \<and> Authenticate_end 0 w2 = Inr w3 \<and> Server_BroadcastUserInfo 0 w3 = Inr w4 \<and>
     \<not> m_Link (client w4 0) \<and> IsPlayerInQueue (w4\<lparr>now := now w4 + 5\<rparr>) (ascii ''ann'')"
proof -
  have free: "\<not> IsPlayerInQueue waiting_world (ascii ''ann'')" and c: "0 \<in> set (m_Clients waiting_world)"
    and st: "m_State (client waiting_world 0) = csAuthenticating" and len: "length (ascii ''ann'') \<le> 65501"
    and n: "length (objects waiting_world) + (\<Sum>e\<leftarrow>[Elapse 5]. accepts e) < 2097152"
    by (simp_all add: IsPlayerInQueue_iff waiting_world_def client_def sample_client_def new_cClientHandle_def ascii_def)
  obtain w1 w2 w3 w4 where w: "Authenticate_begin 0 (ascii ''ann'') waiting_world = Inr (True, w1)"
    "Destroy_begin 0 w1 = (True, w2)" "Authenticate_end 0 w2 = Inr w3" "Server_BroadcastUserInfo 0 w3 = Inr w4"
    "\<not> m_Link (client w4 0)"
    and later: "\<And>es w'. possible es w4 \<Longrightarrow> happens es w4 = Inr w' \<Longrightarrow>
       length (objects waiting_world) + (\<Sum>e\<leftarrow>es. accepts e) < 2097152 \<Longrightarrow> (\<forall>e \<in> set es. \<not> closes 0 e) \<Longrightarrow>
       IsPlayerInQueue w' (ascii ''ann'')"
    using closed_login_keeps_name [OF waiting_world_inv c st free len] by blast
  have "IsPlayerInQueue (w4\<lparr>now := now w4 + 5\<rparr>) (ascii ''ann'')"
    by (rule later [of "[Elapse 5]", OF _ _ n]) (simp_all add: enabled_def)
  with w show ?thesis by blast
qed

end
