(* ===== verification/SettingsInterface.thy ===== *)
theory SettingsInterface
  imports StringUtils
begin

text \<open>
  The contract of \<open>Src/Server/SettingsRepositoryInterface.h\<close> as the locale \<open>settings\<close>: a repository is
  a partial map from pairs of a key name and a value name to texts, read and changed by the
  operations of the interface, where names that differ in their case only may be the same name. The
  numbers of the interface are stored as decimal text by \<open>cIniFile\<close>; \<open>Printf_d\<close>, \<open>atoi\<close> and
  \<open>sscanf_lld\<close> are the C library's conversions the code uses.
\<close>

definition noID :: int where
  "noID = - 1"

section \<open>Decimal text\<close>

text \<open>\<open>printf\<close> with \<open>%d\<close> or \<open>%lld\<close>.\<close>

fun decimal_digits :: "nat \<Rightarrow> AString" where
  "decimal_digits n =
     (if n < 10 then [of_nat (48 + n)] else decimal_digits (n div 10) @ [of_nat (48 + n mod 10)])"

declare decimal_digits.simps [simp del]

definition Printf_d :: "int \<Rightarrow> AString" where
  "Printf_d i = (if i < 0 then 0x2d # decimal_digits (nat (- i)) else decimal_digits (nat i))"

text \<open>
  The longest prefix that is a number, after white space: what \<open>atoi\<close> and \<open>sscanf\<close> read. A number out
  of the range of the result type is undefined behaviour of both.
\<close>

definition is_space :: "u8 \<Rightarrow> bool" where
  "is_space c \<longleftrightarrow> c = 0x20 \<or> 9 \<le> c \<and> c \<le> 13"

definition scan_number :: "AString \<Rightarrow> int option" where
  "scan_number s =
     (let t = dropWhile is_space s;
          neg = (t \<noteq> [] \<and> hd t = 0x2d);
          u = (if neg \<or> t \<noteq> [] \<and> hd t = 0x2b then tl t else t);
          ds = takeWhile is_digit u
      in if ds = [] then None else Some (if neg then - decimal_from 0 ds else decimal_from 0 ds))"

definition INT_MAX :: int where "INT_MAX = 2 ^ 31 - 1"

definition LLONG_MAX :: int where "LLONG_MAX = 2 ^ 63 - 1"

definition atoi :: "AString \<Rightarrow> fault + int" where
  "atoi s =
     (case scan_number s of
        None \<Rightarrow> Inr 0
      | Some i \<Rightarrow> if - INT_MAX - 1 \<le> i \<and> i \<le> INT_MAX then Inr i else Inl SignedOverflow)"

definition sscanf_lld :: "AString \<Rightarrow> int \<Rightarrow> fault + int" where
  "sscanf_lld s result =
     (case scan_number s of
        None \<Rightarrow> Inr result
      | Some i \<Rightarrow> if - LLONG_MAX - 1 \<le> i \<and> i \<le> LLONG_MAX then Inr i else Inl SignedOverflow)"

lemma sint_digit: "d < 10 \<Longrightarrow> sint (of_nat (48 + d) :: u8) = 48 + int d"
proof -
  assume d: "d < 10"
  have "sint (word_of_nat (48 + d) :: u8) = signed_take_bit 7 (int (48 + d))"
    unfolding signed_of_nat by simp
  also have "\<dots> = int (48 + d)" using d by (intro signed_take_bit_int_eq_self) simp_all
  finally show ?thesis by simp
qed

lemma is_digit_of_nat: "d < 10 \<Longrightarrow> is_digit (of_nat (48 + d))"
  unfolding is_digit_def using sint_digit [of d] by linarith

lemma decimal_from_append: "decimal_from r (xs @ ys) = decimal_from (decimal_from r xs) ys"
  by (simp add: decimal_from_def)

lemma decimal_digits_digits: "list_all is_digit (decimal_digits n)"
proof (induction n rule: decimal_digits.induct)
  case (1 n)
  show ?case
  proof (cases "n < 10")
    case True
    then show ?thesis using is_digit_of_nat [of n] by (simp add: decimal_digits.simps [of n])
  next
    case False
    then show ?thesis
      using 1 is_digit_of_nat [of "n mod 10"] by (simp add: decimal_digits.simps [of n])
  qed
qed

lemma decimal_digits_value: "decimal_from 0 (decimal_digits n) = int n"
proof (induction n rule: decimal_digits.induct)
  case (1 n)
  show ?case
  proof (cases "n < 10")
    case True
    then show ?thesis using sint_digit [of n] by (simp add: decimal_digits.simps [of n])
  next
    case False
    have "10 * int (n div 10) + int (n mod 10) = int n" by presburger
    then show ?thesis
      using False 1 sint_digit [of "n mod 10"]
      by (simp add: decimal_digits.simps [of n] decimal_from_append)
  qed
qed

lemma decimal_digits_not_Nil: "decimal_digits n \<noteq> []"
  by (simp add: decimal_digits.simps [of n])

lemma digit_not_space: "is_digit c \<Longrightarrow> \<not> is_space c \<and> c \<noteq> 0x2d \<and> c \<noteq> 0x2b"
proof -
  assume c: "is_digit c"
  have "c \<noteq> 0x20" "c \<noteq> 0x2d" "c \<noteq> 0x2b" using c by (auto simp: is_digit_def)
  moreover have "\<not> (9 \<le> c \<and> c \<le> 13)"
  proof
    assume "9 \<le> c \<and> c \<le> 13"
    then have u: "uint c \<le> 13" by (simp add: word_le_def)
    have "sint c = signed_take_bit 7 (uint c)" by (simp add: signed_take_bit_eq_if_positive sint_uint)
    also have "\<dots> = uint c"
    proof (rule signed_take_bit_int_eq_self)
      show "- (2 ^ 7) \<le> uint c" by (rule order_trans [of _ 0]) simp_all
    qed (use u in simp)
    finally show False using u c by (simp add: is_digit_def)
  qed
  ultimately show ?thesis by (simp add: is_space_def)
qed

lemma takeWhile_digits: "list_all is_digit ds \<Longrightarrow> takeWhile is_digit ds = ds"
  by (induction ds) simp_all

text \<open>A printed number is read back.\<close>

lemma scan_number_Printf_d: "scan_number (Printf_d i) = Some i"
proof -
  obtain c ds where d: "decimal_digits (nat \<bar>i\<bar>) = c # ds" using decimal_digits_not_Nil [of "nat \<bar>i\<bar>"] by (cases "decimal_digits (nat \<bar>i\<bar>)") auto
  have digits: "list_all is_digit (c # ds)" using decimal_digits_digits [of "nat \<bar>i\<bar>"] by (simp add: d)
  have v: "decimal_from 0 (c # ds) = \<bar>i\<bar>" using decimal_digits_value [of "nat \<bar>i\<bar>"] by (simp add: d)
  have c: "\<not> is_space c" "c \<noteq> 0x2d" "c \<noteq> 0x2b" using digit_not_space [of c] digits by simp_all
  have m: "\<not> is_space 0x2d" by (simp add: is_space_def)
  show ?thesis
  proof (cases "i < 0")
    case True
    then have "Printf_d i = 0x2d # c # ds" using d by (simp add: Printf_d_def)
    then show ?thesis
      using True v m takeWhile_digits [OF digits] by (simp add: scan_number_def Let_def del: decimal_from_Cons)
  next
    case False
    then have "Printf_d i = c # ds" using d by (simp add: Printf_d_def)
    then show ?thesis
      using False v c takeWhile_digits [OF digits] by (simp add: scan_number_def Let_def del: decimal_from_Cons)
  qed
qed

lemma atoi_Printf_d: "- INT_MAX - 1 \<le> i \<Longrightarrow> i \<le> INT_MAX \<Longrightarrow> atoi (Printf_d i) = Inr i"
  by (simp add: atoi_def scan_number_Printf_d)

lemma sscanf_Printf_d:
  "- LLONG_MAX - 1 \<le> i \<Longrightarrow> i \<le> LLONG_MAX \<Longrightarrow> sscanf_lld (Printf_d i) r = Inr i"
  by (simp add: sscanf_lld_def scan_number_Printf_d)

section \<open>The contract\<close>

text \<open>Names that are the same name in a repository that ignores case.\<close>

definition same_name :: "AString \<Rightarrow> AString \<Rightarrow> bool" where
  "same_name a b \<longleftrightarrow> map c_tolower a = map c_tolower b"

lemma same_name_refl [simp]: "same_name a a"
  by (simp add: same_name_def)

lemma same_name_sym: "same_name a b \<Longrightarrow> same_name b a"
  by (simp add: same_name_def)

lemma same_name_trans: "same_name a b \<Longrightarrow> same_name b c \<Longrightarrow> same_name a c"
  by (simp add: same_name_def)

text \<open>Every value but the ones with the given name is kept.\<close>

definition keeps_others ::
    "('s \<Rightarrow> AString \<Rightarrow> AString \<Rightarrow> AString option) \<Rightarrow> AString \<Rightarrow> AString \<Rightarrow> 's \<Rightarrow> 's \<Rightarrow> bool" where
  "keeps_others val k v s s' \<longleftrightarrow>
     (\<forall>k' v'. \<not> (same_name k k' \<and> same_name v v') \<longrightarrow> val s' k' v' = val s k' v')"

lemma keeps_othersD:
  "keeps_others val k v s s' \<Longrightarrow> \<not> (same_name k k' \<and> same_name v v') \<Longrightarrow> val s' k' v' = val s k' v'"
  by (simp add: keeps_others_def)

lemma keeps_others_refl [simp]: "keeps_others val k v s s"
  by (simp add: keeps_others_def)

text \<open>
  \<open>val\<close> is what a repository holds; \<open>ok\<close> is the invariant its operations keep.
\<close>

locale settings =
  fixes ok :: "'s \<Rightarrow> bool"
    and val :: "'s \<Rightarrow> AString \<Rightarrow> AString \<Rightarrow> AString option"
    and has_value :: "'s \<Rightarrow> AString \<Rightarrow> AString \<Rightarrow> fault + bool"
    and get_value :: "'s \<Rightarrow> AString \<Rightarrow> AString \<Rightarrow> AString \<Rightarrow> fault + AString"
    and set_value :: "'s \<Rightarrow> AString \<Rightarrow> AString \<Rightarrow> AString \<Rightarrow> bool \<Rightarrow> fault + bool \<times> 's"
    and add_value :: "'s \<Rightarrow> AString \<Rightarrow> AString \<Rightarrow> AString \<Rightarrow> fault + 's"
    and delete_value :: "'s \<Rightarrow> AString \<Rightarrow> AString \<Rightarrow> fault + bool \<times> 's"
  assumes has_law: "ok s \<Longrightarrow> has_value s k v = Inr (val s k v \<noteq> None)"
    and get_law: "ok s \<Longrightarrow> get_value s k v d = Inr (case val s k v of None \<Rightarrow> d | Some x \<Rightarrow> x)"
    and set_law: "ok s \<Longrightarrow> \<exists>b s'. set_value s k v x c = Inr (b, s') \<and> ok s' \<and> keeps_others val k v s s' \<and>
      (if b then val s' k v = Some x else s' = s)"
    and add_law: "ok s \<Longrightarrow> \<exists>s'. add_value s k v x = Inr s' \<and> ok s' \<and> keeps_others val k v s s' \<and>
      (val s' k v = val s k v \<or> val s' k v = Some x)"
    and delete_law: "ok s \<Longrightarrow> \<exists>b s'. delete_value s k v = Inr (b, s') \<and> ok s' \<and> keeps_others val k v s s' \<and>
      (if b then val s k v \<noteq> None else s' = s)"
begin

lemma setE:
  assumes "ok s"
  obtains b s' where "set_value s k v x c = Inr (b, s')" and "ok s'" and "keeps_others val k v s s'"
    and "b \<Longrightarrow> val s' k v = Some x" and "\<not> b \<Longrightarrow> s' = s"
  using set_law [OF assms, of k v x c] that by (metis (full_types))

lemma deleteE:
  assumes "ok s"
  obtains b s' where "delete_value s k v = Inr (b, s')" and "ok s'" and "keeps_others val k v s s'"
    and "b \<Longrightarrow> val s k v \<noteq> None" and "\<not> b \<Longrightarrow> s' = s"
  using delete_law [OF assms, of k v] that by (metis (full_types))

lemma addE:
  assumes "ok s"
  obtains s' where "add_value s k v x = Inr s'" and "ok s'" and "keeps_others val k v s s'"
    and "val s' k v = val s k v \<or> val s' k v = Some x"
  using add_law [OF assms, of k v x] that by blast

text \<open>What was set is what is read, under the same name in any case the writer used.\<close>

lemma get_after_set:
  assumes "ok s" and "set_value s k v x c = Inr (True, s')"
  shows "get_value s' k v d = Inr x" and "has_value s' k v = Inr True"
proof -
  have "ok s'" "val s' k v = Some x"
    using setE [OF assms(1), of k v x c] assms(2) by auto
  then show "get_value s' k v d = Inr x" "has_value s' k v = Inr True"
    by (simp_all add: get_law has_law)
qed

lemma get_other_after_set:
  assumes "ok s" and "set_value s k v x c = Inr (b, s')" and "\<not> (same_name k k' \<and> same_name v v')"
  shows "get_value s' k' v' d = get_value s k' v' d"
proof -
  have "ok s'" "keeps_others val k v s s'"
    using setE [OF assms(1), of k v x c] assms(2) by auto
  then show ?thesis using assms(1,3) keeps_othersD [of val k v s s' k' v'] by (simp add: get_law)
qed

lemma get_other_after_delete:
  assumes "ok s" and "delete_value s k v = Inr (b, s')" and "\<not> (same_name k k' \<and> same_name v v')"
  shows "get_value s' k' v' d = get_value s k' v' d"
proof -
  have "ok s'" "keeps_others val k v s s'"
    using deleteE [OF assms(1), of k v] assms(2) by auto
  then show ?thesis using assms(1,3) keeps_othersD [of val k v s s' k' v'] by (simp add: get_law)
qed

text \<open>The default is never seen when there is a value, and always when there is none.\<close>

lemma get_without_default:
  assumes "ok s" and "has_value s k v = Inr True"
  shows "get_value s k v d = get_value s k v d'"
  using assms by (auto simp: get_law has_law)

lemma get_default:
  assumes "ok s" and "has_value s k v = Inr False"
  shows "get_value s k v d = Inr d"
  using assms by (simp add: get_law has_law)

end

end
