(* ===== verification/IniFile.thy ===== *)
theory IniFile
  imports SettingsInterface
begin

text \<open>
  \<open>Src/Server/IniFile.cpp\<close>: the settings file. The class keeps parallel vectors, the key names beside
  the keys and in each key the value names beside the values; identifiers are indices of type \<open>int\<close>,
  \<open>noID\<close> is \<open>-1\<close>. An index outside its vector is a fault. The streams are the texts they carry: a
  file system is a map from names to contents, and lines end in \<open>iniEOL\<close>, which is a line feed on
  Windows, where the stream itself adds the carriage return, and both characters elsewhere.
\<close>

section \<open>Vectors indexed by an \<open>int\<close>\<close>

definition vec_at :: "'a list \<Rightarrow> int \<Rightarrow> fault + 'a" where
  "vec_at xs i = (if 0 \<le> i \<and> i < int (length xs) then Inr (xs ! nat i) else Inl OutOfRange)"

definition vec_set :: "'a list \<Rightarrow> int \<Rightarrow> 'a \<Rightarrow> fault + 'a list" where
  "vec_set xs i x = (if 0 \<le> i \<and> i < int (length xs) then Inr (xs[nat i := x]) else Inl OutOfRange)"

definition vec_erase :: "'a list \<Rightarrow> int \<Rightarrow> fault + 'a list" where
  "vec_erase xs i =
     (if 0 \<le> i \<and> i < int (length xs) then Inr (take (nat i) xs @ drop (nat i + 1) xs) else Inl OutOfRange)"

text \<open>The searching loops: the index of the first element with the property, counted from \<open>i\<close>.\<close>

fun find_index :: "('a \<Rightarrow> bool) \<Rightarrow> 'a list \<Rightarrow> int \<Rightarrow> int" where
  "find_index p [] i = noID"
| "find_index p (x # xs) i = (if p x then i else find_index p xs (i + 1))"

section \<open>The class\<close>

record ini_key =
  key_names :: "AString list"
  key_values :: "AString list"
  key_comments :: "AString list"

definition new_key :: ini_key where
  "new_key = \<lparr>key_names = [], key_values = [], key_comments = []\<rparr>"

record cIniFile =
  m_IsCaseInsensitive :: bool
  m_Filename :: AString
  keys :: "ini_key list"
  names :: "AString list"
  comments :: "AString list"

definition new_cIniFile :: cIniFile where
  "new_cIniFile =
     \<lparr>m_IsCaseInsensitive = True, m_Filename = [], keys = [], names = [], comments = []\<rparr>"

definition CaseSensitive :: "cIniFile \<Rightarrow> cIniFile" where
  "CaseSensitive ini = ini\<lparr>m_IsCaseInsensitive := False\<rparr>"

definition CaseInsensitive :: "cIniFile \<Rightarrow> cIniFile" where
  "CaseInsensitive ini = ini\<lparr>m_IsCaseInsensitive := True\<rparr>"

definition CheckCase :: "cIniFile \<Rightarrow> AString \<Rightarrow> AString" where
  "CheckCase ini s = (if \<not> m_IsCaseInsensitive ini then s else map c_tolower s)"

text \<open>An update of the key with an identifier.\<close>

definition upd_key :: "cIniFile \<Rightarrow> int \<Rightarrow> (ini_key \<Rightarrow> fault + ini_key) \<Rightarrow> fault + cIniFile" where
  "upd_key ini keyID f =
     and_then (vec_at (keys ini) keyID) (\<lambda>key. and_then (f key) (\<lambda>key'.
     and_then (vec_set (keys ini) keyID key') (\<lambda>ks. Inr (ini\<lparr>keys := ks\<rparr>))))"

subsection \<open>Keys\<close>

definition Ini_FindKey :: "cIniFile \<Rightarrow> AString \<Rightarrow> int" where
  "Ini_FindKey ini a_KeyName =
     find_index (\<lambda>name. CheckCase ini name = CheckCase ini a_KeyName) (names ini) 0"

definition Ini_FindValue :: "cIniFile \<Rightarrow> int \<Rightarrow> AString \<Rightarrow> fault + int" where
  "Ini_FindValue ini keyID a_ValueName =
     (if keys ini = [] \<or> keyID \<ge> int (length (keys ini)) then Inr noID
      else and_then (vec_at (keys ini) keyID) (\<lambda>key.
        Inr (find_index (\<lambda>name. CheckCase ini name = CheckCase ini a_ValueName) (key_names key) 0)))"

definition Ini_AddKeyName :: "cIniFile \<Rightarrow> AString \<Rightarrow> int \<times> cIniFile" where
  "Ini_AddKeyName ini keyname =
     (let ini' = ini\<lparr>names := names ini @ [keyname], keys := keys ini @ [new_key]\<rparr>
      in (int (length (names ini')) - 1, ini'))"

definition Ini_GetKeyName :: "cIniFile \<Rightarrow> int \<Rightarrow> fault + AString" where
  "Ini_GetKeyName ini keyID =
     (if keyID < int (length (names ini)) then vec_at (names ini) keyID else Inr [])"

definition Ini_GetNumKeys :: "cIniFile \<Rightarrow> int" where
  "Ini_GetNumKeys ini = int (length (keys ini))"

definition Ini_KeyExists :: "cIniFile \<Rightarrow> AString \<Rightarrow> bool" where
  "Ini_KeyExists ini a_keyname \<longleftrightarrow> Ini_FindKey ini a_keyname \<noteq> noID"

definition Ini_DeleteKey :: "cIniFile \<Rightarrow> AString \<Rightarrow> fault + bool \<times> cIniFile" where
  "Ini_DeleteKey ini keyname =
     (let keyID = Ini_FindKey ini keyname
      in if keyID = noID then Inr (False, ini)
         else and_then (vec_erase (names ini) keyID) (\<lambda>ns. and_then (vec_erase (keys ini) keyID) (\<lambda>ks.
           Inr (True, ini\<lparr>names := ns, keys := ks\<rparr>))))"

definition Ini_Clear :: "cIniFile \<Rightarrow> cIniFile" where
  "Ini_Clear ini = ini\<lparr>names := [], keys := [], comments := []\<rparr>"

subsection \<open>Values by identifier\<close>

text \<open>The test of the code: both identifiers are below their bound, a negative key is read at once.\<close>

definition has_id :: "cIniFile \<Rightarrow> int \<Rightarrow> int \<Rightarrow> (ini_key \<Rightarrow> AString list) \<Rightarrow> fault + bool" where
  "has_id ini keyID i field =
     (if keyID < int (length (keys ini)) then
        and_then (vec_at (keys ini) keyID) (\<lambda>key. Inr (i < int (length (field key))))
      else Inr False)"

definition Ini_GetNumValuesByID :: "cIniFile \<Rightarrow> int \<Rightarrow> fault + int" where
  "Ini_GetNumValuesByID ini keyID =
     (if keyID < int (length (keys ini)) then
        and_then (vec_at (keys ini) keyID) (\<lambda>key. Inr (int (length (key_names key))))
      else Inr 0)"

definition Ini_GetValueNameByID :: "cIniFile \<Rightarrow> int \<Rightarrow> int \<Rightarrow> fault + AString" where
  "Ini_GetValueNameByID ini keyID valueID =
     and_then (has_id ini keyID valueID key_names) (\<lambda>b.
       if b then and_then (vec_at (keys ini) keyID) (\<lambda>key. vec_at (key_names key) valueID) else Inr [])"

definition Ini_GetValueByID :: "cIniFile \<Rightarrow> int \<Rightarrow> int \<Rightarrow> AString \<Rightarrow> fault + AString" where
  "Ini_GetValueByID ini keyID valueID defValue =
     and_then (has_id ini keyID valueID key_names) (\<lambda>b.
       if b then and_then (vec_at (keys ini) keyID) (\<lambda>key. vec_at (key_values key) valueID)
       else Inr defValue)"

text \<open>Here the identifiers are converted to \<open>size_t\<close>, so that a negative one is out of bounds.\<close>

definition Ini_SetValueByID :: "cIniFile \<Rightarrow> int \<Rightarrow> int \<Rightarrow> AString \<Rightarrow> fault + bool \<times> cIniFile" where
  "Ini_SetValueByID ini keyID valueID value =
     (if keyID < 0 \<or> keyID \<ge> int (length (keys ini)) then Inr (False, ini)
      else and_then (vec_at (keys ini) keyID) (\<lambda>key.
        if valueID < 0 \<or> valueID \<ge> int (length (key_names key)) then Inr (False, ini)
        else and_then
          (upd_key ini keyID (\<lambda>key. and_then (vec_set (key_values key) valueID value) (\<lambda>vs.
             Inr (key\<lparr>key_values := vs\<rparr>))))
          (\<lambda>ini'. Inr (True, ini'))))"

definition Ini_DeleteValueByID :: "cIniFile \<Rightarrow> int \<Rightarrow> int \<Rightarrow> fault + bool \<times> cIniFile" where
  "Ini_DeleteValueByID ini keyID valueID =
     and_then (has_id ini keyID valueID key_names) (\<lambda>b.
       if b then
         and_then
           (upd_key ini keyID (\<lambda>key. and_then (vec_erase (key_names key) valueID) (\<lambda>ns.
              and_then (vec_erase (key_values key) valueID) (\<lambda>vs.
                Inr (key\<lparr>key_names := ns, key_values := vs\<rparr>)))))
           (\<lambda>ini'. Inr (True, ini'))
       else Inr (False, ini))"

subsection \<open>Values by name\<close>

text \<open>The two \<open>push_back\<close>s.\<close>

definition push_value :: "cIniFile \<Rightarrow> int \<Rightarrow> AString \<Rightarrow> AString \<Rightarrow> fault + cIniFile" where
  "push_value ini keyID name value =
     upd_key ini keyID (\<lambda>key.
       Inr (key\<lparr>key_names := key_names key @ [name], key_values := key_values key @ [value]\<rparr>))"

definition Ini_AddValue :: "cIniFile \<Rightarrow> AString \<Rightarrow> AString \<Rightarrow> AString \<Rightarrow> fault + cIniFile" where
  "Ini_AddValue ini a_KeyName a_ValueName a_Value =
     (let keyID = Ini_FindKey ini a_KeyName;
          (keyID, ini) = (if keyID = noID then Ini_AddKeyName ini a_KeyName else (keyID, ini))
      in push_value ini keyID a_ValueName a_Value)"

definition Ini_SetValue ::
    "cIniFile \<Rightarrow> AString \<Rightarrow> AString \<Rightarrow> AString \<Rightarrow> bool \<Rightarrow> fault + bool \<times> cIniFile" where
  "Ini_SetValue ini a_KeyName a_ValueName a_Value a_CreateIfNotExists =
     (let keyID = Ini_FindKey ini a_KeyName
      in if keyID = noID \<and> \<not> a_CreateIfNotExists then Inr (False, ini)
         else let (keyID, ini) = (if keyID = noID then Ini_AddKeyName ini a_KeyName else (keyID, ini))
           in and_then (Ini_FindValue ini keyID a_ValueName) (\<lambda>valueID.
             if valueID = noID then
               if \<not> a_CreateIfNotExists then Inr (False, ini)
               else and_then (push_value ini keyID a_ValueName a_Value) (\<lambda>ini'. Inr (True, ini'))
             else
               and_then
                 (upd_key ini keyID (\<lambda>key. and_then (vec_set (key_values key) valueID a_Value) (\<lambda>vs.
                    Inr (key\<lparr>key_values := vs\<rparr>))))
                 (\<lambda>ini'. Inr (True, ini'))))"

definition Ini_GetValue :: "cIniFile \<Rightarrow> AString \<Rightarrow> AString \<Rightarrow> AString \<Rightarrow> fault + AString" where
  "Ini_GetValue ini keyname valuename defValue =
     (let keyID = Ini_FindKey ini keyname
      in if keyID = noID then Inr defValue
         else and_then (Ini_FindValue ini keyID valuename) (\<lambda>valueID.
           if valueID = noID then Inr defValue
           else and_then (vec_at (keys ini) keyID) (\<lambda>key. vec_at (key_values key) valueID)))"

definition Ini_HasValue :: "cIniFile \<Rightarrow> AString \<Rightarrow> AString \<Rightarrow> fault + bool" where
  "Ini_HasValue ini a_KeyName a_ValueName =
     (let keyID = Ini_FindKey ini a_KeyName
      in if keyID = noID then Inr False
         else and_then (Ini_FindValue ini keyID a_ValueName) (\<lambda>valueID. Inr (valueID \<noteq> noID)))"

definition Ini_GetValueSet :: "cIniFile \<Rightarrow> AString \<Rightarrow> AString \<Rightarrow> AString \<Rightarrow> fault + AString \<times> cIniFile" where
  "Ini_GetValueSet ini keyname valuename defValue =
     (let keyID = Ini_FindKey ini keyname
      in if keyID = noID then
           and_then (Ini_SetValue ini keyname valuename defValue True) (\<lambda>(_, ini'). Inr (defValue, ini'))
         else and_then (Ini_FindValue ini keyID valuename) (\<lambda>valueID.
           if valueID = noID then
             and_then (Ini_SetValue ini keyname valuename defValue True) (\<lambda>(_, ini'). Inr (defValue, ini'))
           else and_then (vec_at (keys ini) keyID) (\<lambda>key. and_then (vec_at (key_values key) valueID) (\<lambda>x.
             Inr (x, ini)))))"

definition Ini_DeleteValue :: "cIniFile \<Rightarrow> AString \<Rightarrow> AString \<Rightarrow> fault + bool \<times> cIniFile" where
  "Ini_DeleteValue ini keyname valuename =
     (let keyID = Ini_FindKey ini keyname
      in if keyID = noID then Inr (False, ini)
         else and_then (Ini_FindValue ini keyID valuename) (\<lambda>valueID.
           if valueID = noID then Inr (False, ini) else Ini_DeleteValueByID ini keyID valueID))"

definition Ini_GetNumValues :: "cIniFile \<Rightarrow> AString \<Rightarrow> fault + int" where
  "Ini_GetNumValues ini keyname =
     (let keyID = Ini_FindKey ini keyname
      in if keyID = noID then Inr 0
         else and_then (vec_at (keys ini) keyID) (\<lambda>key. Inr (int (length (key_names key)))))"

definition Ini_GetValueName :: "cIniFile \<Rightarrow> AString \<Rightarrow> int \<Rightarrow> fault + AString" where
  "Ini_GetValueName ini keyname valueID =
     (let keyID = Ini_FindKey ini keyname
      in if keyID = noID then Inr [] else Ini_GetValueNameByID ini keyID valueID)"

fun zip_values :: "AString list \<Rightarrow> AString list \<Rightarrow> fault + (AString \<times> AString) list" where
  "zip_values [] vs = Inr []"
| "zip_values (n # ns) [] = Inl OutOfRange"
| "zip_values (n # ns) (v # vs) = and_then (zip_values ns vs) (\<lambda>r. Inr ((n, v) # r))"

definition Ini_GetValues :: "cIniFile \<Rightarrow> AString \<Rightarrow> fault + (AString \<times> AString) list" where
  "Ini_GetValues ini a_keyName =
     (let keyID = Ini_FindKey ini a_keyName
      in if keyID = noID then Inr []
         else and_then (vec_at (keys ini) keyID) (\<lambda>key. zip_values (key_names key) (key_values key)))"

subsection \<open>Numbers and truth values\<close>

definition Ini_AddValueI :: "cIniFile \<Rightarrow> AString \<Rightarrow> AString \<Rightarrow> int \<Rightarrow> fault + cIniFile" where
  "Ini_AddValueI ini a_KeyName a_ValueName a_Value = Ini_AddValue ini a_KeyName a_ValueName (Printf_d a_Value)"

definition Ini_AddValueB :: "cIniFile \<Rightarrow> AString \<Rightarrow> AString \<Rightarrow> bool \<Rightarrow> fault + cIniFile" where
  "Ini_AddValueB ini a_KeyName a_ValueName a_Value =
     Ini_AddValueI ini a_KeyName a_ValueName (if a_Value then 1 else 0)"

definition Ini_SetValueI ::
    "cIniFile \<Rightarrow> AString \<Rightarrow> AString \<Rightarrow> int \<Rightarrow> bool \<Rightarrow> fault + bool \<times> cIniFile" where
  "Ini_SetValueI ini a_KeyName a_ValueName a_Value a_CreateIfNotExists =
     Ini_SetValue ini a_KeyName a_ValueName (Printf_d a_Value) a_CreateIfNotExists"

definition Ini_SetValueI64 ::
    "cIniFile \<Rightarrow> AString \<Rightarrow> AString \<Rightarrow> int \<Rightarrow> bool \<Rightarrow> fault + bool \<times> cIniFile" where
  "Ini_SetValueI64 ini a_KeyName a_ValueName a_Value a_CreateIfNotExists =
     Ini_SetValue ini a_KeyName a_ValueName (Printf_d a_Value) a_CreateIfNotExists"

definition Ini_SetValueB ::
    "cIniFile \<Rightarrow> AString \<Rightarrow> AString \<Rightarrow> bool \<Rightarrow> bool \<Rightarrow> fault + bool \<times> cIniFile" where
  "Ini_SetValueB ini a_KeyName a_ValueName a_Value a_CreateIfNotExists =
     Ini_SetValueI ini a_KeyName a_ValueName (of_bool a_Value) a_CreateIfNotExists"

definition Ini_GetValueI :: "cIniFile \<Rightarrow> AString \<Rightarrow> AString \<Rightarrow> int \<Rightarrow> fault + int" where
  "Ini_GetValueI ini keyname valuename defValue =
     and_then (Ini_GetValue ini keyname valuename (Printf_d defValue)) atoi"

definition Ini_GetValueB :: "cIniFile \<Rightarrow> AString \<Rightarrow> AString \<Rightarrow> bool \<Rightarrow> fault + bool" where
  "Ini_GetValueB ini keyname valuename defValue =
     and_then (Ini_GetValueI ini keyname valuename (if defValue then 1 else 0)) (\<lambda>i. Inr (i \<noteq> 0))"

definition Ini_GetValueSetI :: "cIniFile \<Rightarrow> AString \<Rightarrow> AString \<Rightarrow> int \<Rightarrow> fault + int \<times> cIniFile" where
  "Ini_GetValueSetI ini keyname valuename defValue =
     and_then (Ini_GetValueSet ini keyname valuename (Printf_d defValue)) (\<lambda>(x, ini').
     and_then (atoi x) (\<lambda>i. Inr (i, ini')))"

definition Ini_GetValueSetI64 :: "cIniFile \<Rightarrow> AString \<Rightarrow> AString \<Rightarrow> int \<Rightarrow> fault + int \<times> cIniFile" where
  "Ini_GetValueSetI64 ini keyname valuename defValue =
     and_then (Ini_GetValueSet ini keyname valuename (Printf_d defValue)) (\<lambda>(x, ini').
     and_then (sscanf_lld x defValue) (\<lambda>i. Inr (i, ini')))"

definition Ini_GetValueSetB :: "cIniFile \<Rightarrow> AString \<Rightarrow> AString \<Rightarrow> bool \<Rightarrow> fault + bool \<times> cIniFile" where
  "Ini_GetValueSetB ini keyname valuename defValue =
     and_then (Ini_GetValueSetI ini keyname valuename (if defValue then 1 else 0)) (\<lambda>(i, ini').
     Inr (i \<noteq> 0, ini'))"

subsection \<open>Comments\<close>

definition Ini_AddHeaderComment :: "cIniFile \<Rightarrow> AString \<Rightarrow> cIniFile" where
  "Ini_AddHeaderComment ini comment = ini\<lparr>comments := comments ini @ [comment]\<rparr>"

definition Ini_GetHeaderComment :: "cIniFile \<Rightarrow> int \<Rightarrow> fault + AString" where
  "Ini_GetHeaderComment ini commentID =
     (if commentID < int (length (comments ini)) then vec_at (comments ini) commentID else Inr [])"

definition Ini_DeleteHeaderComment :: "cIniFile \<Rightarrow> int \<Rightarrow> fault + bool \<times> cIniFile" where
  "Ini_DeleteHeaderComment ini commentID =
     (if commentID < int (length (comments ini)) then
        and_then (vec_erase (comments ini) commentID) (\<lambda>cs. Inr (True, ini\<lparr>comments := cs\<rparr>))
      else Inr (False, ini))"

definition Ini_DeleteHeaderComments :: "cIniFile \<Rightarrow> cIniFile" where
  "Ini_DeleteHeaderComments ini = ini\<lparr>comments := []\<rparr>"

definition Ini_GetNumHeaderComments :: "cIniFile \<Rightarrow> int" where
  "Ini_GetNumHeaderComments ini = int (length (comments ini))"

definition Ini_GetNumKeyCommentsByID :: "cIniFile \<Rightarrow> int \<Rightarrow> fault + int" where
  "Ini_GetNumKeyCommentsByID ini keyID =
     (if keyID < int (length (keys ini)) then
        and_then (vec_at (keys ini) keyID) (\<lambda>key. Inr (int (length (key_comments key))))
      else Inr 0)"

definition Ini_GetNumKeyComments :: "cIniFile \<Rightarrow> AString \<Rightarrow> fault + int" where
  "Ini_GetNumKeyComments ini keyname =
     (let keyID = Ini_FindKey ini keyname
      in if keyID = noID then Inr 0
         else and_then (vec_at (keys ini) keyID) (\<lambda>key. Inr (int (length (key_comments key)))))"

definition Ini_AddKeyCommentByID :: "cIniFile \<Rightarrow> int \<Rightarrow> AString \<Rightarrow> fault + bool \<times> cIniFile" where
  "Ini_AddKeyCommentByID ini keyID comment =
     (if keyID < int (length (keys ini)) then
        and_then (upd_key ini keyID (\<lambda>key. Inr (key\<lparr>key_comments := key_comments key @ [comment]\<rparr>)))
          (\<lambda>ini'. Inr (True, ini'))
      else Inr (False, ini))"

definition Ini_AddKeyComment :: "cIniFile \<Rightarrow> AString \<Rightarrow> AString \<Rightarrow> fault + bool \<times> cIniFile" where
  "Ini_AddKeyComment ini keyname comment =
     (let keyID = Ini_FindKey ini keyname
      in if keyID = noID then Inr (False, ini) else Ini_AddKeyCommentByID ini keyID comment)"

definition Ini_GetKeyCommentByID :: "cIniFile \<Rightarrow> int \<Rightarrow> int \<Rightarrow> fault + AString" where
  "Ini_GetKeyCommentByID ini keyID commentID =
     and_then (has_id ini keyID commentID key_comments) (\<lambda>b.
       if b then and_then (vec_at (keys ini) keyID) (\<lambda>key. vec_at (key_comments key) commentID)
       else Inr [])"

definition Ini_GetKeyComment :: "cIniFile \<Rightarrow> AString \<Rightarrow> int \<Rightarrow> fault + AString" where
  "Ini_GetKeyComment ini keyname commentID =
     (let keyID = Ini_FindKey ini keyname
      in if keyID = noID then Inr [] else Ini_GetKeyCommentByID ini keyID commentID)"

definition Ini_DeleteKeyCommentByID :: "cIniFile \<Rightarrow> int \<Rightarrow> int \<Rightarrow> fault + bool \<times> cIniFile" where
  "Ini_DeleteKeyCommentByID ini keyID commentID =
     and_then (has_id ini keyID commentID key_comments) (\<lambda>b.
       if b then
         and_then
           (upd_key ini keyID (\<lambda>key. and_then (vec_erase (key_comments key) commentID) (\<lambda>cs.
              Inr (key\<lparr>key_comments := cs\<rparr>))))
           (\<lambda>ini'. Inr (True, ini'))
       else Inr (False, ini))"

definition Ini_DeleteKeyComment :: "cIniFile \<Rightarrow> AString \<Rightarrow> int \<Rightarrow> fault + bool \<times> cIniFile" where
  "Ini_DeleteKeyComment ini keyname commentID =
     (let keyID = Ini_FindKey ini keyname
      in if keyID = noID then Inr (False, ini) else Ini_DeleteKeyCommentByID ini keyID commentID)"

definition Ini_DeleteKeyCommentsByID :: "cIniFile \<Rightarrow> int \<Rightarrow> fault + bool \<times> cIniFile" where
  "Ini_DeleteKeyCommentsByID ini keyID =
     (if keyID < int (length (keys ini)) then
        and_then (upd_key ini keyID (\<lambda>key. Inr (key\<lparr>key_comments := []\<rparr>))) (\<lambda>ini'. Inr (True, ini'))
      else Inr (False, ini))"

definition Ini_DeleteKeyComments :: "cIniFile \<Rightarrow> AString \<Rightarrow> fault + bool \<times> cIniFile" where
  "Ini_DeleteKeyComments ini keyname =
     (let keyID = Ini_FindKey ini keyname
      in if keyID = noID then Inr (False, ini) else Ini_DeleteKeyCommentsByID ini keyID)"

section \<open>Searching\<close>

lemma vec_at_mid [simp]: "vec_at (xs @ x # ys) (int (length xs)) = Inr x"
  by (simp add: vec_at_def)

lemma vec_set_mid [simp]: "vec_set (xs @ x # ys) (int (length xs)) y = Inr (xs @ y # ys)"
  by (simp add: vec_set_def list_update_append)

lemma vec_erase_mid [simp]: "vec_erase (xs @ x # ys) (int (length xs)) = Inr (xs @ ys)"
  by (simp add: vec_erase_def)

lemma find_index_append:
  "find_index p (xs @ ys) i =
     (if \<exists>x \<in> set xs. p x then find_index p xs i else find_index p ys (i + int (length xs)))"
  by (induction xs arbitrary: i) (auto simp: ac_simps)

lemma find_index_mid [simp]:
  "\<forall>x \<in> set xs. \<not> p x \<Longrightarrow> p y \<Longrightarrow> find_index p (xs @ y # ys) 0 = int (length xs)"
  by (simp add: find_index_append)

lemma find_index_none: "\<forall>x \<in> set xs. \<not> p x \<Longrightarrow> find_index p xs i = noID"
  by (induction xs arbitrary: i) simp_all

lemma int_not_noID [simp]: "int n \<noteq> noID" "noID \<noteq> int n"
  by (simp_all add: noID_def)

lemma first_split:
  obtains "\<forall>x \<in> set xs. \<not> p x"
  | ys y zs where "xs = ys @ y # zs" and "p y" and "\<forall>x \<in> set ys. \<not> p x"
  using split_list_first_prop [of xs p] by blast

text \<open>The value beside the first matching name in two parallel vectors.\<close>

fun beside :: "('a \<Rightarrow> bool) \<Rightarrow> 'a list \<Rightarrow> 'b list \<Rightarrow> 'b option" where
  "beside p (n # ns) (x # xs) = (if p n then Some x else beside p ns xs)"
| "beside p _ _ = None"

lemma beside_append:
  "length ns = length xs \<Longrightarrow>
   beside p (ns @ ms) (xs @ ys) = (case beside p ns xs of None \<Rightarrow> beside p ms ys | Some x \<Rightarrow> Some x)"
  by (induction p ns xs rule: beside.induct) auto

lemma beside_none [simp]: "\<forall>n \<in> set ns. \<not> p n \<Longrightarrow> beside p ns xs = None"
  by (induction p ns xs rule: beside.induct) auto

lemma beside_mid [simp]:
  "length ns = length xs \<Longrightarrow> \<forall>n \<in> set ns. \<not> p n \<Longrightarrow> p m \<Longrightarrow> beside p (ns @ m # ms) (xs @ y # ys) = Some y"
  by (simp add: beside_append)

lemma beside_skip [simp]:
  "length ns = length xs \<Longrightarrow> \<not> p m \<Longrightarrow> beside p (ns @ m # ms) (xs @ y # ys) = beside p (ns @ ms) (xs @ ys)"
  by (simp add: beside_append split: option.split)

section \<open>The invariant and what the file holds\<close>

definition key_ok :: "ini_key \<Rightarrow> bool" where
  "key_ok key \<longleftrightarrow> length (key_names key) = length (key_values key)"

definition ini_ok :: "cIniFile \<Rightarrow> bool" where
  "ini_ok ini \<longleftrightarrow> length (names ini) = length (keys ini) \<and> (\<forall>key \<in> set (keys ini). key_ok key)"

definition same_in :: "cIniFile \<Rightarrow> AString \<Rightarrow> AString \<Rightarrow> bool" where
  "same_in ini a b \<longleftrightarrow> CheckCase ini b = CheckCase ini a"

definition key_val :: "cIniFile \<Rightarrow> ini_key \<Rightarrow> AString \<Rightarrow> AString option" where
  "key_val ini key v = beside (same_in ini v) (key_names key) (key_values key)"

definition ini_val :: "cIniFile \<Rightarrow> AString \<Rightarrow> AString \<Rightarrow> AString option" where
  "ini_val ini k v =
     (case beside (same_in ini k) (names ini) (keys ini) of
        None \<Rightarrow> None
      | Some key \<Rightarrow> key_val ini key v)"

lemma same_in_refl [simp]: "same_in ini a a"
  by (simp add: same_in_def)

lemma same_in_same_name: "same_in ini a b \<Longrightarrow> same_name a b"
  by (simp add: same_in_def CheckCase_def same_name_def split: if_splits)

lemma same_in_trans: "same_in ini a b \<Longrightarrow> same_in ini a c \<longleftrightarrow> same_in ini b c"
  by (simp add: same_in_def)

lemma same_in_sym: "same_in ini a b \<longleftrightarrow> same_in ini b a"
  by (auto simp: same_in_def)

text \<open>The flag is all the comparison of names depends on.\<close>

lemma same_in_cong [simp]:
  "same_in (ini\<lparr>keys := ks\<rparr>) = same_in ini" "same_in (ini\<lparr>names := ns\<rparr>) = same_in ini"
  by (auto simp: same_in_def CheckCase_def fun_eq_iff)

lemma key_val_cong [simp]:
  "key_val (ini\<lparr>keys := ks\<rparr>) = key_val ini" "key_val (ini\<lparr>names := ns\<rparr>) = key_val ini"
  by (simp_all add: key_val_def fun_eq_iff)

lemma same_in_fun: "(\<lambda>name. CheckCase ini name = CheckCase ini k) = same_in ini k"
  by (simp add: same_in_def fun_eq_iff)

lemma FindKey_same: "Ini_FindKey ini k = find_index (same_in ini k) (names ini) 0"
  by (simp add: Ini_FindKey_def same_in_fun)

lemma FindValue_mid:
  "keys ini = ks @ key # ks' \<Longrightarrow>
   Ini_FindValue ini (int (length ks)) v = Inr (find_index (same_in ini v) (key_names key) 0)"
  by (simp add: Ini_FindValue_def same_in_fun)

lemma upd_key_mid:
  "keys ini = ks @ key # ks' \<Longrightarrow>
   upd_key ini (int (length ks)) f = and_then (f key) (\<lambda>key'. Inr (ini\<lparr>keys := ks @ key' # ks'\<rparr>))"
  by (cases "f key") (simp_all add: upd_key_def)

text \<open>A key is found at its place in both vectors, or is in neither.\<close>

lemma FindKey_cases:
  assumes "ini_ok ini"
  obtains (none) "Ini_FindKey ini k = noID" and "\<forall>n \<in> set (names ini). \<not> same_in ini k n"
      and "\<And>v. ini_val ini k v = None"
  | (found) ns n ns' ks key ks' where "names ini = ns @ n # ns'" and "keys ini = ks @ key # ks'"
      and "length ns = length ks" and "length ns' = length ks'" and "same_in ini k n"
      and "\<forall>n \<in> set ns. \<not> same_in ini k n" and "Ini_FindKey ini k = int (length ks)" and "key_ok key"
      and "\<And>v. ini_val ini k v = key_val ini key v"
proof (cases rule: first_split [of "names ini" "same_in ini k"])
  case 1
  then show thesis using none by (simp add: FindKey_same find_index_none ini_val_def)
next
  case (2 ns n ns')
  have l: "length (keys ini) = length ns + Suc (length ns')" using assms 2 by (simp add: ini_ok_def)
  define ks where "ks = take (length ns) (keys ini)"
  obtain key ks' where d: "drop (length ns) (keys ini) = key # ks'"
    using l by (cases "drop (length ns) (keys ini)") (simp_all add: drop_eq_Nil)
  have k: "keys ini = ks @ key # ks'" using append_take_drop_id [of "length ns" "keys ini"] by (simp add: ks_def d)
  have len: "length ks = length ns" using l by (simp add: ks_def)
  then have len': "length ns' = length ks'" using l k by simp
  have "key_ok key" using assms k by (simp add: ini_ok_def)
  then show thesis
    using found [OF 2(1) k len [symmetric] len' 2(2,3)] 2 k len by (simp add: FindKey_same ini_val_def)
qed

lemma FindValue_cases:
  assumes "key_ok key"
  obtains (none) "find_index (same_in ini v) (key_names key) 0 = noID" and "key_val ini key v = None"
      and "\<forall>n \<in> set (key_names key). \<not> same_in ini v n"
  | (found) ns n ns' xs x xs' where "key_names key = ns @ n # ns'" and "key_values key = xs @ x # xs'"
      and "length ns = length xs" and "length ns' = length xs'" and "same_in ini v n"
      and "\<forall>n \<in> set ns. \<not> same_in ini v n"
      and "find_index (same_in ini v) (key_names key) 0 = int (length xs)" and "key_val ini key v = Some x"
proof (cases rule: first_split [of "key_names key" "same_in ini v"])
  case 1
  then show thesis using none by (simp add: find_index_none key_val_def)
next
  case (2 ns n ns')
  have l: "length (key_values key) = length ns + Suc (length ns')" using assms 2 by (simp add: key_ok_def)
  define xs where "xs = take (length ns) (key_values key)"
  obtain x xs' where d: "drop (length ns) (key_values key) = x # xs'"
    using l by (cases "drop (length ns) (key_values key)") (simp_all add: drop_eq_Nil)
  have k: "key_values key = xs @ x # xs'"
    using append_take_drop_id [of "length ns" "key_values key"] by (simp add: xs_def d)
  have len: "length xs = length ns" using l by (simp add: xs_def)
  then have len': "length ns' = length xs'" using l k by simp
  show thesis
    using found [OF 2(1) k len [symmetric] len' 2(2,3)] 2 k len by (simp add: key_val_def)
qed

section \<open>The effect of the operations\<close>

text \<open>A change of one key that keeps the values of the other names keeps them in the file.\<close>

lemma ini_val_update:
  assumes "names ini = ns @ n # ns'" and "keys ini = ks @ key # ks'" and "length ns = length ks"
    and "same_in ini k' n \<Longrightarrow> key_val ini key' v' = key_val ini key v'"
  shows "ini_val (ini\<lparr>keys := ks @ key' # ks'\<rparr>) k' v' = ini_val ini k' v'"
  using assms by (auto simp: ini_val_def beside_append split: option.split)

lemma keeps_others_update:
  assumes "names ini = ns @ n # ns'" and "keys ini = ks @ key # ks'" and "length ns = length ks"
    and "same_in ini k n" and "\<And>v'. \<not> same_in ini v v' \<Longrightarrow> key_val ini key' v' = key_val ini key v'"
  shows "keeps_others ini_val k v ini (ini\<lparr>keys := ks @ key' # ks'\<rparr>)"
  unfolding keeps_others_def
proof (intro allI impI, rule ini_val_update [OF assms(1-3)])
  fix k' v'
  assume "\<not> (same_name k k' \<and> same_name v v')" and "same_in ini k' n"
  then have "\<not> same_name v v'"
    using assms(4) by (meson same_in_same_name same_in_sym same_in_trans)
  then show "key_val ini key' v' = key_val ini key v'" using assms(5) same_in_same_name by blast
qed

lemma ini_ok_update:
  "ini_ok ini \<Longrightarrow> keys ini = ks @ key # ks' \<Longrightarrow> key_ok key' \<Longrightarrow> ini_ok (ini\<lparr>keys := ks @ key' # ks'\<rparr>)"
  by (simp add: ini_ok_def)

lemma key_val_push:
  "key_ok key \<Longrightarrow> \<not> same_in ini v v' \<Longrightarrow>
   key_val ini (key\<lparr>key_names := key_names key @ [v], key_values := key_values key @ [x]\<rparr>) v' = key_val ini key v'"
  by (simp add: key_val_def key_ok_def beside_append same_in_sym split: option.split)

lemma AddKeyName_effect:
  assumes "ini_ok ini" and "Ini_AddKeyName ini k = (keyID, ini')"
  shows "ini_ok ini'" and "keyID = int (length (keys ini))" and "names ini' = names ini @ [k]"
    and "keys ini' = keys ini @ [new_key]" and "same_in ini' = same_in ini" and "ini_val ini' = ini_val ini"
proof -
  have ini': "ini' = ini\<lparr>names := names ini @ [k], keys := keys ini @ [new_key]\<rparr>" "keyID = int (length (names ini))"
    using assms(2) by (simp_all add: Ini_AddKeyName_def Let_def)
  show "ini_ok ini'" "keyID = int (length (keys ini))" "names ini' = names ini @ [k]"
      "keys ini' = keys ini @ [new_key]" "same_in ini' = same_in ini"
    using assms(1) by (simp_all add: ini' ini_ok_def key_ok_def new_key_def)
  have "key_val ini new_key v = None" for v by (simp add: key_val_def new_key_def)
  then show "ini_val ini' = ini_val ini"
    using assms(1) by (auto simp: ini_val_def ini' ini_ok_def beside_append fun_eq_iff split: option.split)
qed

text \<open>The key a writer works on: the one that was found, or a new one at the end.\<close>

definition key_at :: "cIniFile \<Rightarrow> AString \<Rightarrow> AString list \<Rightarrow> AString \<Rightarrow> AString list \<Rightarrow> ini_key list \<Rightarrow> ini_key \<Rightarrow> ini_key list \<Rightarrow> bool" where
  "key_at ini k ns n ns' ks key ks' \<longleftrightarrow>
     names ini = ns @ n # ns' \<and> keys ini = ks @ key # ks' \<and> length ns = length ks \<and> same_in ini k n \<and>
     (\<forall>n \<in> set ns. \<not> same_in ini k n) \<and> key_ok key"

lemma key_atD:
  assumes "key_at ini k ns n ns' ks key ks'"
  shows "names ini = ns @ n # ns'" and "keys ini = ks @ key # ks'" and "length ns = length ks"
    and "same_in ini k n" and "\<forall>n \<in> set ns. \<not> same_in ini k n" and "key_ok key"
  using assms unfolding key_at_def by blast+

lemma key_at_val: "key_at ini k ns n ns' ks key ks' \<Longrightarrow> ini_val ini k v = key_val ini key v"
  by (simp add: key_at_def ini_val_def)

lemma key_at_replaced:
  assumes "key_at ini k ns n ns' ks key ks'" and "key_ok key'"
  shows "key_at (ini\<lparr>keys := ks @ key' # ks'\<rparr>) k ns n ns' ks key' ks'"
  using assms by (simp add: key_at_def)

lemma ensure_key:
  assumes "ini_ok ini"
    and "(if Ini_FindKey ini k = noID then Ini_AddKeyName ini k else (Ini_FindKey ini k, ini)) = (keyID, ini')"
  obtains ns n ns' ks key ks' where "key_at ini' k ns n ns' ks key ks'" and "keyID = int (length ks)"
    and "ini_ok ini'" and "ini_val ini' = ini_val ini"
proof (cases rule: FindKey_cases [OF assms(1), of k, case_names none found])
  case none
  note e = AddKeyName_effect [OF assms(1), of k keyID ini']
  have a: "Ini_AddKeyName ini k = (keyID, ini')" using assms(2) none by simp
  have "key_at ini' k (names ini) k [] (keys ini) new_key []"
    using none assms(1) e(3,4,5) [OF a] by (simp add: key_at_def ini_ok_def key_ok_def new_key_def)
  then show thesis using that e(1,2,6) [OF a] by blast
next
  case (found ns n ns' ks key ks')
  have "keyID = int (length ks)" "ini' = ini" using assms(2) found(7) by simp_all
  moreover have "key_at ini k ns n ns' ks key ks'" using found by (simp add: key_at_def)
  ultimately show thesis using that assms(1) by blast
qed

lemma replace_key_effect:
  assumes "ini_ok ini" and "key_at ini k ns n ns' ks key ks'" and "key_ok key'"
    and "\<And>v'. \<not> same_in ini v v' \<Longrightarrow> key_val ini key' v' = key_val ini key v'"
  shows "ini_ok (ini\<lparr>keys := ks @ key' # ks'\<rparr>)" and "keeps_others ini_val k v ini (ini\<lparr>keys := ks @ key' # ks'\<rparr>)"
    and "ini_val (ini\<lparr>keys := ks @ key' # ks'\<rparr>) k v = key_val ini key' v"
  using assms keeps_others_update [OF key_atD(1-4) [OF assms(2)] assms(4)]
    ini_ok_update [OF assms(1) key_atD(2) [OF assms(2)] assms(3)]
    key_at_val [OF key_at_replaced [OF assms(2,3)]] by simp_all

lemma push_value_effect:
  assumes "ini_ok ini" and "key_at ini k ns n ns' ks key ks'"
  obtains ini' where "push_value ini (int (length ks)) v x = Inr ini'" and "ini_ok ini'"
    and "keeps_others ini_val k v ini ini'"
    and "ini_val ini' k v = (case ini_val ini k v of None \<Rightarrow> Some x | Some y \<Rightarrow> Some y)"
proof -
  let ?key = "key\<lparr>key_names := key_names key @ [v], key_values := key_values key @ [x]\<rparr>"
  have ok: "key_ok ?key" using key_atD(6) [OF assms(2)] by (simp add: key_ok_def)
  have "key_val ini ?key v = (case key_val ini key v of None \<Rightarrow> Some x | Some y \<Rightarrow> Some y)"
    using key_atD(6) [OF assms(2)] by (simp add: key_val_def key_ok_def beside_append split: option.split)
  then show thesis
    using replace_key_effect [OF assms ok key_val_push] key_atD(6) [OF assms(2)]
      upd_key_mid [OF key_atD(2) [OF assms(2)]] that key_at_val [OF assms(2), of v]
    by (simp add: push_value_def)
qed

lemma AddValue_effect:
  assumes "ini_ok ini"
  obtains ini' where "Ini_AddValue ini k v x = Inr ini'" and "ini_ok ini'" and "keeps_others ini_val k v ini ini'"
    and "ini_val ini' k v = (case ini_val ini k v of None \<Rightarrow> Some x | Some y \<Rightarrow> Some y)"
proof -
  obtain keyID ini1 where e: "(if Ini_FindKey ini k = noID then Ini_AddKeyName ini k else (Ini_FindKey ini k, ini)) = (keyID, ini1)"
    by fastforce
  from ensure_key [OF assms e] obtain ns n ns' ks key ks' where
    k: "key_at ini1 k ns n ns' ks key ks'" "keyID = int (length ks)" "ini_ok ini1" "ini_val ini1 = ini_val ini" .
  from push_value_effect [OF k(3,1), of v x] obtain ini' where
    "push_value ini1 (int (length ks)) v x = Inr ini'" "ini_ok ini'" "keeps_others ini_val k v ini1 ini'"
    "ini_val ini' k v = (case ini_val ini1 k v of None \<Rightarrow> Some x | Some y \<Rightarrow> Some y)" .
  then show thesis using that k(2,4) e by (simp add: Ini_AddValue_def keeps_others_def)
qed

lemma SetValue_effect:
  assumes "ini_ok ini"
  obtains b ini' where "Ini_SetValue ini k v x c = Inr (b, ini')" and "ini_ok ini'"
    and "keeps_others ini_val k v ini ini'" and "if b then ini_val ini' k v = Some x else ini' = ini"
    and "b \<longleftrightarrow> c \<or> ini_val ini k v \<noteq> None"
proof (cases "Ini_FindKey ini k = noID \<and> \<not> c")
  case True
  have "ini_val ini k v = None"
    by (rule FindKey_cases [OF assms, of k]) (use True in simp_all)
  then show thesis using True assms that [of False ini] by (simp add: Ini_SetValue_def)
next
  case False
  obtain keyID ini1 where e: "(if Ini_FindKey ini k = noID then Ini_AddKeyName ini k else (Ini_FindKey ini k, ini)) = (keyID, ini1)"
    by fastforce
  from ensure_key [OF assms e] obtain ns n ns' ks key ks' where
    k: "key_at ini1 k ns n ns' ks key ks'" "keyID = int (length ks)" "ini_ok ini1" "ini_val ini1 = ini_val ini" .
  note keys1 = key_atD(2) [OF k(1)]
  have same: "ini1 = ini" if "\<not> c" using e that False by (auto split: if_splits)
  show thesis
  proof (cases rule: FindValue_cases [OF key_atD(6) [OF k(1)], where ini = ini1 and v = v, case_names none found])
    case none
    then have n: "ini_val ini k v = None" using key_at_val [OF k(1), of v] k(4) by simp
    from push_value_effect [OF k(3,1), of v x] obtain ini' where p:
      "push_value ini1 (int (length ks)) v x = Inr ini'" "ini_ok ini'" "keeps_others ini_val k v ini1 ini'"
      "ini_val ini' k v = (case ini_val ini1 k v of None \<Rightarrow> Some x | Some y \<Rightarrow> Some y)" .
    show thesis
    proof (cases c)
      case True
      then show thesis
        using that [of True ini'] p e n none(1) k(2,4) FindValue_mid [OF keys1, of v]
        by (simp add: Ini_SetValue_def keeps_others_def)
    next
      case c: False
      then have "Ini_FindKey ini k \<noteq> noID" using False by simp
      then show thesis
        using that [of False ini] c e n none(1) k(2) FindValue_mid [OF keys1, of v] same assms
        by (simp add: Ini_SetValue_def)
    qed
  next
    case (found ms m ms' xs y xs')
    let ?key = "key\<lparr>key_values := xs @ x # xs'\<rparr>"
    have u: "upd_key ini1 keyID (\<lambda>key. and_then (vec_set (key_values key) (int (length xs)) x) (\<lambda>vs.
        Inr (key\<lparr>key_values := vs\<rparr>))) = Inr (ini1\<lparr>keys := ks @ ?key # ks'\<rparr>)"
      using upd_key_mid [OF keys1] found(2) by (simp add: k(2))
    have ok: "key_ok ?key" using found by (simp add: key_ok_def)
    have others: "key_val ini1 ?key v' = key_val ini1 key v'" if "\<not> same_in ini1 v v'" for v'
    proof -
      have "\<not> same_in ini1 v' m" using that found(5) by (meson same_in_sym same_in_trans)
      then show ?thesis using found(1-4) by (simp add: key_val_def)
    qed
    have "key_val ini1 ?key v = Some x" using found by (simp add: key_val_def)
    then show thesis
      using that [of True] u False e found(7,8) k(2,4) FindValue_mid [OF keys1, of v]
        replace_key_effect [OF k(3,1) ok others] key_at_val [OF k(1), of v]
      by (simp add: Ini_SetValue_def keeps_others_def)
  qed
qed

lemma GetValue_val:
  assumes "ini_ok ini"
  shows "Ini_GetValue ini k v d = Inr (case ini_val ini k v of None \<Rightarrow> d | Some x \<Rightarrow> x)"
    and "Ini_HasValue ini k v = Inr (ini_val ini k v \<noteq> None)"
proof -
  have "Ini_GetValue ini k v d = Inr (case ini_val ini k v of None \<Rightarrow> d | Some x \<Rightarrow> x) \<and>
    Ini_HasValue ini k v = Inr (ini_val ini k v \<noteq> None)"
  proof (cases rule: FindKey_cases [OF assms, of k, case_names none found])
    case none
    then show ?thesis by (simp add: Ini_GetValue_def Ini_HasValue_def)
  next
    case (found ns n ns' ks key ks')
    show ?thesis
      by (cases rule: FindValue_cases [OF found(8), where ini = ini and v = v])
        (simp_all add: Ini_GetValue_def Ini_HasValue_def found FindValue_mid [OF found(2)])
  qed
  then show "Ini_GetValue ini k v d = Inr (case ini_val ini k v of None \<Rightarrow> d | Some x \<Rightarrow> x)"
    and "Ini_HasValue ini k v = Inr (ini_val ini k v \<noteq> None)" by simp_all
qed

lemma DeleteValue_effect:
  assumes "ini_ok ini"
  obtains b ini' where "Ini_DeleteValue ini k v = Inr (b, ini')" and "ini_ok ini'"
    and "keeps_others ini_val k v ini ini'" and "b \<longleftrightarrow> ini_val ini k v \<noteq> None" and "\<not> b \<longrightarrow> ini' = ini"
proof (cases rule: FindKey_cases [OF assms, of k, case_names none found])
  case none
  then show thesis using that [of False ini] assms by (simp add: Ini_DeleteValue_def)
next
  case k: (found ns n ns' ks key ks')
  have at: "key_at ini k ns n ns' ks key ks'" using k by (simp add: key_at_def)
  show thesis
  proof (cases rule: FindValue_cases [OF k(8), where ini = ini and v = v, case_names none found])
    case none
    then show thesis
      using that [of False ini] assms by (simp add: Ini_DeleteValue_def k FindValue_mid [OF k(2)])
  next
    case (found ms m ms' xs y xs')
    let ?key = "key\<lparr>key_names := ms @ ms', key_values := xs @ xs'\<rparr>"
    have ok: "key_ok ?key" using found by (simp add: key_ok_def)
    have others: "key_val ini ?key v' = key_val ini key v'" if "\<not> same_in ini v v'" for v'
    proof -
      have "\<not> same_in ini v' m" using that found(5) by (meson same_in_sym same_in_trans)
      then show ?thesis using found(1-4) by (simp add: key_val_def)
    qed
    have e: "vec_erase (key_names key) (int (length xs)) = Inr (ms @ ms')"
      using vec_erase_mid [of ms m ms'] found(1,3) by simp
    have "Ini_DeleteValueByID ini (int (length ks)) (int (length xs)) = Inr (True, ini\<lparr>keys := ks @ ?key # ks'\<rparr>)"
      using upd_key_mid [OF k(2)] found(1-3) e by (simp add: Ini_DeleteValueByID_def has_id_def k(2))
    then show thesis
      using that [of True] found(7,8) k(7,9) FindValue_mid [OF k(2), of v] replace_key_effect [OF assms at ok others]
      by (simp add: Ini_DeleteValue_def)
  qed
qed

interpretation ini: settings ini_ok ini_val Ini_HasValue Ini_GetValue Ini_SetValue Ini_AddValue Ini_DeleteValue
proof (unfold_locales, goal_cases)
  case (1 s k v)
  then show ?case by (rule GetValue_val)
next
  case (2 s k v d)
  then show ?case by (rule GetValue_val)
next
  case (3 s k v x c)
  then show ?case by (rule SetValue_effect [of s k v x c]) blast
next
  case (4 s k v x)
  then show ?case
    by (rule AddValue_effect [of s k v x]) (auto split: option.splits)
next
  case (5 s k v)
  then show ?case by (rule DeleteValue_effect [of s k v]) auto
qed

section \<open>No operation faults on a valid file\<close>

lemma vec_total:
  "0 \<le> i \<Longrightarrow> i < int (length xs) \<Longrightarrow> vec_at xs i = Inr (xs ! nat i)"
  "0 \<le> i \<Longrightarrow> i < int (length xs) \<Longrightarrow> vec_set xs i x = Inr (xs[nat i := x])"
  "0 \<le> i \<Longrightarrow> i < int (length xs) \<Longrightarrow> vec_erase xs i = Inr (take (nat i) xs @ drop (nat i + 1) xs)"
  by (simp_all add: vec_at_def vec_set_def vec_erase_def)

lemma upd_key_ok:
  assumes "ini_ok ini" and "0 \<le> i" and "i < int (length (keys ini))"
    and "\<And>key. key_ok key \<Longrightarrow> keys ini ! nat i = key \<Longrightarrow> \<exists>key'. f key = Inr key' \<and> key_ok key'"
  shows "\<exists>ini'. upd_key ini i f = Inr ini' \<and> ini_ok ini'"
proof -
  have "keys ini ! nat i \<in> set (keys ini)" using assms(2,3) by simp
  then obtain key' where "f (keys ini ! nat i) = Inr key'" "key_ok key'"
    using assms(1,4) by (auto simp: ini_ok_def)
  moreover have "\<forall>key \<in> set ((keys ini)[nat i := key']). key_ok key"
    using assms(1) \<open>key_ok key'\<close> set_update_subset_insert [of "keys ini" "nat i" key'] by (auto simp: ini_ok_def)
  ultimately show ?thesis using assms(1-3) by (simp add: upd_key_def vec_total ini_ok_def)
qed

lemma FindKey_range: "Ini_FindKey ini k \<noteq> noID \<Longrightarrow> 0 \<le> Ini_FindKey ini k \<and> Ini_FindKey ini k < int (length (names ini))"
proof (cases rule: first_split [of "names ini" "same_in ini k", case_names none found])
  case none
  assume "Ini_FindKey ini k \<noteq> noID"
  then show ?thesis using none by (simp add: FindKey_same find_index_none)
next
  case (found ys y zs)
  then show ?thesis by (simp add: FindKey_same)
qed

text \<open>The operations that change the file, with the identifiers they are given.\<close>

datatype ini_op =
  OpAddKeyName AString
| OpDeleteKey AString
| OpClear
| OpSetValueByID int int AString
| OpDeleteValueByID int int
| OpAddValue AString AString AString
| OpSetValue AString AString AString bool
| OpGetValueSet AString AString AString
| OpDeleteValue AString AString
| OpAddHeaderComment AString
| OpDeleteHeaderComment int
| OpDeleteHeaderComments
| OpAddKeyComment AString AString
| OpAddKeyCommentByID int AString
| OpDeleteKeyComment AString int
| OpDeleteKeyCommentByID int int
| OpDeleteKeyComments AString
| OpDeleteKeyCommentsByID int
| OpCase bool

fun ini_apply :: "ini_op \<Rightarrow> cIniFile \<Rightarrow> fault + cIniFile" where
  "ini_apply (OpAddKeyName k) ini = Inr (snd (Ini_AddKeyName ini k))"
| "ini_apply (OpDeleteKey k) ini = and_then (Ini_DeleteKey ini k) (\<lambda>r. Inr (snd r))"
| "ini_apply OpClear ini = Inr (Ini_Clear ini)"
| "ini_apply (OpSetValueByID k v x) ini = and_then (Ini_SetValueByID ini k v x) (\<lambda>r. Inr (snd r))"
| "ini_apply (OpDeleteValueByID k v) ini = and_then (Ini_DeleteValueByID ini k v) (\<lambda>r. Inr (snd r))"
| "ini_apply (OpAddValue k v x) ini = Ini_AddValue ini k v x"
| "ini_apply (OpSetValue k v x c) ini = and_then (Ini_SetValue ini k v x c) (\<lambda>r. Inr (snd r))"
| "ini_apply (OpGetValueSet k v x) ini = and_then (Ini_GetValueSet ini k v x) (\<lambda>r. Inr (snd r))"
| "ini_apply (OpDeleteValue k v) ini = and_then (Ini_DeleteValue ini k v) (\<lambda>r. Inr (snd r))"
| "ini_apply (OpAddHeaderComment c) ini = Inr (Ini_AddHeaderComment ini c)"
| "ini_apply (OpDeleteHeaderComment i) ini = and_then (Ini_DeleteHeaderComment ini i) (\<lambda>r. Inr (snd r))"
| "ini_apply OpDeleteHeaderComments ini = Inr (Ini_DeleteHeaderComments ini)"
| "ini_apply (OpAddKeyComment k c) ini = and_then (Ini_AddKeyComment ini k c) (\<lambda>r. Inr (snd r))"
| "ini_apply (OpAddKeyCommentByID k c) ini = and_then (Ini_AddKeyCommentByID ini k c) (\<lambda>r. Inr (snd r))"
| "ini_apply (OpDeleteKeyComment k i) ini = and_then (Ini_DeleteKeyComment ini k i) (\<lambda>r. Inr (snd r))"
| "ini_apply (OpDeleteKeyCommentByID k i) ini = and_then (Ini_DeleteKeyCommentByID ini k i) (\<lambda>r. Inr (snd r))"
| "ini_apply (OpDeleteKeyComments k) ini = and_then (Ini_DeleteKeyComments ini k) (\<lambda>r. Inr (snd r))"
| "ini_apply (OpDeleteKeyCommentsByID k) ini = and_then (Ini_DeleteKeyCommentsByID ini k) (\<lambda>r. Inr (snd r))"
| "ini_apply (OpCase b) ini = Inr (if b then CaseSensitive ini else CaseInsensitive ini)"

fun ids_of :: "ini_op \<Rightarrow> int list" where
  "ids_of (OpSetValueByID k v x) = []"
| "ids_of (OpDeleteValueByID k v) = [k, v]"
| "ids_of (OpDeleteHeaderComment i) = [i]"
| "ids_of (OpAddKeyCommentByID k c) = [k]"
| "ids_of (OpDeleteKeyComment k i) = [i]"
| "ids_of (OpDeleteKeyCommentByID k i) = [k, i]"
| "ids_of (OpDeleteKeyCommentsByID k) = [k]"
| "ids_of _ = []"

fun ini_run :: "ini_op list \<Rightarrow> cIniFile \<Rightarrow> fault + cIniFile" where
  "ini_run [] ini = Inr ini"
| "ini_run (op # ops) ini = and_then (ini_apply op ini) (ini_run ops)"

lemma in_set_parts: "\<forall>x \<in> set (take n xs @ drop m xs). P x" if "\<forall>x \<in> set xs. P x"
  using that by (auto dest: in_set_takeD in_set_dropD)

definition steps_ok :: "fault + 'a \<times> cIniFile \<Rightarrow> bool" where
  "steps_ok r \<longleftrightarrow> (\<exists>b ini'. r = Inr (b, ini') \<and> ini_ok ini')"

lemma steps_ok_Inr [simp]: "steps_ok (Inr (b, ini)) \<longleftrightarrow> ini_ok ini"
  by (simp add: steps_ok_def)

lemma steps_ok_apply: "steps_ok r \<Longrightarrow> \<exists>ini'. and_then r (\<lambda>r. Inr (snd r)) = Inr ini' \<and> ini_ok ini'"
  by (auto simp: steps_ok_def)

lemma upd_key_steps_ok:
  assumes "ini_ok ini" and "0 \<le> i" and "i < int (length (keys ini))"
    and "\<And>key. key_ok key \<Longrightarrow> keys ini ! nat i = key \<Longrightarrow> \<exists>key'. f key = Inr key' \<and> key_ok key'"
  shows "steps_ok (and_then (upd_key ini i f) (\<lambda>ini'. Inr (b, ini')))"
proof -
  obtain ini' where "upd_key ini i f = Inr ini'" "ini_ok ini'" using upd_key_ok [OF assms(1-3), of f] assms(4) by blast
  then show ?thesis by simp
qed

lemma nth_key_ok: "ini_ok ini \<Longrightarrow> 0 \<le> k \<Longrightarrow> k < int (length (keys ini)) \<Longrightarrow> key_ok (keys ini ! nat k)"
  by (simp add: ini_ok_def)

lemma by_id_ok:
  assumes "ini_ok ini" and "0 \<le> k" and "0 \<le> i"
  shows "steps_ok (Ini_DeleteValueByID ini k i)" and "steps_ok (Ini_DeleteKeyCommentByID ini k i)"
    and "steps_ok (Ini_AddKeyCommentByID ini k c)" and "steps_ok (Ini_DeleteKeyCommentsByID ini k)"
  using assms nth_key_ok [OF assms(1,2)]
  by (auto simp: Ini_DeleteValueByID_def Ini_DeleteKeyCommentByID_def Ini_AddKeyCommentByID_def
      Ini_DeleteKeyCommentsByID_def has_id_def vec_total key_ok_def intro!: upd_key_steps_ok)

lemma SetValueByID_ok: "ini_ok ini \<Longrightarrow> steps_ok (Ini_SetValueByID ini k i x)"
  by (auto simp: Ini_SetValueByID_def vec_total key_ok_def intro!: upd_key_steps_ok)

lemma GetValueSet_ok:
  assumes "ini_ok ini"
  shows "steps_ok (Ini_GetValueSet ini k v x)"
proof -
  obtain b ini' where s: "Ini_SetValue ini k v x True = Inr (b, ini')" "ini_ok ini'"
    using SetValue_effect [OF assms, of k v x True] by blast
  show ?thesis
  proof (cases rule: FindKey_cases [OF assms, of k, case_names none found])
    case none
    then show ?thesis using s by (simp add: Ini_GetValueSet_def)
  next
    case (found ns n ns' ks key ks')
    show ?thesis
      by (cases rule: FindValue_cases [OF found(8), where ini = ini and v = v])
        (simp_all add: Ini_GetValueSet_def found FindValue_mid [OF found(2)] s assms)
  qed
qed

lemma DeleteKey_ok:
  assumes "ini_ok ini"
  shows "steps_ok (Ini_DeleteKey ini k)"
proof (cases "Ini_FindKey ini k = noID")
  case True
  then show ?thesis using assms by (simp add: Ini_DeleteKey_def)
next
  case False
  let ?i = "nat (Ini_FindKey ini k)"
  have r: "0 \<le> Ini_FindKey ini k" "Ini_FindKey ini k < int (length (keys ini))"
    using FindKey_range [OF False] assms by (simp_all add: ini_ok_def)
  have "\<forall>key \<in> set (take ?i (keys ini) @ drop (?i + 1) (keys ini)). key_ok key"
    using assms by (intro in_set_parts) (simp add: ini_ok_def)
  then show ?thesis
    using False r assms unfolding Ini_DeleteKey_def Let_def by (simp add: vec_total ini_ok_def)
qed

lemma by_name_ok:
  assumes "ini_ok ini"
  shows "steps_ok (Ini_AddKeyComment ini k c)" and "steps_ok (Ini_DeleteKeyComments ini k)"
    and "0 \<le> i \<Longrightarrow> steps_ok (Ini_DeleteKeyComment ini k i)"
  using by_id_ok [OF assms, of "Ini_FindKey ini k"] FindKey_range [of ini k] assms
  by (auto simp: Ini_AddKeyComment_def Ini_DeleteKeyComment_def Ini_DeleteKeyComments_def Let_def)

lemma header_ok:
  assumes "ini_ok ini"
  shows "0 \<le> i \<Longrightarrow> steps_ok (Ini_DeleteHeaderComment ini i)" and "ini_ok (Ini_AddHeaderComment ini c)"
    and "ini_ok (Ini_DeleteHeaderComments ini)" and "ini_ok (Ini_Clear ini)"
    and "ini_ok (CaseSensitive ini)" and "ini_ok (CaseInsensitive ini)" and "ini_ok (snd (Ini_AddKeyName ini k))"
proof -
  show "ini_ok (snd (Ini_AddKeyName ini k))" 
    by (rule AddKeyName_effect(1) [OF assms, of k "fst (Ini_AddKeyName ini k)"]) simp
qed (use assms in \<open>simp_all add: Ini_DeleteHeaderComment_def Ini_AddHeaderComment_def Ini_DeleteHeaderComments_def Ini_Clear_def
      CaseSensitive_def CaseInsensitive_def vec_total ini_ok_def\<close>)

lemma values_ok:
  assumes "ini_ok ini"
  shows "steps_ok (Ini_SetValue ini k v x c)" and "steps_ok (Ini_DeleteValue ini k v)"
    and "\<exists>ini'. Ini_AddValue ini k v x = Inr ini' \<and> ini_ok ini'"
  using SetValue_effect [OF assms, of k v x c] DeleteValue_effect [OF assms, of k v] AddValue_effect [OF assms, of k v x]
  unfolding steps_ok_def by metis+

lemmas ini_steps = by_id_ok SetValueByID_ok GetValueSet_ok DeleteKey_ok by_name_ok header_ok values_ok

lemma ini_apply_ok:
  assumes "ini_ok ini" and "\<forall>i \<in> set (ids_of op). 0 \<le> i"
  shows "\<exists>ini'. ini_apply op ini = Inr ini' \<and> ini_ok ini'"
  by (cases op) (use assms in \<open>simp_all add: steps_ok_apply ini_steps\<close>)

text \<open>
  \<^bold>\<open>C31.\<close> The file object stays consistent and no operation leaves its vectors: from a fresh \<open>cIniFile\<close>, every
  sequence of the operations that change it succeeds and keeps a value for every value name and a key
  for every key name, provided no negative identifier is passed to the operations that compare it with
  the size of a vector as an \<open>int\<close> (\<open>SetValue\<close> by identifiers converts to \<open>size_t\<close> first, so that any
  identifier is safe there).
\<close>
theorem ini_operations_safe:
  assumes "\<forall>op \<in> set ops. \<forall>i \<in> set (ids_of op). 0 \<le> i"
  shows "\<exists>ini. ini_run ops new_cIniFile = Inr ini \<and> ini_ok ini"
proof -
  have "\<exists>ini'. ini_run ops ini = Inr ini' \<and> ini_ok ini'" if "ini_ok ini" for ini
    using that assms
  proof (induction ops arbitrary: ini)
    case (Cons op ops)
    then obtain ini1 where "ini_apply op ini = Inr ini1" "ini_ok ini1" using ini_apply_ok [of ini op] by auto
    then show ?case using Cons by simp
  qed simp
  then show ?thesis by (simp add: new_cIniFile_def ini_ok_def)
qed

theorem ini_operations_safe_witness:
  "\<exists>ini. ini_run [OpSetValueByID (- 1) 0 [], OpAddValue (ascii ''k'') (ascii ''v'') (ascii ''1''), OpDeleteValueByID 0 0]
    new_cIniFile = Inr ini \<and> ini_ok ini"
  by (rule ini_operations_safe) simp

text \<open>
  A number that was set is read back: after \<open>SetValueI\<close> with a value in the range of \<open>int\<close>,
  \<open>GetValueI\<close> prints, stores and parses its way back to the same number whatever the default, and the
  values of all other names are what they were.
\<close>
theorem ini_number_roundtrip:
  assumes "ini_ok ini" and "- INT_MAX - 1 \<le> i" and "i \<le> INT_MAX"
  shows "\<exists>ini'. Ini_SetValueI ini k v i True = Inr (True, ini') \<and> Ini_GetValueI ini' k v d = Inr i \<and>
    (\<forall>k' v' x. same_name k k' \<and> same_name v v' \<or> Ini_GetValue ini' k' v' x = Ini_GetValue ini k' v' x)"
proof -
  from SetValue_effect [OF assms(1), of k v "Printf_d i" True] obtain ini' where
    s: "Ini_SetValue ini k v (Printf_d i) True = Inr (True, ini')" by (metis (full_types))
  show ?thesis
    using s ini.get_after_set(1) [OF assms(1) s] ini.get_other_after_set [OF assms(1) s]
    by (auto simp: Ini_SetValueI_def Ini_GetValueI_def atoi_Printf_d assms(2,3))
qed

theorem ini_number_roundtrip_witness:
  "\<exists>ini'. Ini_SetValueI new_cIniFile (ascii ''k'') (ascii ''v'') (- 42) True = Inr (True, ini') \<and>
    Ini_GetValueI ini' (ascii ''k'') (ascii ''v'') 7 = Inr (- 42) \<and>
    (\<forall>k' v' x. same_name (ascii ''k'') k' \<and> same_name (ascii ''v'') v' \<or>
      Ini_GetValue ini' k' v' x = Ini_GetValue new_cIniFile k' v' x)"
  by (rule ini_number_roundtrip) (simp_all add: new_cIniFile_def ini_ok_def INT_MAX_def)

end
