(* ===== verification/IniFileText.thy ===== *)
theory IniFileText
  imports IniFile
begin

text \<open>
  Reading and writing the settings file: \<open>cIniFile::ReadFile\<close>, \<open>WriteFile\<close>, \<open>Flush\<close> and \<open>RemoveBom\<close>. A
  file is the text its stream delivers; \<open>files\<close> maps the names of the readable files to their texts, and
  \<open>can_write\<close> says which files open for output.
\<close>

definition isprint :: "u8 \<Rightarrow> bool" where
  "isprint c \<longleftrightarrow> 0x20 \<le> c \<and> c \<le> 0x7e"

section \<open>Reading\<close>

definition BOM :: "u8 list" where
  "BOM = [0xef, 0xbb, 0xbf]"

text \<open>The loop compares \<open>ref[i]\<close>; reading the character at the length of a string gives zero, beyond is a fault.\<close>

fun RemoveBom_loop :: "AString \<Rightarrow> nat \<Rightarrow> u8 list \<Rightarrow> fault + bool" where
  "RemoveBom_loop ref i [] = Inr True"
| "RemoveBom_loop ref i (b # bom) =
     (if i > length ref then Inl OutOfRange
      else if (if i = length ref then 0 else ref ! i) \<noteq> b then Inr False
      else RemoveBom_loop ref (i + 1) bom)"

definition Ini_RemoveBom :: "AString \<Rightarrow> fault + AString" where
  "Ini_RemoveBom a_line =
     and_then (RemoveBom_loop (take 3 a_line) 0 BOM) (\<lambda>b. Inr (if b then drop 3 a_line else a_line))"

text \<open>The switch on the first special character of a line, with the name of the current key.\<close>

definition ReadFile_entry :: "cIniFile \<Rightarrow> AString \<Rightarrow> AString \<Rightarrow> nat \<Rightarrow> fault + cIniFile \<times> AString" where
  "ReadFile_entry ini keyname line pLeft =
     (let c = line ! pLeft
      in if c = 0x5b then
           (case find_last line 0x5d of
              None \<Rightarrow> Inr (ini, keyname)
            | Some pRight \<Rightarrow>
                if pRight > pLeft then
                  let keyname = substr line (pLeft + 1) (pRight - pLeft - 1)
                  in Inr (snd (Ini_AddKeyName ini keyname), keyname)
                else Inr (ini, keyname))
         else if c = 0x3d then
           and_then (Ini_AddValue ini keyname (take pLeft line) (drop (pLeft + 1) line)) (\<lambda>ini'.
             Inr (ini', keyname))
         else if names ini = [] then Inr (Ini_AddHeaderComment ini (drop (pLeft + 1) line), keyname)
         else and_then (Ini_AddKeyComment ini keyname (drop (pLeft + 1) line)) (\<lambda>(_, ini').
           Inr (ini', keyname)))"

text \<open>One line: \<open>None\<close> when the check for binary files fails.\<close>

definition ReadFile_line ::
    "cIniFile \<Rightarrow> AString \<Rightarrow> AString \<Rightarrow> fault + (cIniFile \<times> AString) option" where
  "ReadFile_line ini keyname line =
     (if line = [] then Inr (Some (ini, keyname))
      else let line = (if last line = 0x0d then butlast line else line)
        in if line = [] then Inr (Some (ini, keyname))
           else if \<not> isprint (line ! 0) then Inr None
           else case find_first_of line (ascii '';#[='') 0 of
                  None \<Rightarrow> Inr (Some (ini, keyname))
                | Some pLeft \<Rightarrow> and_then (ReadFile_entry ini keyname line pLeft) (\<lambda>r. Inr (Some r)))"

fun ReadFile_loop :: "AString list \<Rightarrow> cIniFile \<Rightarrow> AString \<Rightarrow> bool \<Rightarrow> fault + bool \<times> cIniFile" where
  "ReadFile_loop [] ini keyname IsFirstLine = Inr (True, ini)"
| "ReadFile_loop (line # rest) ini keyname IsFirstLine =
     and_then (if IsFirstLine then Ini_RemoveBom line else Inr line) (\<lambda>line.
     and_then (ReadFile_line ini keyname line) (\<lambda>r.
       case r of
         None \<Rightarrow> Inr (False, ini)
       | Some (ini', keyname') \<Rightarrow> ReadFile_loop rest ini' keyname' False))"

section \<open>Writing\<close>

definition iniEOL :: "bool \<Rightarrow> AString" where
  "iniEOL win32 = (if win32 then [0x0a] else [0x0d, 0x0a])"

fun comment_lines :: "AString list \<Rightarrow> AString list" where
  "comment_lines [] = []"
| "comment_lines (c # cs) = (0x3b # c) # comment_lines cs"

fun value_lines :: "AString list \<Rightarrow> AString list \<Rightarrow> fault + AString list" where
  "value_lines [] vs = Inr []"
| "value_lines (n # ns) [] = Inl OutOfRange"
| "value_lines (n # ns) (v # vs) = and_then (value_lines ns vs) (\<lambda>ls. Inr ((n @ [0x3d] @ v) # ls))"

fun key_lines :: "AString list \<Rightarrow> ini_key list \<Rightarrow> fault + AString list" where
  "key_lines ns [] = Inr []"
| "key_lines [] (key # ks) = Inl OutOfRange"
| "key_lines (n # ns) (key # ks) =
     and_then (value_lines (key_names key) (key_values key)) (\<lambda>vls.
     and_then (key_lines ns ks) (\<lambda>ls.
       Inr ((0x5b # n @ [0x5d]) # comment_lines (key_comments key) @ vls @ [[]] @ ls)))"

definition WriteFile_lines :: "cIniFile \<Rightarrow> fault + AString list" where
  "WriteFile_lines ini =
     and_then (key_lines (names ini) (keys ini)) (\<lambda>ls.
       Inr (comment_lines (comments ini) @ (if comments ini \<noteq> [] then [[]] else []) @ ls))"

definition WriteFile_text :: "bool \<Rightarrow> cIniFile \<Rightarrow> fault + AString" where
  "WriteFile_text win32 ini =
     and_then (WriteFile_lines ini) (\<lambda>ls. Inr (concat (map (\<lambda>l. l @ iniEOL win32) ls)))"

definition Ini_WriteFile ::
    "bool \<Rightarrow> (AString \<Rightarrow> bool) \<Rightarrow> cIniFile \<Rightarrow> files \<Rightarrow> AString \<Rightarrow> fault + bool \<times> files" where
  "Ini_WriteFile win32 can_write ini files a_FileName =
     (if \<not> can_write (c_str a_FileName) then Inr (False, files)
      else and_then (WriteFile_text win32 ini) (\<lambda>s. Inr (True, files(c_str a_FileName \<mapsto> s))))"

definition Ini_Flush :: "bool \<Rightarrow> (AString \<Rightarrow> bool) \<Rightarrow> cIniFile \<Rightarrow> files \<Rightarrow> fault + bool \<times> files" where
  "Ini_Flush win32 can_write ini files = Ini_WriteFile win32 can_write ini files (m_Filename ini)"

text \<open>
  The name of the example file: \<open>substr(0, length - 4)\<close> is the whole name when it has less than four
  characters, for the subtraction wraps.
\<close>

definition ExPath :: "AString \<Rightarrow> AString" where
  "ExPath a_FileName =
     (if length a_FileName < 4 then a_FileName else take (length a_FileName - 4) a_FileName) @ ascii ''.example.ini''"

definition ReadFile_text :: "cIniFile \<Rightarrow> AString \<Rightarrow> fault + bool \<times> cIniFile" where
  "ReadFile_text ini s =
     and_then (ReadFile_loop (text_lines s) ini [] True) (\<lambda>(b, ini').
       Inr (b \<and> \<not> (keys ini' = [] \<and> names ini' = [] \<and> comments ini' = []), ini'))"

definition Ini_ReadFile ::
    "bool \<Rightarrow> (AString \<Rightarrow> bool) \<Rightarrow> cIniFile \<Rightarrow> files \<Rightarrow> AString \<Rightarrow> bool \<Rightarrow> fault + bool \<times> cIniFile \<times> files" where
  "Ini_ReadFile win32 can_write ini files a_FileName a_AllowExampleRedirect =
     (let ini = ini\<lparr>m_Filename := a_FileName\<rparr>
      in case files (c_str a_FileName) of
           Some s \<Rightarrow> and_then (ReadFile_text ini s) (\<lambda>(b, ini'). Inr (b, ini', files))
         | None \<Rightarrow>
             if \<not> a_AllowExampleRedirect then Inr (False, ini, files)
             else case files (c_str (ExPath a_FileName)) of
                    None \<Rightarrow> Inr (False, ini, files)
                  | Some s \<Rightarrow> and_then (ReadFile_text ini s) (\<lambda>(b, ini').
                      if \<not> b then Inr (False, ini', files)
                      else and_then (Ini_WriteFile win32 can_write ini' files a_FileName) (\<lambda>(_, files').
                        Inr (True, ini', files'))))"

section \<open>The byte order mark\<close>

text \<open>
  \<open>RemoveBom\<close> removes the three bytes of a UTF-8 byte order mark from the first line and nothing else,
  and never reads beyond a line that is shorter than the mark.
\<close>
theorem RemoveBom_in_bounds: "Ini_RemoveBom line = Inr (if take 3 line = BOM then drop 3 line else line)"
proof -
  consider "line = []" | x where "line = [x]" | x y where "line = [x, y]" | x y z r where "line = x # y # z # r"
    by (cases line rule: remdups_adj.cases; cases "tl (tl line)") auto
  then show ?thesis
    by cases (auto simp: Ini_RemoveBom_def BOM_def)
qed

section \<open>Lines\<close>

definition cr :: "bool \<Rightarrow> AString" where
  "cr win32 = (if win32 then [] else [0x0d])"

lemma iniEOL_cr: "iniEOL win32 = cr win32 @ [0x0a]"
  by (simp add: iniEOL_def cr_def)

lemma text_lines_written:
  "\<forall>l \<in> set ls. 0x0a \<notin> set l \<Longrightarrow>
   text_lines (concat (map (\<lambda>l. l @ iniEOL win32) ls)) = map (\<lambda>l. l @ cr win32) ls"
proof (induction ls)
  case Nil
  then show ?case by (simp add: text_lines_def cuts.simps)
next
  case (Cons l ls)
  have "0x0a \<notin> set (l @ cr win32)" using Cons.prems by (simp add: cr_def)
  from cuts_step [OF this] Cons show ?case by (simp add: text_lines_def iniEOL_cr)
qed

text \<open>A text that survives being the end of a line.\<close>

definition clean :: "bool \<Rightarrow> AString \<Rightarrow> bool" where
  "clean win32 t \<longleftrightarrow> 0x0a \<notin> set t \<and> (win32 \<longrightarrow> t = [] \<or> last t \<noteq> 0x0d)"

lemma clean_Cons: "c \<noteq> 0x0a \<Longrightarrow> c \<noteq> 0x0d \<Longrightarrow> clean win32 (c # t) \<longleftrightarrow> clean win32 t"
  by (auto simp: clean_def)

lemma clean_append: "t \<noteq> [] \<Longrightarrow> clean win32 (s @ t) \<longleftrightarrow> 0x0a \<notin> set s \<and> clean win32 t"
  by (auto simp: clean_def)

lemma ReadFile_line_clean:
  assumes "clean win32 l"
  shows "ReadFile_line ini k (l @ cr win32) =
    (if l = [] then Inr (Some (ini, k))
     else if \<not> isprint (l ! 0) then Inr None
     else case find_first_of l (ascii '';#[='') 0 of
            None \<Rightarrow> Inr (Some (ini, k))
          | Some pLeft \<Rightarrow> and_then (ReadFile_entry ini k l pLeft) (\<lambda>r. Inr (Some r)))"
  using assms by (auto simp: ReadFile_line_def cr_def clean_def)

lemma special_chars: "set (ascii '';#[='') = {0x3b, 0x23, 0x5b, 0x3d}"
  by (simp add: ascii_def)

lemma first_special:
  assumes "c \<in> {0x3b, 0x23, 0x5b, 0x3d}" and "set s \<inter> {0x3b, 0x23, 0x5b, 0x3d} = {}"
  shows "find_first_of (s @ c # t) (ascii '';#[='') 0 = Some (length s)"
proof -
  have "takeWhile (\<lambda>c. c \<notin> set (ascii '';#[='')) (s @ c # t) = s"
    using assms by (subst takeWhile_append2) (auto simp: special_chars)
  then show ?thesis
    using assms(1) by (simp add: find_first_of_def special_chars)
qed

lemma read_empty: "ReadFile_line ini k (cr win32) = Inr (Some (ini, k))"
  using ReadFile_line_clean [of win32 "[]" ini k] by (simp add: clean_def)

lemma read_comment:
  assumes "clean win32 c"
  shows "ReadFile_line ini k (0x3b # c @ cr win32) =
    (if names ini = [] then Inr (Some (Ini_AddHeaderComment ini c, k))
     else and_then (Ini_AddKeyComment ini k c) (\<lambda>(_, ini'). Inr (Some (ini', k))))"
  using ReadFile_line_clean [of win32 "0x3b # c" ini k] first_special [of "0x3b" "[]" c] assms
  by (cases "Ini_AddKeyComment ini k c")
    (auto simp: clean_Cons isprint_def ReadFile_entry_def and_then_assoc split: prod.splits)

lemma read_key:
  assumes "0x0a \<notin> set n"
  shows "ReadFile_line ini k (0x5b # n @ 0x5d # cr win32) = Inr (Some (snd (Ini_AddKeyName ini n), n))"
proof -
  have "clean win32 (0x5b # n @ [0x5d])" using assms by (simp add: clean_def)
  moreover have "find_last (0x5b # n @ [0x5d]) 0x5d = Some (Suc (length n))" by (simp add: find_last_def)
  ultimately show ?thesis
    using ReadFile_line_clean [of win32 "0x5b # n @ [0x5d]" ini k] first_special [of "0x5b" "[]" "n @ [0x5d]"]
    by (simp add: isprint_def ReadFile_entry_def substr_def Let_def)
qed

definition value_name_ok :: "AString \<Rightarrow> bool" where
  "value_name_ok n \<longleftrightarrow> set n \<inter> {0x0a, 0x3b, 0x23, 0x5b, 0x3d} = {} \<and> (n \<noteq> [] \<longrightarrow> isprint (hd n))"

lemma read_value:
  assumes "value_name_ok n" and "clean win32 v"
  shows "ReadFile_line ini k (n @ 0x3d # v @ cr win32) =
    and_then (Ini_AddValue ini k n v) (\<lambda>ini'. Inr (Some (ini', k)))"
proof -
  have "clean win32 (n @ 0x3d # v)" using assms by (simp add: clean_append clean_Cons value_name_ok_def)
  moreover have "isprint ((n @ 0x3d # v) ! 0)"
    using assms(1) by (cases n) (simp_all add: value_name_ok_def isprint_def)
  moreover have "set n \<inter> {0x3b, 0x23, 0x5b, 0x3d} = {}" using assms(1) by (auto simp: value_name_ok_def)
  ultimately show ?thesis
    using ReadFile_line_clean [of win32 "n @ 0x3d # v" ini k] first_special [of "0x3d" n v]
    by (simp add: ReadFile_entry_def and_then_assoc)
qed

section \<open>Sections\<close>

text \<open>Reading below the last key of the file, whose name is new.\<close>

definition at_last :: "cIniFile \<Rightarrow> AString \<Rightarrow> ini_key list \<Rightarrow> ini_key \<Rightarrow> bool" where
  "at_last ini n ks key \<longleftrightarrow>
     (\<exists>ns. names ini = ns @ [n] \<and> length ns = length ks \<and> (\<forall>n' \<in> set ns. \<not> same_in ini n n')) \<and>
     keys ini = ks @ [key]"

lemma at_last_same: "at_last ini n ks key \<Longrightarrow> ini\<lparr>keys := ks @ [key]\<rparr> = ini"
  by (cases ini) (simp add: at_last_def)

lemma at_last_FindKey: "at_last ini n ks key \<Longrightarrow> Ini_FindKey ini n = int (length ks)"
  unfolding FindKey_same at_last_def using find_index_mid [of _ "same_in ini n" n "[]"] by auto

lemma at_last_upd:
  assumes "at_last ini n ks key"
  shows "upd_key ini (int (length ks)) (\<lambda>key. Inr (f key)) = Inr (ini\<lparr>keys := ks @ [f key]\<rparr>)"
    and "at_last (ini\<lparr>keys := ks @ [key']\<rparr>) n ks key'"
  using assms upd_key_mid [of ini ks key "[]"] by (simp_all add: at_last_def)

lemma at_last_AddKeyComment:
  assumes "at_last ini n ks key"
  shows "Ini_AddKeyComment ini n c =
    Inr (True, ini\<lparr>keys := ks @ [key\<lparr>key_comments := key_comments key @ [c]\<rparr>]\<rparr>)"
proof -
  have "int (length ks) < int (length (keys ini))" using assms by (simp add: at_last_def)
  then show ?thesis
    using at_last_FindKey [OF assms] at_last_upd(1) [OF assms]
    by (simp add: Ini_AddKeyComment_def Ini_AddKeyCommentByID_def)
qed

lemma at_last_AddValue:
  assumes "at_last ini n ks key"
  shows "Ini_AddValue ini n v x = Inr (ini\<lparr>keys := ks @
    [key\<lparr>key_names := key_names key @ [v], key_values := key_values key @ [x]\<rparr>]\<rparr>)"
  using at_last_FindKey [OF assms] at_last_upd(1) [OF assms]
  by (simp add: Ini_AddValue_def push_value_def)

lemma at_last_names: "at_last ini n ks key \<Longrightarrow> names ini \<noteq> []"
  by (auto simp: at_last_def)

lemma read_key_comments:
  "at_last ini n ks key \<Longrightarrow> \<forall>c \<in> set cs. clean win32 c \<Longrightarrow>
   ReadFile_loop (map (\<lambda>l. l @ cr win32) (comment_lines cs) @ rest) ini n False =
   ReadFile_loop rest (ini\<lparr>keys := ks @ [key\<lparr>key_comments := key_comments key @ cs\<rparr>]\<rparr>) n False"
proof (induction cs arbitrary: ini key)
  case Nil
  then show ?case by (simp add: at_last_same)
next
  case (Cons c cs)
  show ?case
    using Cons.IH [OF at_last_upd(2) [OF Cons.prems(1)]] Cons.prems
    by (simp add: read_comment at_last_names at_last_AddKeyComment [OF Cons.prems(1)])
qed

lemma read_values:
  "at_last ini n ks key \<Longrightarrow> value_lines ns vs = Inr ls \<Longrightarrow> length ns = length vs \<Longrightarrow>
   \<forall>v \<in> set vs. clean win32 v \<Longrightarrow> \<forall>n \<in> set ns. value_name_ok n \<Longrightarrow>
   ReadFile_loop (map (\<lambda>l. l @ cr win32) ls @ rest) ini n False =
   ReadFile_loop rest
     (ini\<lparr>keys := ks @ [key\<lparr>key_names := key_names key @ ns, key_values := key_values key @ vs\<rparr>]\<rparr>) n False"
proof (induction ns vs arbitrary: ini key ls rule: value_lines.induct)
  case (1 vs)
  then show ?case by (auto simp: at_last_same)
next
  case (2 m ns)
  then show ?case by simp
next
  case (3 m ns v vs)
  from "3.prems"(2) obtain ls' where ls': "value_lines ns vs = Inr ls'" "ls = (m @ [0x3d] @ v) # ls'"
    by (auto simp: and_then_Inr_iff)
  show ?case
    using "3.IH" [OF at_last_upd(2) [OF "3.prems"(1)] ls'(1)] "3.prems"(3-5)
    by (simp add: ls'(2) read_value at_last_AddValue [OF "3.prems"(1)])
qed

text \<open>Keys and files that survive being written as text.\<close>

definition storable_key :: "bool \<Rightarrow> ini_key \<Rightarrow> bool" where
  "storable_key win32 key \<longleftrightarrow>
     list_all (clean win32) (key_comments key) \<and> list_all value_name_ok (key_names key) \<and>
     list_all (clean win32) (key_values key)"

definition storable :: "bool \<Rightarrow> cIniFile \<Rightarrow> bool" where
  "storable win32 ini \<longleftrightarrow>
     list_all (clean win32) (comments ini) \<and> list_all (\<lambda>n. 0x0a \<notin> set n) (names ini) \<and>
     list_all (storable_key win32) (keys ini) \<and> distinct (map (CheckCase ini) (names ini)) \<and>
     (comments ini \<noteq> [] \<or> keys ini \<noteq> [])"

lemma AddKeyName_at_last:
  assumes "length (names ini) = length (keys ini)" and "\<forall>n' \<in> set (names ini). CheckCase ini n' \<noteq> CheckCase ini n"
  shows "at_last (snd (Ini_AddKeyName ini n)) n (keys ini) new_key"
    and "snd (Ini_AddKeyName ini n) = ini\<lparr>names := names ini @ [n], keys := keys ini @ [new_key]\<rparr>"
  using assms by (simp_all add: Ini_AddKeyName_def Let_def at_last_def same_in_def CheckCase_def)

lemma CheckCase_cong: "m_IsCaseInsensitive a = m_IsCaseInsensitive b \<Longrightarrow> CheckCase a = CheckCase b"
  by (simp add: CheckCase_def fun_eq_iff)

lemma key_eta: "\<lparr>key_names = key_names key, key_values = key_values key, key_comments = key_comments key\<rparr> = key"
  by simp

lemma read_one_key:
  assumes "length (names ini) = length (keys ini)" and "\<forall>n' \<in> set (names ini). CheckCase ini n' \<noteq> CheckCase ini n"
    and "0x0a \<notin> set n" and "storable_key win32 key" and "key_ok key"
    and "value_lines (key_names key) (key_values key) = Inr vls"
  shows "ReadFile_loop (map (\<lambda>l. l @ cr win32)
      ((0x5b # n @ [0x5d]) # comment_lines (key_comments key) @ vls @ [[]]) @ rest) ini k False =
    ReadFile_loop rest (ini\<lparr>names := names ini @ [n], keys := keys ini @ [key]\<rparr>) n False"
proof -
  note new = AddKeyName_at_last [OF assms(1,2)]
  have c: "\<forall>c \<in> set (key_comments key). clean win32 c" and v: "\<forall>v \<in> set (key_values key). clean win32 v"
    and m: "\<forall>n \<in> set (key_names key). value_name_ok n"
    using assms(4) by (simp_all add: storable_key_def list_all_iff)
  have l: "length (key_names key) = length (key_values key)" using assms(5) by (simp add: key_ok_def)
  show ?thesis
    using read_key_comments [OF new(1) c] read_values [OF at_last_upd(2) [OF new(1)] assms(6) l v m]
    by (simp add: read_key [OF assms(3)] read_empty new(2) new_key_def key_eta)
qed

lemma read_keys:
  "key_lines ns ks = Inr ls \<Longrightarrow> length ns = length ks \<Longrightarrow> length (names ini) = length (keys ini) \<Longrightarrow>
   distinct (map (CheckCase ini) (names ini @ ns)) \<Longrightarrow> \<forall>n \<in> set ns. 0x0a \<notin> set n \<Longrightarrow>
   \<forall>key \<in> set ks. storable_key win32 key \<and> key_ok key \<Longrightarrow>
   ReadFile_loop (map (\<lambda>l. l @ cr win32) ls) ini k False =
     Inr (True, ini\<lparr>names := names ini @ ns, keys := keys ini @ ks\<rparr>)"
proof (induction ns ks arbitrary: ini ls k rule: key_lines.induct)
  case (1 ns)
  then show ?case by simp
next
  case (2 key ks)
  then show ?case by simp
next
  case (3 n ns key ks)
  from "3.prems"(1) obtain vls ls' where ls: "value_lines (key_names key) (key_values key) = Inr vls"
      "key_lines ns ks = Inr ls'" "ls = (0x5b # n @ [0x5d]) # comment_lines (key_comments key) @ vls @ [[]] @ ls'"
    by (auto simp: and_then_Inr_iff)
  let ?ini = "ini\<lparr>names := names ini @ [n], keys := keys ini @ [key]\<rparr>"
  have "CheckCase ini n \<notin> CheckCase ini ` set (names ini)" using "3.prems"(4) by simp
  then have fresh: "\<forall>n' \<in> set (names ini). CheckCase ini n' \<noteq> CheckCase ini n" by (metis imageI)
  have d: "distinct (map (CheckCase ?ini) (names ?ini @ ns))"
    using "3.prems"(4) CheckCase_cong [of ?ini ini] by simp
  have k: "0x0a \<notin> set n" "storable_key win32 key" "key_ok key" using "3.prems"(5,6) by simp_all
  have "ReadFile_loop (map (\<lambda>l. l @ cr win32) ls') ?ini n False =
      Inr (True, ?ini\<lparr>names := names ?ini @ ns, keys := keys ?ini @ ks\<rparr>)"
    by (rule "3.IH" [OF ls(2) _ _ d]) (use "3.prems"(2,3,5,6) in simp_all)
  then show ?case
    using read_one_key [OF "3.prems"(3) fresh k ls(1), where rest = "map (\<lambda>l. l @ cr win32) ls'" and k = k]
    unfolding ls(3) by (simp only: map_append list.map append.assoc append_Cons append_Nil) simp
qed

lemma read_header_comments:
  "names ini = [] \<Longrightarrow> \<forall>c \<in> set cs. clean win32 c \<Longrightarrow>
   ReadFile_loop (map (\<lambda>l. l @ cr win32) (comment_lines cs) @ rest) ini k False =
   ReadFile_loop rest (ini\<lparr>comments := comments ini @ cs\<rparr>) k False"
proof (induction cs arbitrary: ini)
  case (Cons c cs)
  then show ?case by (simp add: read_comment Ini_AddHeaderComment_def)
qed simp

text \<open>No written line has a line feed, and the first has no byte order mark.\<close>

lemma comment_lines_map: "comment_lines cs = map ((#) 0x3b) cs"
  by (induction cs) simp_all

lemma value_lines_map:
  "length ns = length vs \<Longrightarrow> value_lines ns vs = Inr (map (\<lambda>(n, v). n @ [0x3d] @ v) (zip ns vs))"
  by (induction ns vs rule: value_lines.induct) simp_all

lemma key_lines_total:
  "length ns = length ks \<Longrightarrow> \<forall>n \<in> set ns. 0x0a \<notin> set n \<Longrightarrow> \<forall>key \<in> set ks. storable_key win32 key \<and> key_ok key \<Longrightarrow>
   \<exists>ls. key_lines ns ks = Inr ls \<and> (\<forall>l \<in> set ls. 0x0a \<notin> set l) \<and> (ks \<noteq> [] \<longrightarrow> ls \<noteq> [] \<and> hd ls \<noteq> [] \<and> hd (hd ls) = 0x5b)"
proof (induction ns ks rule: key_lines.induct)
  case (3 n ns key ks)
  let ?vls = "map (\<lambda>(n, v). n @ [0x3d] @ v) (zip (key_names key) (key_values key))"
  have k: "storable_key win32 key" "key_ok key" using "3.prems" by simp_all
  have v: "value_lines (key_names key) (key_values key) = Inr ?vls"
    using value_lines_map k(2) by (simp add: key_ok_def)
  have "\<exists>ls. key_lines ns ks = Inr ls \<and> (\<forall>l \<in> set ls. 0x0a \<notin> set l) \<and>
      (ks \<noteq> [] \<longrightarrow> ls \<noteq> [] \<and> hd ls \<noteq> [] \<and> hd (hd ls) = 0x5b)"
    using "3.prems" by (intro "3.IH") simp_all
  then obtain ls' where ls': "key_lines ns ks = Inr ls'" "\<forall>l \<in> set ls'. 0x0a \<notin> set l" by blast
  have "\<forall>l \<in> set ?vls. 0x0a \<notin> set l" "\<forall>c \<in> set (key_comments key). 0x0a \<notin> set c"
    using k(1) by (auto simp: storable_key_def list_all_iff value_name_ok_def clean_def dest: set_zip_leftD set_zip_rightD)
  then show ?case using v ls' "3.prems"(2) by (auto simp: comment_lines_map)
qed simp_all

lemma first_line_kept:
  "l = [] \<or> hd l \<noteq> 0xef \<Longrightarrow> ReadFile_loop (l # ls) ini k True = ReadFile_loop (l # ls) ini k False"
  by (cases l) (simp_all add: RemoveBom_in_bounds BOM_def)

section \<open>The round trip\<close>

text \<open>
  \<^bold>\<open>C30.\<close> What is written is read back: the file a storable \<open>cIniFile\<close> writes, read into a fresh one with the
  same treatment of case, gives the same header comments, keys, key comments, names and values in the
  same order. A file is storable when its key names differ, even ignoring case if case is ignored, no
  text contains a line feed, no text that ends a line ends in a carriage return where the line ends
  in a bare line feed, and value names start with a printable character and have no \<open>;\<close>, \<open>#\<close>, \<open>[\<close> or \<open>=\<close>.
\<close>
theorem settings_file_roundtrip:
  assumes "ini_ok ini" and "storable win32 ini" and "can_write (c_str f)"
  shows "\<exists>fs'. Ini_WriteFile win32 can_write ini fs f = Inr (True, fs') \<and>
    Ini_ReadFile win32 can_write (new_cIniFile\<lparr>m_IsCaseInsensitive := m_IsCaseInsensitive ini\<rparr>) fs' f redirect =
      Inr (True, ini\<lparr>m_Filename := f\<rparr>, fs')"
proof -
  let ?new = "new_cIniFile\<lparr>m_IsCaseInsensitive := m_IsCaseInsensitive ini, m_Filename := f\<rparr>"
  let ?sep = "if comments ini \<noteq> [] then [[]] else [] :: AString list"
  have l: "length (names ini) = length (keys ini)" and s: "\<forall>n \<in> set (names ini). 0x0a \<notin> set n"
    "\<forall>key \<in> set (keys ini). storable_key win32 key \<and> key_ok key" "\<forall>c \<in> set (comments ini). clean win32 c"
    "distinct (map (CheckCase ini) (names ini))" "comments ini \<noteq> [] \<or> keys ini \<noteq> []"
    using assms by (simp_all add: ini_ok_def storable_def list_all_iff)
  from key_lines_total [OF l s(1,2)] obtain kls where kls: "key_lines (names ini) (keys ini) = Inr kls"
    "\<forall>l \<in> set kls. 0x0a \<notin> set l" "keys ini \<noteq> [] \<longrightarrow> kls \<noteq> [] \<and> hd kls \<noteq> [] \<and> hd (hd kls) = 0x5b" by blast
  define ls where "ls = comment_lines (comments ini) @ ?sep @ kls"
  define t where "t = concat (map (\<lambda>l. l @ iniEOL win32) ls)"
  have w: "WriteFile_text win32 ini = Inr t"
    by (simp add: WriteFile_text_def WriteFile_lines_def kls(1) ls_def t_def)
  have "\<forall>l \<in> set ls. 0x0a \<notin> set l"
    using kls(2) s(3) by (auto simp: ls_def comment_lines_map clean_def)
  then have lines: "text_lines t = map (\<lambda>l. l @ cr win32) ls" by (simp add: t_def text_lines_written)
  obtain x xs where ls': "ls = x # xs" "x \<noteq> []" "hd x \<noteq> 0xef"
    using s(5) kls(3) by (cases "comments ini"; cases kls) (auto simp: ls_def)
  have kls_read: "ReadFile_loop (map (\<lambda>l. l @ cr win32) kls) (?new\<lparr>comments := comments ini\<rparr>) k False =
      Inr (True, ini\<lparr>m_Filename := f\<rparr>)" for k
    using read_keys [OF kls(1) l, of "?new\<lparr>comments := comments ini\<rparr>" win32 k] s
      CheckCase_cong [of "?new\<lparr>comments := comments ini\<rparr>" ini]
    by (simp add: new_cIniFile_def)
  have "ReadFile_loop (text_lines t) ?new [] True = ReadFile_loop (map (\<lambda>l. l @ cr win32) ls) ?new [] False"
    using first_line_kept [of "x @ cr win32"] ls' unfolding lines by simp
  also have "\<dots> = ReadFile_loop (map (\<lambda>l. l @ cr win32) (?sep @ kls)) (?new\<lparr>comments := comments ini\<rparr>) [] False"
    using read_header_comments [of ?new "comments ini" win32 "map (\<lambda>l. l @ cr win32) (?sep @ kls)"] s(3)
    by (simp add: ls_def new_cIniFile_def)
  also have "\<dots> = Inr (True, ini\<lparr>m_Filename := f\<rparr>)"
    using kls_read [of "[]"] by (cases "comments ini = []") (simp_all add: read_empty)
  finally have "ReadFile_text ?new t = Inr (True, ini\<lparr>m_Filename := f\<rparr>)"
    using s(5) by (auto simp: ReadFile_text_def)
  then show ?thesis
    using assms(3) w by (simp add: Ini_WriteFile_def Ini_ReadFile_def Let_def)
qed

definition sample_ini :: cIniFile where
  "sample_ini =
     \<lparr>m_IsCaseInsensitive = True, m_Filename = [], keys =
        [\<lparr>key_names = [ascii ''Authenticate'', ascii ''Max''], key_values = [ascii ''1'', ascii ''a=b;''], key_comments = [ascii '' on'']\<rparr>,
         \<lparr>key_names = [], key_values = [], key_comments = []\<rparr>],
      names = [ascii ''Authentication'', ascii ''Empty''], comments = [ascii '' main'']\<rparr>"

theorem settings_file_roundtrip_witness:
  "\<exists>fs'. Ini_WriteFile False (\<lambda>f. True) sample_ini Map.empty (ascii ''settings.ini'') = Inr (True, fs') \<and>
    Ini_ReadFile False (\<lambda>f. True) (new_cIniFile\<lparr>m_IsCaseInsensitive := m_IsCaseInsensitive sample_ini\<rparr>) fs'
      (ascii ''settings.ini'') True =
      Inr (True, sample_ini\<lparr>m_Filename := ascii ''settings.ini''\<rparr>, fs')"
proof (rule settings_file_roundtrip)
  show "ini_ok sample_ini" by (simp add: sample_ini_def ini_ok_def key_ok_def)
  show "storable False sample_ini"
    by (simp add: sample_ini_def storable_def storable_key_def clean_def value_name_ok_def ascii_def isprint_def
        CheckCase_def c_tolower_def)
qed simp

section \<open>Any text can be read\<close>






end
