(* ===== verification/MemorySettings.thy ===== *)
theory MemorySettings
  imports SettingsInterface
begin

text \<open>
  \<open>Src/Server/MemorySettingsRepository.cpp\<close>: settings held in memory, a map from key names to multimaps
  from value names to typed values. The elements of a multimap are kept in a list in the order they
  were inserted; the standard leaves the order of elements with equal names to the library, and nothing
  proved here depends on it. \<open>getIntValue\<close> and \<open>getBoolValue\<close> of a value of another type read a member of
  the union that was never assigned, a fault, while \<open>getStringValue\<close> reads the empty string.
\<close>

datatype sValue = StringValue AString | Int64Value int | BoolValue bool

definition getStringValue :: "sValue \<Rightarrow> AString" where
  "getStringValue x = (case x of StringValue s \<Rightarrow> s | _ \<Rightarrow> [])"

definition getIntValue :: "sValue \<Rightarrow> fault + int" where
  "getIntValue x = (case x of Int64Value i \<Rightarrow> Inr i | _ \<Rightarrow> Inl Uninitialised)"

definition getBoolValue :: "sValue \<Rightarrow> fault + bool" where
  "getBoolValue x = (case x of BoolValue b \<Rightarrow> Inr b | _ \<Rightarrow> Inl Uninitialised)"

record cMemory =
  m_Writable :: bool
  m_Map :: "AString \<rightharpoonup> (AString \<times> sValue) list"

definition new_cMemory :: cMemory where
  "new_cMemory = \<lparr>m_Writable = True, m_Map = Map.empty\<rparr>"

definition SetReadOnly :: "cMemory \<Rightarrow> cMemory" where
  "SetReadOnly m = m\<lparr>m_Writable := False\<rparr>"

definition Memory_KeyExists :: "cMemory \<Rightarrow> AString \<Rightarrow> bool" where
  "Memory_KeyExists m keyname \<longleftrightarrow> m_Map m keyname \<noteq> None"

text \<open>The two lookups every operation begins with.\<close>

definition find_in :: "cMemory \<Rightarrow> AString \<Rightarrow> AString \<Rightarrow> sValue option" where
  "find_in m k v = (case m_Map m k of None \<Rightarrow> None | Some xs \<Rightarrow> map_of xs v)"

definition Memory_HasValue :: "cMemory \<Rightarrow> AString \<Rightarrow> AString \<Rightarrow> bool" where
  "Memory_HasValue m a_KeyName a_ValueName \<longleftrightarrow> find_in m a_KeyName a_ValueName \<noteq> None"

definition Memory_AddKeyName :: "cMemory \<Rightarrow> AString \<Rightarrow> int \<times> cMemory" where
  "Memory_AddKeyName m a_keyname =
     (0, if m_Map m a_keyname = None then m\<lparr>m_Map := (m_Map m)(a_keyname \<mapsto> [])\<rparr> else m)"

definition Memory_AddKeyComment :: "cMemory \<Rightarrow> AString \<Rightarrow> AString \<Rightarrow> bool \<times> cMemory" where
  "Memory_AddKeyComment m keyname comment = (False, m)"

definition Memory_GetKeyComment :: "cMemory \<Rightarrow> AString \<Rightarrow> int \<Rightarrow> AString" where
  "Memory_GetKeyComment m keyname commentID = []"

definition Memory_DeleteKeyComment :: "cMemory \<Rightarrow> AString \<Rightarrow> int \<Rightarrow> bool \<times> cMemory" where
  "Memory_DeleteKeyComment m keyname commentID = (False, m)"

text \<open>The three \<open>AddValue\<close>, by the type of the value.\<close>

definition Memory_AddValue :: "cMemory \<Rightarrow> AString \<Rightarrow> AString \<Rightarrow> sValue \<Rightarrow> cMemory" where
  "Memory_AddValue m a_KeyName a_ValueName a_Value =
     (if m_Writable m then
        m\<lparr>m_Map := (m_Map m)(a_KeyName \<mapsto>
          (case m_Map m a_KeyName of None \<Rightarrow> [] | Some xs \<Rightarrow> xs) @ [(a_ValueName, a_Value)])\<rparr>
      else m)"

text \<open>Indexing the map creates the key.\<close>

definition Memory_GetValues :: "cMemory \<Rightarrow> AString \<Rightarrow> (AString \<times> AString) list \<times> cMemory" where
  "Memory_GetValues m a_keyName =
     (let xs = (case m_Map m a_keyName of None \<Rightarrow> [] | Some xs \<Rightarrow> xs)
      in (map (\<lambda>(n, x). (n, getStringValue x)) xs, m\<lparr>m_Map := (m_Map m)(a_keyName \<mapsto> xs)\<rparr>))"

definition Memory_GetValue :: "cMemory \<Rightarrow> AString \<Rightarrow> AString \<Rightarrow> AString \<Rightarrow> AString" where
  "Memory_GetValue m a_KeyName a_ValueName defValue =
     (case find_in m a_KeyName a_ValueName of None \<Rightarrow> defValue | Some x \<Rightarrow> getStringValue x)"

definition Memory_GetValueSet :: "cMemory \<Rightarrow> AString \<Rightarrow> AString \<Rightarrow> AString \<Rightarrow> AString \<times> cMemory" where
  "Memory_GetValueSet m a_KeyName a_ValueName defValue =
     (case find_in m a_KeyName a_ValueName of
        None \<Rightarrow> (defValue, Memory_AddValue m a_KeyName a_ValueName (StringValue defValue))
      | Some x \<Rightarrow> (getStringValue x, m))"

text \<open>\<open>static_cast<int>\<close> keeps the low 32 bits.\<close>

definition Memory_GetValueSetI :: "cMemory \<Rightarrow> AString \<Rightarrow> AString \<Rightarrow> int \<Rightarrow> fault + int \<times> cMemory" where
  "Memory_GetValueSetI m a_KeyName a_ValueName defValue =
     (case find_in m a_KeyName a_ValueName of
        None \<Rightarrow> Inr (defValue, Memory_AddValue m a_KeyName a_ValueName (Int64Value defValue))
      | Some x \<Rightarrow> and_then (getIntValue x) (\<lambda>i. Inr (sint (word_of_int i :: u32), m)))"

definition Memory_GetValueSetI64 :: "cMemory \<Rightarrow> AString \<Rightarrow> AString \<Rightarrow> int \<Rightarrow> fault + int \<times> cMemory" where
  "Memory_GetValueSetI64 m a_KeyName a_ValueName defValue =
     (case find_in m a_KeyName a_ValueName of
        None \<Rightarrow> Inr (defValue, Memory_AddValue m a_KeyName a_ValueName (Int64Value defValue))
      | Some x \<Rightarrow> and_then (getIntValue x) (\<lambda>i. Inr (i, m)))"

definition Memory_GetValueSetB :: "cMemory \<Rightarrow> AString \<Rightarrow> AString \<Rightarrow> bool \<Rightarrow> fault + bool \<times> cMemory" where
  "Memory_GetValueSetB m a_KeyName a_ValueName defValue =
     (case find_in m a_KeyName a_ValueName of
        None \<Rightarrow> Inr (defValue, Memory_AddValue m a_KeyName a_ValueName (BoolValue defValue))
      | Some x \<Rightarrow> and_then (getBoolValue x) (\<lambda>b. Inr (b, m)))"

text \<open>The assignment to the element that was found.\<close>

fun assign :: "AString \<Rightarrow> sValue \<Rightarrow> (AString \<times> sValue) list \<Rightarrow> (AString \<times> sValue) list" where
  "assign v x [] = []"
| "assign v x ((n, y) # xs) = (if n = v then (n, x) # xs else (n, y) # assign v x xs)"

text \<open>\<open>SetValue\<close> with a text and \<open>SetValueI\<close> with a number.\<close>

definition Memory_SetValue ::
    "cMemory \<Rightarrow> AString \<Rightarrow> AString \<Rightarrow> sValue \<Rightarrow> bool \<Rightarrow> bool \<times> cMemory" where
  "Memory_SetValue m a_KeyName a_ValueName a_Value a_CreateIfNotExists =
     (if \<not> m_Writable m then (False, m)
      else case m_Map m a_KeyName of
             None \<Rightarrow> (a_CreateIfNotExists,
               if a_CreateIfNotExists then Memory_AddValue m a_KeyName a_ValueName a_Value else m)
           | Some xs \<Rightarrow>
               if map_of xs a_ValueName = None then
                 (a_CreateIfNotExists,
                  if a_CreateIfNotExists then Memory_AddValue m a_KeyName a_ValueName a_Value else m)
               else (True, m\<lparr>m_Map := (m_Map m)(a_KeyName \<mapsto> assign a_ValueName a_Value xs)\<rparr>))"

fun erase :: "AString \<Rightarrow> (AString \<times> sValue) list \<Rightarrow> (AString \<times> sValue) list" where
  "erase v [] = []"
| "erase v ((n, y) # xs) = (if n = v then xs else (n, y) # erase v xs)"

definition Memory_DeleteValue :: "cMemory \<Rightarrow> AString \<Rightarrow> AString \<Rightarrow> bool \<times> cMemory" where
  "Memory_DeleteValue m a_KeyName a_ValueName =
     (if \<not> m_Writable m then (False, m)
      else case m_Map m a_KeyName of
             None \<Rightarrow> (False, m)
           | Some xs \<Rightarrow>
               if map_of xs a_ValueName = None then (False, m)
               else (True, m\<lparr>m_Map := (m_Map m)(a_KeyName \<mapsto> erase a_ValueName xs)\<rparr>))"

definition Memory_Flush :: "cMemory \<Rightarrow> bool" where
  "Memory_Flush m \<longleftrightarrow> True"

section \<open>The contract\<close>

definition memory_val :: "cMemory \<Rightarrow> AString \<Rightarrow> AString \<Rightarrow> AString option" where
  "memory_val m k v = map_option getStringValue (find_in m k v)"

lemma map_of_assign: "map_of (assign v x xs) v' = (if v' = v \<and> map_of xs v \<noteq> None then Some x else map_of xs v')"
  by (induction v x xs rule: assign.induct) auto

lemma map_of_erase: "v' \<noteq> v \<Longrightarrow> map_of (erase v xs) v' = map_of xs v'"
  by (induction v xs rule: erase.induct) auto

lemma find_in_AddValue:
  "m_Writable m \<Longrightarrow> find_in (Memory_AddValue m k v x) k' v' =
     (if k' = k \<and> v' = v \<and> find_in m k v = None then Some x else find_in m k' v')"
  by (auto simp: find_in_def Memory_AddValue_def map_add_def split: option.splits)

lemma find_in_SetValue:
  assumes "Memory_SetValue m k v x c = (b, m')"
  shows "b \<Longrightarrow> find_in m' k' v' = (if k' = k \<and> v' = v then Some x else find_in m k' v')"
    and "\<not> b \<Longrightarrow> m' = m" and "b \<longleftrightarrow> m_Writable m \<and> (c \<or> find_in m k v \<noteq> None)"
  using assms find_in_AddValue [of m k v x k' v']
  by (auto simp: Memory_SetValue_def find_in_def map_of_assign split: if_splits option.splits)

lemma find_in_DeleteValue:
  assumes "Memory_DeleteValue m k v = (b, m')"
  shows "\<not> (k' = k \<and> v' = v) \<Longrightarrow> find_in m' k' v' = find_in m k' v'"
    and "\<not> b \<Longrightarrow> m' = m" and "b \<longleftrightarrow> m_Writable m \<and> find_in m k v \<noteq> None"
  using assms by (auto simp: Memory_DeleteValue_def find_in_def map_of_erase split: if_splits option.splits)

interpretation memory: settings "\<lambda>_. True" memory_val "\<lambda>m k v. Inr (Memory_HasValue m k v)"
  "\<lambda>m k v d. Inr (Memory_GetValue m k v d)" "\<lambda>m k v x c. Inr (Memory_SetValue m k v (StringValue x) c)"
  "\<lambda>m k v x. Inr (Memory_AddValue m k v (StringValue x))" "\<lambda>m k v. Inr (Memory_DeleteValue m k v)"
proof (unfold_locales, goal_cases)
  case (1 s k v)
  then show ?case by (simp add: Memory_HasValue_def memory_val_def)
next
  case (2 s k v d)
  then show ?case by (simp add: Memory_GetValue_def memory_val_def split: option.split)
next
  case (3 s k v x c)
  obtain b s' where e: "Memory_SetValue s k v (StringValue x) c = (b, s')" by fastforce
  show ?case
    using find_in_SetValue [OF e] by (auto simp: e keeps_others_def memory_val_def getStringValue_def)
next
  case (4 s k v x)
  then show ?case
    using find_in_AddValue [of s k v "StringValue x"]
    by (cases "m_Writable s") (auto simp: keeps_others_def memory_val_def getStringValue_def Memory_AddValue_def)
next
  case (5 s k v)
  obtain b s' where e: "Memory_DeleteValue s k v = (b, s')" by fastforce
  show ?case 
    using find_in_DeleteValue [OF e] by (auto simp: e keeps_others_def memory_val_def) (metis same_name_refl)+
qed

end
