(* ===== verification/OverridesSettings.thy ===== *)
theory OverridesSettings
  imports IniFileText MemorySettings "HOL-Library.List_Lexorder" "HOL-Library.Product_Lexorder"
begin

text \<open>
  \<open>Src/Server/OverridesSettingsRepository.cpp\<close> and the dispatch of the virtual functions of the interface.
  A repository is an object of one of the three classes that implement the interface; \<open>Overrides\<close> owns
  its two members, so that the datatype is recursive. \<open>ReadUpgradeIniPorts\<close> is the client of the interface
  in \<open>IniFile.cpp\<close>.
\<close>

datatype repository =
  Ini cIniFile
| Memory cMemory
| Overrides (m_Main: repository) (m_Overrides: repository)

text \<open>The result of a call on a member, put back into the object.\<close>

definition on_overrides :: "repository \<Rightarrow> fault + 'a \<times> repository \<Rightarrow> fault + 'a \<times> repository" where
  "on_overrides main r = and_then r (\<lambda>(x, over'). Inr (x, Overrides main over'))"

definition on_main :: "repository \<Rightarrow> fault + 'a \<times> repository \<Rightarrow> fault + 'a \<times> repository" where
  "on_main over r = and_then r (\<lambda>(x, main'). Inr (x, Overrides main' over))"

definition lift_Ini :: "fault + 'a \<times> cIniFile \<Rightarrow> fault + 'a \<times> repository" where
  "lift_Ini r = and_then r (\<lambda>(x, ini'). Inr (x, Ini ini'))"

definition lift_Memory :: "fault + 'a \<times> cMemory \<Rightarrow> fault + 'a \<times> repository" where
  "lift_Memory r = and_then r (\<lambda>(x, m'). Inr (x, Memory m'))"

fun KeyExists :: "repository \<Rightarrow> AString \<Rightarrow> bool" where
  "KeyExists (Ini ini) k = Ini_KeyExists ini k"
| "KeyExists (Memory m) k = Memory_KeyExists m k"
| "KeyExists (Overrides main over) k = (KeyExists over k \<or> KeyExists main k)"

fun HasValue :: "repository \<Rightarrow> AString \<Rightarrow> AString \<Rightarrow> fault + bool" where
  "HasValue (Ini ini) k v = Ini_HasValue ini k v"
| "HasValue (Memory m) k v = Inr (Memory_HasValue m k v)"
| "HasValue (Overrides main over) k v =
     and_then (HasValue over k v) (\<lambda>b. if b then Inr True else HasValue main k v)"

fun AddKeyName :: "repository \<Rightarrow> AString \<Rightarrow> int \<times> repository" where
  "AddKeyName (Ini ini) k = (case Ini_AddKeyName ini k of (i, ini') \<Rightarrow> (i, Ini ini'))"
| "AddKeyName (Memory m) k = (case Memory_AddKeyName m k of (i, m') \<Rightarrow> (i, Memory m'))"
| "AddKeyName (Overrides main over) k =
     (if KeyExists over k then (case AddKeyName over k of (_, over') \<Rightarrow> (0, Overrides main over'))
      else (case AddKeyName main k of (i, main') \<Rightarrow> (i, Overrides main' over)))"

fun AddKeyComment :: "repository \<Rightarrow> AString \<Rightarrow> AString \<Rightarrow> fault + bool \<times> repository" where
  "AddKeyComment (Ini ini) k c = lift_Ini (Ini_AddKeyComment ini k c)"
| "AddKeyComment (Memory m) k c = lift_Memory (Inr (Memory_AddKeyComment m k c))"
| "AddKeyComment (Overrides main over) k c =
     (if KeyExists over k then on_overrides main (AddKeyComment over k c)
      else on_main over (AddKeyComment main k c))"

fun GetKeyComment :: "repository \<Rightarrow> AString \<Rightarrow> int \<Rightarrow> fault + AString" where
  "GetKeyComment (Ini ini) k i = Ini_GetKeyComment ini k i"
| "GetKeyComment (Memory m) k i = Inr (Memory_GetKeyComment m k i)"
| "GetKeyComment (Overrides main over) k i =
     (if KeyExists over k then GetKeyComment over k i else GetKeyComment main k i)"

fun DeleteKeyComment :: "repository \<Rightarrow> AString \<Rightarrow> int \<Rightarrow> fault + bool \<times> repository" where
  "DeleteKeyComment (Ini ini) k i = lift_Ini (Ini_DeleteKeyComment ini k i)"
| "DeleteKeyComment (Memory m) k i = lift_Memory (Inr (Memory_DeleteKeyComment m k i))"
| "DeleteKeyComment (Overrides main over) k i =
     (if KeyExists over k then on_overrides main (DeleteKeyComment over k i)
      else on_main over (DeleteKeyComment main k i))"

fun AddValue :: "repository \<Rightarrow> AString \<Rightarrow> AString \<Rightarrow> AString \<Rightarrow> fault + repository" where
  "AddValue (Ini ini) k v x = and_then (Ini_AddValue ini k v x) (\<lambda>ini'. Inr (Ini ini'))"
| "AddValue (Memory m) k v x = Inr (Memory (Memory_AddValue m k v (StringValue x)))"
| "AddValue (Overrides main over) k v x =
     and_then (HasValue over k v) (\<lambda>b.
       if b then and_then (AddValue over k v x) (\<lambda>over'. Inr (Overrides main over'))
       else and_then (AddValue main k v x) (\<lambda>main'. Inr (Overrides main' over)))"

fun GetValue :: "repository \<Rightarrow> AString \<Rightarrow> AString \<Rightarrow> AString \<Rightarrow> fault + AString" where
  "GetValue (Ini ini) k v d = Ini_GetValue ini k v d"
| "GetValue (Memory m) k v d = Inr (Memory_GetValue m k v d)"
| "GetValue (Overrides main over) k v d =
     and_then (HasValue over k v) (\<lambda>b. if b then GetValue over k v d else GetValue main k v d)"

fun GetValueSet :: "repository \<Rightarrow> AString \<Rightarrow> AString \<Rightarrow> AString \<Rightarrow> fault + AString \<times> repository" where
  "GetValueSet (Ini ini) k v d = lift_Ini (Ini_GetValueSet ini k v d)"
| "GetValueSet (Memory m) k v d = lift_Memory (Inr (Memory_GetValueSet m k v d))"
| "GetValueSet (Overrides main over) k v d =
     and_then (HasValue over k v) (\<lambda>b.
       if b then on_overrides main (GetValueSet over k v d) else on_main over (GetValueSet main k v d))"

fun GetValueSetI :: "repository \<Rightarrow> AString \<Rightarrow> AString \<Rightarrow> int \<Rightarrow> fault + int \<times> repository" where
  "GetValueSetI (Ini ini) k v d = lift_Ini (Ini_GetValueSetI ini k v d)"
| "GetValueSetI (Memory m) k v d = lift_Memory (Memory_GetValueSetI m k v d)"
| "GetValueSetI (Overrides main over) k v d =
     and_then (HasValue over k v) (\<lambda>b.
       if b then on_overrides main (GetValueSetI over k v d) else on_main over (GetValueSetI main k v d))"

fun GetValueSetI64 :: "repository \<Rightarrow> AString \<Rightarrow> AString \<Rightarrow> int \<Rightarrow> fault + int \<times> repository" where
  "GetValueSetI64 (Ini ini) k v d = lift_Ini (Ini_GetValueSetI64 ini k v d)"
| "GetValueSetI64 (Memory m) k v d = lift_Memory (Memory_GetValueSetI64 m k v d)"
| "GetValueSetI64 (Overrides main over) k v d =
     and_then (HasValue over k v) (\<lambda>b.
       if b then on_overrides main (GetValueSetI64 over k v d) else on_main over (GetValueSetI64 main k v d))"

fun GetValueSetB :: "repository \<Rightarrow> AString \<Rightarrow> AString \<Rightarrow> bool \<Rightarrow> fault + bool \<times> repository" where
  "GetValueSetB (Ini ini) k v d = lift_Ini (Ini_GetValueSetB ini k v d)"
| "GetValueSetB (Memory m) k v d = lift_Memory (Memory_GetValueSetB m k v d)"
| "GetValueSetB (Overrides main over) k v d =
     and_then (HasValue over k v) (\<lambda>b.
       if b then on_overrides main (GetValueSetB over k v d) else on_main over (GetValueSetB main k v d))"

fun SetValue :: "repository \<Rightarrow> AString \<Rightarrow> AString \<Rightarrow> AString \<Rightarrow> bool \<Rightarrow> fault + bool \<times> repository" where
  "SetValue (Ini ini) k v x c = lift_Ini (Ini_SetValue ini k v x c)"
| "SetValue (Memory m) k v x c = lift_Memory (Inr (Memory_SetValue m k v (StringValue x) c))"
| "SetValue (Overrides main over) k v x c =
     and_then (HasValue over k v) (\<lambda>b.
       if b then on_overrides main (SetValue over k v x c) else on_main over (SetValue main k v x c))"

fun SetValueI :: "repository \<Rightarrow> AString \<Rightarrow> AString \<Rightarrow> int \<Rightarrow> bool \<Rightarrow> fault + bool \<times> repository" where
  "SetValueI (Ini ini) k v x c = lift_Ini (Ini_SetValueI ini k v x c)"
| "SetValueI (Memory m) k v x c = lift_Memory (Inr (Memory_SetValue m k v (Int64Value x) c))"
| "SetValueI (Overrides main over) k v x c =
     and_then (HasValue over k v) (\<lambda>b.
       if b then on_overrides main (SetValueI over k v x c) else on_main over (SetValueI main k v x c))"

fun DeleteValue :: "repository \<Rightarrow> AString \<Rightarrow> AString \<Rightarrow> fault + bool \<times> repository" where
  "DeleteValue (Ini ini) k v = lift_Ini (Ini_DeleteValue ini k v)"
| "DeleteValue (Memory m) k v = lift_Memory (Inr (Memory_DeleteValue m k v))"
| "DeleteValue (Overrides main over) k v =
     and_then (HasValue over k v) (\<lambda>b.
       if b then on_overrides main (DeleteValue over k v) else on_main over (DeleteValue main k v))"

fun Flush :: "bool \<Rightarrow> (AString \<Rightarrow> bool) \<Rightarrow> repository \<Rightarrow> files \<Rightarrow> fault + bool \<times> files" where
  "Flush win32 can_write (Ini ini) fs = Ini_Flush win32 can_write ini fs"
| "Flush win32 can_write (Memory m) fs = Inr (Memory_Flush m, fs)"
| "Flush win32 can_write (Overrides main over) fs =
     and_then (Flush win32 can_write over fs) (\<lambda>(b, fs').
       if b then Flush win32 can_write main fs' else Inr (False, fs'))"

section \<open>All values of a key\<close>

text \<open>The inner loop: pushes the overrides whose name is smaller, and reads past the last of them.\<close>

function GetValues_while ::
    "(AString \<times> AString) list \<Rightarrow> AString \<Rightarrow> nat \<Rightarrow> (AString \<times> AString) list \<Rightarrow>
     fault + nat \<times> (AString \<times> AString) list" where
  "GetValues_while overrides name overridesIndex ret =
     (if overridesIndex \<ge> length overrides then Inl OutOfRange
      else if name > fst (overrides ! overridesIndex) then
        GetValues_while overrides name (overridesIndex + 1) (ret @ [overrides ! overridesIndex])
      else Inr (overridesIndex, ret))"
  by pat_completeness auto
termination
  by (relation "measure (\<lambda>(overrides, name, i, ret). length overrides - i)") auto

declare GetValues_while.simps [simp del]

fun GetValues_loop ::
    "(AString \<times> AString) list \<Rightarrow> (AString \<times> AString) list \<Rightarrow> nat \<Rightarrow> (AString \<times> AString) list \<Rightarrow>
     fault + (AString \<times> AString) list" where
  "GetValues_loop overrides [] overridesIndex ret = Inr ret"
| "GetValues_loop overrides (pair # main) overridesIndex ret =
     (if overridesIndex \<ge> length overrides then GetValues_loop overrides main overridesIndex (ret @ [pair])
      else if fst pair = fst (overrides ! overridesIndex) then GetValues_loop overrides main overridesIndex ret
      else and_then (GetValues_while overrides (fst pair) overridesIndex ret) (\<lambda>(i, ret').
        GetValues_loop overrides main i (ret' @ [pair])))"

definition GetValues_merge ::
    "(AString \<times> AString) list \<Rightarrow> (AString \<times> AString) list \<Rightarrow> fault + (AString \<times> AString) list" where
  "GetValues_merge main overrides = GetValues_loop (sort overrides) (sort main) 0 []"

fun GetValues :: "repository \<Rightarrow> AString \<Rightarrow> fault + (AString \<times> AString) list \<times> repository" where
  "GetValues (Ini ini) k = and_then (Ini_GetValues ini k) (\<lambda>xs. Inr (xs, Ini ini))"
| "GetValues (Memory m) k = lift_Memory (Inr (Memory_GetValues m k))"
| "GetValues (Overrides main over) k =
     and_then (GetValues over k) (\<lambda>(overrides, over').
     and_then (GetValues main k) (\<lambda>(mains, main').
     and_then (GetValues_merge mains overrides) (\<lambda>ret. Inr (ret, Overrides main' over'))))"

section \<open>A client\<close>

definition port_separators :: AString where
  "port_separators = ascii '';,''"

definition ReadUpgradeIniPorts ::
    "repository \<Rightarrow> AString \<Rightarrow> AString \<Rightarrow> AString \<Rightarrow> AString \<Rightarrow> AString \<Rightarrow> fault + AString list \<times> repository" where
  "ReadUpgradeIniPorts r a_KeyName a_PortsValueName a_OldIPv4ValueName a_OldIPv6ValueName a_DefaultValue =
     and_then (GetValues r a_KeyName) (\<lambda>(pairs, r).
       let Ports = concat (map (\<lambda>pair. StringSplitAndTrim (snd pair) port_separators)
                     (filter (\<lambda>pair. fst pair = a_PortsValueName) pairs))
       in if Ports \<noteq> [] then Inr (Ports, r)
          else
            and_then (GetValue r a_KeyName a_OldIPv4ValueName a_DefaultValue) (\<lambda>Ports4.
            and_then (GetValue r a_KeyName a_OldIPv6ValueName []) (\<lambda>Ports6.
              let Ports = MergeStringVectors (StringSplitAndTrim Ports4 port_separators)
                            (StringSplitAndTrim Ports6 port_separators)
              in and_then (DeleteValue r a_KeyName a_OldIPv4ValueName) (\<lambda>(_, r).
                 and_then (DeleteValue r a_KeyName a_OldIPv6ValueName) (\<lambda>(_, r).
                   let Ports = (if Ports = [] then StringSplitAndTrim a_DefaultValue port_separators else Ports)
                   in and_then (SetValue r a_KeyName a_PortsValueName (StringsConcat Ports 0x2c) True) (\<lambda>(_, r).
                        Inr (Ports, r)))))))"

section \<open>The contract\<close>

fun repository_ok :: "repository \<Rightarrow> bool" where
  "repository_ok (Ini ini) \<longleftrightarrow> ini_ok ini"
| "repository_ok (Memory m) \<longleftrightarrow> True"
| "repository_ok (Overrides main over) \<longleftrightarrow> repository_ok main \<and> repository_ok over"

fun repository_val :: "repository \<Rightarrow> AString \<Rightarrow> AString \<Rightarrow> AString option" where
  "repository_val (Ini ini) k v = ini_val ini k v"
| "repository_val (Memory m) k v = memory_val m k v"
| "repository_val (Overrides main over) k v =
     (case repository_val over k v of None \<Rightarrow> repository_val main k v | Some x \<Rightarrow> Some x)"

lemma repository_HasValue: "repository_ok r \<Longrightarrow> HasValue r k v = Inr (repository_val r k v \<noteq> None)"
proof (induction r)
  case (Memory m)
  then show ?case using memory.has_law [of m k v] by simp
next
  case (Overrides main over)
  then show ?case by (simp split: option.split)
qed (simp add: ini.has_law)

lemma repository_GetValue:
  "repository_ok r \<Longrightarrow> GetValue r k v d = Inr (case repository_val r k v of None \<Rightarrow> d | Some x \<Rightarrow> x)"
proof (induction r)
  case (Memory m)
  then show ?case using memory.get_law [of m k v d] by simp
next
  case (Overrides main over)
  then show ?case by (simp add: repository_HasValue split: option.split)
qed (simp add: ini.get_law)

text \<open>A repository that keeps the other values keeps them as a member of an \<open>Overrides\<close>.\<close>

lemma keeps_others_parts:
  "keeps_others repository_val k v over over' \<Longrightarrow>
   keeps_others repository_val k v (Overrides main over) (Overrides main over')"
  "keeps_others repository_val k v main main' \<Longrightarrow>
   keeps_others repository_val k v (Overrides main over) (Overrides main' over)"
  "keeps_others ini_val k v i i' \<Longrightarrow> keeps_others repository_val k v (Ini i) (Ini i')"
  "keeps_others memory_val k v m m' \<Longrightarrow> keeps_others repository_val k v (Memory m) (Memory m')"
  by (auto simp: keeps_others_def split: option.splits)

lemma repository_SetValue:
  "repository_ok r \<Longrightarrow> \<exists>b r'. SetValue r k v x c = Inr (b, r') \<and> repository_ok r' \<and>
     keeps_others repository_val k v r r' \<and> (if b then repository_val r' k v = Some x else r' = r)"
proof (induction r)
  case (Ini i)
  then show ?case using ini.set_law [of i k v x c] keeps_others_parts(3) by (fastforce simp: lift_Ini_def)
next
  case (Memory m)
  then show ?case using memory.set_law [of m k v x c] keeps_others_parts(4) by (fastforce simp: lift_Memory_def)
next
  case (Overrides main over)
  show ?case
  proof (cases "repository_val over k v")
    case None
    from Overrides obtain b r' where "SetValue main k v x c = Inr (b, r')" "repository_ok r'"
      "keeps_others repository_val k v main r'" "if b then repository_val r' k v = Some x else r' = main" by auto
    then show ?thesis
      using None Overrides.prems keeps_others_parts(2) by (auto simp: repository_HasValue on_main_def)
  next
    case (Some y)
    from Overrides obtain b r' where "SetValue over k v x c = Inr (b, r')" "repository_ok r'"
      "keeps_others repository_val k v over r'" "if b then repository_val r' k v = Some x else r' = over" by auto
    then show ?thesis
      using Some Overrides.prems keeps_others_parts(1) by (auto simp: repository_HasValue on_overrides_def)
  qed
qed

lemma repository_AddValue:
  "repository_ok r \<Longrightarrow> \<exists>r'. AddValue r k v x = Inr r' \<and> repository_ok r' \<and>
     keeps_others repository_val k v r r' \<and>
     (repository_val r' k v = repository_val r k v \<or> repository_val r' k v = Some x)"
proof (induction r)
  case (Ini i)
  then show ?case using ini.add_law [of i k v x] keeps_others_parts(3) by fastforce
next
  case (Memory m)
  then show ?case using memory.add_law [of m k v x] keeps_others_parts(4) by fastforce
next
  case (Overrides main over)
  show ?case
  proof (cases "repository_val over k v")
    case None
    from Overrides obtain r' where "AddValue main k v x = Inr r'" "repository_ok r'"
      "keeps_others repository_val k v main r'"
      "repository_val r' k v = repository_val main k v \<or> repository_val r' k v = Some x" by auto
    then show ?thesis using None Overrides.prems keeps_others_parts(2) by (auto simp: repository_HasValue)
  next
    case (Some y)
    from Overrides obtain r' where "AddValue over k v x = Inr r'" "repository_ok r'"
      "keeps_others repository_val k v over r'"
      "repository_val r' k v = repository_val over k v \<or> repository_val r' k v = Some x" by auto
    then show ?thesis using Some Overrides.prems keeps_others_parts(1) by (auto simp: repository_HasValue)
  qed
qed

lemma repository_DeleteValue:
  "repository_ok r \<Longrightarrow> \<exists>b r'. DeleteValue r k v = Inr (b, r') \<and> repository_ok r' \<and>
     keeps_others repository_val k v r r' \<and> (if b then repository_val r k v \<noteq> None else r' = r)"
proof (induction r)
  case (Ini i)
  then show ?case using ini.delete_law [of i k v] keeps_others_parts(3) by (fastforce simp: lift_Ini_def)
next
  case (Memory m)
  then show ?case using memory.delete_law [of m k v] keeps_others_parts(4) by (fastforce simp: lift_Memory_def)
next
  case (Overrides main over)
  show ?case
  proof (cases "repository_val over k v")
    case None
    from Overrides obtain b r' where "DeleteValue main k v = Inr (b, r')" "repository_ok r'"
      "keeps_others repository_val k v main r'" "if b then repository_val main k v \<noteq> None else r' = main" by auto
    then show ?thesis
      using None Overrides.prems keeps_others_parts(2) by (auto simp: repository_HasValue on_main_def)
  next
    case (Some y)
    from Overrides obtain b r' where "DeleteValue over k v = Inr (b, r')" "repository_ok r'"
      "keeps_others repository_val k v over r'" "if b then repository_val over k v \<noteq> None else r' = over" by auto
    then show ?thesis
      using Some Overrides.prems keeps_others_parts(1) by (auto simp: repository_HasValue on_overrides_def)
  qed
qed

interpretation repo: settings repository_ok repository_val HasValue GetValue SetValue AddValue DeleteValue
  by unfold_locales (simp_all add: repository_HasValue repository_GetValue repository_SetValue repository_AddValue repository_DeleteValue)

section \<open>The properties\<close>

text \<open>
  \<^bold>\<open>C28.\<close> What was set is what is read, in a file, in memory, and in any nesting of overrides over them: when
  \<open>SetValue\<close> returns true, \<open>GetValue\<close> returns the new text whatever the default, and the value of every
  other name is what it was, names that differ only in case aside.
\<close>
theorem value_read_back:
  assumes "repository_ok r" and "SetValue r k v x c = Inr (True, r')"
  shows "GetValue r' k v d = Inr x \<and>
    (\<forall>k' v' d'. same_name k k' \<and> same_name v v' \<or> GetValue r' k' v' d' = GetValue r k' v' d')"
  using repo.get_after_set(1) [OF assms] repo.get_other_after_set [OF assms] by blast

definition sample_repository :: repository where
  "sample_repository = Overrides (Ini new_cIniFile)
     (Memory \<lparr>m_Writable = True, m_Map = [ascii ''Server'' \<mapsto> [(ascii ''Port'', StringValue (ascii ''1''))]]\<rparr>)"

theorem value_read_back_witness:
  "\<exists>r'. GetValue r' (ascii ''Server'') (ascii ''Port'') [] = Inr (ascii ''2'') \<and>
    (\<forall>k' v' d'. same_name (ascii ''Server'') k' \<and> same_name (ascii ''Port'') v' \<or>
      GetValue r' k' v' d' = GetValue sample_repository k' v' d')"
proof -
  have "repository_ok sample_repository" by (simp add: sample_repository_def new_cIniFile_def ini_ok_def)
  moreover have "\<exists>r'. SetValue sample_repository (ascii ''Server'') (ascii ''Port'') (ascii ''2'') True = Inr (True, r')"
    by (simp add: sample_repository_def Memory_HasValue_def find_in_def on_overrides_def lift_Memory_def
        Memory_SetValue_def)
  ultimately show ?thesis using value_read_back by blast
qed

text \<open>
  Overrides shadow and protect the main repository: while a name has an override, reading it gives the
  override, and setting, adding or deleting it changes the overrides only.
\<close>
theorem overrides_shadow:
  assumes "repository_ok (Overrides main over)" and "HasValue over k v = Inr True"
  shows "GetValue (Overrides main over) k v d = GetValue over k v d \<and>
    (\<exists>b over'. SetValue (Overrides main over) k v x c = Inr (b, Overrides main over')) \<and>
    (\<exists>over'. AddValue (Overrides main over) k v x = Inr (Overrides main over')) \<and>
    (\<exists>b over'. DeleteValue (Overrides main over) k v = Inr (b, Overrides main over'))"
proof -
  have ok: "repository_ok over" using assms(1) by simp
  show ?thesis
    using assms(2) repo.set_law [OF ok, of k v x c] repo.add_law [OF ok, of k v x] repo.delete_law [OF ok, of k v]
    by (auto simp: on_overrides_def)
qed

theorem overrides_shadow_witness:
  "\<exists>over. GetValue (Overrides (Ini new_cIniFile) over) (ascii ''Server'') (ascii ''Port'') [] =
     GetValue over (ascii ''Server'') (ascii ''Port'') [] \<and>
    (\<exists>b over'. SetValue (Overrides (Ini new_cIniFile) over) (ascii ''Server'') (ascii ''Port'') [] True =
      Inr (b, Overrides (Ini new_cIniFile) over')) \<and>
    (\<exists>over'. AddValue (Overrides (Ini new_cIniFile) over) (ascii ''Server'') (ascii ''Port'') [] =
      Inr (Overrides (Ini new_cIniFile) over')) \<and>
    (\<exists>b over'. DeleteValue (Overrides (Ini new_cIniFile) over) (ascii ''Server'') (ascii ''Port'') =
      Inr (b, Overrides (Ini new_cIniFile) over'))"
proof -
  let ?over = "Memory \<lparr>m_Writable = True, m_Map = [ascii ''Server'' \<mapsto> [(ascii ''Port'', StringValue [])]]\<rparr>"
  have "HasValue ?over (ascii ''Server'') (ascii ''Port'') = Inr True"
    by (simp add: Memory_HasValue_def find_in_def)
  moreover have "repository_ok (Overrides (Ini new_cIniFile) ?over)" by (simp add: new_cIniFile_def ini_ok_def)
  ultimately show ?thesis using overrides_shadow by (intro exI [of _ ?over])
qed

lemma sort_Nil_iff [simp]: "sort xs = [] \<longleftrightarrow> xs = []"
  by (metis length_0_conv length_sort)

lemma sorted_fst: "sorted (xs :: (AString \<times> AString) list) \<Longrightarrow> i \<le> j \<Longrightarrow> j < length xs \<Longrightarrow> fst (xs ! i) \<le> fst (xs ! j)"
proof -
  assume "sorted xs" and "i \<le> j" and "j < length xs"
  then have "xs ! i \<le> xs ! j" by (rule sorted_nth_mono)
  then show "fst (xs ! i) \<le> fst (xs ! j)" by (auto simp: less_eq_prod_def)
qed

text \<open>The inner loop ends inside the overrides unless the name is greater than the last of them.\<close>

lemma GetValues_while_cases:
  assumes "sorted overrides" and "i < length overrides"
  shows "if fst (last overrides) < name then GetValues_while overrides name i ret = Inl OutOfRange
    else \<exists>i' ret'. GetValues_while overrides name i ret = Inr (i', ret') \<and> i' < length overrides"
  using assms
proof (induction overrides name i ret rule: GetValues_while.induct)
  case (1 overrides name i ret)
  have last: "last overrides = overrides ! (length overrides - 1)" using "1.prems"(2) by (intro last_conv_nth) auto
  have le: "fst (overrides ! i) \<le> fst (last overrides)"
    unfolding last using "1.prems" by (intro sorted_fst) auto
  show ?case
  proof (cases "name > fst (overrides ! i)")
    case False
    then show ?thesis using le "1.prems"(2) by (auto simp: GetValues_while.simps [of overrides name i ret])
  next
    case True
    show ?thesis
    proof (cases "Suc i < length overrides")
      case inside: True
      then show ?thesis
        using "1.IH" [OF _ True] "1.prems" True by (simp add: GetValues_while.simps [of overrides name i ret] cong: if_cong)
    next
      case False
      then have i: "i = length overrides - 1" using "1.prems"(2) by linarith
      have "GetValues_while overrides name i ret = Inl OutOfRange"
        using True False "1.prems"(2) by (subst GetValues_while.simps, subst GetValues_while.simps) simp
      then show ?thesis using True last i by simp
    qed
  qed
qed

lemma GetValues_loop_fault:
  "sorted overrides \<Longrightarrow> i < length overrides \<Longrightarrow>
   GetValues_loop overrides main i ret = Inl OutOfRange \<longleftrightarrow> (\<exists>p \<in> set main. fst (last overrides) < fst p)"
proof (induction main arbitrary: i ret)
  case (Cons p main)
  have last: "last overrides = overrides ! (length overrides - 1)" using Cons.prems(2) by (intro last_conv_nth) auto
  have le: "fst (overrides ! i) \<le> fst (last overrides)"
    unfolding last using Cons.prems by (intro sorted_fst) auto
  have w: "if fst (last overrides) < fst p then GetValues_while overrides (fst p) i ret = Inl OutOfRange
    else \<exists>i' ret'. GetValues_while overrides (fst p) i ret = Inr (i', ret') \<and> i' < length overrides"
    by (rule GetValues_while_cases [OF Cons.prems])
  consider "fst p = fst (overrides ! i)" | "fst p \<noteq> fst (overrides ! i)" "fst (last overrides) < fst p"
    | "fst p \<noteq> fst (overrides ! i)" "\<not> fst (last overrides) < fst p" by blast
  then show ?case
  proof cases
    case 1
    then show ?thesis using Cons le by auto
  next
    case 2
    then show ?thesis using Cons.prems w by simp
  next
    case 3
    then obtain i' ret' where "GetValues_while overrides (fst p) i ret = Inr (i', ret')" "i' < length overrides"
      using w by auto
    then show ?thesis using 3 Cons by simp
  qed
qed simp

lemma last_sorted_greatest: "(xs :: (AString \<times> AString) list) \<noteq> [] \<Longrightarrow> (\<forall>o' \<in> set xs. fst o' < n) \<longleftrightarrow> fst (last (sort xs)) < n"
proof
  assume ne: "xs \<noteq> []"
  then have s: "last (sort xs) \<in> set xs" using last_in_set [of "sort xs"] by simp
  then show "\<forall>o' \<in> set xs. fst o' < n \<Longrightarrow> fst (last (sort xs)) < n" by blast
  assume l: "fst (last (sort xs)) < n"
  show "\<forall>o' \<in> set xs. fst o' < n"
  proof
    fix q assume "q \<in> set xs"
    then obtain i where i: "i < length (sort xs)" "q = sort xs ! i" by (metis in_set_conv_nth set_sort)
    have "last (sort xs) = sort xs ! (length (sort xs) - 1)" using ne by (intro last_conv_nth) simp
    then have "fst q \<le> fst (last (sort xs))" using sorted_fst [of "sort xs" i "length (sort xs) - 1"] i by simp
    then show "fst q < n" using l by (rule le_less_trans)
  qed
qed

text \<open>
  Listing the values of a key of an overrides repository reads past the end of the overrides exactly when
  there are overrides and the main repository has a value whose name is greater than each of theirs.
\<close>
theorem GetValues_out_of_range:
  "GetValues_merge main overrides = Inl OutOfRange \<longleftrightarrow>
   overrides \<noteq> [] \<and> (\<exists>p \<in> set main. \<forall>q \<in> set overrides. fst q < fst p)"
proof (cases "overrides = []")
  case True
  have "GetValues_loop [] m i r = Inr (r @ m)" for m i r by (induction m arbitrary: i r) auto
  then show ?thesis using True by (simp add: GetValues_merge_def)
next
  case False
  then have "0 < length (sort overrides)" by simp
  from GetValues_loop_fault [OF sorted_sort this, of "sort main" "[]"] False
  show ?thesis by (simp add: GetValues_merge_def last_sorted_greatest)
qed

theorem GetValues_out_of_range_witness:
  "GetValues_merge [(ascii ''b'', [])] [(ascii ''a'', [])] = Inl OutOfRange"
  unfolding GetValues_out_of_range by (simp add: ascii_def)

lemma GetValues_loop_smaller:
  "0 < length overrides \<Longrightarrow> \<forall>p \<in> set main. fst p \<le> fst (overrides ! 0) \<Longrightarrow>
   GetValues_loop overrides main 0 ret = Inr (ret @ filter (\<lambda>p. fst p \<noteq> fst (overrides ! 0)) main)"
proof (induction main arbitrary: ret)
  case (Cons p main)
  then have "GetValues_while overrides (fst p) 0 ret = Inr (0, ret)"
    by (simp add: GetValues_while.simps [of overrides _ 0] leD)
  then show ?case using Cons by simp
qed simp

text \<open>
  Overrides are lost in the listing: when every override sorts at or after every value of the main
  repository, the result has none of them; it is the values of the main repository in order, without
  those that have the least name among the overrides, which appear in neither form.
\<close>
theorem GetValues_loses_overrides:
  assumes "overrides \<noteq> []" and "\<forall>p \<in> set main. \<forall>q \<in> set overrides. fst p \<le> fst q"
  shows "GetValues_merge main overrides =
    Inr (filter (\<lambda>p. fst p \<noteq> fst (hd (sort overrides))) (sort main))"
proof -
  have "hd (sort overrides) = sort overrides ! 0" using assms(1) by (simp add: hd_conv_nth)
  moreover have "sort overrides ! 0 \<in> set overrides" using assms(1) nth_mem [of 0 "sort overrides"] by simp
  ultimately show ?thesis
    using GetValues_loop_smaller [of "sort overrides" "sort main" "[]"] assms by (simp add: GetValues_merge_def)
qed

theorem GetValues_loses_overrides_witness:
  "GetValues_merge [(ascii ''Port'', ascii ''1'')] [(ascii ''Port'', ascii ''2'')] =
    Inr (filter (\<lambda>p. fst p \<noteq> fst (hd (sort [(ascii ''Port'', ascii ''2'')]))) (sort [(ascii ''Port'', ascii ''1'')]))"
  by (rule GetValues_loses_overrides) simp_all

end
