(* ===== verification/PeerClient.thy ===== *)
theory PeerClient
  imports PacketInput
begin

text \<open>
  The client's connection to the server, \<open>Src/Client/peer_connection_client.cpp\<close>. The socket and the
  resolver belong to the WebRTC library: the model keeps what the code asks of them, the state of the
  socket, the bytes passed to its \<open>Send\<close> and whether a resolution is under way, and takes their answers
  from an environment. The calls on the observer are recorded in the order they are made; an observer
  that calls back into the client is not modelled.
\<close>

section \<open>State\<close>

datatype State = NOT_CONNECTED | RESOLVING | SIGNING_IN | CONNECTED | SIGNING_OUT_WAITING | SIGNING_OUT

datatype socket_state = CS_CLOSED | CS_CONNECTING | CS_CONNECTED

datatype resolution = Running | Done

datatype callback =
  OnDisconnected
| OnSignedIn
| OnPeerConnected int AString
| OnPeerDisconnected int
| OnPeerResponse int int
| OnMessageFromPeer int AString
| OnServerConnectionFailure
| PostNotification "int option"

text \<open>
  \<open>PostNotification\<close> shows a text chosen by the error code; the model keeps the code, or \<open>None\<close> for
  the empty text of an unknown one. \<open>peer_memory\<close> is the initial content of memory a buffer allocates.
\<close>

record peer =
  peer_ReceivedData :: cByteBuffer
  peer_OutPacketBuffer :: cByteBuffer
  server_address :: "AString \<times> int"
  resolver :: "resolution option"
  control_socket :: "socket_state option"
  conn_state :: State
  my_id :: int
  peers :: "int \<rightharpoonup> AString"
  m_bConnect :: bool
  m_strUserName :: AString
  m_strPassWord :: AString
  peer_State :: u32
  calls :: "callback list"
  socket_sent :: AString
  peer_memory :: "nat \<Rightarrow> u8"

text \<open>What the libraries and the user interface answer.\<close>

record environment =
  IsUnresolvedIP :: "AString \<Rightarrow> bool"
  ConnectSucceeds :: "AString \<times> int \<Rightarrow> bool"
  IsBusy :: bool

definition new_PeerConnectionClient :: "(nat \<Rightarrow> u8) \<Rightarrow> peer" where
  "new_PeerConnectionClient memory =
     \<lparr>peer_ReceivedData = new_cByteBuffer memory (64 * KiB),
      peer_OutPacketBuffer = new_cByteBuffer memory (64 * KiB),
      server_address = ([], 0), resolver = None, control_socket = None, conn_state = NOT_CONNECTED,
      my_id = - 1, peers = Map.empty, m_bConnect = False, m_strUserName = [], m_strPassWord = [],
      peer_State = 1, calls = [], socket_sent = [], peer_memory = memory\<rparr>"

definition PORT :: int where
  "PORT = 6666"

definition SERVER :: AString where
  "SERVER = ascii ''127.0.0.1''"

definition kByeMessage :: AString where
  "kByeMessage = ascii ''BYE''"

definition notify :: "callback \<Rightarrow> peer \<Rightarrow> peer" where
  "notify cb p = p\<lparr>calls := calls p @ [cb]\<rparr>"

section \<open>Sending\<close>

definition is_connected :: "peer \<Rightarrow> bool" where
  "is_connected p = m_bConnect p"

text \<open>A call on the socket when there is none is a null dereference, an access out of bounds.\<close>

definition SendData :: "AString \<Rightarrow> peer \<Rightarrow> fault + peer" where
  "SendData a_Data p =
     (if \<not> is_connected p then Inr p
      else if control_socket p = None then Inl OutOfRange
      else Inr (p\<lparr>socket_sent := socket_sent p @ a_Data\<rparr>))"

text \<open>The destructor of \<open>cPacketizer\<close>: the length from a buffer of its own, then the packet.\<close>

definition Packetizer_destructor :: "peer \<Rightarrow> fault + peer" where
  "Packetizer_destructor p =
     (let PacketLen = of_nat (GetUsedSpace (peer_OutPacketBuffer p)) :: u32;
          OutPacketLenBuffer = snd (WriteVarInt32 (new_cByteBuffer (peer_memory p) 20) PacketLen)
      in and_then (SendData (fst (ReadAll OutPacketLenBuffer [])) p) (\<lambda>p.
           let (DataToSend, out) = ReadAll (peer_OutPacketBuffer p) []
           in and_then (SendData DataToSend (p\<lparr>peer_OutPacketBuffer := out\<rparr>)) (\<lambda>p.
                Inr (p\<lparr>peer_OutPacketBuffer := CommitRead (peer_OutPacketBuffer p)\<rparr>))))"

text \<open>The life of a \<open>cPacketizer\<close>.\<close>

definition send_pkt :: "u32 \<Rightarrow> (cByteBuffer \<Rightarrow> fault + cByteBuffer) \<Rightarrow> peer \<Rightarrow> fault + peer" where
  "send_pkt a_PacketType writes p =
     and_then (writes (new_cPacketizer a_PacketType (peer_OutPacketBuffer p))) (\<lambda>out.
       Packetizer_destructor (p\<lparr>peer_OutPacketBuffer := out\<rparr>))"

definition RequestToPeer :: "u32 \<Rightarrow> peer \<Rightarrow> fault + bool \<times> peer" where
  "RequestToPeer peer_id p =
     and_then (send_pkt 0x11 (\<lambda>b. and_then (pkt_WriteVarInt32 peer_id b) (pkt_WriteVarInt32 0)) p) (\<lambda>p.
       Inr (True, p))"

definition SendToPeer :: "u32 \<Rightarrow> AString \<Rightarrow> peer \<Rightarrow> fault + bool \<times> peer" where
  "SendToPeer peer_id message p =
     and_then (send_pkt 0x12 (\<lambda>b. and_then (pkt_WriteVarInt32 peer_id b) (pkt_WriteString message)) p) (\<lambda>p.
       Inr (True, p))"

definition SendHangUp :: "u32 \<Rightarrow> peer \<Rightarrow> fault + bool \<times> peer" where
  "SendHangUp peer_id p = SendToPeer peer_id kByeMessage p"

section \<open>Connecting\<close>

definition Close :: "peer \<Rightarrow> fault + peer" where
  "Close p =
     (if control_socket p = None then Inl OutOfRange
      else Inr (p\<lparr>control_socket := Some CS_CLOSED, resolver := None, my_id := - 1,
             conn_state := NOT_CONNECTED, m_bConnect := False,
             peer_ReceivedData := ClearAll (peer_ReceivedData p),
             peer_OutPacketBuffer := ClearAll (peer_OutPacketBuffer p), peer_State := 1\<rparr>))"

definition ConnectControlSocket :: "environment \<Rightarrow> peer \<Rightarrow> fault + bool \<times> peer" where
  "ConnectControlSocket env p =
     (if \<not> ConnectSucceeds env (server_address p) then and_then (Close p) (\<lambda>p. Inr (False, p))
      else Inr (True, p\<lparr>control_socket := Some CS_CONNECTING\<rparr>))"

definition DoConnect :: "environment \<Rightarrow> peer \<Rightarrow> fault + peer" where
  "DoConnect env p =
     and_then (ConnectControlSocket env (p\<lparr>control_socket := Some CS_CLOSED\<rparr>)) (\<lambda>(ret, p).
       Inr (if ret then p\<lparr>conn_state := SIGNING_IN\<rparr> else notify OnServerConnectionFailure p))"

definition Connect :: "environment \<Rightarrow> AString \<Rightarrow> int \<Rightarrow> AString \<Rightarrow> AString \<Rightarrow> peer \<Rightarrow> fault + peer" where
  "Connect env server port user pass p =
     (if conn_state p \<noteq> NOT_CONNECTED then Inr (notify OnServerConnectionFailure p)
      else if server = [] \<or> user = [] \<or> pass = [] then Inr (notify OnServerConnectionFailure p)
      else
        let port = (if port \<le> 0 then PORT else port);
            p = p\<lparr>server_address := (server, port), m_strUserName := user, m_strPassWord := pass\<rparr>
        in if IsUnresolvedIP env server then Inr (p\<lparr>conn_state := RESOLVING, resolver := Some Running\<rparr>)
           else DoConnect env p)"

text \<open>\<open>result\<close> is the resolved address, or \<open>None\<close> on an error.\<close>

definition OnResolveResult :: "environment \<Rightarrow> AString option \<Rightarrow> peer \<Rightarrow> fault + peer" where
  "OnResolveResult env result p =
     (case result of
        None \<Rightarrow> Inr ((notify OnServerConnectionFailure p)\<lparr>resolver := None, conn_state := NOT_CONNECTED\<rparr>)
      | Some ip \<Rightarrow> DoConnect env (p\<lparr>server_address := (ip, snd (server_address p))\<rparr>))"

definition OnConnect :: "peer \<Rightarrow> fault + peer" where
  "OnConnect p =
     send_pkt 0x00 (\<lambda>b. and_then (pkt_WriteString (ascii ''p2pchat'') b) (\<lambda>b.
       and_then (pkt_WriteString SERVER b) (\<lambda>b.
       and_then (pkt_WriteBEInt32 (word_of_int PORT) b) (pkt_WriteBEInt32 2))))
       (p\<lparr>m_bConnect := True\<rparr>)"

text \<open>The socket that closed is the control socket; both branches on the error tell the observer.\<close>

definition OnClose :: "peer \<Rightarrow> fault + peer" where
  "OnClose p = and_then (Close p) (\<lambda>p. Inr (notify OnServerConnectionFailure p))"

definition OnMessage :: "environment \<Rightarrow> peer \<Rightarrow> fault + peer" where
  "OnMessage env p = DoConnect env p"

definition SignOut :: "peer \<Rightarrow> fault + bool \<times> peer" where
  "SignOut p =
     (if conn_state p = NOT_CONNECTED \<or> conn_state p = SIGNING_OUT then Inr (True, p)
      else and_then
        (case control_socket p of
           None \<Rightarrow> Inl OutOfRange
         | Some s \<Rightarrow>
             if s = CS_CONNECTED then
               and_then (Close (p\<lparr>conn_state := SIGNING_OUT\<rparr>)) (\<lambda>p. Inr (notify OnDisconnected p))
             else Inr (p\<lparr>conn_state := SIGNING_OUT_WAITING\<rparr>))
        (\<lambda>p. Inr (True, p\<lparr>m_strUserName := [], m_strPassWord := []\<rparr>)))"

definition IsSendingMessage :: "peer \<Rightarrow> fault + bool" where
  "IsSendingMessage p =
     (if conn_state p = CONNECTED then
        (case control_socket p of None \<Rightarrow> Inl OutOfRange | Some s \<Rightarrow> Inr (s \<noteq> CS_CLOSED))
      else Inr False)"

section \<open>Packets of the server\<close>

text \<open>
  \<open>HANDLE_READ\<close>: a field that cannot be read ends the handler. A handler returns the rest of the packet
  and the client.
\<close>

definition peer_read ::
    "(cByteBuffer \<Rightarrow> fault + 'a option \<times> cByteBuffer) \<Rightarrow> ('a \<Rightarrow> cByteBuffer \<Rightarrow> peer \<Rightarrow> fault + cByteBuffer \<times> peer) \<Rightarrow>
     cByteBuffer \<Rightarrow> peer \<Rightarrow> fault + cByteBuffer \<times> peer" where
  "peer_read Proc k bb p =
     and_then (Proc bb) (\<lambda>(v, bb). case v of None \<Rightarrow> Inr (bb, p) | Some x \<Rightarrow> k x bb p)"

definition then_rest :: "cByteBuffer \<Rightarrow> fault + peer \<Rightarrow> fault + cByteBuffer \<times> peer" where
  "then_rest bb m = and_then m (\<lambda>p. Inr (bb, p))"

definition known_codes :: "int set" where
  "known_codes = {0, - 1, - 4, - 5, - 6, - 8, - 2, - 3, - 7, - 11, - 12, - 13, - 14}"

definition HandleErrorCode :: "int \<Rightarrow> peer \<Rightarrow> fault + peer" where
  "HandleErrorCode a_Code p =
     (let strReason = (if a_Code \<in> known_codes then Some a_Code else None)
      in and_then (SignOut p) (\<lambda>(_, p).
           Inr (notify (PostNotification strReason) (notify OnDisconnected p))))"

definition HandlePacketStatusRequest :: "cByteBuffer \<Rightarrow> peer \<Rightarrow> fault + cByteBuffer \<times> peer" where
  "HandlePacketStatusRequest =
     peer_read ReadBEInt32 (\<lambda>st. peer_read ReadVarUTF8String (\<lambda>strIP bb p.
       if sint st > 3 \<or> sint st < 1 then Inr (bb, p)
       else then_rest bb
         (send_pkt 0x00 (\<lambda>b. and_then (pkt_WriteString (m_strUserName p) b) (pkt_WriteString (m_strPassWord p)))
           (p\<lparr>peer_State := st\<rparr>))))"

definition HandlePacketLoginDisconnect :: "cByteBuffer \<Rightarrow> peer \<Rightarrow> fault + cByteBuffer \<times> peer" where
  "HandlePacketLoginDisconnect =
     peer_read ReadBEInt32 (\<lambda>a_Reason bb p. then_rest bb (HandleErrorCode (sint (a_Reason :: u32)) p))"

definition HandlePacketLoginSuccess :: "cByteBuffer \<Rightarrow> peer \<Rightarrow> fault + cByteBuffer \<times> peer" where
  "HandlePacketLoginSuccess bb p = Inr (bb, notify OnSignedIn (p\<lparr>peer_State := 3\<rparr>))"

definition HandlePacketKeepAlive :: "cByteBuffer \<Rightarrow> peer \<Rightarrow> fault + cByteBuffer \<times> peer" where
  "HandlePacketKeepAlive =
     peer_read ReadVarInt32 (\<lambda>KeepAliveID bb p. then_rest bb (send_pkt 0x00 (pkt_WriteVarInt32 KeepAliveID) p))"

text \<open>Identifiers become the keys of \<open>peers\<close> and the arguments of the observer as \<open>int\<close>.\<close>

definition HandlePacketUserInfo :: "cByteBuffer \<Rightarrow> peer \<Rightarrow> fault + cByteBuffer \<times> peer" where
  "HandlePacketUserInfo =
     peer_read ReadVarInt32 (\<lambda>uid. peer_read ReadVarUTF8String (\<lambda>name. peer_read ReadVarInt32 (\<lambda>st bb p.
       Inr (bb,
         if (st :: u32) > 3 then
           notify (OnPeerDisconnected (sint (uid :: u32))) (p\<lparr>peers := (peers p)(sint uid := None)\<rparr>)
         else
           notify (OnPeerConnected (sint uid) name) (p\<lparr>peers := (peers p)(sint uid \<mapsto> name)\<rparr>)))))"

definition HandlePacketMedia :: "environment \<Rightarrow> cByteBuffer \<Rightarrow> peer \<Rightarrow> fault + cByteBuffer \<times> peer" where
  "HandlePacketMedia env =
     peer_read ReadVarInt32 (\<lambda>peer_id. peer_read ReadVarInt32 (\<lambda>type bb p.
       if type = 0 then
         then_rest bb (send_pkt 0x11 (\<lambda>b. and_then (pkt_WriteVarInt32 peer_id b)
           (pkt_WriteVarInt32 (if IsBusy env then - 1 else 1))) p)
       else Inr (bb, notify (OnPeerResponse (sint (peer_id :: u32)) (sint (type :: u32))) p)))"

definition HandlePacketMediaMsg :: "cByteBuffer \<Rightarrow> peer \<Rightarrow> fault + cByteBuffer \<times> peer" where
  "HandlePacketMediaMsg =
     peer_read ReadVarInt32 (\<lambda>peer_id. peer_read ReadVarUTF8String (\<lambda>message bb p.
       Inr (bb,
         if message = kByeMessage then notify (OnPeerDisconnected (sint (peer_id :: u32))) p
         else notify (OnMessageFromPeer (sint peer_id) message) p)))"

definition HandlePacketErrorCode :: "cByteBuffer \<Rightarrow> peer \<Rightarrow> fault + cByteBuffer \<times> peer" where
  "HandlePacketErrorCode =
     peer_read ReadBEInt32 (\<lambda>a_Reason bb p. then_rest bb (HandleErrorCode (sint (a_Reason :: u32)) p))"

text \<open>The protected method that no code of the repository calls.\<close>

definition PeerConnectionClient_OnMessageFromPeer :: "int \<Rightarrow> AString \<Rightarrow> peer \<Rightarrow> peer" where
  "PeerConnectionClient_OnMessageFromPeer peer_id message p =
     (if message = kByeMessage then notify (OnPeerDisconnected peer_id) p
      else notify (OnMessageFromPeer peer_id message) p)"

definition handled :: "fault + cByteBuffer \<times> peer \<Rightarrow> fault + bool \<times> cByteBuffer \<times> peer" where
  "handled m = and_then m (\<lambda>(bb, p). Inr (True, bb, p))"

definition peer_HandlePacket :: "environment \<Rightarrow> cByteBuffer \<Rightarrow> u32 \<Rightarrow> peer \<Rightarrow> fault + bool \<times> cByteBuffer \<times> peer" where
  "peer_HandlePacket env bb a_PacketType p =
     (if peer_State p = 1 then
        (if a_PacketType = 0x00 then handled (HandlePacketStatusRequest bb p) else Inr (False, bb, p))
      else if peer_State p = 2 then
        (if a_PacketType = 0x00 then handled (HandlePacketLoginDisconnect bb p)
         else if a_PacketType = 0x01 then handled (HandlePacketLoginSuccess bb p)
         else Inr (False, bb, p))
      else if peer_State p = 3 then
        (if a_PacketType = 0x00 then handled (HandlePacketKeepAlive bb p)
         else if a_PacketType = 0x01 then handled (HandlePacketUserInfo bb p)
         else if a_PacketType = 0x11 then handled (HandlePacketMedia env bb p)
         else if a_PacketType = 0x12 then handled (HandlePacketMediaMsg bb p)
         else if a_PacketType = 0x40 then handled (HandlePacketErrorCode bb p)
         else Inr (False, bb, p))
      else if peer_State p = 255 then Inr (False, bb, p)
      else Inr (False, bb, p\<lparr>peer_State := 255\<rparr>))"

section \<open>Receiving\<close>

text \<open>A packet of the wrong length is only logged; one that is not handled ends the loop.\<close>

definition peer_run_packet :: "environment \<Rightarrow> cByteBuffer \<Rightarrow> peer \<Rightarrow> (fault + peer) + peer" where
  "peer_run_packet env bb p =
     (case ReadVarInt bb of
        Inl e \<Rightarrow> Inl (Inl e)
      | Inr (None, _) \<Rightarrow> Inl (Inr p)
      | Inr (Some PacketType, bb) \<Rightarrow>
          (case peer_HandlePacket env (snd (Write bb [0])) PacketType p of
             Inl e \<Rightarrow> Inl (Inl e)
           | Inr (False, _, p) \<Rightarrow> Inl (Inr p)
           | Inr (True, _, p) \<Rightarrow> Inr p))"

definition peer_turn :: "environment \<Rightarrow> peer \<Rightarrow> (fault + peer) + peer" where
  "peer_turn env p =
     (case cut_packet (peer_memory p) (peer_ReceivedData p) of
        Inl e \<Rightarrow> Inl (Inl e)
      | Inr (rd, None) \<Rightarrow> Inl (Inr (p\<lparr>peer_ReceivedData := rd\<rparr>))
      | Inr (rd, Some bb) \<Rightarrow> peer_run_packet env bb (p\<lparr>peer_ReceivedData := rd\<rparr>))"

text \<open>Data that does not fit is dropped in silence.\<close>

definition peer_AddReceivedData :: "environment \<Rightarrow> AString \<Rightarrow> peer \<Rightarrow> fault + peer" where
  "peer_AddReceivedData env a_Data p =
     (case Write (peer_ReceivedData p) a_Data of
        (False, rd) \<Rightarrow> Inr (p\<lparr>peer_ReceivedData := rd\<rparr>)
      | (True, rd) \<Rightarrow>
          (case while_option (\<lambda>r. \<not> isl r) (\<lambda>r. peer_turn env (projr r)) (Inr (p\<lparr>peer_ReceivedData := rd\<rparr>)) of
             None \<Rightarrow> Inl NoReturn
           | Some r \<Rightarrow> projl r))"

definition peer_DataReceived :: "environment \<Rightarrow> AString \<Rightarrow> peer \<Rightarrow> fault + peer" where
  "peer_DataReceived env a_Data p = peer_AddReceivedData env a_Data p"

text \<open>
  The loop over what \<open>Recv\<close> returns, pieces of at most \<open>0xffff\<close> bytes. Reading from a socket that was
  closed while a piece was handled returns an error.
\<close>

fun OnRead :: "environment \<Rightarrow> AString list \<Rightarrow> peer \<Rightarrow> fault + peer" where
  "OnRead env [] p = Inr p"
| "OnRead env (buffer # rest) p =
     (if buffer = [] \<or> control_socket p = Some CS_CLOSED then Inr p
      else and_then (peer_DataReceived env buffer p) (OnRead env rest))"

section \<open>The bytes of a packet\<close>

definition out_empty :: "cByteBuffer \<Rightarrow> bool" where
  "out_empty b \<longleftrightarrow> buffer_ok b \<and> contents b = [] \<and> capacity b = 65536"

lemma SendData_simps [simp]:
  "\<not> m_bConnect p \<Longrightarrow> SendData d p = Inr p"
  "m_bConnect p \<Longrightarrow> control_socket p = Some s \<Longrightarrow> SendData d p = Inr (p\<lparr>socket_sent := socket_sent p @ d\<rparr>)"
  by (simp_all add: SendData_def is_connected_def)

lemma send_pkt_effect:
  assumes out: "out_empty (peer_OutPacketBuffer p)" and sock: "m_bConnect p \<Longrightarrow> control_socket p \<noteq> None"
    and w: "pkt_as writes e" and fits: "length (varint_bytes ty) + length e \<le> 65536"
  obtains out' where "send_pkt ty writes p = Inr (p\<lparr>peer_OutPacketBuffer := out',
      socket_sent := socket_sent p @ (if m_bConnect p then frame (varint_bytes ty @ e) else [])\<rparr>)"
    and "out_empty out'"
proof -
  let ?b = "new_cPacketizer ty (peer_OutPacketBuffer p)"
  have b: "buffer_ok ?b" "contents ?b = varint_bytes ty" "consumed ?b = []" "capacity ?b = 65536"
    using new_cPacketizer_as [of "peer_OutPacketBuffer p" ty] out by (simp_all add: out_empty_def)
  then have "length (contents ?b) + length e \<le> capacity ?b" using fits by (simp del: length_contents)
  then obtain b' where b': "writes ?b = Inr b'" "buffer_ok b'" "contents b' = varint_bytes ty @ e"
      "consumed b' = []" "capacity b' = 65536"
    using w b unfolding pkt_as_def by metis
  define n where "n = (of_nat (GetUsedSpace b') :: u32)"
  have n: "n = of_nat (length (varint_bytes ty @ e))" by (simp only: n_def GetUsedSpace_eq [OF b'(2)] b'(3))
  define l where "l = snd (WriteVarInt32 (new_cByteBuffer (peer_memory p) 20) n)"
  have l: "buffer_ok l" "contents l = varint_bytes n" "consumed l = []"
    using new_cPacketizer_as [of "new_cByteBuffer (peer_memory p) 20" n]
    by (simp_all add: l_def new_cPacketizer_def new_cByteBuffer_ok)
  have f: "fst (ReadAll l []) @ fst (ReadAll b' []) = frame (varint_bytes ty @ e)"
    by (simp add: ReadAll_contents [OF l(1,3)] ReadAll_contents [OF b'(2,4)] l(2) b'(3) frame_def n)
  let ?out = "CommitRead (snd (ReadAll b' []))"
  have "out_empty ?out" using drained [OF b'(2)] b'(5) by (simp add: out_empty_def)
  moreover have "send_pkt ty writes p = Inr (p\<lparr>peer_OutPacketBuffer := ?out,
      socket_sent := socket_sent p @ (if m_bConnect p then frame (varint_bytes ty @ e) else [])\<rparr>)"
    using sock by (cases "m_bConnect p")
      (auto simp: send_pkt_def b'(1) Packetizer_destructor_def Let_def case_prod_beta simp flip: n_def l_def f)
  ultimately show thesis by (rule that [rotated])
qed

section \<open>The invariant\<close>

text \<open>
  The states of the connection that occur: not connected, resolving, or signing in, which lasts as
  long as the connection.
\<close>

definition peer_inv :: "peer \<Rightarrow> bool" where
  "peer_inv p \<longleftrightarrow>
     received_ok (peer_ReceivedData p) \<and> out_empty (peer_OutPacketBuffer p) \<and>
     length (m_strUserName p) + length (m_strPassWord p) \<le> 65529 \<and>
     conn_state p \<in> {NOT_CONNECTED, RESOLVING, SIGNING_IN} \<and>
     (conn_state p \<noteq> SIGNING_IN \<longrightarrow> \<not> m_bConnect p \<and> control_socket p \<in> {None, Some CS_CLOSED}) \<and>
     (conn_state p = SIGNING_IN \<longrightarrow> control_socket p = Some (if m_bConnect p then CS_CONNECTED else CS_CONNECTING)) \<and>
     (resolver p = Some Running \<longleftrightarrow> conn_state p = RESOLVING)"

text \<open>What holds while data is handled: connected, or closed since.\<close>

definition live :: "peer \<Rightarrow> bool" where
  "live p \<longleftrightarrow> peer_inv p \<and> (m_bConnect p \<or> conn_state p = NOT_CONNECTED)"

definition peer_received :: "peer \<Rightarrow> u8 list" where
  "peer_received p = unread (peer_ReceivedData p)"

lemma live_cases:
  assumes "live p"
  obtains (connected) "m_bConnect p" and "control_socket p = Some CS_CONNECTED" and "conn_state p = SIGNING_IN"
  | (closed) "\<not> m_bConnect p" and "conn_state p = NOT_CONNECTED"
  using assms by (auto simp: live_def peer_inv_def)

lemma liveD:
  assumes "live p"
  shows "received_ok (peer_ReceivedData p)" and "out_empty (peer_OutPacketBuffer p)"
    and "m_bConnect p \<Longrightarrow> control_socket p \<noteq> None" and "peer_inv p"
  using assms by (auto simp: live_def peer_inv_def)

text \<open>Fields that do not matter to the invariant.\<close>

lemma peer_inv_simps [simp]:
  "peer_inv (notify cb p) = peer_inv p"
  "peer_inv (p\<lparr>peer_State := s\<rparr>) = peer_inv p"
  "peer_inv (p\<lparr>peers := q\<rparr>) = peer_inv p"
  "peer_inv (p\<lparr>socket_sent := t\<rparr>) = peer_inv p"
  by (simp_all add: peer_inv_def notify_def)

lemma live_simps [simp]:
  "live (notify cb p) = live p" "live (p\<lparr>peer_State := s\<rparr>) = live p" "live (p\<lparr>peers := q\<rparr>) = live p"
  by (simp_all add: live_def) (simp_all add: notify_def)

lemma live_updates:
  "live p \<Longrightarrow> received_ok b \<Longrightarrow> live (p\<lparr>peer_ReceivedData := b\<rparr>)"
  "live p \<Longrightarrow> out_empty b \<Longrightarrow> live (p\<lparr>peer_OutPacketBuffer := b, socket_sent := t\<rparr>)"
  by (simp_all add: live_def peer_inv_def)

lemma peer_received_simps [simp]:
  "peer_received (notify cb p) = peer_received p" "peer_received (p\<lparr>peer_State := s\<rparr>) = peer_received p"
  "peer_received (p\<lparr>peers := q\<rparr>) = peer_received p"
  "peer_received (p\<lparr>peer_OutPacketBuffer := b, socket_sent := t\<rparr>) = peer_received p"
  by (simp_all add: peer_received_def notify_def)

text \<open>A part of a handler: it keeps the invariant and adds nothing to the received data.\<close>

definition mild :: "peer \<Rightarrow> fault + peer \<Rightarrow> bool" where
  "mild p m \<longleftrightarrow> (\<exists>p'. m = Inr p' \<and> live p' \<and> length (peer_received p') \<le> length (peer_received p))"

lemma mild_Inr [simp]: "mild p (Inr p') \<longleftrightarrow> live p' \<and> length (peer_received p') \<le> length (peer_received p)"
  by (simp add: mild_def)

lemma send_pkt_mild:
  assumes "live p" and "pkt_as writes e" and "length (varint_bytes ty) + length e \<le> 65536"
  shows "mild p (send_pkt ty writes p)"
proof -
  obtain out' where "send_pkt ty writes p = Inr (p\<lparr>peer_OutPacketBuffer := out',
      socket_sent := socket_sent p @ (if m_bConnect p then frame (varint_bytes ty @ e) else [])\<rparr>)" "out_empty out'"
    using send_pkt_effect [OF liveD(2,3) [OF assms(1)] assms(2,3)] assms(1) by metis
  then show ?thesis using live_updates(2) [OF assms(1)] by simp
qed

lemma Close_effect:
  assumes "peer_inv p" and "control_socket p \<noteq> None"
  obtains p' where "Close p = Inr p'" and "live p'" and "peer_received p' = []" and "conn_state p' = NOT_CONNECTED"
    and "calls p' = calls p" and "m_strUserName p' = m_strUserName p" and "m_strPassWord p' = m_strPassWord p"
proof -
  let ?p = "p\<lparr>control_socket := Some CS_CLOSED, resolver := None, my_id := - 1,
             conn_state := NOT_CONNECTED, m_bConnect := False,
             peer_ReceivedData := ClearAll (peer_ReceivedData p),
             peer_OutPacketBuffer := ClearAll (peer_OutPacketBuffer p), peer_State := 1\<rparr>"
  have r: "received_ok (peer_ReceivedData p)" "out_empty (peer_OutPacketBuffer p)"
      "length (m_strUserName p) + length (m_strPassWord p) \<le> 65529" using assms(1) by (simp_all add: peer_inv_def)
  have o: "buffer_ok (peer_OutPacketBuffer p)" "capacity (peer_OutPacketBuffer p) = 65536"
    using r(2) by (simp_all add: out_empty_def)
  have c: "received_ok (ClearAll (peer_ReceivedData p))" "unread (ClearAll (peer_ReceivedData p)) = []"
    using ClearAll_ok [OF received_okD(1) [OF r(1)]] received_okD(3) [OF r(1)]
      consumed_unread [of "ClearAll (peer_ReceivedData p)"] by (simp_all add: received_ok_def)
  have "out_empty (ClearAll (peer_OutPacketBuffer p))" using ClearAll_ok [OF o(1)] o(2) by (simp add: out_empty_def)
  then have "live ?p" using c r(3) by (simp add: live_def peer_inv_def)
  then show thesis using that [of ?p] assms(2) c(2) by (simp add: Close_def peer_received_def)
qed

lemma SignOut_mild:
  assumes "live p"
  obtains p' where "SignOut p = Inr (True, p')" and "live p'" and "length (peer_received p') \<le> length (peer_received p)"
  using assms
proof (cases rule: live_cases)
  case connected
  let ?p = "p\<lparr>conn_state := SIGNING_OUT\<rparr>"
  have e: "Close ?p = Close p" by (simp add: Close_def)
  obtain p' where p': "Close p = Inr p'" "live p'" "peer_received p' = []" "conn_state p' = NOT_CONNECTED"
    using Close_effect [OF liveD(4) [OF assms]] connected(2) by auto
  let ?q = "(notify OnDisconnected p')\<lparr>m_strUserName := [], m_strPassWord := []\<rparr>"
  have "live ?q" using p'(2) by (auto simp: live_def peer_inv_def notify_def)
  moreover have "peer_received ?q = []" using p'(3) by (simp add: peer_received_def notify_def)
  ultimately show thesis using that [of ?q] connected p'(1) by (simp add: SignOut_def e)
next
  case closed
  then show thesis using that [of p] assms by (simp add: SignOut_def)
qed

lemma HandleErrorCode_mild: "live p \<Longrightarrow> mild p (HandleErrorCode c p)"
  by (rule SignOut_mild [of p]) (simp_all add: HandleErrorCode_def Let_def)

section \<open>Handlers keep the invariant\<close>

definition mild2 :: "peer \<Rightarrow> fault + cByteBuffer \<times> peer \<Rightarrow> bool" where
  "mild2 p m \<longleftrightarrow>
     (case m of
        Inl e \<Rightarrow> e = ShiftTooFar
      | Inr (bb, p') \<Rightarrow> live p' \<and> length (peer_received p') \<le> length (peer_received p))"

lemma mild2_Inr [simp]:
  "mild2 p (Inr (bb, p')) \<longleftrightarrow> live p' \<and> length (peer_received p') \<le> length (peer_received p)"
  by (simp add: mild2_def)

lemma mild2_then_rest: "mild p m \<Longrightarrow> mild2 p (then_rest bb m)"
  by (auto simp: mild_def then_rest_def)

lemma peer_read_mild:
  assumes "reads_as f q" and "buffer_ok bb" and "live p" and "\<And>e. q (unread bb) = Inl e \<Longrightarrow> e = ShiftTooFar"
    and "\<And>x bb'. buffer_ok bb' \<Longrightarrow> mild2 p (k x bb' p)"
  shows "mild2 p (peer_read f k bb p)"
proof (cases "q (unread bb)")
  case (Inl e)
  then show ?thesis using reads_as_Inl [OF assms(1,2) Inl] assms(4) by (simp add: peer_read_def mild2_def)
next
  case (Inr r)
  obtain v rest where d: "q (unread bb) = Inr (v, rest)" using Inr by (cases r) simp
  obtain b' where "f bb = Inr (v, b')" "buffer_ok b'" using reads_as_Inr [OF assms(1,2) d] by metis
  then show ?thesis using assms(3,5) by (simp add: peer_read_def split: option.split)
qed

lemma peer_reads_mild:
  assumes "live p" and "buffer_ok bb"
  shows "(\<And>x bb'. buffer_ok bb' \<Longrightarrow> mild2 p (kS x bb' p)) \<Longrightarrow> mild2 p (peer_read ReadVarUTF8String kS bb p)"
    and "(\<And>x bb'. buffer_ok bb' \<Longrightarrow> mild2 p (kI x bb' p)) \<Longrightarrow> mild2 p (peer_read ReadBEInt32 kI bb p)"
    and "(\<And>x bb'. buffer_ok bb' \<Longrightarrow> mild2 p (kV x bb' p)) \<Longrightarrow> mild2 p (peer_read ReadVarInt32 kV bb p)"
proof -
  show "mild2 p (peer_read ReadVarUTF8String kS bb p)" if "\<And>x bb'. buffer_ok bb' \<Longrightarrow> mild2 p (kS x bb' p)"
    using that by (intro peer_read_mild [OF ReadVarUTF8String_reads_as assms(2,1)]) (auto dest: dec_string_fault)
  show "mild2 p (peer_read ReadBEInt32 kI bb p)" if "\<And>x bb'. buffer_ok bb' \<Longrightarrow> mild2 p (kI x bb' p)"
    using that by (intro peer_read_mild [OF read_be(5) assms(2,1)]) (auto simp: dec_fixed_no_fault)
  show "mild2 p (peer_read ReadVarInt32 kV bb p)" if "\<And>x bb'. buffer_ok bb' \<Longrightarrow> mild2 p (kV x bb' p)"
    using that by (intro peer_read_mild [OF read_varint(1) assms(2,1)]) (auto dest: dec_faults(1))
qed

lemma type_byte: "unat (ty :: u32) < 128 \<Longrightarrow> length (varint_bytes ty) \<le> 1"
  by (rule varint_length_bounds)

lemma two_varints_fit:
  "unat (ty :: u32) < 128 \<Longrightarrow> length (varint_bytes ty) + length (varint_bytes (a :: u32) @ varint_bytes (b :: u32)) \<le> 65536"
  using type_byte [of ty] varint_length_bounds(1) [of a] varint_length_bounds(1) [of b] by simp

lemma HandlePacketStatusRequest_mild:
  assumes "live p" and "buffer_ok bb"
  shows "mild2 p (HandlePacketStatusRequest bb p)"
  unfolding HandlePacketStatusRequest_def
proof (intro peer_reads_mild assms)
  fix st :: u32 and s bb' assume "buffer_ok bb'"
  have w: "pkt_as (\<lambda>b. and_then (pkt_WriteString (m_strUserName p) b) (pkt_WriteString (m_strPassWord p)))
      (string_bytes (m_strUserName p) @ string_bytes (m_strPassWord p))"
    by (intro pkt_as_seq pkt_writers)
  have "length (m_strUserName p) + length (m_strPassWord p) \<le> 65529" using assms(1) by (simp add: live_def peer_inv_def)
  then have "length (varint_bytes (0x00 :: u32)) +
      length (string_bytes (m_strUserName p) @ string_bytes (m_strPassWord p)) \<le> 65536"
    using type_byte [of "0x00"] string_bytes_bound [of "m_strUserName p"] string_bytes_bound [of "m_strPassWord p"] by simp
  from send_pkt_mild [OF _ w this, of "p\<lparr>peer_State := st\<rparr>"] assms(1)
  have "mild p (send_pkt 0x00 (\<lambda>b. and_then (pkt_WriteString (m_strUserName p) b) (pkt_WriteString (m_strPassWord p)))
      (p\<lparr>peer_State := st\<rparr>))" by (simp add: mild_def)
  then show "mild2 p (if sint st > 3 \<or> sint st < 1 then Inr (bb', p)
      else then_rest bb' (send_pkt 0x00 (\<lambda>b. and_then (pkt_WriteString (m_strUserName p) b)
        (pkt_WriteString (m_strPassWord p))) (p\<lparr>peer_State := st\<rparr>)))"
    using assms(1) by (simp add: mild2_then_rest)
qed

lemma HandlePacketKeepAlive_mild: "live p \<Longrightarrow> buffer_ok bb \<Longrightarrow> mild2 p (HandlePacketKeepAlive bb p)"
  unfolding HandlePacketKeepAlive_def
proof (rule peer_reads_mild(3))
  fix i :: u32 and bb' assume "live p"
  then show "mild2 p (then_rest bb' (send_pkt 0x00 (pkt_WriteVarInt32 i) p))"
    using type_byte [of "0x00"] varint_length_bounds(1) [of i]
    by (intro mild2_then_rest send_pkt_mild [OF _ pkt_writers(4)]) simp_all
qed

lemma HandlePacketMedia_mild: "live p \<Longrightarrow> buffer_ok bb \<Longrightarrow> mild2 p (HandlePacketMedia env bb p)"
  unfolding HandlePacketMedia_def
proof (intro peer_reads_mild)
  fix i t :: u32 and bb' assume p: "live p"
  let ?v = "if IsBusy env then - 1 else 1 :: u32"
  have w: "pkt_as (\<lambda>b. and_then (pkt_WriteVarInt32 i b) (pkt_WriteVarInt32 ?v)) (varint_bytes i @ varint_bytes ?v)"
    by (intro pkt_as_seq pkt_writers)
  from send_pkt_mild [OF p w two_varints_fit] p
  show "mild2 p (if t = 0 then then_rest bb' (send_pkt 0x11 (\<lambda>b. and_then (pkt_WriteVarInt32 i b)
      (pkt_WriteVarInt32 ?v)) p) else Inr (bb', notify (OnPeerResponse (sint i) (sint t)) p))"
    by (simp add: mild2_then_rest)
qed

lemma other_handlers_mild:
  assumes "live p" and "buffer_ok bb"
  shows "mild2 p (HandlePacketLoginDisconnect bb p)" and "mild2 p (HandlePacketLoginSuccess bb p)"
    and "mild2 p (HandlePacketUserInfo bb p)" and "mild2 p (HandlePacketMediaMsg bb p)"
    and "mild2 p (HandlePacketErrorCode bb p)"
  using assms
  by (auto simp: HandlePacketLoginDisconnect_def HandlePacketLoginSuccess_def HandlePacketUserInfo_def
      HandlePacketMediaMsg_def HandlePacketErrorCode_def intro!: peer_reads_mild mild2_then_rest HandleErrorCode_mild)

lemmas handlers_mild = HandlePacketStatusRequest_mild HandlePacketKeepAlive_mild HandlePacketMedia_mild other_handlers_mild

lemma HandlePacket_mild:
  assumes "live p" and "buffer_ok bb"
  shows "case peer_HandlePacket env bb ty p of
      Inl e \<Rightarrow> e = ShiftTooFar
    | Inr (ok, bb', p') \<Rightarrow> live p' \<and> length (peer_received p') \<le> length (peer_received p)"
proof -
  have h: "mild2 p m \<Longrightarrow> case handled m of
      Inl e \<Rightarrow> e = ShiftTooFar
    | Inr (ok, bb', p') \<Rightarrow> live p' \<and> length (peer_received p') \<le> length (peer_received p)" for m
    by (auto simp: handled_def mild2_def split: sum.splits)
  have "\<not> P \<or> P" for P by simp
  then show ?thesis
    unfolding peer_HandlePacket_def using assms by (simp add: h handlers_mild)
qed

lemma run_packet_mild:
  assumes "live p" and bb: "buffer_ok bb" "consumed bb = []" "capacity bb = length (unread bb) + 1"
  shows "case peer_run_packet env bb p of
      Inl m \<Rightarrow> (case m of Inl e \<Rightarrow> e = ShiftTooFar | Inr p' \<Rightarrow> live p')
    | Inr p' \<Rightarrow> live p' \<and> length (peer_received p') \<le> length (peer_received p)"
proof (cases "dec_varint (unread bb) :: fault + u32 option \<times> u8 list")
  case (Inl e)
  have "ReadVarInt bb = (Inl e :: fault + u32 option \<times> cByteBuffer)"
    by (rule reads_as_Inl [OF ReadVarInt_reads_as bb(1) Inl])
  then show ?thesis using dec_faults(2) [OF Inl] by (simp add: peer_run_packet_def)
next
  case (Inr r)
  obtain v rest where d: "dec_varint (unread bb) = Inr (v :: u32 option, rest)" using Inr by (cases r) simp
  show ?thesis
  proof (cases v)
    case None
    obtain b1 where "ReadVarInt bb = Inr (None :: u32 option, b1)"
      using reads_as_Inr [OF ReadVarInt_reads_as bb(1) d] None by metis
    then show ?thesis using assms(1) by (simp add: peer_run_packet_def)
  next
    case (Some ty)
    obtain b1 where "ReadVarInt bb = Inr (Some ty, b1)" "buffer_ok (snd (Write b1 [0]))"
      using packet_type_read [OF bb d [unfolded Some]] by blast
    then show ?thesis
      using HandlePacket_mild [OF assms(1), of "snd (Write b1 [0])" env ty]
      by (auto simp: peer_run_packet_def split: sum.splits prod.splits bool.splits)
  qed
qed

section \<open>The loop of the client\<close>

interpretation client_in: packet_reader "\<lambda>_. True" peer_ReceivedData "\<lambda>b p. p\<lparr>peer_ReceivedData := b\<rparr>" peer_memory
  "peer_run_packet env" "peer_turn env" for env
  by unfold_locales (simp_all add: peer_turn_def)

text \<open>Handling data ends with a live client or with the overlong integer.\<close>

definition ends_well :: "fault + peer \<Rightarrow> bool" where
  "ends_well m \<longleftrightarrow> (case m of Inl e \<Rightarrow> e = ShiftTooFar | Inr p \<Rightarrow> live p)"

lemma peer_AddReceivedData_ends: "live p \<Longrightarrow> ends_well (peer_AddReceivedData env d p)"
proof -
  assume p: "live p"
  obtain f rd where rd: "Write (peer_ReceivedData p) d = (f, rd)" and ok: "received_ok rd"
    using Write_received_ok [OF liveD(1) [OF p], of d] by metis
  note p1 = live_updates(1) [OF p ok]
  have "\<exists>r. while_option (\<lambda>r. \<not> isl r) (\<lambda>r. peer_turn env (projr r)) (Inr (p\<lparr>peer_ReceivedData := rd\<rparr>)) =
      Some (Inl r) \<and> ends_well r"
  proof (rule client_in.loop_ends [where I = live])
    fix q bb assume "live q" "buffer_ok bb" "consumed bb = []" "capacity bb = length (unread bb) + 1"
    from run_packet_mild [OF this, of env]
    show "case peer_run_packet env bb q of Inl m \<Rightarrow> ends_well m
      | Inr q' \<Rightarrow> live q' \<and> length (unread (peer_ReceivedData q')) \<le> length (unread (peer_ReceivedData q))"
      by (auto simp: ends_well_def peer_received_def split: sum.splits)
  qed (use p1 live_updates(1) liveD(1) in \<open>auto simp: ends_well_def\<close>)
  then show ?thesis using p1 by (cases f) (auto simp: peer_AddReceivedData_def rd ends_well_def)
qed

lemma OnRead_ends: "live p \<Longrightarrow> ends_well (OnRead env bufs p)"
proof (induction env bufs p rule: OnRead.induct)
  case (2 env b bufs p)
  then show ?case
    using peer_AddReceivedData_ends [of p env b]
    by (cases "peer_AddReceivedData env b p") (auto simp: peer_DataReceived_def ends_well_def)
qed (simp add: ends_well_def)

end
