(* ===== verification/PeerClientProperties.thy ===== *)
theory PeerClientProperties
  imports PeerClient
begin

text \<open>
  What holds of the client in every run: the events of the network, the resolver and the user, the states
  they reach, the safety of every step, and what one packet of the server makes the observer see.
\<close>

section \<open>Events\<close>

datatype peer_event =
  EvConnect AString int AString AString
| EvResolved "AString option"
| EvConnected
| EvData "AString list"
| EvClosed
| EvRequest u32
| EvSend u32 AString
| EvHangUp u32
| EvSignOut

fun peer_do :: "environment \<Rightarrow> peer_event \<Rightarrow> peer \<Rightarrow> fault + peer" where
  "peer_do env (EvConnect server port user pass) p = Connect env server port user pass p"
| "peer_do env (EvResolved result) p = OnResolveResult env result (p\<lparr>resolver := Some Done\<rparr>)"
| "peer_do env EvConnected p = OnConnect (p\<lparr>control_socket := Some CS_CONNECTED\<rparr>)"
| "peer_do env (EvData buffers) p = OnRead env buffers p"
| "peer_do env EvClosed p = OnClose p"
| "peer_do env (EvRequest peer_id) p = and_then (RequestToPeer peer_id p) (\<lambda>(_, p). Inr p)"
| "peer_do env (EvSend peer_id message) p = and_then (SendToPeer peer_id message p) (\<lambda>(_, p). Inr p)"
| "peer_do env (EvHangUp peer_id) p = and_then (SendHangUp peer_id p) (\<lambda>(_, p). Inr p)"
| "peer_do env EvSignOut p = and_then (SignOut p) (\<lambda>(_, p). Inr p)"

text \<open>
  When the libraries and the user interface cause an event: a resolution that is running ends once, a
  socket that is connecting connects, data comes from a connected socket, and the user interface signs
  out when connected (\<open>Conductor::DisconnectFromServer\<close>; \<open>Conductor::Close\<close>, which signs out whatever the state,
  is treated in \<open>ConductorProperties\<close>). Texts are short enough for a packet.
\<close>

fun can_occur :: "peer_event \<Rightarrow> peer \<Rightarrow> bool" where
  "can_occur (EvConnect server port user pass) p \<longleftrightarrow> length user + length pass \<le> 65529"
| "can_occur (EvResolved result) p \<longleftrightarrow> resolver p = Some Running"
| "can_occur EvConnected p \<longleftrightarrow> control_socket p = Some CS_CONNECTING"
| "can_occur (EvData buffers) p \<longleftrightarrow> m_bConnect p"
| "can_occur EvClosed p \<longleftrightarrow> control_socket p = Some CS_CONNECTING \<or> control_socket p = Some CS_CONNECTED"
| "can_occur (EvSend peer_id message) p \<longleftrightarrow> length message \<le> 65527"
| "can_occur EvSignOut p \<longleftrightarrow> m_bConnect p"
| "can_occur _ p \<longleftrightarrow> True"

inductive peer_reachable :: "peer \<Rightarrow> bool" where
  start: "peer_reachable (new_PeerConnectionClient memory)"
| step: "peer_reachable p \<Longrightarrow> can_occur ev p \<Longrightarrow> peer_do env ev p = Inr p' \<Longrightarrow> peer_reachable p'"

definition fine_end :: "fault + peer \<Rightarrow> bool" where
  "fine_end m \<longleftrightarrow> (case m of Inl e \<Rightarrow> e = ShiftTooFar | Inr p \<Rightarrow> peer_inv p)"

lemma fine_end_Inr [simp]: "fine_end (Inr p) \<longleftrightarrow> peer_inv p"
  by (simp add: fine_end_def)

lemma ends_well_fine: "ends_well m \<Longrightarrow> fine_end m"
  using liveD(4) by (auto simp: ends_well_def fine_end_def split: sum.splits)

lemma DoConnect_fine:
  assumes "received_ok (peer_ReceivedData p)" and "out_empty (peer_OutPacketBuffer p)"
    and "length (m_strUserName p) + length (m_strPassWord p) \<le> 65529" and "\<not> m_bConnect p"
    and "resolver p \<noteq> Some Running"
  shows "fine_end (DoConnect env p)"
proof (cases "ConnectSucceeds env (server_address p)")
  case True
  then show ?thesis
    using assms by (simp add: DoConnect_def ConnectControlSocket_def peer_inv_def)
next
  case False
  let ?p = "p\<lparr>control_socket := Some CS_CLOSED\<rparr>"
  have e: "Close ?p = Close (?p\<lparr>conn_state := NOT_CONNECTED\<rparr>)" by (simp add: Close_def)
  have "peer_inv (?p\<lparr>conn_state := NOT_CONNECTED\<rparr>)" using assms by (simp add: peer_inv_def)
  then obtain p' where "Close ?p = Inr p'" "live p'" using Close_effect [of "?p\<lparr>conn_state := NOT_CONNECTED\<rparr>"] e by auto
  then show ?thesis using False liveD(4) by (simp add: DoConnect_def ConnectControlSocket_def)
qed

lemma send_pkt_fine:
  assumes "peer_inv p" and "pkt_as writes e" and "length (varint_bytes ty) + length e \<le> 65536"
  shows "fine_end (send_pkt ty writes p)"
proof -
  have o: "out_empty (peer_OutPacketBuffer p)" "m_bConnect p \<Longrightarrow> control_socket p \<noteq> None"
    using assms(1) by (auto simp: peer_inv_def)
  obtain out' where "send_pkt ty writes p = Inr (p\<lparr>peer_OutPacketBuffer := out',
      socket_sent := socket_sent p @ (if m_bConnect p then frame (varint_bytes ty @ e) else [])\<rparr>)" "out_empty out'"
    using send_pkt_effect [OF o assms(2,3)] by metis
  then show ?thesis using assms(1) by (simp add: peer_inv_def)
qed

lemma OnConnect_packet:
  "pkt_as (\<lambda>b. and_then (pkt_WriteString (ascii ''p2pchat'') b) (\<lambda>b. and_then (pkt_WriteString SERVER b) (\<lambda>b.
      and_then (pkt_WriteBEInt32 (word_of_int PORT) b) (pkt_WriteBEInt32 2))))
    (string_bytes (ascii ''p2pchat'') @ string_bytes SERVER @ be_store 4 (word_of_int PORT :: u32) @ be_store 4 (2 :: u32))"
  by (intro pkt_as_seq pkt_writers)

lemma OnConnect_fits:
  "length (varint_bytes (0x00 :: u32)) + length (string_bytes (ascii ''p2pchat'') @ string_bytes SERVER @
     be_store 4 (word_of_int PORT :: u32) @ be_store 4 (2 :: u32)) \<le> 65536"
  using type_byte [of "0x00"] string_bytes_bound [of "ascii ''p2pchat''"] string_bytes_bound [of SERVER]
  by (simp add: SERVER_def ascii_def)

lemma SendToPeer_packet:
  assumes "length message \<le> 65527"
  shows "pkt_as (\<lambda>b. and_then (pkt_WriteVarInt32 i b) (pkt_WriteString message)) (varint_bytes i @ string_bytes message)"
    and "length (varint_bytes (0x12 :: u32)) + length (varint_bytes (i :: u32) @ string_bytes message) \<le> 65536"
proof -
  show "pkt_as (\<lambda>b. and_then (pkt_WriteVarInt32 i b) (pkt_WriteString message)) (varint_bytes i @ string_bytes message)"
    by (intro pkt_as_seq pkt_writers)
  show "length (varint_bytes (0x12 :: u32)) + length (varint_bytes i @ string_bytes message) \<le> 65536"
    using assms type_byte [of "0x12"] varint_length_bounds(1) [of i] string_bytes_bound [of message] by simp
qed

lemma fine_end_map: "fine_end m \<Longrightarrow> fine_end (and_then (and_then m (\<lambda>p. Inr (b, p))) (\<lambda>(_, p). Inr p))"
  by (cases m) simp_all

lemma peer_event_fine:
  assumes inv: "peer_inv p" and ev: "can_occur ev p"
  shows "fine_end (peer_do env ev p)"
proof (cases ev)
  case (EvConnect server port user pass)
  have n: "conn_state p = NOT_CONNECTED \<Longrightarrow> \<not> m_bConnect p \<and> resolver p \<noteq> Some Running" "out_empty (peer_OutPacketBuffer p)"
    "received_ok (peer_ReceivedData p)" using inv by (auto simp: peer_inv_def)
  show ?thesis
    using inv ev n EvConnect by (auto simp: Connect_def Let_def intro!: DoConnect_fine) (auto simp: peer_inv_def)
next
  case (EvResolved result)
  have n: "conn_state p = RESOLVING" "\<not> m_bConnect p" "control_socket p = None \<or> control_socket p = Some CS_CLOSED"
    using inv ev EvResolved by (auto simp: peer_inv_def)
  show ?thesis
  proof (cases result)
    case None
    then show ?thesis using EvResolved n inv by (auto simp: OnResolveResult_def notify_def peer_inv_def)
  next
    case (Some ip)
    then show ?thesis using EvResolved n inv by (auto simp: OnResolveResult_def peer_inv_def intro!: DoConnect_fine)
  qed
next
  case EvConnected
  have "peer_inv (p\<lparr>control_socket := Some CS_CONNECTED, m_bConnect := True\<rparr>)"
    using inv ev EvConnected by (auto simp: peer_inv_def split: if_splits)
  from send_pkt_fine [OF this OnConnect_packet OnConnect_fits] show ?thesis
    using EvConnected by (simp add: OnConnect_def)
next
  case (EvData buffers)
  then show ?thesis using OnRead_ends [of p env buffers] inv ev by (simp add: ends_well_fine live_def)
next
  case EvClosed
  then have "control_socket p \<noteq> None" using ev by auto
  then obtain p' where "Close p = Inr p'" "live p'" using Close_effect [OF inv] by metis
  then show ?thesis using EvClosed liveD(4) by (simp add: OnClose_def)
next
  case (EvRequest i)
  have "pkt_as (\<lambda>b. and_then (pkt_WriteVarInt32 i b) (pkt_WriteVarInt32 0)) (varint_bytes i @ varint_bytes (0 :: u32))"
    by (intro pkt_as_seq pkt_writers)
  from send_pkt_fine [OF inv this two_varints_fit] show ?thesis
    using EvRequest by (simp add: RequestToPeer_def fine_end_map)
next
  case (EvSend i m)
  then have "length m \<le> 65527" using ev by simp
  from send_pkt_fine [OF inv SendToPeer_packet [OF this]] show ?thesis
    using EvSend by (simp add: SendToPeer_def fine_end_map)
next
  case (EvHangUp i)
  have "length kByeMessage \<le> 65527" by (simp add: kByeMessage_def ascii_def)
  from send_pkt_fine [OF inv SendToPeer_packet [OF this]] show ?thesis
    using EvHangUp by (simp add: SendHangUp_def SendToPeer_def fine_end_map)
next
  case EvSignOut
  have "live p" using inv ev EvSignOut by (simp add: live_def)
  from SignOut_mild [OF this] show ?thesis using EvSignOut liveD(4) by (metis and_then_simps(2) case_prod_conv fine_end_Inr peer_do.simps(9))
qed

lemma peer_reachable_inv: "peer_reachable p \<Longrightarrow> peer_inv p"
proof (induction rule: peer_reachable.induct)
  case (start memory)
  have "received_ok (new_cByteBuffer memory 65536)" "out_empty (new_cByteBuffer memory 65536)"
    by (simp_all add: received_ok_def out_empty_def new_cByteBuffer_ok)
  then show ?case by (simp add: new_PeerConnectionClient_def peer_inv_def KiB_def)
next
  case (step p ev env p')
  then show ?case using peer_event_fine [of p ev env] by simp
qed

section \<open>The properties\<close>



text \<open>
  The client is never in the state \<open>CONNECTED\<close>: no event sets it, not even a successful login, so that
  \<open>IsSendingMessage\<close>, which asks for it, is false in every reachable state.
\<close>
theorem never_sending:
  assumes "peer_reachable p"
  shows "conn_state p \<noteq> CONNECTED \<and> IsSendingMessage p = Inr False"
  using peer_reachable_inv [OF assms] by (auto simp: peer_inv_def IsSendingMessage_def)

theorem never_sending_witness:
  "conn_state (new_PeerConnectionClient (\<lambda>_. 0)) \<noteq> CONNECTED \<and>
    IsSendingMessage (new_PeerConnectionClient (\<lambda>_. 0)) = Inr False"
  by (rule never_sending) (rule peer_reachable.start)

section \<open>A frame arrives\<close>

text \<open>
  A frame that arrives when nothing is left from before is handled once. \<open>P\<close> is what the handler
  establishes, in a client that differs in the received data only.
\<close>

lemma peer_frame_received:
  assumes p: "live p" and empty: "peer_received p = []" and len: "length (frame (varint_bytes ty @ rest)) \<le> 65536"
    and handler: "\<And>b bb. received_ok b \<Longrightarrow> unread b = [] \<Longrightarrow> buffer_ok bb \<Longrightarrow> unread bb = rest @ [0] \<Longrightarrow>
      \<exists>bb' p2. peer_HandlePacket env bb (ty :: u32) (p\<lparr>peer_ReceivedData := b\<rparr>) = Inr (True, bb', p2) \<and>
        received_ok (peer_ReceivedData p2) \<and> peer_received p2 = [] \<and> P p2"
  obtains b p2 where "peer_DataReceived env (frame (varint_bytes ty @ rest)) p = Inr (p2\<lparr>peer_ReceivedData := b\<rparr>)"
    and "received_ok b" and "unread b = []" and "P p2"
proof -
  let ?p = "varint_bytes ty @ rest"
  have pl: "length ?p < 65536" using len varint_bytes_step [of "of_nat (length ?p) :: u32"] by (simp add: frame_def)
  obtain rd where w: "Write (peer_ReceivedData p) (frame ?p) = (True, rd)" and rd: "received_ok rd" "unread rd = frame ?p"
    using Write_received_ok [OF liveD(1) [OF p], of "frame ?p"] empty len by (auto simp: peer_received_def)
  obtain b p2 where l: "while_option (\<lambda>r. \<not> isl r) (\<lambda>r. peer_turn env (projr r)) (Inr (p\<lparr>peer_ReceivedData := rd\<rparr>)) =
      Some (Inl (Inr (p2\<lparr>peer_ReceivedData := b\<rparr>)))" "received_ok b" "unread b = []" "P p2"
  proof (rule client_in.loop_one_frame [where s = "p\<lparr>peer_ReceivedData := rd\<rparr>" and P = P and payload = ?p])
    fix b bb assume b: "received_ok b" "unread b = []" "buffer_ok bb" "consumed bb = []" "unread bb = ?p"
      "capacity bb = length ?p + 1"
    have d: "dec_varint (unread bb) = Inr (Some ty, rest)" unfolding b(5) by (rule dec_varint_bytes_32)
    obtain b1 where b1: "ReadVarInt bb = Inr (Some ty, b1)" "buffer_ok (snd (Write b1 [0]))"
        "unread (snd (Write b1 [0])) = rest @ [0]"
      using packet_type_read [OF b(3,4) _ d] b(5,6) by auto
    from handler [OF b(1,2) b1(2,3)] show
      "\<exists>s2. peer_run_packet env bb (p\<lparr>peer_ReceivedData := rd, peer_ReceivedData := b\<rparr>) = Inr s2 \<and>
        received_ok (peer_ReceivedData s2) \<and> unread (peer_ReceivedData s2) = [] \<and> P s2"
      by (auto simp: peer_run_packet_def b1(1) peer_received_def)
  qed (use rd pl in simp_all)
  then have "peer_DataReceived env (frame ?p) p = Inr (p2\<lparr>peer_ReceivedData := b\<rparr>)"
    by (simp add: peer_DataReceived_def peer_AddReceivedData_def w)
  then show thesis using that l(2-4) by blast
qed

lemma peer_read_Some:
  assumes "reads_as f q" and "buffer_ok bb" and "q (unread bb) = Inr (Some x, rest)"
  obtains bb' where "\<And>k p. peer_read f k bb p = k x bb' p" and "buffer_ok bb'" and "unread bb' = rest"
proof -
  obtain b' where "f bb = Inr (Some x, b')" "buffer_ok b'" "unread b' = rest" using reads_as_Inr [OF assms] by metis
  then show thesis by (intro that [of b']) (simp_all add: peer_read_def)
qed

lemma varint_read:
  assumes "buffer_ok bb" and "unread bb = varint_bytes (i :: u32) @ rest"
  obtains b1 where "\<And>k p. peer_read ReadVarInt32 k bb p = k i b1 p" and "buffer_ok b1" and "unread b1 = rest"
proof -
  have "varint_dec 0 0 (unread bb) = Inr (Some i, rest)"
    unfolding assms(2) using varint_dec_bytes [of 0 i 0] unsigned_less [of i, where 'a = nat] by simp
  from peer_read_Some [OF read_varint(1) assms(1) this] show thesis using that by metis
qed

text \<open>A chat message of the server reaches the observer.\<close>

lemma peer_message_received:
  assumes p: "live p" and empty: "peer_received p = []" and st: "peer_State p = 3" and len: "length msg \<le> 65526"
    and fits: "length (frame (varint_bytes (0x12 :: u32) @ varint_bytes i @ string_bytes msg)) \<le> 65536"
  obtains p' where "peer_DataReceived env (frame (varint_bytes (0x12 :: u32) @ varint_bytes i @ string_bytes msg)) p = Inr p'"
    and "calls p' = calls p @ [if msg = kByeMessage then OnPeerDisconnected (sint i) else OnMessageFromPeer (sint (i :: u32)) msg]"
    and "socket_sent p' = socket_sent p" and "peer_received p' = []"
proof -
  let ?cb = "if msg = kByeMessage then OnPeerDisconnected (sint i) else OnMessageFromPeer (sint i) msg"
  obtain b p2 where r: "peer_DataReceived env (frame (varint_bytes (0x12 :: u32) @ varint_bytes i @ string_bytes msg)) p =
      Inr (p2\<lparr>peer_ReceivedData := b\<rparr>)" "received_ok b" "unread b = []"
      "calls p2 = calls p @ [?cb] \<and> socket_sent p2 = socket_sent p"
  proof (rule peer_frame_received [OF p empty fits, where P = "\<lambda>p2. calls p2 = calls p @ [?cb] \<and> socket_sent p2 = socket_sent p"])
    fix b bb assume b: "received_ok b" "unread b = []" "buffer_ok bb" "unread bb = (varint_bytes i @ string_bytes msg) @ [0]"
    obtain b1 where b1: "\<And>k p. peer_read ReadVarInt32 k bb p = k i b1 p" "buffer_ok b1" "unread b1 = string_bytes msg @ [0]"
      using varint_read [OF b(3), of i "string_bytes msg @ [0]"] b(4) by auto
    have "dec_string (unread b1) = Inr (Some msg, [0])" using len by (simp add: b1(3) dec_string_bytes)
    from peer_read_Some [OF ReadVarUTF8String_reads_as b1(2) this] obtain b2 where
      b2: "\<And>k p. peer_read ReadVarUTF8String k b1 p = k msg b2 p" by blast
    show "\<exists>bb' p2. peer_HandlePacket env bb 0x12 (p\<lparr>peer_ReceivedData := b\<rparr>) = Inr (True, bb', p2) \<and>
        received_ok (peer_ReceivedData p2) \<and> peer_received p2 = [] \<and> calls p2 = calls p @ [?cb] \<and> socket_sent p2 = socket_sent p"
      using st b(1,2) by (simp add: peer_HandlePacket_def HandlePacketMediaMsg_def b1(1) b2 handled_def notify_def peer_received_def)
  qed
  then show thesis using that [of "p2\<lparr>peer_ReceivedData := b\<rparr>"] by (simp add: peer_received_def)
qed

text \<open>In the login state any packet of type 1 is the news of a successful login.\<close>

lemma peer_login_believed:
  assumes p: "live p" and empty: "peer_received p = []" and st: "peer_State p = 2"
    and fits: "length (frame (varint_bytes (0x01 :: u32) @ rest)) \<le> 65536"
  obtains p' where "peer_DataReceived env (frame (varint_bytes (0x01 :: u32) @ rest)) p = Inr p'"
    and "calls p' = calls p @ [OnSignedIn]" and "peer_State p' = 3"
proof -
  obtain b p2 where r: "peer_DataReceived env (frame (varint_bytes (0x01 :: u32) @ rest)) p = Inr (p2\<lparr>peer_ReceivedData := b\<rparr>)"
      "received_ok b" "unread b = []" "calls p2 = calls p @ [OnSignedIn] \<and> peer_State p2 = 3"
  proof (rule peer_frame_received [OF p empty fits, where P = "\<lambda>p2. calls p2 = calls p @ [OnSignedIn] \<and> peer_State p2 = 3"])
    fix b bb assume "received_ok b" "unread b = []"
    then show "\<exists>bb' p2. peer_HandlePacket env bb 0x01 (p\<lparr>peer_ReceivedData := b\<rparr>) = Inr (True, bb', p2) \<and>
        received_ok (peer_ReceivedData p2) \<and> peer_received p2 = [] \<and> calls p2 = calls p @ [OnSignedIn] \<and> peer_State p2 = 3"
      using st by (simp add: peer_HandlePacket_def HandlePacketLoginSuccess_def handled_def notify_def peer_received_def)
  qed
  then show thesis using that [of "p2\<lparr>peer_ReceivedData := b\<rparr>"] by simp
qed

text \<open>What \<open>SendToPeer\<close> passes to a connected socket.\<close>

lemma SendToPeer_sends:
  assumes "live p" and "m_bConnect p" and "length msg \<le> 65527"
  obtains p' where "SendToPeer i msg p = Inr (True, p')"
    and "socket_sent p' = socket_sent p @ frame (varint_bytes (0x12 :: u32) @ varint_bytes i @ string_bytes msg)"
    and "live p'" and "calls p' = calls p" and "m_bConnect p'"
proof -
  obtain out' where s: "send_pkt 0x12 (\<lambda>b. and_then (pkt_WriteVarInt32 i b) (pkt_WriteString msg)) p =
      Inr (p\<lparr>peer_OutPacketBuffer := out', socket_sent := socket_sent p @
        (if m_bConnect p then frame (varint_bytes (0x12 :: u32) @ varint_bytes i @ string_bytes msg) else [])\<rparr>)" "out_empty out'"
    using send_pkt_effect [OF liveD(2,3) [OF assms(1)] SendToPeer_packet [OF assms(3)]] assms(1) by metis
  show thesis
    by (rule that [of "p\<lparr>peer_OutPacketBuffer := out', socket_sent := socket_sent p @
        frame (varint_bytes 0x12 @ varint_bytes i @ string_bytes msg)\<rparr>"])
      (use s assms(2) live_updates(2) [OF assms(1) s(2)] in \<open>simp_all add: SendToPeer_def\<close>)
qed

end
