(* ===== verification/Conductor.thy ===== *)
theory Conductor
  imports PeerClientProperties Md5 SettingsInterface
begin

text \<open>
  The rest of the client: \<open>Src/Client/conductor.cpp\<close>, which drives calls, and the logic of the window,
  \<open>Src/Client/MainFrame.cpp\<close>. WebRTC, the JSON library and the controls of the window are parameters: \<open>rtc\<close>
  has their answers and the calls that matter are recorded. Drawing, the tray icon and the
  texts of the window are left out. The observer calls of \<open>PeerConnectionClient\<close> are delivered to
  the conductor when the operation of the client that made them returns.
\<close>

section \<open>State\<close>

datatype UI = CONNECT_TO_SERVER | LIST_PEERS | STREAMING

text \<open>
  A message to the thread of the window with its data: the text to send, or whether the stream has a
  video track.
\<close>

datatype ui_message =
  MEDIA_CHANNELS_INITIALIZED
| PEER_CONNECTION_CLOSED
| SEND_MESSAGE_TO_PEER "AString option"
| NEW_STREAM_ADDED bool
| STREAM_REMOVED

datatype webrtc_call =
  CreateOffer
| CreateAnswer
| SetLocalDescription AString
| SetRemoteDescription AString AString
| AddIceCandidate AString int AString
| AddStream bool bool

text \<open>The members of the window; its user name is only shown and its password not used again.\<close>

record MainFrame =
  ui :: UI
  userInfo :: "int \<rightharpoonup> AString"
  window_UserName :: AString
  window_PassWord :: AString
  login_enabled :: bool
  video_enabled :: bool
  video_user_data :: AString
  local_renderer :: bool
  remote_renderer :: bool
  posted :: "ui_message list"

record conductor =
  peer_id :: int
  peer_connection :: bool
  peer_connection_factory :: bool
  the_client :: peer
  main_wnd :: MainFrame
  pending_messages :: "AString list"
  active_streams :: "AString list"
  login_server :: AString
  webrtc_calls :: "webrtc_call list"

text \<open>
  What WebRTC and the JSON library answer. \<open>DeviceNames\<close> is the list of the cameras, when there is one, with a name for each unless
  asking for it fails. \<open>SessionDescription\<close> is \<open>None\<close> when the text is not understood, and
  else whether it is an offer; \<open>Json_parse\<close> may fail, and the members of an object may be missing.
\<close>

record 'j rtc =
  net :: environment
  CreatesFactory :: bool
  CreatesConnection :: bool
  DeviceNames :: "AString option list option"
  CreatesCapturer :: "AString \<Rightarrow> bool"
  CreatesAudio :: bool
  LocalDescription :: "AString \<times> AString"
  SessionDescription :: "AString \<Rightarrow> AString \<Rightarrow> bool option"
  IceCandidate :: "AString \<Rightarrow> int \<Rightarrow> AString \<Rightarrow> bool"
  Json_write :: "(AString \<times> AString) list \<Rightarrow> AString"
  Json_parse :: "AString \<Rightarrow> 'j option"
  GetStringFromJsonObject :: "'j \<Rightarrow> AString \<Rightarrow> AString option"
  GetIntFromJsonObject :: "'j \<Rightarrow> AString \<Rightarrow> int option"

definition kCandidateSdpMidName :: AString where "kCandidateSdpMidName = ascii ''sdpMid''"
definition kCandidateSdpMlineIndexName :: AString where "kCandidateSdpMlineIndexName = ascii ''sdpMLineIndex''"
definition kCandidateSdpName :: AString where "kCandidateSdpName = ascii ''candidate''"
definition kSessionDescriptionTypeName :: AString where "kSessionDescriptionTypeName = ascii ''type''"
definition kSessionDescriptionSdpName :: AString where "kSessionDescriptionSdpName = ascii ''sdp''"
definition kStreamLabel :: AString where "kStreamLabel = ascii ''stream_label''"

definition new_MainFrame :: MainFrame where
  "new_MainFrame = \<lparr>ui = CONNECT_TO_SERVER, userInfo = Map.empty, window_UserName = [], window_PassWord = [],
     login_enabled = True, video_enabled = False, video_user_data = [], local_renderer = False,
     remote_renderer = False, posted = []\<rparr>"

definition new_Conductor :: "peer \<Rightarrow> MainFrame \<Rightarrow> conductor" where
  "new_Conductor client wnd =
     \<lparr>peer_id = - 1, peer_connection = False, peer_connection_factory = False, the_client = client,
      main_wnd = wnd, pending_messages = [], active_streams = [], login_server = [], webrtc_calls = []\<rparr>"

section \<open>The window\<close>

definition on_window :: "(MainFrame \<Rightarrow> MainFrame) \<Rightarrow> conductor \<Rightarrow> conductor" where
  "on_window f cd = cd\<lparr>main_wnd := f (main_wnd cd)\<rparr>"

definition IsWindow :: "MainFrame \<Rightarrow> bool" where
  "IsWindow w = True"

definition SwitchToConnectUI :: "MainFrame \<Rightarrow> MainFrame" where
  "SwitchToConnectUI w = w\<lparr>ui := CONNECT_TO_SERVER, login_enabled := True\<rparr>"

text \<open>The rows of the list are those of \<open>userInfo\<close>.\<close>

definition SwitchToPeerList :: "(int \<rightharpoonup> AString) \<Rightarrow> MainFrame \<Rightarrow> MainFrame" where
  "SwitchToPeerList ps w = w\<lparr>ui := LIST_PEERS, userInfo := ps\<rparr>"

definition SwitchToStreamingUI :: "MainFrame \<Rightarrow> MainFrame" where
  "SwitchToStreamingUI w = w\<lparr>ui := STREAMING\<rparr>"

definition MessageBox :: "MainFrame \<Rightarrow> MainFrame" where
  "MessageBox w = w"

definition StartLocalRenderer :: "MainFrame \<Rightarrow> MainFrame" where
  "StartLocalRenderer w = w\<lparr>local_renderer := True\<rparr>"

definition StopLocalRenderer :: "MainFrame \<Rightarrow> MainFrame" where
  "StopLocalRenderer w = w\<lparr>local_renderer := False\<rparr>"

definition StartRemoteRenderer :: "MainFrame \<Rightarrow> MainFrame" where
  "StartRemoteRenderer w = w\<lparr>remote_renderer := True\<rparr>"

definition StopRemoteRenderer :: "MainFrame \<Rightarrow> MainFrame" where
  "StopRemoteRenderer w = w\<lparr>remote_renderer := False\<rparr>"

definition QueueUIThreadCallback :: "ui_message \<Rightarrow> MainFrame \<Rightarrow> MainFrame" where
  "QueueUIThreadCallback m w = w\<lparr>posted := posted w @ [m]\<rparr>"

section \<open>The peer connection\<close>

definition rtc_call :: "webrtc_call \<Rightarrow> conductor \<Rightarrow> conductor" where
  "rtc_call c cd = cd\<lparr>webrtc_calls := webrtc_calls cd @ [c]\<rparr>"

definition DeletePeerConnection :: "conductor \<Rightarrow> conductor" where
  "DeletePeerConnection cd =
     (on_window (\<lambda>w. StopRemoteRenderer (StopLocalRenderer w)) (cd\<lparr>peer_connection := False, active_streams := []\<rparr>))
       \<lparr>peer_connection_factory := False, peer_id := - 1\<rparr>"

definition CreatePeerConnection :: "'j rtc \<Rightarrow> conductor \<Rightarrow> bool \<times> conductor" where
  "CreatePeerConnection env cd = (CreatesConnection env, cd\<lparr>peer_connection := CreatesConnection env\<rparr>)"

text \<open>The first camera that can be opened.\<close>

definition OpenVideoCaptureDevice :: "'j rtc \<Rightarrow> AString option" where
  "OpenVideoCaptureDevice env =
     (case DeviceNames env of
        None \<Rightarrow> None
      | Some devices \<Rightarrow> find (CreatesCapturer env) (List.map_filter id devices))"

text \<open>The factory makes the stream; without one this is a null dereference.\<close>

definition AddStreams :: "'j rtc \<Rightarrow> conductor \<Rightarrow> fault + conductor" where
  "AddStreams env cd =
     (if kStreamLabel \<in> set (active_streams cd) then Inr cd
      else if \<not> peer_connection_factory cd \<or> \<not> peer_connection cd then Inl OutOfRange
      else
        let video = OpenVideoCaptureDevice env \<noteq> None;
            cd = (if video then on_window StartLocalRenderer cd else cd);
            cd = rtc_call (AddStream video (CreatesAudio env)) cd
        in Inr (on_window SwitchToStreamingUI (cd\<lparr>active_streams := kStreamLabel # active_streams cd\<rparr>)))"

definition InitializePeerConnection :: "'j rtc \<Rightarrow> conductor \<Rightarrow> fault + bool \<times> conductor" where
  "InitializePeerConnection env cd =
     (if \<not> CreatesFactory env then
        Inr (False, DeletePeerConnection (on_window MessageBox (cd\<lparr>peer_connection_factory := False\<rparr>)))
      else
        let (created, cd) = CreatePeerConnection env (cd\<lparr>peer_connection_factory := True\<rparr>);
            cd = (if created then cd else DeletePeerConnection (on_window MessageBox cd))
        in and_then (AddStreams env cd) (\<lambda>cd. Inr (peer_connection cd, cd)))"

section \<open>What the client reports\<close>

definition Conductor_OnSignedIn :: "conductor \<Rightarrow> conductor" where
  "Conductor_OnSignedIn cd = on_window (SwitchToPeerList (peers (the_client cd))) cd"

definition Conductor_IsBusy :: "conductor \<Rightarrow> bool" where
  "Conductor_IsBusy cd \<longleftrightarrow> peer_id cd \<noteq> - 1 \<and> peer_connection cd"

definition Conductor_OnDisconnected :: "conductor \<Rightarrow> conductor" where
  "Conductor_OnDisconnected cd =
     (let cd = DeletePeerConnection cd
      in if IsWindow (main_wnd cd) then on_window SwitchToConnectUI cd else cd)"

definition refresh_list :: "conductor \<Rightarrow> conductor" where
  "refresh_list cd =
     (if ui (main_wnd cd) = LIST_PEERS then on_window (SwitchToPeerList (peers (the_client cd))) cd else cd)"

definition Conductor_OnPeerConnected :: "int \<Rightarrow> AString \<Rightarrow> conductor \<Rightarrow> conductor" where
  "Conductor_OnPeerConnected i name cd = refresh_list cd"

definition Conductor_OnPeerDisconnected :: "int \<Rightarrow> conductor \<Rightarrow> conductor" where
  "Conductor_OnPeerDisconnected i cd =
     (if i = peer_id cd then on_window (QueueUIThreadCallback PEER_CONNECTION_CLOSED) cd else refresh_list cd)"

definition Conductor_OnPeerResponse :: "'j rtc \<Rightarrow> int \<Rightarrow> int \<Rightarrow> conductor \<Rightarrow> fault + conductor" where
  "Conductor_OnPeerResponse env i code cd =
     (if code = 1 then
        (if peer_connection cd then Inr (on_window MessageBox cd)
         else and_then (InitializePeerConnection env cd) (\<lambda>(ok, cd).
           Inr (if ok then rtc_call CreateOffer (cd\<lparr>peer_id := i\<rparr>) else on_window MessageBox cd)))
      else if code = - 1 then Inr (cd\<lparr>peer_id := - 1\<rparr>)
      else Inr cd)"

text \<open>Signing out calls the observer when the socket was connected.\<close>

definition Conductor_SignOut :: "conductor \<Rightarrow> fault + conductor" where
  "Conductor_SignOut cd =
     and_then (SignOut ((the_client cd)\<lparr>calls := []\<rparr>)) (\<lambda>(_, p).
       Inr (foldl (\<lambda>cd cb. if cb = OnDisconnected then Conductor_OnDisconnected cd else cd)
         (cd\<lparr>the_client := p\<rparr>) (calls p)))"

definition DisconnectFromServer :: "conductor \<Rightarrow> fault + conductor" where
  "DisconnectFromServer cd = (if is_connected (the_client cd) then Conductor_SignOut cd else Inr cd)"

text \<open>The message of the peer: a session description, or a candidate for the connection.\<close>

definition remote_description :: "'j rtc \<Rightarrow> 'j \<Rightarrow> AString \<Rightarrow> conductor \<Rightarrow> conductor" where
  "remote_description env jmessage type cd =
     (case GetStringFromJsonObject env jmessage kSessionDescriptionSdpName of
        None \<Rightarrow> cd
      | Some sdp \<Rightarrow>
          (case SessionDescription env type sdp of
             None \<Rightarrow> cd
           | Some is_offer \<Rightarrow>
               let cd = rtc_call (SetRemoteDescription type sdp) cd
               in if is_offer then rtc_call CreateAnswer cd else cd))"

definition remote_candidate :: "'j rtc \<Rightarrow> 'j \<Rightarrow> conductor \<Rightarrow> conductor" where
  "remote_candidate env jmessage cd =
     (case (GetStringFromJsonObject env jmessage kCandidateSdpMidName,
            GetIntFromJsonObject env jmessage kCandidateSdpMlineIndexName,
            GetStringFromJsonObject env jmessage kCandidateSdpName) of
        (Some sdp_mid, Some sdp_mlineindex, Some sdp) \<Rightarrow>
          if IceCandidate env sdp_mid sdp_mlineindex sdp then rtc_call (AddIceCandidate sdp_mid sdp_mlineindex sdp) cd
          else cd
      | _ \<Rightarrow> cd)"

definition handle_message :: "'j rtc \<Rightarrow> AString \<Rightarrow> conductor \<Rightarrow> conductor" where
  "handle_message env message cd =
     (case Json_parse env message of
        None \<Rightarrow> cd
      | Some jmessage \<Rightarrow>
          let type = (case GetStringFromJsonObject env jmessage kSessionDescriptionTypeName of None \<Rightarrow> [] | Some t \<Rightarrow> t)
          in if type \<noteq> kCandidateSdpName then remote_description env jmessage type cd
             else remote_candidate env jmessage cd)"

definition Conductor_OnMessageFromPeer :: "'j rtc \<Rightarrow> int \<Rightarrow> AString \<Rightarrow> conductor \<Rightarrow> fault + conductor" where
  "Conductor_OnMessageFromPeer env i message cd =
     (if \<not> peer_connection cd then
        and_then (InitializePeerConnection env (cd\<lparr>peer_id := i\<rparr>)) (\<lambda>(ok, cd).
          if ok then Inr (handle_message env message cd) else Conductor_SignOut cd)
      else if i \<noteq> peer_id cd then Inr cd
      else Inr (handle_message env message cd))"

text \<open>Both only show a text: the box of \<open>MainFrame\<close> is empty.\<close>

definition Conductor_OnServerConnectionFailure :: "conductor \<Rightarrow> conductor" where
  "Conductor_OnServerConnectionFailure cd = on_window MessageBox cd"

fun observe :: "'j rtc \<Rightarrow> callback \<Rightarrow> conductor \<Rightarrow> fault + conductor" where
  "observe env OnDisconnected cd = Inr (Conductor_OnDisconnected cd)"
| "observe env OnSignedIn cd = Inr (Conductor_OnSignedIn cd)"
| "observe env (OnPeerConnected i name) cd = Inr (Conductor_OnPeerConnected i name cd)"
| "observe env (OnPeerDisconnected i) cd = Inr (Conductor_OnPeerDisconnected i cd)"
| "observe env (OnPeerResponse i code) cd = Conductor_OnPeerResponse env i code cd"
| "observe env (OnMessageFromPeer i message) cd = Conductor_OnMessageFromPeer env i message cd"
| "observe env OnServerConnectionFailure cd = Inr (Conductor_OnServerConnectionFailure cd)"
| "observe env (PostNotification reason) cd = Inr cd"

fun deliver :: "'j rtc \<Rightarrow> callback list \<Rightarrow> conductor \<Rightarrow> fault + conductor" where
  "deliver env [] cd = Inr cd"
| "deliver env (cb # cbs) cd = and_then (observe env cb cd) (deliver env cbs)"

text \<open>An operation of the client, and what it reports.\<close>

definition on_client :: "'j rtc \<Rightarrow> (peer \<Rightarrow> fault + peer) \<Rightarrow> conductor \<Rightarrow> fault + conductor" where
  "on_client env f cd =
     and_then (f ((the_client cd)\<lparr>calls := []\<rparr>)) (\<lambda>p. deliver env (calls p) (cd\<lparr>the_client := p\<rparr>))"

section \<open>What the user asks for\<close>

definition StartLogin :: "'j rtc \<Rightarrow> AString \<Rightarrow> AString \<Rightarrow> AString \<Rightarrow> conductor \<Rightarrow> fault + conductor" where
  "StartLogin env server username password cd =
     (if is_connected (the_client cd) then Inr cd
      else on_client env (Connect (net env) server PORT username password) (cd\<lparr>login_server := server\<rparr>))"

definition ConnectToPeer :: "'j rtc \<Rightarrow> int \<Rightarrow> conductor \<Rightarrow> fault + conductor" where
  "ConnectToPeer env i = on_client env (\<lambda>p. and_then (RequestToPeer (word_of_int i) p) (\<lambda>(_, p). Inr p))"

definition DisconnectFromCurrentPeer :: "'j rtc \<Rightarrow> conductor \<Rightarrow> fault + conductor" where
  "DisconnectFromCurrentPeer env cd =
     and_then
       (if peer_connection cd then
          and_then (on_client env (\<lambda>p. and_then (SendHangUp (word_of_int (peer_id cd)) p) (\<lambda>(_, p). Inr p)) cd) (\<lambda>cd.
            Inr (DeletePeerConnection cd))
        else Inr cd)
       (\<lambda>cd. Inr (if IsWindow (main_wnd cd) then on_window (SwitchToPeerList (peers (the_client cd))) cd else cd))"

definition send_pending :: "conductor \<Rightarrow> fault + conductor" where
  "send_pending cd =
     (case pending_messages cd of
        [] \<Rightarrow> Inr cd
      | msg # rest \<Rightarrow>
          and_then (IsSendingMessage (the_client cd)) (\<lambda>sending.
            if sending then Inr cd
            else and_then (SendToPeer (word_of_int (peer_id cd)) msg (the_client cd)) (\<lambda>(ok, p).
              let cd = cd\<lparr>pending_messages := rest, the_client := p\<rparr>
              in if \<not> ok \<and> peer_id cd \<noteq> - 1 then DisconnectFromServer cd else Inr cd)))"

fun UIThreadCallback :: "ui_message \<Rightarrow> conductor \<Rightarrow> fault + conductor" where
  "UIThreadCallback PEER_CONNECTION_CLOSED cd =
     (let cd = DeletePeerConnection cd
      in if IsWindow (main_wnd cd) then
           Inr (if is_connected (the_client cd) then on_window (SwitchToPeerList (peers (the_client cd))) cd
                else on_window SwitchToConnectUI cd)
         else DisconnectFromServer cd)"
| "UIThreadCallback (SEND_MESSAGE_TO_PEER data) cd =
     (let cd = (case data of None \<Rightarrow> cd | Some msg \<Rightarrow> cd\<lparr>pending_messages := pending_messages cd @ [msg]\<rparr>)
      in and_then (send_pending cd) (\<lambda>cd.
           Inr (if \<not> peer_connection cd then cd\<lparr>peer_id := - 1\<rparr> else cd)))"
| "UIThreadCallback (NEW_STREAM_ADDED has_video) cd =
     Inr (if has_video then on_window StartRemoteRenderer cd else cd)"
| "UIThreadCallback STREAM_REMOVED cd = Inr cd"
| "UIThreadCallback MEDIA_CHANNELS_INITIALIZED cd = Inr cd"

definition Conductor_OnMessageSent :: "conductor \<Rightarrow> conductor" where
  "Conductor_OnMessageSent = on_window (QueueUIThreadCallback (SEND_MESSAGE_TO_PEER None))"

definition Conductor_Close :: "conductor \<Rightarrow> fault + conductor" where
  "Conductor_Close cd = and_then (Conductor_SignOut cd) (\<lambda>cd. Inr (DeletePeerConnection cd))"

section \<open>What WebRTC reports\<close>

definition SendMessage :: "AString \<Rightarrow> conductor \<Rightarrow> conductor" where
  "SendMessage json_object = on_window (QueueUIThreadCallback (SEND_MESSAGE_TO_PEER (Some json_object)))"

definition OnAddStream :: "bool \<Rightarrow> conductor \<Rightarrow> conductor" where
  "OnAddStream has_video = on_window (QueueUIThreadCallback (NEW_STREAM_ADDED has_video))"

definition OnRemoveStream :: "conductor \<Rightarrow> conductor" where
  "OnRemoveStream = on_window (QueueUIThreadCallback STREAM_REMOVED)"

definition OnIceGatheringChange :: "'j rtc \<Rightarrow> bool \<Rightarrow> conductor \<Rightarrow> fault + conductor" where
  "OnIceGatheringChange env complete cd =
     (if \<not> complete then Inr cd
      else if \<not> peer_connection cd then Inl OutOfRange
      else
        let (type, sdp) = LocalDescription env
        in Inr (SendMessage (Json_write env [(kSessionDescriptionTypeName, type), (kSessionDescriptionSdpName, sdp)]) cd))"

definition OnSuccess :: "AString \<Rightarrow> conductor \<Rightarrow> fault + conductor" where
  "OnSuccess desc cd =
     (if \<not> peer_connection cd then Inl OutOfRange else Inr (rtc_call (SetLocalDescription desc) cd))"

section \<open>The controls of the window\<close>

definition doLogin :: "'j rtc \<Rightarrow> (nat \<Rightarrow> u8) \<Rightarrow> AString \<Rightarrow> AString \<Rightarrow> AString \<Rightarrow> conductor \<Rightarrow> fault + conductor" where
  "doLogin env garbage user pass newServer cd =
     (if user = [] \<or> pass = [] then Inr cd
      else
        let cd = on_window (\<lambda>w. w\<lparr>window_UserName := user, window_PassWord := pass\<rparr>) cd;
            strPassWord = map c_tolower (md5_toString (md5_update (md5_reset (new_MD5 garbage)) pass));
            server = (if newServer \<noteq> [] then newServer else SERVER)
        in and_then (StartLogin env server user strPassWord cd) (\<lambda>cd.
             Inr (on_window (\<lambda>w. w\<lparr>login_enabled := False\<rparr>) cd)))"

definition onBtnVideoClick :: "'j rtc \<Rightarrow> conductor \<Rightarrow> fault + conductor" where
  "onBtnVideoClick env cd =
     and_then (atoi (video_user_data (main_wnd cd))) (\<lambda>i.
       if i \<noteq> 0 then ConnectToPeer env i cd else Inr cd)"

definition item_chosen :: "int \<Rightarrow> MainFrame \<Rightarrow> MainFrame" where
  "item_chosen i w =
     (if userInfo w i \<noteq> None then w\<lparr>video_user_data := Printf_d i, video_enabled := True\<rparr> else w)"

datatype control_event = Click_login AString AString AString | Click_video | Click_endcall | ItemClick int | ItemActivate int

fun Notify :: "'j rtc \<Rightarrow> (nat \<Rightarrow> u8) \<Rightarrow> control_event \<Rightarrow> conductor \<Rightarrow> fault + conductor" where
  "Notify env garbage (Click_login user pass server) cd = doLogin env garbage user pass server cd"
| "Notify env garbage Click_video cd = onBtnVideoClick env cd"
| "Notify env garbage Click_endcall cd =
     (if ui (main_wnd cd) = STREAMING then DisconnectFromCurrentPeer env cd else Inr cd)"
| "Notify env garbage (ItemClick i) cd = Inr (on_window (item_chosen i) cd)"
| "Notify env garbage (ItemActivate i) cd = onBtnVideoClick env (on_window (item_chosen i) cd)"

text \<open>The window is gone.\<close>

definition OnFinalMessage :: "'j rtc \<Rightarrow> conductor \<Rightarrow> fault + conductor" where
  "OnFinalMessage env cd =
     and_then (if ui (main_wnd cd) = STREAMING then DisconnectFromCurrentPeer env cd else DisconnectFromServer cd)
       Conductor_Close"

text \<open>
  The name of a row is the format of \<open>_stprintf\<close> into an array of 260 characters. Without arguments a
  directive other than \<open>%%\<close> is undefined. \<open>CA2W\<close> is the conversion of the Windows API. Looking the name
  up in the map of an identifier it does not have inserts the empty one. The other columns are the identifier and
  a fixed text.
\<close>

fun format_no_args :: "16 word list \<Rightarrow> 16 word list option" where
  "format_no_args [] = Some []"
| "format_no_args (c # cs) =
     (if c = 0 then Some []
      else if c \<noteq> 0x25 then map_option (Cons c) (format_no_args cs)
      else case cs of
             [] \<Rightarrow> None
           | d # ds \<Rightarrow> if d = 0x25 then map_option (Cons 0x25) (format_no_args ds) else None)"

definition GetItemText :: "(AString \<Rightarrow> 16 word list) \<Rightarrow> u32 \<Rightarrow> int \<Rightarrow> MainFrame \<Rightarrow> fault + 16 word list \<times> MainFrame" where
  "GetItemText CA2W tag iSubItem w =
     (let i = sint tag in
      if iSubItem = 0 then Inr (map ucast (Printf_d i), w)
      else if iSubItem = 1 then
        let w = (if userInfo w i = None then w\<lparr>userInfo := (userInfo w)(i \<mapsto> [])\<rparr> else w)
        in (case format_no_args (CA2W (the (userInfo w i))) of
              None \<Rightarrow> Inl OutOfRange
            | Some text \<Rightarrow> if length text < 260 then Inr (text, w) else Inl OutOfRange)
      else if iSubItem = 2 then Inr ([0x5728, 0x7EBF], w)
      else Inr ([], w))"

end
