(* ===== verification/ConductorInvariants.thy ===== *)
theory ConductorInvariants
  imports Conductor
begin

text \<open>
  The events of the whole client, its window, conductor and connection, and the invariant every event
  keeps. The lemmas follow the layers of \<open>Conductor\<close>: the window, the peer connection, what the client
  reports, the controls and the messages of the window.
\<close>

section \<open>The events of the client\<close>

datatype app_event =
  Control control_event
| Resolved "AString option"
| Connected
| Data "AString list"
| Closed
| UiMessage
| CloseWindow
| Gathered
| DescriptionMade AString
| StreamAdded bool
| StreamRemoved

text \<open>Network events are handled by the client and reported; a message of the window is the oldest one.\<close>

definition network :: "'j rtc \<Rightarrow> peer_event \<Rightarrow> conductor \<Rightarrow> fault + conductor" where
  "network env ev cd =
     on_client env (\<lambda>p. peer_do ((net env)\<lparr>IsBusy := Conductor_IsBusy cd\<rparr>) ev p) cd"

fun app_do :: "'j rtc \<Rightarrow> (nat \<Rightarrow> u8) \<Rightarrow> app_event \<Rightarrow> conductor \<Rightarrow> fault + conductor" where
  "app_do env garbage (Control c) cd = Notify env garbage c cd"
| "app_do env garbage (Resolved result) cd = network env (EvResolved result) cd"
| "app_do env garbage Connected cd = network env EvConnected cd"
| "app_do env garbage (Data buffers) cd = network env (EvData buffers) cd"
| "app_do env garbage Closed cd = network env EvClosed cd"
| "app_do env garbage UiMessage cd =
     (case posted (main_wnd cd) of
        [] \<Rightarrow> Inr cd
      | m # ms \<Rightarrow> UIThreadCallback m (on_window (\<lambda>w. w\<lparr>posted := ms\<rparr>) cd))"
| "app_do env garbage CloseWindow cd = OnFinalMessage env cd"
| "app_do env garbage Gathered cd = OnIceGatheringChange env True cd"
| "app_do env garbage (DescriptionMade desc) cd = OnSuccess desc cd"
| "app_do env garbage (StreamAdded has_video) cd = Inr (OnAddStream has_video cd)"
| "app_do env garbage StreamRemoved cd = Inr (OnRemoveStream cd)"

text \<open>
  When an event can occur: the network events as for the client alone, reports of a peer connection while
  there is one, and the window is closed when the client is connected or not, but not in between. A name
  and a session description are short enough for a packet, and a row has an identifier of type \<open>int\<close>.
\<close>

definition is_int :: "int \<Rightarrow> bool" where
  "is_int i \<longleftrightarrow> - INT_MAX - 1 \<le> i \<and> i \<le> INT_MAX"

fun control_ok :: "control_event \<Rightarrow> bool" where
  "control_ok (Click_login user pass server) \<longleftrightarrow> length user \<le> 65497"
| "control_ok (ItemClick i) \<longleftrightarrow> is_int i"
| "control_ok (ItemActivate i) \<longleftrightarrow> is_int i"
| "control_ok _ \<longleftrightarrow> True"

fun app_can :: "'j rtc \<Rightarrow> app_event \<Rightarrow> conductor \<Rightarrow> bool" where
  "app_can env (Control c) cd \<longleftrightarrow> control_ok c"
| "app_can env (Resolved result) cd \<longleftrightarrow> can_occur (EvResolved result) (the_client cd)"
| "app_can env Connected cd \<longleftrightarrow> can_occur EvConnected (the_client cd)"
| "app_can env (Data buffers) cd \<longleftrightarrow> can_occur (EvData buffers) (the_client cd)"
| "app_can env Closed cd \<longleftrightarrow> can_occur EvClosed (the_client cd)"
| "app_can env CloseWindow cd \<longleftrightarrow> live (the_client cd)"
| "app_can env Gathered cd \<longleftrightarrow> peer_connection cd \<and>
     length (Json_write env [(kSessionDescriptionTypeName, fst (LocalDescription env)),
       (kSessionDescriptionSdpName, snd (LocalDescription env))]) \<le> 65527"
| "app_can env (DescriptionMade desc) cd \<longleftrightarrow> peer_connection cd"
| "app_can env _ cd \<longleftrightarrow> True"

section \<open>The invariant\<close>

fun short_message :: "ui_message \<Rightarrow> bool" where
  "short_message (SEND_MESSAGE_TO_PEER (Some t)) \<longleftrightarrow> length t \<le> 65527"
| "short_message _ \<longleftrightarrow> True"

definition window_ok :: "MainFrame \<Rightarrow> bool" where
  "window_ok w \<longleftrightarrow> list_all short_message (posted w) \<and>
     (video_user_data w = [] \<or> (\<exists>i. is_int i \<and> video_user_data w = Printf_d i))"

definition app_ok :: "conductor \<Rightarrow> bool" where
  "app_ok cd \<longleftrightarrow> peer_inv (the_client cd) \<and> window_ok (main_wnd cd) \<and>
     (peer_connection cd \<longrightarrow> peer_connection_factory cd) \<and>
     (active_streams cd \<noteq> [] \<longrightarrow> peer_connection cd) \<and>
     list_all (\<lambda>t. length t \<le> 65527) (pending_messages cd)"

definition app_fine :: "fault + conductor \<Rightarrow> bool" where
  "app_fine m \<longleftrightarrow> (case m of Inl e \<Rightarrow> e = ShiftTooFar | Inr cd \<Rightarrow> app_ok cd)"

lemma app_fine_simps [simp]: "app_fine (Inr cd) \<longleftrightarrow> app_ok cd" "app_fine (Inl e) \<longleftrightarrow> e = ShiftTooFar"
  by (simp_all add: app_fine_def)

lemma window_ok_simps [simp]:
  "window_ok (SwitchToConnectUI w) = window_ok w" "window_ok (SwitchToPeerList ps w) = window_ok w"
  "window_ok (SwitchToStreamingUI w) = window_ok w" "window_ok (MessageBox w) = window_ok w"
  "window_ok (StartLocalRenderer w) = window_ok w" "window_ok (StopLocalRenderer w) = window_ok w"
  "window_ok (StartRemoteRenderer w) = window_ok w" "window_ok (StopRemoteRenderer w) = window_ok w"
  "window_ok (QueueUIThreadCallback m w) \<longleftrightarrow> window_ok w \<and> short_message m"
  "window_ok (w\<lparr>login_enabled := b\<rparr>) = window_ok w"
  "window_ok (w\<lparr>window_UserName := u, window_PassWord := v\<rparr>) = window_ok w"
  by (auto simp: window_ok_def SwitchToConnectUI_def SwitchToPeerList_def SwitchToStreamingUI_def MessageBox_def
      StartLocalRenderer_def StopLocalRenderer_def StartRemoteRenderer_def StopRemoteRenderer_def QueueUIThreadCallback_def)

lemma app_ok_window [simp]: "window_ok (f (main_wnd cd)) = window_ok (main_wnd cd) \<Longrightarrow> app_ok (on_window f cd) = app_ok cd"
  by (simp add: app_ok_def on_window_def)

lemma on_window_simps [simp]:
  "the_client (on_window f cd) = the_client cd" "peer_connection (on_window f cd) = peer_connection cd"
  "peer_connection_factory (on_window f cd) = peer_connection_factory cd" "peer_id (on_window f cd) = peer_id cd"
  "main_wnd (on_window f cd) = f (main_wnd cd)" "webrtc_calls (on_window f cd) = webrtc_calls cd"
  "active_streams (on_window f cd) = active_streams cd" "pending_messages (on_window f cd) = pending_messages cd"
  by (simp_all add: on_window_def)

lemma rtc_call_simps [simp]:
  "the_client (rtc_call c cd) = the_client cd" "peer_connection (rtc_call c cd) = peer_connection cd"
  "peer_id (rtc_call c cd) = peer_id cd" "main_wnd (rtc_call c cd) = main_wnd cd"
  "peer_connection_factory (rtc_call c cd) = peer_connection_factory cd" "pending_messages (rtc_call c cd) = pending_messages cd"
  "active_streams (rtc_call c cd) = active_streams cd"
  "webrtc_calls (rtc_call c cd) = webrtc_calls cd @ [c]" "app_ok (rtc_call c cd) = app_ok cd"
  by (simp_all add: rtc_call_def app_ok_def)

lemma app_ok_posts [simp]:
  "app_ok (on_window (QueueUIThreadCallback m) cd) \<longleftrightarrow> app_ok cd \<and> short_message m"
  by (auto simp: app_ok_def on_window_def)

lemma app_ok_fields [simp]:
  "app_ok (cd\<lparr>peer_id := i\<rparr>) = app_ok cd" "app_ok (cd\<lparr>login_server := s\<rparr>) = app_ok cd"
  by (simp_all add: app_ok_def)

lemma DeletePeerConnection_simps [simp]:
  "app_ok (DeletePeerConnection cd) \<longleftrightarrow>
     peer_inv (the_client cd) \<and> window_ok (main_wnd cd) \<and> list_all (\<lambda>t. length t \<le> 65527) (pending_messages cd)"
  "the_client (DeletePeerConnection cd) = the_client cd" "peer_connection (DeletePeerConnection cd) = False"
  "active_streams (DeletePeerConnection cd) = []" "peer_connection_factory (DeletePeerConnection cd) = False"
  "peer_id (DeletePeerConnection cd) = - 1"
  "pending_messages (DeletePeerConnection cd) = pending_messages cd"
  by (simp_all add: DeletePeerConnection_def app_ok_def)

lemma app_okD:
  assumes "app_ok cd"
  shows "peer_inv (the_client cd)" and "window_ok (main_wnd cd)"
    and "list_all (\<lambda>t. length t \<le> 65527) (pending_messages cd)" and "app_ok (DeletePeerConnection cd)"
  using assms by (simp_all) (simp_all add: app_ok_def)

lemma app_ok_client: "app_ok cd \<Longrightarrow> peer_inv p \<Longrightarrow> app_ok (cd\<lparr>the_client := p\<rparr>)"
  by (simp add: app_ok_def)

section \<open>The conductor keeps the invariant\<close>

text \<open>
  A connection is made unless the factory is not; when the factory makes no connection, the streams are
  added to none.
\<close>

lemma Initialize_ok:
  assumes "app_ok cd" and "CreatesConnection env" and "\<not> peer_connection cd"
  obtains b cd' where "InitializePeerConnection env cd = Inr (b, cd')" and "app_ok cd'"
    and "the_client cd' = the_client cd" and "b \<longleftrightarrow> CreatesFactory env" and "peer_connection cd' = b"
    and "b \<Longrightarrow> kStreamLabel \<in> set (active_streams cd')"
proof (cases "CreatesFactory env")
  case False
  then show thesis using assms(1) app_okD [OF assms(1)]
    by (intro that [of False "DeletePeerConnection (on_window MessageBox (cd\<lparr>peer_connection_factory := False\<rparr>))"])
      (simp_all add: InitializePeerConnection_def)
next
  case True
  have "active_streams cd = []" using assms(1,3) by (auto simp: app_ok_def)
  then show thesis using assms True app_okD [OF assms(1)]
    by (intro that [of True "projr (AddStreams env (cd\<lparr>peer_connection_factory := True, peer_connection := True\<rparr>))"])
      (simp_all add: InitializePeerConnection_def CreatePeerConnection_def AddStreams_def Let_def app_ok_def)
qed

lemma Initialize_fault:
  assumes "CreatesFactory env" and "\<not> CreatesConnection env"
  shows "InitializePeerConnection env cd = Inl OutOfRange"
  using assms by (simp add: InitializePeerConnection_def CreatePeerConnection_def AddStreams_def)

lemma handle_message_simps [simp]:
  "app_ok (handle_message env message cd) = app_ok cd" "the_client (handle_message env message cd) = the_client cd"
  "peer_connection (handle_message env message cd) = peer_connection cd"
  by (simp_all add: handle_message_def remote_description_def remote_candidate_def Let_def split: option.split)

lemma Conductor_SignOut_ok:
  assumes "app_ok cd" and "live (the_client cd)"
  obtains cd' where "Conductor_SignOut cd = Inr cd'" and "app_ok cd'" and "live (the_client cd')"
proof -
  have l: "live ((the_client cd)\<lparr>calls := []\<rparr>)" using assms(2) by (simp add: live_def peer_inv_def)
  obtain p' where p': "SignOut ((the_client cd)\<lparr>calls := []\<rparr>) = Inr (True, p')" "live p'"
    using SignOut_mild [OF l] by metis
  have f: "app_ok (foldl (\<lambda>cd cb. if cb = OnDisconnected then Conductor_OnDisconnected cd else cd) c cbs) \<and>
      the_client (foldl (\<lambda>cd cb. if cb = OnDisconnected then Conductor_OnDisconnected cd else cd) c cbs) = the_client c"
    if "app_ok c" for c cbs
    using that
  proof (induction cbs arbitrary: c)
    case (Cons cb cbs)
    then show ?case using app_okD [OF Cons.prems] by (simp add: Conductor_OnDisconnected_def Let_def IsWindow_def)
  qed simp
  have "app_ok (cd\<lparr>the_client := p'\<rparr>)" using app_ok_client [OF assms(1)] liveD(4) [OF p'(2)] .
  then show thesis using f [of "cd\<lparr>the_client := p'\<rparr>" "calls p'"] p' that [of "projr (Conductor_SignOut cd)"]
    by (simp add: Conductor_SignOut_def)
qed

lemma observe_ok:
  assumes "app_ok cd" and "live (the_client cd)" and "CreatesConnection env"
  obtains cd' where "observe env cb cd = Inr cd'" and "app_ok cd'" and "live (the_client cd')"
proof (cases cb)
  case OnDisconnected
  then show thesis using that [of "Conductor_OnDisconnected cd"] app_okD [OF assms(1)] assms(2)
    by (simp add: Conductor_OnDisconnected_def Let_def IsWindow_def)
next
  case OnSignedIn
  then show thesis using that [of "Conductor_OnSignedIn cd"] assms by (simp add: Conductor_OnSignedIn_def)
next
  case (OnPeerConnected i name)
  then show thesis using that [of "Conductor_OnPeerConnected i name cd"] assms
    by (simp add: Conductor_OnPeerConnected_def refresh_list_def)
next
  case (OnPeerDisconnected i)
  then show thesis using that [of "Conductor_OnPeerDisconnected i cd"] assms
    by (simp add: Conductor_OnPeerDisconnected_def refresh_list_def)
next
  case (OnPeerResponse i code)
  show thesis
  proof (cases "code = 1 \<and> \<not> peer_connection cd")
    case True
    obtain b cd' where cd': "InitializePeerConnection env cd = Inr (b, cd')" "app_ok cd'" "the_client cd' = the_client cd"
      using Initialize_ok [OF assms(1,3)] True by metis
    then show thesis using True assms(2) OnPeerResponse
      by (intro that [of "if b then rtc_call CreateOffer (cd'\<lparr>peer_id := i\<rparr>) else on_window MessageBox cd'"])
        (simp_all add: Conductor_OnPeerResponse_def)
  next
    case False
    then show thesis using that [of "projr (Conductor_OnPeerResponse env i code cd)"] assms OnPeerResponse
      by (auto simp: Conductor_OnPeerResponse_def)
  qed
next
  case (OnMessageFromPeer i message)
  show thesis
  proof (cases "peer_connection cd")
    case True
    then show thesis using that [of "projr (Conductor_OnMessageFromPeer env i message cd)"] assms OnMessageFromPeer
      by (simp add: Conductor_OnMessageFromPeer_def)
  next
    case False
    obtain b cd' where cd': "InitializePeerConnection env (cd\<lparr>peer_id := i\<rparr>) = Inr (b, cd')" "app_ok cd'"
        "the_client cd' = the_client cd"
      by (rule Initialize_ok [of "cd\<lparr>peer_id := i\<rparr>" env]) (use assms(1,3) False that in auto)
    show thesis
    proof (cases b)
      case True
      then show thesis using that [of "handle_message env message cd'"] cd' assms(2) False OnMessageFromPeer
        by (simp add: Conductor_OnMessageFromPeer_def)
    next
      case b: False
      have "live (the_client cd')" using assms(2) cd'(3) by simp
      then obtain cd2 where "Conductor_SignOut cd' = Inr cd2" "app_ok cd2" "live (the_client cd2)"
        using Conductor_SignOut_ok [OF cd'(2)] by metis
      then show thesis using that [of cd2] cd'(1) b False OnMessageFromPeer by (simp add: Conductor_OnMessageFromPeer_def)
    qed
  qed
next
  case OnServerConnectionFailure
  then show thesis using that [of "Conductor_OnServerConnectionFailure cd"] assms
    by (simp add: Conductor_OnServerConnectionFailure_def)
next
  case (PostNotification r)
  then show thesis using that [of cd] assms by simp
qed

lemma deliver_ok:
  assumes "app_ok cd" and "live (the_client cd)" and "CreatesConnection env"
  shows "\<exists>cd'. deliver env cbs cd = Inr cd' \<and> app_ok cd' \<and> live (the_client cd')"
  using assms(1,2)
proof (induction cbs arbitrary: cd)
  case (Cons cb cbs)
  obtain cd' where "observe env cb cd = Inr cd'" "app_ok cd'" "live (the_client cd')"
    by (rule observe_ok [OF Cons.prems assms(3)], rule that)
  then show ?case using Cons.IH [of cd'] by simp
qed simp

section \<open>What the operations of the client report\<close>

lemma SendData_calls: "SendData d p = Inr p' \<Longrightarrow> calls p' = calls p"
  by (auto simp: SendData_def split: if_splits)

lemma send_pkt_calls:
  assumes "send_pkt ty w p = Inr p'"
  shows "calls p' = calls p"
proof -
  obtain out where "Packetizer_destructor (p\<lparr>peer_OutPacketBuffer := out\<rparr>) = Inr p'"
    using assms by (auto simp: send_pkt_def and_then_Inr_iff)
  then obtain d p1 d2 out2 p2 where "SendData d (p\<lparr>peer_OutPacketBuffer := out\<rparr>) = Inr p1"
      "SendData d2 (p1\<lparr>peer_OutPacketBuffer := out2\<rparr>) = Inr p2" "p' = p2\<lparr>peer_OutPacketBuffer := CommitRead (peer_OutPacketBuffer p2)\<rparr>"
    unfolding Packetizer_destructor_def Let_def and_then_Inr_iff case_prod_beta by blast
  then show ?thesis using SendData_calls by fastforce
qed

lemma Close_calls: "Close p = Inr p' \<Longrightarrow> calls p' = calls p"
  by (auto simp: Close_def split: if_splits)

lemma DoConnect_calls: "DoConnect env p = Inr p' \<Longrightarrow> set (calls p') \<subseteq> insert OnServerConnectionFailure (set (calls p))"
  by (auto simp: DoConnect_def ConnectControlSocket_def notify_def and_then_Inr_iff dest!: Close_calls split: if_splits)

text \<open>Only data and signing out report anything but a failed connection.\<close>

fun plain_event :: "peer_event \<Rightarrow> bool" where
  "plain_event (EvData buffers) \<longleftrightarrow> False"
| "plain_event EvSignOut \<longleftrightarrow> False"
| "plain_event _ \<longleftrightarrow> True"

lemma peer_do_calls:
  assumes "peer_do env ev p = Inr p'" and "plain_event ev"
  shows "set (calls p') \<subseteq> insert OnServerConnectionFailure (set (calls p))"
proof (cases ev)
  case (EvConnect server port user pass)
  then show ?thesis using assms by (auto simp: Connect_def Let_def notify_def dest!: DoConnect_calls split: if_splits)
next
  case (EvResolved result)
  then show ?thesis
    using assms by (auto simp: OnResolveResult_def notify_def dest!: DoConnect_calls split: option.splits)
next
  case EvConnected
  then show ?thesis using assms by (auto simp: OnConnect_def dest!: send_pkt_calls)
next
  case EvClosed
  then show ?thesis using assms by (auto simp: OnClose_def and_then_Inr_iff notify_def dest!: Close_calls)
next
  case (EvRequest i)
  then show ?thesis using assms by (auto simp: RequestToPeer_def and_then_Inr_iff dest!: send_pkt_calls)
next
  case (EvSend i m)
  then show ?thesis using assms by (auto simp: SendToPeer_def and_then_Inr_iff dest!: send_pkt_calls)
next
  case (EvHangUp i)
  then show ?thesis using assms by (auto simp: SendHangUp_def SendToPeer_def and_then_Inr_iff dest!: send_pkt_calls)
qed (use assms(2) in simp_all)

lemma deliver_failures: "set cbs \<subseteq> {OnServerConnectionFailure} \<Longrightarrow> deliver env cbs cd = Inr cd"
  by (induction cbs) (simp_all add: Conductor_OnServerConnectionFailure_def on_window_def MessageBox_def)

lemma peer_inv_calls [simp]: "peer_inv (p\<lparr>calls := cs\<rparr>) = peer_inv p" "live (p\<lparr>calls := cs\<rparr>) = live p"
  by (simp_all add: live_def peer_inv_def)

lemma can_occur_calls [simp]: "can_occur ev (p\<lparr>calls := cs\<rparr>) = can_occur ev p"
  by (cases ev) simp_all

lemma plain_fine:
  assumes "app_ok cd" and "plain_event ev" and "can_occur ev (the_client cd)"
  shows "app_fine (on_client env (\<lambda>p. peer_do e ev p) cd)"
proof -
  have f: "fine_end (peer_do e ev ((the_client cd)\<lparr>calls := []\<rparr>))"
    using app_okD(1) [OF assms(1)] assms(3) by (intro peer_event_fine) simp_all
  show ?thesis
  proof (cases "peer_do e ev ((the_client cd)\<lparr>calls := []\<rparr>)")
    case (Inl x)
    then show ?thesis using f by (simp add: on_client_def fine_end_def)
  next
    case (Inr p)
    have "set (calls p) \<subseteq> {OnServerConnectionFailure}" using peer_do_calls [OF Inr assms(2)] by simp
    then show ?thesis using f Inr app_ok_client [OF assms(1), of p] by (simp add: on_client_def deliver_failures)
  qed
qed

lemma network_fine:
  assumes ok: "app_ok cd" and env: "CreatesConnection env" and ev: "can_occur ev (the_client cd)" and "ev \<noteq> EvSignOut"
  shows "app_fine (network env ev cd)"
proof (cases "plain_event ev")
  case True
  then show ?thesis unfolding network_def by (rule plain_fine [OF ok _ ev])
next
  case False
  then obtain buffers where e: "ev = EvData buffers" using assms(4) by (cases ev) auto
  have "live ((the_client cd)\<lparr>calls := []\<rparr>)" using app_okD(1) [OF ok] ev e by (simp add: live_def)
  note w = OnRead_ends [OF this, of "(net env)\<lparr>IsBusy := Conductor_IsBusy cd\<rparr>" buffers]
  show ?thesis
  proof (cases "OnRead ((net env)\<lparr>IsBusy := Conductor_IsBusy cd\<rparr>) buffers ((the_client cd)\<lparr>calls := []\<rparr>)")
    case (Inl x)
    then show ?thesis using w by (simp add: network_def on_client_def e ends_well_def)
  next
    case (Inr p)
    then have "live p" using w by (simp add: ends_well_def)
    then obtain cd' where "deliver env (calls p) (cd\<lparr>the_client := p\<rparr>) = Inr cd'" "app_ok cd'"
      using deliver_ok [OF app_ok_client [OF ok liveD(4)], of p env "calls p"] env by auto
    then show ?thesis by (simp add: network_def on_client_def e Inr)
  qed
qed

section \<open>The controls and the messages of the window\<close>

lemma SwitchToPeerList_ok [simp]: "app_ok (on_window (SwitchToPeerList ps) cd) = app_ok cd"
  by simp

lemma StartLogin_fine:
  assumes "app_ok cd" and "length user + length pass \<le> 65529"
  shows "app_fine (StartLogin env server user pass cd)"
proof (cases "is_connected (the_client cd)")
  case False
  have "app_fine (on_client env (\<lambda>p. peer_do (net env) (EvConnect server PORT user pass) p) (cd\<lparr>login_server := server\<rparr>))"
    by (rule plain_fine [where ev = "EvConnect server PORT user pass"]) (use assms in simp_all)
  then show ?thesis using False by (simp add: StartLogin_def)
qed (use assms in \<open>simp add: StartLogin_def\<close>)

lemma length_password: "length (map c_tolower (md5_toString (md5_update (md5_reset (new_MD5 g)) pass))) = 32"
proof -
  have "\<not> md5_finished (md5_update (md5_reset (new_MD5 g)) pass)" by (simp add: md5_update_def Let_def split: prod.split)
  then show ?thesis by (simp add: length_md5_toString)
qed

lemma doLogin_fine:
  assumes "app_ok cd" and "length user \<le> 65497"
  shows "app_fine (doLogin env garbage user pass newServer cd)"
proof (cases "user = [] \<or> pass = []")
  case False
  let ?cd = "on_window (\<lambda>w. w\<lparr>window_UserName := user, window_PassWord := pass\<rparr>) cd"
  let ?pw = "map c_tolower (md5_toString (md5_update (md5_reset (new_MD5 garbage)) pass))"
  have "app_fine (StartLogin env (if newServer \<noteq> [] then newServer else SERVER) user ?pw ?cd)"
    by (rule StartLogin_fine) (use assms length_password [of garbage pass] in simp_all)
  then show ?thesis using False
    by (cases "StartLogin env (if newServer \<noteq> [] then newServer else SERVER) user ?pw ?cd")
      (simp_all add: doLogin_def Let_def)
qed (use assms in \<open>simp add: doLogin_def\<close>)

lemma ConnectToPeer_fine: "app_ok cd \<Longrightarrow> app_fine (ConnectToPeer env i cd)"
  using plain_fine [of cd "EvRequest (word_of_int i)" env "net env"]
  by (simp add: ConnectToPeer_def)

lemma HangUp_fine: "app_ok cd \<Longrightarrow> app_fine (on_client env (\<lambda>p. and_then (SendHangUp i p) (\<lambda>(_, p). Inr p)) cd)"
  using plain_fine [of cd "EvHangUp i" env "net env"] by simp

lemma DisconnectFromCurrentPeer_fine:
  assumes "app_ok cd"
  shows "app_fine (DisconnectFromCurrentPeer env cd)"
proof (cases "peer_connection cd")
  case True
  let ?m = "on_client env (\<lambda>p. and_then (SendHangUp (word_of_int (peer_id cd)) p) (\<lambda>(_, p). Inr p)) cd"
  have "app_fine ?m" by (rule HangUp_fine [OF assms])
  then show ?thesis using True by (cases ?m) (simp_all add: DisconnectFromCurrentPeer_def IsWindow_def app_okD)
qed (use assms in \<open>simp add: DisconnectFromCurrentPeer_def IsWindow_def\<close>)

lemma onBtnVideoClick_fine:
  assumes "app_ok cd"
  shows "app_fine (onBtnVideoClick env cd)"
proof -
  have "\<exists>i. atoi (video_user_data (main_wnd cd)) = Inr i"
    using app_okD(2) [OF assms] atoi_Printf_d by (auto simp: window_ok_def is_int_def atoi_def scan_number_def)
  then show ?thesis using assms ConnectToPeer_fine [OF assms] by (auto simp: onBtnVideoClick_def)
qed

lemma item_chosen_ok: "app_ok cd \<Longrightarrow> is_int i \<Longrightarrow> app_ok (on_window (item_chosen i) cd)"
  by (auto simp: app_ok_def on_window_def item_chosen_def window_ok_def)

lemma Notify_fine:
  assumes "app_ok cd" and "control_ok c"
  shows "app_fine (Notify env garbage c cd)"
  using assms
  by (cases c) (auto intro: doLogin_fine onBtnVideoClick_fine DisconnectFromCurrentPeer_fine item_chosen_ok)

lemma DisconnectFromServer_fine:
  assumes "app_ok cd"
  shows "app_fine (DisconnectFromServer cd)"
proof (cases "is_connected (the_client cd)")
  case True
  then have "live (the_client cd)" using app_okD(1) [OF assms] by (simp add: live_def is_connected_def)
  then obtain cd' where "Conductor_SignOut cd = Inr cd'" "app_ok cd'" using Conductor_SignOut_ok [OF assms] by metis
  then show ?thesis using True by (simp add: DisconnectFromServer_def)
qed (use assms in \<open>simp add: DisconnectFromServer_def\<close>)

text \<open>A pending message is sent at once, as the client never answers that it is sending.\<close>

lemma send_pending_fine:
  assumes "app_ok cd"
  shows "app_fine (send_pending cd)"
proof (cases "pending_messages cd")
  case (Cons msg rest)
  have inv: "peer_inv (the_client cd)" by (rule app_okD(1) [OF assms])
  have n: "IsSendingMessage (the_client cd) = Inr False" using inv by (auto simp: peer_inv_def IsSendingMessage_def)
  have len: "length msg \<le> 65527" "list_all (\<lambda>t. length t \<le> 65527) rest"
    using app_okD(3) [OF assms] Cons by simp_all
  have "fine_end (peer_do sample (EvSend (word_of_int (peer_id cd)) msg) (the_client cd))" for sample
    by (rule peer_event_fine [OF inv]) (simp add: len(1))
  then have f: "fine_end (and_then (SendToPeer (word_of_int (peer_id cd)) msg (the_client cd)) (\<lambda>(_, p). Inr p))" by simp
  show ?thesis
  proof (cases "SendToPeer (word_of_int (peer_id cd)) msg (the_client cd)")
    case (Inl x)
    then show ?thesis using f n Cons by (simp add: send_pending_def fine_end_def)
  next
    case (Inr r)
    obtain p where r: "r = (True, p)" using Inr by (auto simp: SendToPeer_def and_then_Inr_iff)
    have "peer_inv p" using f Inr r by simp
    then have "app_ok (cd\<lparr>pending_messages := rest, the_client := p\<rparr>)" using assms len(2) by (simp add: app_ok_def)
    then show ?thesis using n Cons Inr r by (simp add: send_pending_def)
  qed
qed (use assms in \<open>simp add: send_pending_def\<close>)

lemma UIThreadCallback_fine:
  assumes "app_ok cd" and "short_message m"
  shows "app_fine (UIThreadCallback m cd)"
proof (cases m)
  case PEER_CONNECTION_CLOSED
  then show ?thesis using app_okD [OF assms(1)] by (simp add: Let_def IsWindow_def)
next
  case (SEND_MESSAGE_TO_PEER data)
  let ?cd = "case data of None \<Rightarrow> cd | Some msg \<Rightarrow> cd\<lparr>pending_messages := pending_messages cd @ [msg]\<rparr>"
  have "app_ok ?cd" using assms SEND_MESSAGE_TO_PEER by (auto simp: app_ok_def split: option.split)
  from send_pending_fine [OF this] show ?thesis
    using SEND_MESSAGE_TO_PEER by (cases "send_pending ?cd") (simp_all add: Let_def)
qed (use assms in simp_all)

lemma OnFinalMessage_fine:
  assumes "app_ok cd" and "live (the_client cd)"
  shows "app_fine (OnFinalMessage env cd)"
proof -
  have live_after: "live (the_client cd') \<and> app_ok cd'"
    if m: "(if ui (main_wnd cd) = STREAMING then DisconnectFromCurrentPeer env cd else DisconnectFromServer cd) = Inr cd'" for cd'
  proof (cases "ui (main_wnd cd) = STREAMING")
    case True
    then have d: "DisconnectFromCurrentPeer env cd = Inr cd'" using m by simp
    then have ok: "app_ok cd'" using DisconnectFromCurrentPeer_fine [OF assms(1), of env] by simp
    have "live (the_client cd')"
    proof (cases "peer_connection cd")
      case True
      let ?p = "(the_client cd)\<lparr>calls := []\<rparr>"
      have "length kByeMessage \<le> 65527" by (simp add: kByeMessage_def ascii_def)
      note pkt = SendToPeer_packet [OF this]
      obtain p where p: "send_pkt 0x12 (\<lambda>b. and_then (pkt_WriteVarInt32 (word_of_int (peer_id cd)) b) (pkt_WriteString kByeMessage)) ?p = Inr p"
          "live p"
        using send_pkt_mild [OF _ pkt, of ?p] assms(2) by (auto simp: mild_def)
      have "calls p = []" using send_pkt_calls [OF p(1)] by simp
      then show ?thesis using d True p
        by (auto simp: DisconnectFromCurrentPeer_def on_client_def SendHangUp_def SendToPeer_def IsWindow_def)
    next
      case False
      then show ?thesis using d assms(2) by (auto simp: DisconnectFromCurrentPeer_def IsWindow_def)
    qed
    then show ?thesis using ok by simp
  next
    case False
    then have d: "DisconnectFromServer cd = Inr cd'" using m by simp
    have "live (the_client cd')"
      using d assms(2) Conductor_SignOut_ok [OF assms] by (auto simp: DisconnectFromServer_def split: if_splits)
    then show ?thesis using DisconnectFromServer_fine [OF assms(1)] d by simp
  qed
  have close: "app_fine (Conductor_Close cd')" if c: "live (the_client cd') \<and> app_ok cd'" for cd'
  proof -
    obtain cd2 where "Conductor_SignOut cd' = Inr cd2" "app_ok cd2" using Conductor_SignOut_ok [of cd'] c by metis
    then show ?thesis by (simp add: Conductor_Close_def app_okD)
  qed
  let ?m = "if ui (main_wnd cd) = STREAMING then DisconnectFromCurrentPeer env cd else DisconnectFromServer cd"
  have "app_fine ?m" using DisconnectFromCurrentPeer_fine [OF assms(1), of env] DisconnectFromServer_fine [OF assms(1)] by simp
  then show ?thesis using live_after close by (cases ?m) (simp_all add: OnFinalMessage_def)
qed

lemma app_do_fine:
  assumes ok: "app_ok cd" and env: "CreatesConnection env" and can: "app_can env ev cd"
  shows "app_fine (app_do env garbage ev cd)"
proof (cases ev)
  case UiMessage
  show ?thesis
  proof (cases "posted (main_wnd cd)")
    case (Cons m ms)
    then have "app_ok (on_window (\<lambda>w. w\<lparr>posted := ms\<rparr>) cd)" "short_message m"
      using ok by (auto simp: app_ok_def on_window_def window_ok_def)
    then show ?thesis using UiMessage Cons UIThreadCallback_fine by simp
  qed (use ok UiMessage in simp)
next
  case Gathered
  then show ?thesis using ok can by (auto simp: OnIceGatheringChange_def SendMessage_def case_prod_beta)
next
  case (DescriptionMade d)
  then show ?thesis using ok can by (simp add: OnSuccess_def)
qed (use ok can in \<open>auto intro: Notify_fine OnFinalMessage_fine network_fine [OF ok env] simp: OnAddStream_def OnRemoveStream_def\<close>)

end
