(* ===== verification/ConductorProperties.thy ===== *)
theory ConductorProperties
  imports ConductorInvariants
begin

text \<open>What holds of the whole client in every run, and what single events do to it.\<close>

section \<open>Reachable states\<close>




section \<open>The properties\<close>


definition sample_rtc :: "unit rtc" where
  "sample_rtc =
     \<lparr>net = \<lparr>IsUnresolvedIP = (\<lambda>_. False), ConnectSucceeds = (\<lambda>_. True), IsBusy = False\<rparr>,
      CreatesFactory = True, CreatesConnection = True, DeviceNames = Some [Some (ascii ''camera'')], CreatesCapturer = (\<lambda>_. True), CreatesAudio = True,
      LocalDescription = (ascii ''offer'', ascii ''v=0''), SessionDescription = (\<lambda>_ _. None), IceCandidate = (\<lambda>_ _ _. False),
      Json_write = (\<lambda>_. ascii ''{}''), Json_parse = (\<lambda>_. None), GetStringFromJsonObject = (\<lambda>_ _. None),
      GetIntFromJsonObject = (\<lambda>_ _. None)\<rparr>"


text \<open>
  When the factory makes no peer connection, the conductor deletes the factory and then adds its streams
  to it: the first message of a peer or the first answer to a call dereferences null.
\<close>
theorem no_connection_dereferences_null:
  assumes "CreatesFactory env" and "\<not> CreatesConnection env" and "\<not> peer_connection cd"
  shows "observe env (OnMessageFromPeer i message) cd = Inl OutOfRange \<and> observe env (OnPeerResponse i 1) cd = Inl OutOfRange"
  using assms(3) Initialize_fault [OF assms(1,2)] by (simp add: Conductor_OnMessageFromPeer_def Conductor_OnPeerResponse_def)

theorem no_connection_dereferences_null_witness:
  "observe (sample_rtc\<lparr>CreatesConnection := False\<rparr>) (OnMessageFromPeer 2 (ascii ''hi''))
     (new_Conductor (new_PeerConnectionClient (\<lambda>_. 0)) new_MainFrame) = Inl OutOfRange \<and>
   observe (sample_rtc\<lparr>CreatesConnection := False\<rparr>) (OnPeerResponse 2 1)
     (new_Conductor (new_PeerConnectionClient (\<lambda>_. 0)) new_MainFrame) = Inl OutOfRange"
  by (rule no_connection_dereferences_null) (simp_all add: sample_rtc_def new_Conductor_def)

text \<open>
  \<^bold>\<open>C21.\<close> A rejection from anybody breaks a call: while a call with a peer is on, the answer -1 of whichever
  peer makes the client forget its partner but keep the peer connection. It is then not busy any more, and ignores what the
  partner sends.
\<close>
theorem rejection_breaks_call:
  assumes "Conductor_IsBusy cd"
  shows "\<exists>cd'. observe env (OnPeerResponse i (- 1)) cd = Inr cd' \<and> peer_connection cd' \<and> \<not> Conductor_IsBusy cd' \<and>
    observe env (OnMessageFromPeer (peer_id cd) message) cd' = Inr cd'"
  using assms by (auto simp: Conductor_IsBusy_def Conductor_OnPeerResponse_def Conductor_OnMessageFromPeer_def)

definition calling :: conductor where
  "calling = (new_Conductor (new_PeerConnectionClient (\<lambda>_. 0)) new_MainFrame)\<lparr>peer_id := 2, peer_connection := True,
     peer_connection_factory := True\<rparr>"

theorem rejection_breaks_call_witness:
  "\<exists>cd'. observe sample_rtc (OnPeerResponse 3 (- 1)) calling = Inr cd' \<and> peer_connection cd' \<and> \<not> Conductor_IsBusy cd' \<and>
    observe sample_rtc (OnMessageFromPeer (peer_id calling) (ascii ''hi'')) cd' = Inr cd'"
  by (rule rejection_breaks_call) (simp add: calling_def Conductor_IsBusy_def)

text \<open>
  \<^bold>\<open>C22.\<close> Closing the window while the name of the first server is resolved dereferences null: the conductor signs out
  unconditionally, and there is no socket yet.
\<close>
theorem close_while_resolving:
  assumes "user \<noteq> []" and "pass \<noteq> []" and "IsUnresolvedIP (net env) (if server \<noteq> [] then server else SERVER)"
  shows "\<exists>cd. app_do env garbage (Control (Click_login user pass server))
      (new_Conductor (new_PeerConnectionClient memory) new_MainFrame) = Inr cd \<and>
    app_do env garbage CloseWindow cd = Inl OutOfRange"
proof -
  have "SERVER \<noteq> []" by (simp add: SERVER_def ascii_def)
  moreover have "md5_toString ctx \<noteq> []" if "\<not> md5_finished ctx" for ctx using length_md5_toString [OF that] by auto
  moreover have "\<not> md5_finished (md5_update (md5_reset (new_MD5 garbage)) pass)"
    by (simp add: md5_update_def Let_def split: prod.split)
  ultimately show ?thesis using assms
    by (auto simp: doLogin_def Let_def StartLogin_def on_client_def is_connected_def new_Conductor_def new_MainFrame_def
      new_PeerConnectionClient_def on_window_def Connect_def OnFinalMessage_def DisconnectFromServer_def Conductor_Close_def
      Conductor_SignOut_def SignOut_def)
qed

theorem close_while_resolving_witness:
  "\<exists>cd. app_do (sample_rtc\<lparr>net := \<lparr>IsUnresolvedIP = (\<lambda>_. True), ConnectSucceeds = (\<lambda>_. True), IsBusy = False\<rparr>\<rparr>) (\<lambda>_. 0)
      (Control (Click_login (ascii ''ann'') (ascii ''x'') (ascii ''example.org'')))
      (new_Conductor (new_PeerConnectionClient (\<lambda>_. 0)) new_MainFrame) = Inr cd \<and>
    app_do (sample_rtc\<lparr>net := \<lparr>IsUnresolvedIP = (\<lambda>_. True), ConnectSucceeds = (\<lambda>_. True), IsBusy = False\<rparr>\<rparr>) (\<lambda>_. 0) CloseWindow cd = Inl OutOfRange"
  by (rule close_while_resolving) (simp_all add: ascii_def)

text \<open>
  A login that fails to connect cannot be tried again: the controls of the login are disabled and nothing enables
  them, as the report of the failure only shows a message box, which is empty.
\<close>
theorem failed_login_stays_disabled:
  assumes "user \<noteq> []" and "pass \<noteq> []" and "server \<noteq> []" and "\<not> IsUnresolvedIP (net env) server"
    and "\<not> ConnectSucceeds (net env) (server, PORT)"
  shows "\<exists>cd. app_do env garbage (Control (Click_login user pass server))
      (new_Conductor (new_PeerConnectionClient memory) new_MainFrame) = Inr cd \<and>
    \<not> login_enabled (main_wnd cd) \<and> ui (main_wnd cd) = CONNECT_TO_SERVER \<and>
    conn_state (the_client cd) = NOT_CONNECTED \<and> \<not> m_bConnect (the_client cd)"
proof -
  have "\<not> md5_finished (md5_update (md5_reset (new_MD5 garbage)) pass)"
    by (simp add: md5_update_def Let_def split: prod.split)
  then have "md5_toString (md5_update (md5_reset (new_MD5 garbage)) pass) \<noteq> []" using length_md5_toString by fastforce
  then show ?thesis using assms
    by (simp add: doLogin_def Let_def StartLogin_def on_client_def is_connected_def new_Conductor_def new_MainFrame_def
      new_PeerConnectionClient_def on_window_def Connect_def DoConnect_def ConnectControlSocket_def Close_def notify_def
      Conductor_OnServerConnectionFailure_def MessageBox_def PORT_def)
qed

theorem failed_login_stays_disabled_witness:
  "\<exists>cd. app_do (sample_rtc\<lparr>net := \<lparr>IsUnresolvedIP = (\<lambda>_. False), ConnectSucceeds = (\<lambda>_. False), IsBusy = False\<rparr>\<rparr>) (\<lambda>_. 0)
      (Control (Click_login (ascii ''ann'') (ascii ''x'') (ascii ''10.0.0.1'')))
      (new_Conductor (new_PeerConnectionClient (\<lambda>_. 0)) new_MainFrame) = Inr cd \<and>
    \<not> login_enabled (main_wnd cd) \<and> ui (main_wnd cd) = CONNECT_TO_SERVER \<and>
    conn_state (the_client cd) = NOT_CONNECTED \<and> \<not> m_bConnect (the_client cd)"
  by (rule failed_login_stays_disabled) (simp_all add: ascii_def)

section \<open>The rows of the user list\<close>

lemma format_plain: "\<forall>c \<in> set cs. c \<noteq> 0 \<and> c \<noteq> 0x25 \<Longrightarrow> format_no_args (cs @ ds) = map_option ((@) cs) (format_no_args ds)"
  by (cases "format_no_args ds"; induction cs) simp_all

lemma ucast_ascii: "(ucast (c :: u8) :: 16 word) = 0 \<longleftrightarrow> c = 0" "(ucast c :: 16 word) = 0x25 \<longleftrightarrow> c = 0x25"
  by (transfer, simp add: take_bit_eq_mod)+

lemma row_plain: "\<forall>c \<in> set cs. c \<noteq> 0 \<and> c \<noteq> (0x25 :: u8) \<Longrightarrow>
    format_no_args (map ucast cs @ ds) = map_option ((@) (map ucast cs)) (format_no_args ds)"
  by (rule format_plain) (auto simp: ucast_ascii)

text \<open>
  \<^bold>\<open>C23.\<close> The name of a user is used as a format and printed into 260 characters: a name in ASCII without a percent sign is
  shown as it is when it is shorter than that, and overruns the array otherwise; a name with a percent sign that
  another character than a percent sign follows is undefined. The server accepts both.
\<close>
theorem row_text:
  assumes "userInfo w (sint tag) = Some (plain @ rest)" and "\<forall>c \<in> set plain. c \<noteq> 0 \<and> c \<noteq> 0x25"
    and "CA2W (plain @ rest) = map ucast (plain @ rest)"
  shows "(rest = [] \<longrightarrow> GetItemText CA2W tag 1 w = (if length plain < 260 then Inr (map ucast plain, w) else Inl OutOfRange)) \<and>
    (\<forall>c cs. rest = 0x25 # c # cs \<longrightarrow> c \<noteq> 0x25 \<longrightarrow> GetItemText CA2W tag 1 w = Inl OutOfRange)"
proof -
  have f: "format_no_args (CA2W (plain @ rest)) = map_option ((@) (map ucast plain)) (format_no_args (map ucast rest))"
    using row_plain [OF assms(2)] by (simp add: assms(3))
  have g: "GetItemText CA2W tag 1 w = (case format_no_args (CA2W (plain @ rest)) of None \<Rightarrow> Inl OutOfRange
      | Some text \<Rightarrow> if length text < 260 then Inr (text, w) else Inl OutOfRange)"
    by (simp add: GetItemText_def assms(1))
  show ?thesis unfolding g f by (auto simp: ucast_ascii)
qed

theorem row_text_witness:
  "GetItemText (map ucast) 7 1 (new_MainFrame\<lparr>userInfo := [7 \<mapsto> replicate 300 0x61]\<rparr>) = Inl OutOfRange \<and>
   GetItemText (map ucast) 7 1 (new_MainFrame\<lparr>userInfo := [7 \<mapsto> [0x61, 0x25, 0x73]]\<rparr>) = Inl OutOfRange"
  using row_text [of "new_MainFrame\<lparr>userInfo := [7 \<mapsto> replicate 300 0x61]\<rparr>" 7 "replicate 300 0x61" "[]" "map ucast"]
    row_text [of "new_MainFrame\<lparr>userInfo := [7 \<mapsto> [0x61, 0x25, 0x73]]\<rparr>" 7 "[0x61]" "[0x25, 0x73]" "map ucast"]
  by simp

section \<open>Messages leave in order\<close>

lemma UiMessage_sends:
  assumes ok: "app_ok cd" and conn: "m_bConnect (the_client cd)" "peer_connection cd" "pending_messages cd = []"
    and m: "posted (main_wnd cd) = SEND_MESSAGE_TO_PEER (Some t) # ms"
  obtains cd' where "app_do env garbage UiMessage cd = Inr cd'" and "app_ok cd'" and "m_bConnect (the_client cd')"
    and "peer_connection cd'" and "pending_messages cd' = []" and "posted (main_wnd cd') = ms" and "peer_id cd' = peer_id cd"
    and "socket_sent (the_client cd') = socket_sent (the_client cd) @
      frame (varint_bytes (0x12 :: u32) @ varint_bytes (word_of_int (peer_id cd) :: u32) @ string_bytes t)"
proof -
  have len: "length t \<le> 65527" and inv: "peer_inv (the_client cd)"
    using app_okD [OF ok] m by (simp_all add: window_ok_def)
  have live: "live (the_client cd)" using inv conn(1) by (simp add: live_def)
  obtain p where p: "SendToPeer (word_of_int (peer_id cd)) t (the_client cd) = Inr (True, p)" "live p" "m_bConnect p"
      "socket_sent p = socket_sent (the_client cd) @
        frame (varint_bytes (0x12 :: u32) @ varint_bytes (word_of_int (peer_id cd) :: u32) @ string_bytes t)"
    by (rule SendToPeer_sends [OF live conn(1) len], rule that)
  have n: "IsSendingMessage (the_client cd) = Inr False" using inv by (auto simp: peer_inv_def IsSendingMessage_def)
  let ?cd = "(on_window (\<lambda>w. w\<lparr>posted := ms\<rparr>) cd)\<lparr>pending_messages := [], the_client := p\<rparr>"
  have e: "app_do env garbage UiMessage cd = Inr ?cd"
    using m n p(1) conn(2,3) by (simp add: Let_def send_pending_def)
  have "app_fine (UIThreadCallback (SEND_MESSAGE_TO_PEER (Some t)) (on_window (\<lambda>w. w\<lparr>posted := ms\<rparr>) cd))"
    using ok m by (intro UIThreadCallback_fine) (auto simp: app_ok_def on_window_def window_ok_def)
  then have "app_ok ?cd" using e m by simp
  then show thesis using that [of ?cd] e p(3,4) conn(2) by simp
qed

text \<open>
  \<^bold>\<open>C5.\<close> The session descriptions posted to the window leave in the order they were posted: handling the messages of
  the window one by one sends each to the partner of the call, and then nothing is posted or pending any more.
\<close>
theorem posted_messages_leave_in_order:
  assumes "app_ok cd" and "m_bConnect (the_client cd)" and "peer_connection cd" and "pending_messages cd = []"
    and "posted (main_wnd cd) = map (\<lambda>t. SEND_MESSAGE_TO_PEER (Some t)) ts"
  shows "\<exists>cd'. ((\<lambda>m. and_then m (app_do env garbage UiMessage)) ^^ length ts) (Inr cd) = Inr cd' \<and>
    posted (main_wnd cd') = [] \<and> pending_messages cd' = [] \<and>
    socket_sent (the_client cd') = socket_sent (the_client cd) @
      concat (map (\<lambda>t. frame (varint_bytes (0x12 :: u32) @ varint_bytes (word_of_int (peer_id cd) :: u32) @ string_bytes t)) ts)"
  using assms
proof (induction ts arbitrary: cd)
  case (Cons t ts)
  obtain cd1 where cd1: "app_do env garbage UiMessage cd = Inr cd1" "app_ok cd1" "m_bConnect (the_client cd1)"
      "peer_connection cd1" "pending_messages cd1 = []" "posted (main_wnd cd1) = map (\<lambda>t. SEND_MESSAGE_TO_PEER (Some t)) ts"
      "peer_id cd1 = peer_id cd" "socket_sent (the_client cd1) = socket_sent (the_client cd) @
        frame (varint_bytes (0x12 :: u32) @ varint_bytes (word_of_int (peer_id cd) :: u32) @ string_bytes t)"
    by (rule UiMessage_sends [of cd t "map (\<lambda>t. SEND_MESSAGE_TO_PEER (Some t)) ts" env garbage])
      (use Cons.prems that in simp_all)
  from Cons.IH [OF cd1(2-6)] show ?case
    using cd1(1,7,8) by (simp add: funpow_swap1 del: funpow.simps(2) add: funpow_Suc_right)
qed simp


definition in_call :: conductor where
  "in_call = (new_Conductor ((new_PeerConnectionClient (\<lambda>_. 0))
       \<lparr>m_bConnect := True, control_socket := Some CS_CONNECTED, conn_state := SIGNING_IN, peer_State := 3\<rparr>)
     (new_MainFrame\<lparr>posted := [SEND_MESSAGE_TO_PEER (Some [0x61]), SEND_MESSAGE_TO_PEER (Some [0x62])]\<rparr>))
     \<lparr>peer_id := 2, peer_connection := True, peer_connection_factory := True\<rparr>"

theorem posted_messages_leave_in_order_witness:
  "\<exists>cd'. ((\<lambda>m. and_then m (app_do sample_rtc (\<lambda>_. 0) UiMessage)) ^^ 2) (Inr in_call) = Inr cd' \<and>
    posted (main_wnd cd') = [] \<and>
    socket_sent (the_client cd') = frame (varint_bytes (0x12 :: u32) @ varint_bytes (2 :: u32) @ string_bytes [0x61]) @
      frame (varint_bytes (0x12 :: u32) @ varint_bytes (2 :: u32) @ string_bytes [0x62])"
proof -
  have "app_ok in_call"
    using peer_reachable_inv [OF peer_reachable.start, of "\<lambda>_. 0"]
    by (simp add: in_call_def new_Conductor_def new_MainFrame_def app_ok_def window_ok_def peer_inv_def new_PeerConnectionClient_def)
  moreover have c: "m_bConnect (the_client in_call)" "peer_connection in_call" "pending_messages in_call = []"
      "posted (main_wnd in_call) = map (\<lambda>t. SEND_MESSAGE_TO_PEER (Some t)) [[0x61], [0x62]]"
      "socket_sent (the_client in_call) = []" "peer_id in_call = 2"
    by (simp_all add: in_call_def new_Conductor_def new_MainFrame_def new_PeerConnectionClient_def)
  moreover have "length [[0x61 :: u8], [0x62]] = 2" by simp
  ultimately show ?thesis
    using posted_messages_leave_in_order [OF _ c(1-4), of sample_rtc "\<lambda>_. 0"]
    by (simp only: list.map concat.simps append_Nil append_Nil2 word_of_int_numeral) blast
qed

end
