(* ===== verification/Calls.thy ===== *)
theory Calls
  imports ServerProperties ConductorProperties
begin

text \<open>
  The steps of a call as the client and the server make them: what a request sends, how the client that
  is called answers, and what the answer starts.
\<close>

text \<open>A request for a call, and how one that arrives is answered.\<close>

lemma two_varints_sent:
  assumes "live p" and "m_bConnect p"
  obtains p' where "send_pkt 0x11 (\<lambda>b. and_then (pkt_WriteVarInt32 i b) (pkt_WriteVarInt32 t)) p = Inr p'" and "live p'"
    and "socket_sent p' = socket_sent p @ frame (varint_bytes (0x11 :: u32) @ varint_bytes (i :: u32) @ varint_bytes (t :: u32))"
    and "calls p' = calls p" and "m_bConnect p'" and "peer_State p' = peer_State p" and "peer_ReceivedData p' = peer_ReceivedData p"
proof -
  have w: "pkt_as (\<lambda>b. and_then (pkt_WriteVarInt32 i b) (pkt_WriteVarInt32 t)) (varint_bytes i @ varint_bytes t)"
    by (intro pkt_as_seq pkt_writers)
  have fits: "length (varint_bytes (0x11 :: u32)) + length (varint_bytes i @ varint_bytes t) \<le> 65536"
    by (rule two_varints_fit) simp
  obtain out' where s: "send_pkt 0x11 (\<lambda>b. and_then (pkt_WriteVarInt32 i b) (pkt_WriteVarInt32 t)) p =
      Inr (p\<lparr>peer_OutPacketBuffer := out', socket_sent := socket_sent p @
        (if m_bConnect p then frame (varint_bytes (0x11 :: u32) @ varint_bytes i @ varint_bytes t) else [])\<rparr>)" "out_empty out'"
    by (rule send_pkt_effect [OF liveD(2,3) [OF assms(1)] w fits], assumption) (rule that)
  show thesis by (rule that [OF s(1)]) (use assms(2) live_updates(2) [OF assms(1) s(2)] in simp_all)
qed

lemma media_frame_fits: "length (frame (varint_bytes (0x11 :: u32) @ varint_bytes (i :: u32) @ varint_bytes (t :: u32))) \<le> 65536"
proof -
  have "length (varint_bytes (0x11 :: u32) @ varint_bytes i @ varint_bytes t) \<le> 11"
    using small_type [of "0x11"] varint_length_bounds(1) [of i] varint_length_bounds(1) [of t] by simp
  then show ?thesis using frame_length [of "varint_bytes (0x11 :: u32) @ varint_bytes i @ varint_bytes t"] by simp
qed

lemma peer_call_received:
  assumes p: "live p" and conn: "m_bConnect p" and empty: "peer_received p = []" and st: "peer_State p = 3"
  obtains p' where "peer_DataReceived env (frame (varint_bytes (0x11 :: u32) @ varint_bytes i @ varint_bytes (0 :: u32))) p = Inr p'"
    and "calls p' = calls p" and "socket_sent p' = socket_sent p @
      frame (varint_bytes (0x11 :: u32) @ varint_bytes (i :: u32) @ varint_bytes (if IsBusy env then - 1 else 1 :: u32))"
proof -
  let ?a = "if IsBusy env then - 1 else 1 :: u32"
  let ?P = "\<lambda>p2. calls p2 = calls p \<and> socket_sent p2 = socket_sent p @ frame (varint_bytes (0x11 :: u32) @ varint_bytes i @ varint_bytes ?a)"
  obtain b p2 where "peer_DataReceived env (frame (varint_bytes (0x11 :: u32) @ varint_bytes i @ varint_bytes (0 :: u32))) p =
      Inr (p2\<lparr>peer_ReceivedData := b\<rparr>)" "?P p2"
  proof (rule peer_frame_received [OF p empty media_frame_fits, where P = ?P])
    fix b bb assume b: "received_ok b" "unread b = []" "buffer_ok bb" "unread bb = (varint_bytes i @ varint_bytes (0 :: u32)) @ [0]"
    obtain b1 where b1: "\<And>k p. peer_read ReadVarInt32 k bb p = k i b1 p" "buffer_ok b1" "unread b1 = varint_bytes (0 :: u32) @ [0]"
      using varint_read [OF b(3), of i "varint_bytes (0 :: u32) @ [0]"] b(4) by auto
    obtain b2 where b2: "\<And>k p. peer_read ReadVarInt32 k b1 p = k (0 :: u32) b2 p" by (rule varint_read [OF b1(2,3)], rule that)
    let ?p = "p\<lparr>peer_ReceivedData := b\<rparr>"
    obtain p' where p': "send_pkt 0x11 (\<lambda>b. and_then (pkt_WriteVarInt32 i b) (pkt_WriteVarInt32 ?a)) ?p = Inr p'"
        "socket_sent p' = socket_sent p @ frame (varint_bytes (0x11 :: u32) @ varint_bytes i @ varint_bytes ?a)"
        "calls p' = calls p" "peer_ReceivedData p' = b"
      using two_varints_sent [OF live_updates(1) [OF p b(1)], of i ?a] conn by auto
    show "\<exists>bb' p2. peer_HandlePacket env bb 0x11 ?p = Inr (True, bb', p2) \<and>
        received_ok (peer_ReceivedData p2) \<and> peer_received p2 = [] \<and> ?P p2"
      using st b(1,2) p' by (simp add: peer_HandlePacket_def HandlePacketMedia_def b1(1) b2 handled_def then_rest_def peer_received_def)
  qed
  then show thesis using that [of "p2\<lparr>peer_ReceivedData := b\<rparr>"] by simp
qed

lemma peer_answer_received:
  assumes p: "live p" and empty: "peer_received p = []" and st: "peer_State p = 3" and t: "t \<noteq> 0"
  obtains p' where "peer_DataReceived env (frame (varint_bytes (0x11 :: u32) @ varint_bytes i @ varint_bytes t)) p = Inr p'"
    and "calls p' = calls p @ [OnPeerResponse (sint (i :: u32)) (sint (t :: u32))]"
proof -
  let ?P = "\<lambda>p2. calls p2 = calls p @ [OnPeerResponse (sint i) (sint t)]"
  obtain b p2 where "peer_DataReceived env (frame (varint_bytes (0x11 :: u32) @ varint_bytes i @ varint_bytes t)) p =
      Inr (p2\<lparr>peer_ReceivedData := b\<rparr>)" "?P p2"
  proof (rule peer_frame_received [OF p empty media_frame_fits, where P = ?P])
    fix b bb assume b: "received_ok b" "unread b = []" "buffer_ok bb" "unread bb = (varint_bytes i @ varint_bytes t) @ [0]"
    obtain b1 where b1: "\<And>k p. peer_read ReadVarInt32 k bb p = k i b1 p" "buffer_ok b1" "unread b1 = varint_bytes t @ [0]"
      using varint_read [OF b(3), of i "varint_bytes t @ [0]"] b(4) by auto
    obtain b2 where b2: "\<And>k p. peer_read ReadVarInt32 k b1 p = k t b2 p" by (rule varint_read [OF b1(2,3)], rule that)
    show "\<exists>bb' p2. peer_HandlePacket env bb 0x11 (p\<lparr>peer_ReceivedData := b\<rparr>) = Inr (True, bb', p2) \<and>
        received_ok (peer_ReceivedData p2) \<and> peer_received p2 = [] \<and> ?P p2"
      using st b(1,2) t by (simp add: peer_HandlePacket_def HandlePacketMedia_def b1(1) b2 handled_def notify_def peer_received_def)
  qed
  then show thesis using that [of "p2\<lparr>peer_ReceivedData := b\<rparr>"] by simp
qed


text \<open>A frame that is read from the socket, in the whole client.\<close>

lemma frame_not_empty: "frame e \<noteq> []"
  using varint_bytes_not_Nil [of "of_nat (length e) :: u32"] by (simp add: frame_def)

lemma Data_frame:
  assumes "m_bConnect (the_client cd)" and "app_ok cd"
  shows "network env (EvData [frame e]) cd =
    on_client env (peer_DataReceived ((net env)\<lparr>IsBusy := Conductor_IsBusy cd\<rparr>) (frame e)) cd"
proof -
  have "control_socket (the_client cd) = Some CS_CONNECTED"
    using assms by (auto simp: app_ok_def peer_inv_def)
  then show ?thesis by (simp add: network_def on_client_def frame_not_empty and_then_def split: sum.split)
qed

lemma app_live: "app_ok cd \<Longrightarrow> m_bConnect (the_client cd) \<Longrightarrow> live ((the_client cd)\<lparr>calls := []\<rparr>)"
  by (simp add: app_ok_def live_def)

definition idle_client :: "conductor \<Rightarrow> bool" where
  "idle_client cd \<longleftrightarrow> app_ok cd \<and> m_bConnect (the_client cd) \<and> peer_State (the_client cd) = 3 \<and>
     peer_received (the_client cd) = [] \<and> \<not> peer_connection cd"

lemma ConnectToPeer_sends:
  assumes "idle_client cd"
  obtains cd' where "ConnectToPeer env i cd = Inr cd'" and "idle_client cd'"
    and "socket_sent (the_client cd') = socket_sent (the_client cd) @
      frame (varint_bytes (0x11 :: u32) @ varint_bytes (word_of_int i :: u32) @ varint_bytes (0 :: u32))"
proof -
  let ?p = "(the_client cd)\<lparr>calls := []\<rparr>"
  have p: "live ?p" "m_bConnect ?p" using assms app_live by (auto simp: idle_client_def)
  obtain p' where p': "send_pkt 0x11 (\<lambda>b. and_then (pkt_WriteVarInt32 (word_of_int i) b) (pkt_WriteVarInt32 0)) ?p = Inr p'" "live p'"
      "socket_sent p' = socket_sent ?p @ frame (varint_bytes (0x11 :: u32) @ varint_bytes (word_of_int i :: u32) @ varint_bytes (0 :: u32))"
      "calls p' = calls ?p" "m_bConnect p'" "peer_State p' = peer_State ?p" "peer_ReceivedData p' = peer_ReceivedData ?p"
    by (rule two_varints_sent [OF p], rule that)
  have e: "ConnectToPeer env i cd = Inr (cd\<lparr>the_client := p'\<rparr>)"
    using p'(1,4) by (simp add: ConnectToPeer_def on_client_def RequestToPeer_def)
  have "app_ok (cd\<lparr>the_client := p'\<rparr>)" using assms app_ok_client liveD(4) [OF p'(2)] by (simp add: idle_client_def)
  then have "idle_client (cd\<lparr>the_client := p'\<rparr>)" using assms p'(5-7) by (simp add: idle_client_def peer_received_def)
  then show thesis using that e p'(3) by simp
qed

lemma Conductor_answers:
  assumes "idle_client cd"
  obtains cd' where "app_do env garbage (Data [frame (varint_bytes (0x11 :: u32) @ varint_bytes i @ varint_bytes (0 :: u32))]) cd = Inr cd'"
    and "socket_sent (the_client cd') = socket_sent (the_client cd) @
      frame (varint_bytes (0x11 :: u32) @ varint_bytes (i :: u32) @ varint_bytes (1 :: u32))"
proof -
  let ?p = "(the_client cd)\<lparr>calls := []\<rparr>" and ?env = "(net env)\<lparr>IsBusy := Conductor_IsBusy cd\<rparr>"
  have p: "live ?p" "m_bConnect ?p" "peer_received ?p = []" "peer_State ?p = 3"
    using assms app_live by (auto simp: idle_client_def peer_received_def)
  obtain p' where p': "peer_DataReceived ?env (frame (varint_bytes (0x11 :: u32) @ varint_bytes i @ varint_bytes (0 :: u32))) ?p = Inr p'"
      "calls p' = calls ?p"
      "socket_sent p' = socket_sent ?p @ frame (varint_bytes (0x11 :: u32) @ varint_bytes i @ varint_bytes (if IsBusy ?env then - 1 else 1 :: u32))"
    by (rule peer_call_received [OF p], rule that)
  have "\<not> IsBusy ?env" using assms by (simp add: idle_client_def Conductor_IsBusy_def)
  moreover have "app_do env garbage (Data [frame (varint_bytes (0x11 :: u32) @ varint_bytes i @ varint_bytes (0 :: u32))]) cd =
      Inr (cd\<lparr>the_client := p'\<rparr>)"
    using assms p'(1,2) by (simp add: Data_frame idle_client_def on_client_def)
  ultimately show thesis using that p'(3) by simp
qed

lemma Conductor_starts_call:
  assumes "idle_client cd" and "CreatesFactory env" and "CreatesConnection env"
  obtains cd' where "app_do env garbage (Data [frame (varint_bytes (0x11 :: u32) @ varint_bytes i @ varint_bytes (1 :: u32))]) cd = Inr cd'"
    and "Conductor_IsBusy cd' \<or> sint (i :: u32) = - 1" and "peer_id cd' = sint i" and "peer_connection cd'"
    and "CreateOffer \<in> set (webrtc_calls cd')"
proof -
  let ?p = "(the_client cd)\<lparr>calls := []\<rparr>" and ?env = "(net env)\<lparr>IsBusy := Conductor_IsBusy cd\<rparr>"
  have p: "live ?p" "peer_received ?p = []" "peer_State ?p = 3"
    using assms app_live by (auto simp: idle_client_def peer_received_def)
  obtain p' where p': "peer_DataReceived ?env (frame (varint_bytes (0x11 :: u32) @ varint_bytes i @ varint_bytes (1 :: u32))) ?p = Inr p'"
      "calls p' = calls ?p @ [OnPeerResponse (sint i) (sint (1 :: u32))]"
    by (rule peer_answer_received [OF p, of 1], simp, rule that)
  have "ends_well (peer_AddReceivedData ?env (frame (varint_bytes (0x11 :: u32) @ varint_bytes i @ varint_bytes (1 :: u32))) ?p)"
    by (rule peer_AddReceivedData_ends [OF p(1)])
  then have "peer_inv p'" using p'(1) liveD(4) by (simp add: ends_well_def peer_DataReceived_def)
  then have ok: "app_ok (cd\<lparr>the_client := p'\<rparr>)" using assms(1) app_ok_client by (simp add: idle_client_def)
  obtain b cd1 where cd1: "InitializePeerConnection env (cd\<lparr>the_client := p'\<rparr>) = Inr (b, cd1)" "b = CreatesFactory env" "peer_connection cd1 = b"
    by (rule Initialize_ok [OF ok assms(3)]) (use assms(1) that in \<open>auto simp: idle_client_def\<close>)
  let ?cd = "rtc_call CreateOffer (cd1\<lparr>peer_id := sint i\<rparr>)"
  have "app_do env garbage (Data [frame (varint_bytes (0x11 :: u32) @ varint_bytes i @ varint_bytes (1 :: u32))]) cd = Inr ?cd"
    using assms p' cd1 by (simp add: Data_frame idle_client_def on_client_def Conductor_OnPeerResponse_def)
  then show thesis using that [of ?cd] cd1(2,3) assms(2) by (auto simp: Conductor_IsBusy_def)
qed

end
