(* ===== verification/Segmentation.thy ===== *)
theory Segmentation
  imports ServerProperties
begin

text \<open>
  Received data in pieces. Handling a packet neither reads nor writes the received data of the connection, so every
  operation it uses commutes with \<open>set_received\<close>; the locale \<open>blind_packet_reader\<close> then gives that the
  server does the same wherever the network has cut the data.
\<close>

section \<open>Operations that do not touch the received data\<close>

abbreviation (input) recv :: "cByteBuffer \<Rightarrow> cClientHandle \<Rightarrow> cClientHandle" where
  "recv b x \<equiv> x\<lparr>m_Protocol := (m_Protocol x)\<lparr>m_ReceivedData := b\<rparr>\<rparr>"

lemma upd_out: "\<not> c < length (objects w) \<Longrightarrow> upd_client c f w = w"
  by (simp add: upd_client_def set_client_def list_update_beyond)

lemma client_set_received:
  "client (set_received c b w) d = (if d = c \<and> c < length (objects w) then recv b (client w d) else client w d)"
proof (cases "c < length (objects w)")
  case True
  then show ?thesis by (simp add: set_received_def upd_client_def set_client_def client_def nth_list_update)
qed (simp add: set_received_def upd_out)

lemma set_received_fields [simp]:
  "m_HasSentDC (client (set_received c b w) d) = m_HasSentDC (client w d)"
  "m_UniqueID (client (set_received c b w) d) = m_UniqueID (client w d)"
  "m_IPString (client (set_received c b w) d) = m_IPString (client w d)"
  "m_PingID (client (set_received c b w) d) = m_PingID (client w d)"
  "m_ProtoState (protocol (set_received c b w) d) = m_ProtoState (protocol w d)"
  by (simp_all add: client_set_received protocol_def)

lemma upd_set_received:
  assumes "f (recv b (client w c)) = recv b (f (client w c))" 
  shows "upd_client d f (set_received c b w) = set_received c b (upd_client d f w)"
proof (cases "c < length (objects w)")
  case True
  then show ?thesis using assms
    by (cases "d = c") (simp_all add: set_received_def upd_client_def set_client_def client_def list_update_swap)
qed (simp add: set_received_def upd_out)

lemma packet_received:
  "packet ty writes (p\<lparr>m_ReceivedData := b\<rparr>) = map_sum id (apsnd (\<lambda>p. p\<lparr>m_ReceivedData := b\<rparr>)) (packet ty writes p)"
  by (simp add: packet_def SendPacket_def Let_def and_then_def split: sum.splits prod.splits)

lemma SendData_set_received:
  "ClientHandle_SendData d bytes (set_received c b w) = set_received c b (ClientHandle_SendData d bytes w)"
  by (simp add: ClientHandle_SendData_def upd_set_received)

lemma send_packet_set_received:
  "send_packet d ty writes (set_received c b w) = map_sum id (set_received c b) (send_packet d ty writes w)"
proof (cases "d = c \<and> c < length (objects w)")
  case True
  have "upd_client c (\<lambda>x. x\<lparr>m_Protocol := p\<lparr>m_ReceivedData := b\<rparr>\<rparr>) (set_received c b w) =
      set_received c b (upd_client c (\<lambda>x. x\<lparr>m_Protocol := p\<rparr>) w)" for p
    using True by (simp add: set_received_def upd_client_def set_client_def)
  then show ?thesis using True
    by (simp add: send_packet_def protocol_def client_set_received packet_received and_then_def SendData_set_received split: sum.splits)
next
  case False
  have "upd_client d (\<lambda>x. x\<lparr>m_Protocol := p\<rparr>) (set_received c b w) =
      set_received c b (upd_client d (\<lambda>x. x\<lparr>m_Protocol := p\<rparr>) w)" for p
    using False by (cases "d = c")
      (simp_all add: set_received_def upd_out, simp add: upd_client_def set_client_def list_update_swap)
  moreover have "protocol (set_received c b w) d = protocol w d" using False by (auto simp: protocol_def client_set_received)
  ultimately show ?thesis
    by (simp add: send_packet_def and_then_def SendData_set_received split: sum.splits)
qed

lemma and_then_map: "and_then (map_sum id g m) f = and_then m (\<lambda>x. f (g x))"
  by (cases m) simp_all

lemma map_and_then: "map_sum id g (and_then m f) = and_then m (\<lambda>x. map_sum id g (f x))"
  by (cases m) simp_all

lemma set_proto_state_set_received: "set_proto_state d s (set_received c b w) = set_received c b (set_proto_state d s w)"
  by (simp add: set_proto_state_def upd_set_received)

lemma SendDisconnect_set_received:
  "ClientHandle_SendDisconnect d r (set_received c b w) = map_sum id (set_received c b) (ClientHandle_SendDisconnect d r w)"
  by (auto simp: ClientHandle_SendDisconnect_def Protocol_SendDisconnect_def send_packet_set_received and_then_map map_and_then upd_set_received)

lemma find_id_set_received: "find_id (set_received c b w) i = find_id w i"
  by (simp add: find_id_def)

lemmas received_blind = send_packet_set_received SendDisconnect_set_received set_proto_state_set_received find_id_set_received

lemma handle_read_map:
  assumes "\<And>x bb. k x bb (g w) = map_sum id (apsnd g) (k x bb w)"
  shows "handle_read f k bb (g w) = map_sum id (apsnd g) (handle_read f k bb w)"
  using assms by (auto simp: handle_read_def and_then_def split: sum.split prod.split option.split)

lemma done_with_map: "done_with bb (map_sum id g m) = map_sum id (apsnd g) (done_with bb m)"
  by (cases m) (simp_all add: done_with_def)

lemma StatusRequest_set_received:
  "StatusRequest_reply d n s bb (set_received c b w) = map_sum id (apsnd (set_received c b)) (StatusRequest_reply d n s bb w)"
  by (simp add: StatusRequest_reply_def ClientHandle_Kick_def received_blind done_with_map)

lemma Forward_set_received:
  "Server_ForwardMedia i j t (set_received c b w) = map_sum id (set_received c b) (Server_ForwardMedia i j t w)"
  "Server_ForwardMediaMsg i j s (set_received c b w) = map_sum id (set_received c b) (Server_ForwardMediaMsg i j s w)"
  by (simp_all add: Server_ForwardMedia_def Server_ForwardMediaMsg_def Protocol_ForwardMedia_def Protocol_ForwardMediaMsg_def
      received_blind split: option.split)

lemma HandleLogin_set_received:
  "snd (ClientHandle_HandleLogin d u p (set_received c b w)) = set_received c b (snd (ClientHandle_HandleLogin d u p w))"
  by (simp add: ClientHandle_HandleLogin_def Authenticator_Authenticate_def upd_set_received)
    (simp add: set_received_def upd_client_def set_client_def)

lemma KeepAlive_set_received:
  "ClientHandle_HandleKeepAlive d i (set_received c b w) = set_received c b (ClientHandle_HandleKeepAlive d i w)"
  by (simp add: ClientHandle_HandleKeepAlive_def upd_set_received)

lemma HandlePacket_set_received:
  "HandlePacket d bb ty (set_received c b w) = map_sum id (apsnd (apsnd (set_received c b))) (HandlePacket d bb ty w)"
proof -
  let ?g = "set_received c b"
  have u: "understood (map_sum id (apsnd ?g) m) = map_sum id (apsnd (apsnd ?g)) (understood m)" for m
    by (cases m) (simp_all add: understood_def split: prod.split)
  have "HandlePacketStatusRequest d bb (?g w) = map_sum id (apsnd ?g) (HandlePacketStatusRequest d bb w)"
    unfolding HandlePacketStatusRequest_def by (intro handle_read_map StatusRequest_set_received)
  moreover have "HandlePacketStatusPing d bb (?g w) = map_sum id (apsnd ?g) (HandlePacketStatusPing d bb w)"
    unfolding HandlePacketStatusPing_def by (intro handle_read_map) (simp add: received_blind done_with_map)
  moreover have "HandlePacketLoginInfo d bb (?g w) = map_sum id (apsnd ?g) (HandlePacketLoginInfo d bb w)"
    unfolding HandlePacketLoginInfo_def by (intro handle_read_map) (simp add: HandleLogin_set_received)
  moreover have "HandlePacketKeepAlive d bb (?g w) = map_sum id (apsnd ?g) (HandlePacketKeepAlive d bb w)"
    unfolding HandlePacketKeepAlive_def by (intro handle_read_map) (simp add: KeepAlive_set_received)
  moreover have "HandlePacketMedia d bb (?g w) = map_sum id (apsnd ?g) (HandlePacketMedia d bb w)"
    unfolding HandlePacketMedia_def by (intro handle_read_map) (simp add: Forward_set_received done_with_map)
  moreover have "HandlePacketMediaMsg d bb (?g w) = map_sum id (apsnd ?g) (HandlePacketMediaMsg d bb w)"
    unfolding HandlePacketMediaMsg_def by (intro handle_read_map) (simp add: Forward_set_received done_with_map)
  ultimately show ?thesis
    by (simp add: HandlePacket_def Let_def u PacketUnknown_def received_blind and_then_map map_and_then)
qed

lemma run_packet_set_received:
  "run_packet d bb (set_received c b w) = map_sum (map_sum id (set_received c b)) (set_received c b) (run_packet d bb w)"
  by (auto simp: run_packet_def HandlePacket_set_received PacketError_def received_blind split: sum.split prod.split option.split bool.split)

section \<open>Operations that keep the number of connections\<close>

definition objects_stay :: "nat \<Rightarrow> fault + world \<Rightarrow> bool" where
  "objects_stay n m \<longleftrightarrow> (\<forall>w. m = Inr w \<longrightarrow> length (objects w) = n)"

definition objects_stay2 :: "nat \<Rightarrow> fault + cByteBuffer \<times> world \<Rightarrow> bool" where
  "objects_stay2 n m \<longleftrightarrow> (\<forall>bb w. m = Inr (bb, w) \<longrightarrow> length (objects w) = n)"

lemma handle_read_stay:
  "(\<And>x bb. objects_stay2 n (k x bb w)) \<Longrightarrow> length (objects w) = n \<Longrightarrow> objects_stay2 n (handle_read f k bb w)"
  by (auto simp: objects_stay2_def handle_read_def and_then_Inr_iff split: option.splits)

lemma done_with_stay: "objects_stay n m \<Longrightarrow> objects_stay2 n (done_with bb m)"
  by (cases m) (simp_all add: objects_stay_def objects_stay2_def done_with_def)

lemma and_then_stay: "(\<And>x. m = Inr x \<Longrightarrow> objects_stay n (f x)) \<Longrightarrow> objects_stay n (and_then m f)"
  by (cases m) (simp_all add: objects_stay_def)

lemma send_packet_stay: "length (objects w) = n \<Longrightarrow> objects_stay n (send_packet d ty f w)"
  unfolding send_packet_def by (rule and_then_stay) (simp add: objects_stay_def ClientHandle_SendData_def split: prod.split)

lemma SendDisconnect_stay: "length (objects w) = n \<Longrightarrow> objects_stay n (ClientHandle_SendDisconnect d r w)"
  unfolding ClientHandle_SendDisconnect_def Protocol_SendDisconnect_def
  using send_packet_stay [of w n] by (auto simp: objects_stay_def and_then_Inr_iff)

lemma Forward_stay:
  assumes "length (objects w) = n"
  shows "objects_stay n (Server_ForwardMedia i j t w)" and "objects_stay n (Server_ForwardMediaMsg i j m w)"
  using assms send_packet_stay [OF assms]
  by (simp_all add: Server_ForwardMedia_def Server_ForwardMediaMsg_def Protocol_ForwardMedia_def Protocol_ForwardMediaMsg_def
    objects_stay_def split: option.split)

lemma HandlePacket_stay:
  assumes "HandlePacket c bb ty w = Inr (b, bb', w')"
  shows "length (objects w') = length (objects w)"
proof -
  let ?n = "length (objects w)"
  have u: "objects_stay2 ?n m \<Longrightarrow> understood m = Inr (b, bb', w') \<Longrightarrow> length (objects w') = ?n" for m
    by (auto simp: understood_def and_then_Inr_iff objects_stay2_def)
  have 1: "objects_stay2 ?n (HandlePacketStatusRequest c bb w)"
    unfolding HandlePacketStatusRequest_def
    by (intro handle_read_stay) (auto simp: StatusRequest_reply_def ClientHandle_Kick_def set_proto_state_def
      intro!: done_with_stay send_packet_stay SendDisconnect_stay)
  have 2: "objects_stay2 ?n (HandlePacketStatusPing c bb w)"
    unfolding HandlePacketStatusPing_def by (intro handle_read_stay done_with_stay send_packet_stay refl)
  have 3: "objects_stay2 ?n (HandlePacketLoginInfo c bb w)"
    unfolding HandlePacketLoginInfo_def
    by (intro handle_read_stay) (simp_all add: objects_stay2_def ClientHandle_HandleLogin_def Authenticator_Authenticate_def)
  have 4: "objects_stay2 ?n (HandlePacketKeepAlive c bb w)"
    unfolding HandlePacketKeepAlive_def
    by (intro handle_read_stay) (simp_all add: objects_stay2_def ClientHandle_HandleKeepAlive_def)
  have 5: "objects_stay2 ?n (HandlePacketMedia c bb w)"
    unfolding HandlePacketMedia_def by (intro handle_read_stay done_with_stay Forward_stay refl)
  have 6: "objects_stay2 ?n (HandlePacketMediaMsg c bb w)"
    unfolding HandlePacketMediaMsg_def by (intro handle_read_stay done_with_stay Forward_stay refl)
  have 7: "and_then (PacketUnknown c ty w) (\<lambda>w. Inr (False, bb, w)) = Inr (b, bb', w') \<Longrightarrow> length (objects w') = ?n"
    using SendDisconnect_stay [of w ?n c] by (auto simp: PacketUnknown_def and_then_Inr_iff objects_stay_def)
  show ?thesis using assms
    by (auto simp: HandlePacket_def Let_def set_proto_state_def split: if_splits dest: u [OF 1] u [OF 2] u [OF 3] u [OF 4] u [OF 5] u [OF 6] 7)
qed

lemma HandlePacket_stops:
  assumes "HandlePacket c bb ty w = Inr (False, bb', w')" and "c < length (objects w)"
  shows "m_HasSentDC (client w' c) \<or> m_ProtoState (protocol w' c) = 255"
proof -
  have u: "understood m \<noteq> Inr (False, bb', w')" for m by (cases m) (auto simp: understood_def)
  have k: "m_HasSentDC (client w' c)" if *: "and_then (PacketUnknown c ty w) (\<lambda>w. Inr (False, bb, w)) = Inr (False, bb', w')"
  proof -
    have w': "ClientHandle_SendDisconnect c ERROR_CODE_PACKET_UNKONWN w = Inr w'"
      using * by (auto simp: PacketUnknown_def and_then_Inr_iff)
    show ?thesis
    proof (cases "m_HasSentDC (client w c)")
      case False
      then obtain w1 where w1: "Protocol_SendDisconnect c ERROR_CODE_PACKET_UNKONWN w = Inr w1"
          "w' = upd_client c (\<lambda>x. x\<lparr>m_HasSentDC := True\<rparr>) w1"
        using w' by (auto simp: ClientHandle_SendDisconnect_def and_then_Inr_iff)
      have "length (objects w1) = length (objects w)"
        using w1(1) by (auto simp: Protocol_SendDisconnect_def split: if_splits
            dest: send_packet_stay [OF refl, unfolded objects_stay_def, rule_format])
      then show ?thesis using w1(2) assms(2) by simp
    qed (use w' in \<open>simp add: ClientHandle_SendDisconnect_def\<close>)
  qed
  show ?thesis using assms
    by (auto simp: HandlePacket_def Let_def set_proto_state_def protocol_def u split: if_splits dest: k)
qed

section \<open>The server and the pieces\<close>

interpretation server_parts: blind_packet_reader "\<lambda>w. c < length (objects w)" "\<lambda>w. m_ReceivedData (protocol w c)"
  "set_received c" uninit "run_packet c" "AddReceivedData_turn c"
  "\<lambda>w. m_HasSentDC (client w c) \<or> m_ProtoState (protocol w c) = 255" for c
proof unfold_locales
  fix bb b and w w' :: world and ty rest e
  show "run_packet c bb (set_received c b w) = map_sum (map_sum id (set_received c b)) (set_received c b) (run_packet c bb w)"
    by (rule run_packet_set_received)
  show "set_received c (m_ReceivedData (protocol w c)) w = w"
    by (cases "c < length (objects w)")
      (simp_all add: set_received_def upd_out, simp add: upd_client_def set_client_def protocol_def client_def)
  show "c < length (objects w')" if "c < length (objects w)" and "run_packet c bb w = Inr w' \<or> run_packet c bb w = Inl (Inr w')"
    using that HandlePacket_stay SendDisconnect_stay [OF refl, unfolded objects_stay_def, rule_format]
    by (auto simp: run_packet_def PacketError_def split: sum.splits prod.splits option.splits bool.splits if_splits)
  show "m_HasSentDC (client w' c) \<or> m_ProtoState (protocol w' c) = 255"
    if c: "c < length (objects w)" and r: "run_packet c bb w = Inl (Inr w')" and b: "buffer_ok bb"
      and d: "dec_varint (unread bb) = Inr (Some (ty :: u32), rest)"
  proof -
    obtain b1 where "ReadVarInt bb = Inr (Some ty, b1)" using reads_as_Inr [OF ReadVarInt_reads_as b d] by blast
    then show ?thesis using c r HandlePacket_stops
      by (auto simp: run_packet_def split: sum.splits prod.splits bool.splits if_splits)
  qed
  show "run_packet c bb w = Inl (Inl e)" if "buffer_ok bb" and "dec_varint (unread bb) = (Inl e :: fault + u32 option \<times> u8 list)"
    using reads_as_Inl [OF ReadVarInt_reads_as that] by (simp add: run_packet_def)
qed simp

text \<open>
  Two results of receiving are the same but for the place of the received data in the ring buffer of client \<open>c\<close>.
\<close>

definition same_but_ring :: "nat \<Rightarrow> fault + world \<Rightarrow> fault + world \<Rightarrow> bool" where
  "same_but_ring c m m' \<longleftrightarrow>
     (case m of Inl e \<Rightarrow> m' = Inl e
      | Inr w \<Rightarrow> \<exists>b. m' = Inr (set_received c b w) \<and> received_ok b \<and> unread b = received w c)"

lemma AddReceivedData_loop_eq: "AddReceivedData_loop c w = (case server_parts.loop c w of None \<Rightarrow> Inl NoReturn | Some r \<Rightarrow> projl r)"
  by (simp add: AddReceivedData_loop_def server_parts.loop_def)

text \<open>The first part, compared with both at once.\<close>

lemma first_part:
  assumes inv: "server_inv w" "c < length (objects w)" and n: "length (objects w) < 2097152"
    and state: "m_State (client w c) \<noteq> csDestroyed"
    and len: "length (received w c) + length x + length y \<le> 65536" and typed: "all_typed (received w c @ x)"
  shows "case AddReceivedData c x w of
      Inl e \<Rightarrow> AddReceivedData c (x @ y) w = Inl e
    | Inr w1 \<Rightarrow> m_HasSentDC (client w1 c) \<or> server_inv w1 \<and> stays w w1 \<and>
        length (received w1 c) \<le> length (received w c @ x) \<and>
        (\<exists>t. server_parts.extends c y w1 t \<and> AddReceivedData c (x @ y) w = AddReceivedData_loop c t)"
proof -
  let ?rd = "m_ReceivedData (protocol w c)"
  note rok = server_inv_received_ok [OF inv]
  obtain b1 where b1: "Write ?rd x = (True, b1)" "received_ok b1" "unread b1 = received w c @ x"
    using Write_received_ok [OF rok, of x] len by (auto simp: received_def)
  obtain b2 where b2: "Write ?rd (x @ y) = (True, b2)" "received_ok b2" "unread b2 = received w c @ x @ y"
    using Write_received_ok [OF rok, of "x @ y"] len by (auto simp: received_def)
  let ?s = "set_received c b1 w" and ?t = "set_received c b2 w"
  note s = set_received_inv [OF inv b1(2)]
  have cs: "c < length (objects ?s)" using inv(2) by simp
  obtain m where m: "server_parts.loop c ?s = Some (Inl m)" "well ?s m"
    using AddReceivedData_loop_well [OF s(1) cs] n state s(2) inv(2) by (auto simp: server_parts.loop_def stays_def)
  have e: "AddReceivedData c x w = m" "AddReceivedData c (x @ y) w = AddReceivedData_loop c ?t"
    by (simp_all add: AddReceivedData_def b1(1) b2(1) AddReceivedData_loop_eq m(1))
  have ext: "server_parts.extends c y ?s ?t"
    using b1 b2 s(3) inv(2) by (auto simp: server_parts.extends_def server_in.put_put)
  have h: "case m of Inl e \<Rightarrow> server_parts.loop c ?t = Some (Inl (Inl e))
      | Inr s' \<Rightarrow> (m_HasSentDC (client s' c) \<or> m_ProtoState (protocol s' c) = 255) \<or>
        (\<exists>t'. c < length (objects s') \<and> received_ok (m_ReceivedData (protocol s' c)) \<and>
          length (received s' c) \<le> length (received w c @ x) \<and>
          server_parts.extends c y s' t' \<and> server_parts.loop c ?t = server_parts.loop c t')"
    using server_parts.loop_in_parts [OF cs _ ext m(1)] b1 s(3) typed by (cases m) (simp_all add: received_def)
  then show ?thesis
  proof (cases m)
    case (Inr w1)
    have w1: "server_inv w1" "stays w w1" using m(2) Inr stays_trans [OF s(2)] by (auto simp: well_def)
    have "m_ProtoState (protocol w1 c) \<noteq> 255" using proto_states [OF w1(1)] w1(2) inv(2) by (force simp: stays_def)
    then show ?thesis
      using h w1 by (auto simp: e Inr AddReceivedData_loop_eq)
  qed (use h in \<open>simp add: e AddReceivedData_loop_eq\<close>)
qed

lemma second_part:
  assumes inv: "server_inv w" "c < length (objects w)" and n: "length (objects w) < 2097152"
    and state: "m_State (client w c) \<noteq> csDestroyed"
    and len: "length (received w c) + length y \<le> 65536" and ext: "server_parts.extends c y w t"
  shows "same_but_ring c (AddReceivedData c y w) (AddReceivedData_loop c t)"
proof -
  obtain b where b: "Write (m_ReceivedData (protocol w c)) y = (True, b)" "received_ok b" "unread b = received w c @ y"
    using Write_received_ok [OF server_inv_received_ok [OF inv], of y] len by (auto simp: received_def)
  let ?u = "set_received c b w"
  note u = set_received_inv [OF inv b(2)]
  have cu: "c < length (objects ?u)" using inv(2) by simp
  obtain m where m: "server_parts.loop c ?u = Some (Inl m)"
    using AddReceivedData_loop_well [OF u(1) cu] n state u(2) inv(2) by (auto simp: server_parts.loop_def stays_def)
  have "server_parts.extends c [] ?u t"
    using ext b u(3) inv(2) by (auto simp: server_parts.extends_def server_in.put_put received_def)
  from server_parts.loop_same [OF cu _ this m] have "case m of Inl e \<Rightarrow> server_parts.loop c t = Some (Inl (Inl e))
      | Inr s' \<Rightarrow> \<exists>t'. server_parts.loop c t = Some (Inl (Inr t')) \<and> server_parts.extends c [] s' t'"
    using b(2) u(3) by simp
  moreover have "AddReceivedData c y w = m" by (simp add: AddReceivedData_def b(1) AddReceivedData_loop_eq m)
  ultimately show ?thesis
    by (cases m) (auto simp: same_but_ring_def server_parts.extends_def received_def AddReceivedData_loop_eq)
qed

text \<open>
  \<^bold>\<open>C8.\<close> Where the network cuts the data of a client makes no difference: what the server does with two pieces one after
  the other is what it does with both at once, faults included, and leaves the same data to be completed. The
  exceptions are a client the server disconnects while it handles the first piece, and a packet without
  a type, which ends the handling of the data behind it. The pieces fit the buffer together.
\<close>
theorem segmentation_irrelevant:
  assumes inv: "server_inv w" and c: "c \<in> set (m_Clients w)" and n: "length (objects w) < 2097152"
    and state: "m_State (client w c) \<noteq> csDestroyed"
    and len: "length (received w c) + length x + length y \<le> 65536" and typed: "all_typed (received w c @ x)"
  shows "same_but_ring c (and_then (AddReceivedData c x w) (AddReceivedData c y)) (AddReceivedData c (x @ y) w) \<or>
    (\<exists>w1. AddReceivedData c x w = Inr w1 \<and> m_HasSentDC (client w1 c))"
proof (cases "AddReceivedData c x w")
  case (Inr w1)
  note cl = server_invD(9) [OF inv c]
  note p = first_part [OF inv cl n state len typed, unfolded Inr, simplified]
  show ?thesis
  proof (cases "m_HasSentDC (client w1 c)")
    case False
    then obtain t where w1: "server_inv w1" "stays w w1" "length (received w1 c) + length y \<le> 65536"
        and t: "server_parts.extends c y w1 t" "AddReceivedData c (x @ y) w = AddReceivedData_loop c t"
      using p len by auto
    have "same_but_ring c (AddReceivedData c y w1) (AddReceivedData_loop c t)"
      using second_part [OF w1(1) _ _ _ w1(3) t(1)] w1(2) cl n state by (auto simp: stays_def)
    then show ?thesis by (simp add: Inr t(2))
  qed (use Inr in simp)
next
  case (Inl e)
  then show ?thesis using first_part [OF inv server_invD(9) [OF inv c] n state len typed] by (simp add: same_but_ring_def)
qed

theorem segmentation_irrelevant_witness:
  "same_but_ring 0 (and_then (AddReceivedData 0 [0x05, 0x12] sample_world) (AddReceivedData 0 [0x02, 0x02, 0x68, 0x69]))
     (AddReceivedData 0 ([0x05, 0x12] @ [0x02, 0x02, 0x68, 0x69]) sample_world) \<or>
   (\<exists>w1. AddReceivedData 0 [0x05, 0x12] sample_world = Inr w1 \<and> m_HasSentDC (client w1 0))"
proof -
  have "received sample_world 0 = []"
    by (simp add: received_def protocol_def sample_world_simps sample_client_def new_cProtocol_received new_cClientHandle_def)
  moreover have "all_typed [0x05, 0x12]" by (simp add: all_typed.simps dec_varint_def dec_map_def)
  ultimately show ?thesis
    by (intro segmentation_irrelevant sample_world_inv) (simp_all add: sample_world_simps sample_client_def new_cClientHandle_def)
qed

end
