(* ===== verification/Network.thy ===== *)
theory Network
  imports SettingsInterface Endianness
begin

text \<open>
  The network layer of the server, \<open>Src/Server/OSSupport\<close>: TCP links (\<open>TCPLinkImpl.cpp\<close>), listening
  servers (\<open>ServerHandleImpl.cpp\<close>), lookups (\<open>HostnameLookup.cpp\<close>, \<open>IPLookup.cpp\<close>) and the lists that keep them
  (\<open>NetworkSingleton.cpp\<close>). It is built on libevent, which is not modelled: of a buffered socket the model keeps the bytes waiting
  to be written, the bytes written, whether it is watched and whether its sending half is shut down, and the answers of
  libevent and of the system are parameters. The callbacks are recorded in order.

  Links, servers and lookups are addresses into lists of objects that only grow. A link exists while
  a pointer to it does: its own (\<open>m_Self\<close>), that of a list, or \<open>held\<close>, that of the callbacks, which
  \<open>cClientHandle\<close> stores in \<open>OnLinkCreated\<close> and drops in \<open>OnError\<close>, \<open>OnRemoteClosed\<close> and \<open>Destroy\<close>.
\<close>

unbundle bit_operations_syntax

section \<open>State\<close>

text \<open>An address as the system gives it: its text, and its port in network order.\<close>

datatype sockaddr = AF_INET AString u16 | AF_INET6 AString u16 | AF_OTHER

record tcp_link =
  m_ConnectCallbacks :: bool
  m_Server :: "nat option"
  m_LocalIP :: AString
  m_LocalPort :: u16
  m_RemoteIP :: AString
  m_RemotePort :: u16
  m_Self :: bool
  m_ShouldShutdown :: bool
  held :: bool
  ev_output :: AString
  ev_read :: bool
  ev_write :: bool
  fin_sent :: bool
  written :: AString

text \<open>A listener of libevent owns a socket; it accepts until it is disabled.\<close>

datatype listen_socket = MainSock | SecondSock

record tcp_server =
  m_ConnListener :: "listen_socket option"
  m_SecondaryConnListener :: "listen_socket option"
  accepting :: bool
  m_IsListening :: bool
  m_Connections :: "nat list"
  m_ErrorCode :: int
  m_ErrorMsg :: AString
  m_SelfPtr :: bool

datatype net_call =
  OnLinkCreated nat
| Link_OnReceivedData nat AString
| Link_OnRemoteClosed nat
| Link_OnError nat int
| Connect_OnConnected nat
| Connect_OnError nat int
| Listen_OnIncomingConnection nat AString u16
| Listen_OnAccepted nat nat
| Listen_OnError nat int AString
| OnNameResolvedV4 AString AString
| OnNameResolvedV6 AString AString
| OnNameResolved AString AString
| Lookup_OnError AString int
| Lookup_OnFinished AString

text \<open>\<open>single_Connections\<close> and \<open>m_Servers\<close> are the lists of the singleton; a lookup is known by its name.\<close>

record network =
  links :: "tcp_link list"
  servers :: "tcp_server list"
  single_Connections :: "nat list"
  m_Servers :: "nat list"
  m_HostnameLookups :: "AString list"
  m_IPLookups :: "AString list"
  m_HasTerminated :: bool
  net_calls :: "net_call list"

definition initial_network :: network where
  "initial_network = \<lparr>links = [], servers = [], single_Connections = [], m_Servers = [], m_HostnameLookups = [],
     m_IPLookups = [], m_HasTerminated = False, net_calls = []\<rparr>"

definition link :: "network \<Rightarrow> nat \<Rightarrow> tcp_link" where
  "link net l = links net ! l"

definition upd_link :: "nat \<Rightarrow> (tcp_link \<Rightarrow> tcp_link) \<Rightarrow> network \<Rightarrow> network" where
  "upd_link l f net = net\<lparr>links := (links net)[l := f (links net ! l)]\<rparr>"

definition server :: "network \<Rightarrow> nat \<Rightarrow> tcp_server" where
  "server net s = servers net ! s"

definition upd_server :: "nat \<Rightarrow> (tcp_server \<Rightarrow> tcp_server) \<Rightarrow> network \<Rightarrow> network" where
  "upd_server s f net = net\<lparr>servers := (servers net)[s := f (servers net ! s)]\<rparr>"

definition report :: "net_call \<Rightarrow> network \<Rightarrow> network" where
  "report c net = net\<lparr>net_calls := net_calls net @ [c]\<rparr>"

section \<open>The singleton\<close>

definition AddLink :: "nat \<Rightarrow> network \<Rightarrow> network" where
  "AddLink l net = net\<lparr>single_Connections := single_Connections net @ [l]\<rparr>"

definition RemoveLink :: "nat \<Rightarrow> network \<Rightarrow> network" where
  "RemoveLink l net = net\<lparr>single_Connections := remove1 l (single_Connections net)\<rparr>"

definition AddServer :: "nat \<Rightarrow> network \<Rightarrow> network" where
  "AddServer s net = net\<lparr>m_Servers := m_Servers net @ [s]\<rparr>"

definition RemoveServer :: "nat \<Rightarrow> network \<Rightarrow> network" where
  "RemoveServer s net = net\<lparr>m_Servers := remove1 s (m_Servers net)\<rparr>"

definition AddHostnameLookup :: "AString \<Rightarrow> network \<Rightarrow> network" where
  "AddHostnameLookup x net = net\<lparr>m_HostnameLookups := m_HostnameLookups net @ [x]\<rparr>"

definition RemoveHostnameLookup :: "AString \<Rightarrow> network \<Rightarrow> network" where
  "RemoveHostnameLookup x net = net\<lparr>m_HostnameLookups := remove1 x (m_HostnameLookups net)\<rparr>"

definition AddIPLookup :: "AString \<Rightarrow> network \<Rightarrow> network" where
  "AddIPLookup x net = net\<lparr>m_IPLookups := m_IPLookups net @ [x]\<rparr>"

definition RemoveIPLookup :: "AString \<Rightarrow> network \<Rightarrow> network" where
  "RemoveIPLookup x net = net\<lparr>m_IPLookups := remove1 x (m_IPLookups net)\<rparr>"

definition Terminate :: "network \<Rightarrow> network" where
  "Terminate net = net\<lparr>single_Connections := [], m_Servers := [], m_HostnameLookups := [], m_IPLookups := [],
     m_HasTerminated := True\<rparr>"

section \<open>Links\<close>

text \<open>The text of an address of another family is an array that was not initialised.\<close>

definition UpdateAddress :: "sockaddr \<Rightarrow> fault + AString \<times> u16" where
  "UpdateAddress a =
     (case a of
        AF_INET ip port \<Rightarrow> Inr (ip, ntohs port)
      | AF_INET6 ip port \<Rightarrow> Inr (ip, ntohs port)
      | AF_OTHER \<Rightarrow> Inl Uninitialised)"

definition UpdateLocalAddress :: "sockaddr \<Rightarrow> tcp_link \<Rightarrow> fault + tcp_link" where
  "UpdateLocalAddress a x =
     and_then (UpdateAddress a) (\<lambda>(ip, port). Inr (x\<lparr>m_LocalIP := ip, m_LocalPort := port\<rparr>))"

definition UpdateRemoteAddress :: "sockaddr \<Rightarrow> tcp_link \<Rightarrow> fault + tcp_link" where
  "UpdateRemoteAddress a x =
     and_then (UpdateAddress a) (\<lambda>(ip, port). Inr (x\<lparr>m_RemoteIP := ip, m_RemotePort := port\<rparr>))"

definition new_cTCPLinkImpl :: tcp_link where
  "new_cTCPLinkImpl = \<lparr>m_ConnectCallbacks = False, m_Server = None, m_LocalIP = [], m_LocalPort = 0, m_RemoteIP = [],
     m_RemotePort = 0, m_Self = False, m_ShouldShutdown = False, held = False, ev_output = [], ev_read = False,
     ev_write = False, fin_sent = False, written = []\<rparr>"

text \<open>The link of an accepted connection: both ends of it, and the server unless that has been closed.\<close>

definition accepted_cTCPLinkImpl :: "nat option \<Rightarrow> sockaddr \<Rightarrow> sockaddr \<Rightarrow> fault + tcp_link" where
  "accepted_cTCPLinkImpl a_Server local a_Address =
     and_then (UpdateLocalAddress local (new_cTCPLinkImpl\<lparr>m_Server := a_Server\<rparr>)) (UpdateRemoteAddress a_Address)"

definition Enable :: "nat \<Rightarrow> network \<Rightarrow> network" where
  "Enable l = upd_link l (\<lambda>x. x\<lparr>m_Self := True, ev_read := True, ev_write := True\<rparr>)"

definition created :: "nat \<Rightarrow> network \<Rightarrow> network" where
  "created l net = report (OnLinkCreated l) (upd_link l (\<lambda>x. x\<lparr>held := True\<rparr>) net)"

text \<open>
  \<open>Parses\<close>: the host is an IP address; \<open>Queues\<close>: libevent takes the request. The result is the new link unless it does not.
\<close>

definition cTCPLinkImpl_Connect :: "bool \<Rightarrow> bool \<Rightarrow> network \<Rightarrow> nat option \<times> network" where
  "cTCPLinkImpl_Connect Parses Queues net =
     (let l = length (links net);
          net = net\<lparr>links := links net @ [new_cTCPLinkImpl\<lparr>m_ConnectCallbacks := True\<rparr>]\<rparr>;
          net = Enable l (created l (AddLink l net))
      in if Parses then (if Queues then (Some l, net) else (None, RemoveLink l net))
         else (if Queues then (Some l, net) else (None, RemoveLink l net)))"

definition cNetwork_Connect :: "bool \<Rightarrow> bool \<Rightarrow> network \<Rightarrow> bool \<times> network" where
  "cNetwork_Connect Parses Queues net =
     (let (Conn, net) = cTCPLinkImpl_Connect Parses Queues net in (Conn \<noteq> None, net))"

text \<open>\<open>Queues\<close>: libevent takes the data.\<close>

definition Link_Send :: "bool \<Rightarrow> AString \<Rightarrow> nat \<Rightarrow> network \<Rightarrow> bool \<times> network" where
  "Link_Send Queues a_Data l net =
     (if m_ShouldShutdown (link net l) then (False, net)
      else if Queues then (True, upd_link l (\<lambda>x. x\<lparr>ev_output := ev_output x @ a_Data\<rparr>) net)
      else (False, net))"

definition DoActualShutdown :: "nat \<Rightarrow> network \<Rightarrow> network" where
  "DoActualShutdown l = upd_link l (\<lambda>x. x\<lparr>fin_sent := True, ev_write := False\<rparr>)"

definition Link_Shutdown :: "nat \<Rightarrow> network \<Rightarrow> network" where
  "Link_Shutdown l net =
     (if ev_output (link net l) = [] then DoActualShutdown l net
      else upd_link l (\<lambda>x. x\<lparr>m_ShouldShutdown := True\<rparr>) net)"

definition Server_RemoveLink :: "nat \<Rightarrow> nat \<Rightarrow> network \<Rightarrow> network" where
  "Server_RemoveLink s l = upd_server s (\<lambda>x. x\<lparr>m_Connections := remove1 l (m_Connections x)\<rparr>)"

text \<open>Both ways to give up a link: its server forgets it, or the singleton when it has none.\<close>

definition forget_link :: "nat \<Rightarrow> network \<Rightarrow> network" where
  "forget_link l net =
     (case m_Server (link net l) of None \<Rightarrow> RemoveLink l net | Some s \<Rightarrow> Server_RemoveLink s l net)"

definition reset_self :: "nat \<Rightarrow> network \<Rightarrow> network" where
  "reset_self l = upd_link l (\<lambda>x. x\<lparr>m_Self := False\<rparr>)"

definition Link_Close :: "nat \<Rightarrow> network \<Rightarrow> network" where
  "Link_Close l net = reset_self l (forget_link l (upd_link l (\<lambda>x. x\<lparr>ev_read := False, ev_write := False\<rparr>) net))"

text \<open>\<open>input\<close> is what libevent has read from the socket; each turn takes at most 1024 bytes of it.\<close>

function ReadCallback :: "AString \<Rightarrow> nat \<Rightarrow> network \<Rightarrow> network" where
  "ReadCallback input l net =
     (if input = [] then net
      else ReadCallback (drop 1024 input) l (report (Link_OnReceivedData l (take 1024 input)) net))"
  by pat_completeness auto
termination
  by (relation "measure (\<lambda>(input, _, _). length input)") auto

declare ReadCallback.simps [simp del]

definition WriteCallback :: "nat \<Rightarrow> network \<Rightarrow> network" where
  "WriteCallback l net =
     (if ev_output (link net l) = [] \<and> m_ShouldShutdown (link net l) then DoActualShutdown l net else net)"

definition BEV_EVENT_READING :: "16 word" where "BEV_EVENT_READING = 0x01"
definition BEV_EVENT_WRITING :: "16 word" where "BEV_EVENT_WRITING = 0x02"
definition BEV_EVENT_EOF :: "16 word" where "BEV_EVENT_EOF = 0x10"
definition BEV_EVENT_ERROR :: "16 word" where "BEV_EVENT_ERROR = 0x20"
definition BEV_EVENT_CONNECTED :: "16 word" where "BEV_EVENT_CONNECTED = 0x80"

text \<open>
  An event of a link whose pointer to itself has been reset uses a null pointer. \<open>socket_error\<close> and \<open>dns_error\<close> are the
  codes of the system and of libevent, \<open>local\<close> and \<open>remote\<close> the addresses of a connection that has been made. The
  callbacks drop their pointer when they are told of the end of the link.
\<close>

definition link_ended :: "net_call \<Rightarrow> nat \<Rightarrow> network \<Rightarrow> network" where
  "link_ended c l net = forget_link l (upd_link l (\<lambda>x. x\<lparr>held := False\<rparr>) (report c net))"

definition EventCallback :: "16 word \<Rightarrow> int \<Rightarrow> int \<Rightarrow> sockaddr \<Rightarrow> sockaddr \<Rightarrow> nat \<Rightarrow> network \<Rightarrow> fault + network" where
  "EventCallback a_What socket_error dns_error local remote l net =
     (if a_What AND BEV_EVENT_ERROR \<noteq> 0 then
        if \<not> m_Self (link net l) then Inl OutOfRange
        else if m_ConnectCallbacks (link net l) then
          Inr (reset_self l (report (Connect_OnError l (if socket_error = 0 then dns_error else socket_error)) net))
        else Inr (reset_self l (link_ended (Link_OnError l socket_error) l net))
      else
        and_then
          (if a_What AND BEV_EVENT_CONNECTED \<noteq> 0 then
             if \<not> m_Self (link net l) then Inl OutOfRange
             else and_then (UpdateLocalAddress local (link net l)) (\<lambda>x. and_then (UpdateRemoteAddress remote x) (\<lambda>x.
               let net = upd_link l (\<lambda>_. x) net
               in if m_ConnectCallbacks x then
                    Inr (True, upd_link l (\<lambda>x. x\<lparr>m_ConnectCallbacks := False\<rparr>) (report (Connect_OnConnected l) net))
                  else Inr (False, net)))
           else Inr (False, net))
          (\<lambda>(returned, net).
             if \<not> returned \<and> a_What AND BEV_EVENT_EOF \<noteq> 0 then
               if \<not> m_Self (link net l) then Inl OutOfRange
               else Inr (reset_self l (link_ended (Link_OnRemoteClosed l) l net))
             else Inr net))"

section \<open>Servers\<close>

definition new_cServerHandleImpl :: tcp_server where
  "new_cServerHandleImpl = \<lparr>m_ConnListener = None, m_SecondaryConnListener = None, accepting = False,
     m_IsListening = False, m_Connections = [], m_ErrorCode = 0, m_ErrorMsg = [], m_SelfPtr = False\<rparr>"

text \<open>
  What the system answers when a port is opened. \<open>NeedsTwoSockets\<close>: on Windows, the option for both
  protocols on one socket is missing. \<open>error_of\<close> numbers the error of each step that fails.
\<close>

datatype listen_step = CreateSocket | Reuse | BindSocket | MakeNonblocking | ListenOn

record listen_answers =
  IPv6Socket :: bool
  IPv4Socket :: bool
  NeedsTwoSockets :: bool
  step_ok :: "listen_socket \<Rightarrow> listen_step \<Rightarrow> bool"
  error_of :: "listen_step \<Rightarrow> int"
  error_string :: "int \<Rightarrow> AString"
  makes_listener :: "listen_socket \<Rightarrow> bool"

definition listen_error :: "listen_answers \<Rightarrow> listen_step \<Rightarrow> (int \<Rightarrow> AString) \<Rightarrow> tcp_server \<Rightarrow> tcp_server" where
  "listen_error env st msg x = x\<lparr>m_ErrorCode := error_of env st, m_ErrorMsg := msg (error_of env st)\<rparr>"

text \<open>\<open>open_socks\<close> are the sockets that are open; the result says whether the main socket is bound.\<close>

definition bind_main :: "listen_answers \<Rightarrow> u16 \<Rightarrow> tcp_server \<times> listen_socket list \<Rightarrow> bool \<times> tcp_server \<times> listen_socket list" where
  "bind_main env a_Port = (\<lambda>(x, open_socks).
     let port = Printf_d (uint a_Port);
         code = (\<lambda>e. Printf_d e @ ascii '' ('' @ error_string env e @ ascii '')'');
         cannot_reuse = (\<lambda>e. ascii ''Port '' @ port @ ascii '' cannot be made reusable: '' @ code e @
           ascii ''. Restarting the server might not work.'')
     in if \<not> IPv6Socket env then
          if \<not> IPv4Socket env then
            (False, listen_error env CreateSocket (\<lambda>e. ascii ''Cannot create socket for port '' @ port @ ascii '': '' @ error_string env e) x,
             open_socks)
          else
            let open_socks = MainSock # open_socks;
                x = (if step_ok env MainSock Reuse then x else listen_error env Reuse cannot_reuse x)
            in if \<not> step_ok env MainSock BindSocket then
                 (False, listen_error env BindSocket (\<lambda>e. ascii ''Cannot bind IPv4 socket to port '' @ port @ ascii '': '' @ error_string env e) x,
                  remove1 MainSock open_socks)
               else (True, x, open_socks)
        else
          let open_socks = MainSock # open_socks;
              x = (if step_ok env MainSock Reuse then x else listen_error env Reuse cannot_reuse x)
          in if \<not> step_ok env MainSock BindSocket then
               (False, listen_error env BindSocket (\<lambda>e. ascii ''Cannot bind IPv6 socket to port '' @ port @ ascii '': '' @ code e) x,
                remove1 MainSock open_socks)
             else (True, x, open_socks))"

text \<open>The second socket: whatever fails, the main one works.\<close>

definition listen_second :: "listen_answers \<Rightarrow> u16 \<Rightarrow> tcp_server \<times> listen_socket list \<Rightarrow> tcp_server \<times> listen_socket list" where
  "listen_second env a_Port = (\<lambda>(x, open_socks).
     if \<not> step_ok env SecondSock CreateSocket then (x, open_socks)
     else
       let open_socks = SecondSock # open_socks;
           x = (if step_ok env SecondSock Reuse then x
                else listen_error env Reuse (\<lambda>e. ascii ''Port '' @ Printf_d (uint a_Port) @
                  ascii '' cannot be made reusable (second socket): '' @ Printf_d e @ ascii '' ('' @ error_string env e @
                  ascii ''). Restarting the server might not work.'') x)
       in if \<not> step_ok env SecondSock MakeNonblocking \<or> \<not> step_ok env SecondSock BindSocket \<or> \<not> step_ok env SecondSock ListenOn then
            (x, remove1 SecondSock open_socks)
          else (x\<lparr>m_SecondaryConnListener := (if makes_listener env SecondSock then Some SecondSock else None),
                  accepting := accepting x \<or> makes_listener env SecondSock\<rparr>, open_socks))"

definition Listen_port :: "listen_answers \<Rightarrow> u16 \<Rightarrow> tcp_server \<Rightarrow> bool \<times> tcp_server \<times> listen_socket list" where
  "Listen_port env a_Port x =
     (case bind_main env a_Port (x, []) of
        (False, x, open_socks) \<Rightarrow> (False, x, open_socks)
      | (True, x, open_socks) \<Rightarrow>
          let message = (\<lambda>what e. ascii ''Cannot '' @ what @ Printf_d e @ ascii '' ('' @ error_string env e @ ascii '')'');
              port = Printf_d (uint a_Port)
          in if \<not> step_ok env MainSock MakeNonblocking then
               (False, listen_error env MakeNonblocking (message (ascii ''make socket on port '' @ port @ ascii '' non-blocking: '')) x,
                remove1 MainSock open_socks)
             else if \<not> step_ok env MainSock ListenOn then
               (False, listen_error env ListenOn (message (ascii ''listen on port '' @ port @ ascii '': '')) x,
                remove1 MainSock open_socks)
             else
               let x = x\<lparr>m_ConnListener := (if makes_listener env MainSock then Some MainSock else None),
                         accepting := makes_listener env MainSock, m_IsListening := True\<rparr>
               in if \<not> (IPv6Socket env \<and> NeedsTwoSockets env) then (True, x, open_socks)
                  else let (x, open_socks) = listen_second env a_Port (x, open_socks) in (True, x, open_socks))"

text \<open>The handle is returned whether or not it listens.\<close>

definition cServerHandleImpl_Listen :: "listen_answers \<Rightarrow> u16 \<Rightarrow> network \<Rightarrow> nat \<times> network" where
  "cServerHandleImpl_Listen env a_Port net =
     (let s = length (servers net);
          (ok, x, _) = Listen_port env a_Port (new_cServerHandleImpl\<lparr>m_SelfPtr := True\<rparr>);
          net = net\<lparr>servers := servers net @ [x]\<rparr>
      in if ok then (s, AddServer s net)
         else (s, upd_server s (\<lambda>x. x\<lparr>m_SelfPtr := False\<rparr>) (report (Listen_OnError s (m_ErrorCode x) (m_ErrorMsg x)) net)))"

text \<open>libevent dereferences a listener it disables.\<close>

definition Server_Close :: "nat \<Rightarrow> network \<Rightarrow> fault + network" where
  "Server_Close s net =
     (if m_ConnListener (server net s) = None then Inl OutOfRange
      else
        let net = upd_server s (\<lambda>x. x\<lparr>accepting := False, m_IsListening := False\<rparr>) net;
            Conns = m_Connections (server net s);
            net = upd_server s (\<lambda>x. x\<lparr>m_Connections := []\<rparr>) net;
            net = fold Link_Shutdown Conns net;
            net = upd_server s (\<lambda>x. x\<lparr>m_SelfPtr := False\<rparr>) net
        in Inr (RemoveServer s net))"

text \<open>A connection comes in. \<open>accepts\<close>: \<open>OnIncomingConnection\<close> gives callbacks for it.\<close>

definition Listener_Callback :: "bool \<Rightarrow> sockaddr \<Rightarrow> sockaddr \<Rightarrow> nat \<Rightarrow> network \<Rightarrow> fault + network" where
  "Listener_Callback accepts local a_Addr s net =
     and_then (UpdateAddress a_Addr) (\<lambda>(IPAddress, Port).
       let net = report (Listen_OnIncomingConnection s IPAddress Port) net
       in if \<not> accepts then Inr net
          else and_then (accepted_cTCPLinkImpl (if m_SelfPtr (server net s) then Some s else None) local a_Addr) (\<lambda>x.
            let l = length (links net);
                net = net\<lparr>links := links net @ [x]\<rparr>;
                net = upd_server s (\<lambda>x. x\<lparr>m_Connections := m_Connections x @ [l]\<rparr>) net;
                net = Enable l (created l net)
            in Inr (report (Listen_OnAccepted s l) net)))"

section \<open>Lookups\<close>

text \<open>\<open>wants\<close> is what the callbacks for an address of either kind answer: whether its text is to be reported.\<close>

definition report_address :: "(sockaddr \<Rightarrow> bool) \<Rightarrow> AString \<Rightarrow> sockaddr \<Rightarrow> bool \<times> network \<Rightarrow> bool \<times> network" where
  "report_address wants name a = (\<lambda>(HasResolved, net).
     case a of
       AF_INET ip port \<Rightarrow>
         let net = report (OnNameResolvedV4 name ip) net
         in (True, if wants a then report (OnNameResolved name ip) net else net)
     | AF_INET6 ip port \<Rightarrow>
         let net = report (OnNameResolvedV6 name ip) net
         in (True, if wants a then report (OnNameResolved name ip) net else net)
     | AF_OTHER \<Rightarrow> (HasResolved, net))"

definition DNS_ERR_NODATA :: int where
  "DNS_ERR_NODATA = 70"

definition HostnameLookup_Callback :: "(sockaddr \<Rightarrow> bool) \<Rightarrow> int \<Rightarrow> sockaddr list \<Rightarrow> AString \<Rightarrow> network \<Rightarrow> network" where
  "HostnameLookup_Callback wants a_ErrCode a_Addr name net =
     (if a_ErrCode \<noteq> 0 then RemoveHostnameLookup name (report (Lookup_OnError name a_ErrCode) net)
      else
        let (HasResolved, net) = fold (report_address wants name) a_Addr (False, net);
            net = report (if HasResolved then Lookup_OnFinished name else Lookup_OnError name DNS_ERR_NODATA) net
        in RemoveHostnameLookup name net)"

definition HostnameToIP :: "AString \<Rightarrow> network \<Rightarrow> bool \<times> network" where
  "HostnameToIP a_Hostname net = (True, AddHostnameLookup a_Hostname net)"

text \<open>\<open>parsed\<close> is the family of the text when it is an address.\<close>

definition IPLookup_Lookup :: "sockaddr option \<Rightarrow> bool" where
  "IPLookup_Lookup parsed =
     (case parsed of None \<Rightarrow> False | Some AF_OTHER \<Rightarrow> False | Some _ \<Rightarrow> True)"

definition IPToHostName :: "sockaddr option \<Rightarrow> AString \<Rightarrow> network \<Rightarrow> bool \<times> network" where
  "IPToHostName parsed a_IP net = (IPLookup_Lookup parsed, AddIPLookup a_IP net)"

definition IPLookup_Callback :: "int \<Rightarrow> AString option \<Rightarrow> AString \<Rightarrow> network \<Rightarrow> network" where
  "IPLookup_Callback a_Result a_Addresses ip net =
     (case a_Addresses of
        Some name \<Rightarrow>
          if a_Result \<noteq> 0 then RemoveIPLookup ip (report (Lookup_OnError ip a_Result) net)
          else RemoveIPLookup ip (report (Lookup_OnFinished ip) (report (OnNameResolved name ip) net))
      | None \<Rightarrow> RemoveIPLookup ip (report (Lookup_OnError ip a_Result) net))"

end
