(* ===== verification/NetworkInvariants.thy ===== *)
theory NetworkInvariants
  imports Network
begin

text \<open>
  The events of the network layer and the invariant they keep: every connection a server lists is one of its own and
  keeps itself, and a link that libevent can still report on has its pointer to itself.
\<close>

section \<open>Events\<close>

datatype net_event =
  EvListen listen_answers u16
| EvServerClose nat
| EvAccept bool sockaddr sockaddr nat
| EvConnect bool bool
| EvSend bool AString nat
| EvShutdown nat
| EvClose nat
| EvDrop nat
| EvRead AString nat
| EvWritten nat nat
| EvLink "16 word" int int sockaddr sockaddr nat

text \<open>The callbacks of a link drop their pointer to it: \<open>cClientHandle::Destroy\<close>.\<close>

definition drop_link :: "nat \<Rightarrow> network \<Rightarrow> network" where
  "drop_link l = upd_link l (\<lambda>x. x\<lparr>held := False\<rparr>)"

text \<open>
  libevent has written \<open>k\<close> bytes, and calls back when none is left. Before it reports an error or an end it
  stops watching the direction it occurred in, and both for a connection that was not made.
\<close>

definition bytes_written :: "nat \<Rightarrow> nat \<Rightarrow> network \<Rightarrow> network" where
  "bytes_written k l net =
     (let net = upd_link l (\<lambda>x. x\<lparr>written := written x @ take k (ev_output x), ev_output := drop k (ev_output x)\<rparr>) net
      in if ev_output (link net l) = [] then WriteCallback l net else net)"

definition unwatch :: "16 word \<Rightarrow> nat \<Rightarrow> network \<Rightarrow> network" where
  "unwatch what l =
     upd_link l (\<lambda>x.
       if what = BEV_EVENT_ERROR then x\<lparr>ev_read := False, ev_write := False\<rparr>
       else if what AND BEV_EVENT_READING \<noteq> 0 then x\<lparr>ev_read := False\<rparr>
       else if what AND BEV_EVENT_WRITING \<noteq> 0 then x\<lparr>ev_write := False\<rparr>
       else x)"

fun net_do :: "net_event \<Rightarrow> network \<Rightarrow> fault + network" where
  "net_do (EvListen env port) net = Inr (snd (cServerHandleImpl_Listen env port net))"
| "net_do (EvServerClose s) net = Server_Close s net"
| "net_do (EvAccept accepts local addr s) net = Listener_Callback accepts local addr s net"
| "net_do (EvConnect parses queues) net = Inr (snd (cNetwork_Connect parses queues net))"
| "net_do (EvSend queues data l) net = Inr (snd (Link_Send queues data l net))"
| "net_do (EvShutdown l) net = Inr (Link_Shutdown l net)"
| "net_do (EvClose l) net = Inr (Link_Close l net)"
| "net_do (EvDrop l) net = Inr (drop_link l net)"
| "net_do (EvRead input l) net = Inr (ReadCallback input l net)"
| "net_do (EvWritten k l) net = Inr (bytes_written k l net)"
| "net_do (EvLink what socket_error dns_error local remote l) net =
     EventCallback what socket_error dns_error local remote l (unwatch what l net)"

text \<open>When an event can occur: the object it is about exists, and libevent watches what it reports.\<close>

definition link_exists :: "network \<Rightarrow> nat \<Rightarrow> bool" where
  "link_exists net l \<longleftrightarrow> l < length (links net) \<and>
     (m_Self (link net l) \<or> held (link net l) \<or> l \<in> set (single_Connections net) \<or>
      (\<exists>s < length (servers net). l \<in> set (m_Connections (server net s))))"

fun link_event_ok :: "16 word \<Rightarrow> tcp_link \<Rightarrow> bool" where
  "link_event_ok what x \<longleftrightarrow>
     (if m_ConnectCallbacks x then (what = BEV_EVENT_ERROR \<or> what = BEV_EVENT_CONNECTED) \<and> (ev_read x \<or> ev_write x)
      else
        (what = BEV_EVENT_READING OR BEV_EVENT_EOF \<or> what = BEV_EVENT_READING OR BEV_EVENT_ERROR) \<and> ev_read x \<or>
        (what = BEV_EVENT_WRITING OR BEV_EVENT_EOF \<or> what = BEV_EVENT_WRITING OR BEV_EVENT_ERROR) \<and> ev_write x)"

fun net_can :: "net_event \<Rightarrow> network \<Rightarrow> bool" where
  "net_can (EvListen env port) net \<longleftrightarrow> True"
| "net_can (EvServerClose s) net \<longleftrightarrow> s < length (servers net) \<and> m_ConnListener (server net s) \<noteq> None"
| "net_can (EvAccept accepts local addr s) net \<longleftrightarrow>
     s < length (servers net) \<and> accepting (server net s) \<and> local \<noteq> AF_OTHER \<and> addr \<noteq> AF_OTHER"
| "net_can (EvConnect parses queues) net \<longleftrightarrow> True"
| "net_can (EvSend queues data l) net \<longleftrightarrow> l < length (links net) \<and> held (link net l)"
| "net_can (EvShutdown l) net \<longleftrightarrow> l < length (links net) \<and> held (link net l)"
| "net_can (EvClose l) net \<longleftrightarrow> l < length (links net) \<and> held (link net l)"
| "net_can (EvDrop l) net \<longleftrightarrow> l < length (links net) \<and> held (link net l)"
| "net_can (EvRead input l) net \<longleftrightarrow> link_exists net l \<and> ev_read (link net l)"
| "net_can (EvWritten k l) net \<longleftrightarrow> link_exists net l \<and> ev_write (link net l) \<and> 0 < k \<and> k \<le> length (ev_output (link net l))"
| "net_can (EvLink what socket_error dns_error local remote l) net \<longleftrightarrow>
     link_exists net l \<and> link_event_ok what (link net l) \<and> local \<noteq> AF_OTHER \<and> remote \<noteq> AF_OTHER"

inductive net_run :: "network \<Rightarrow> network \<Rightarrow> bool" where
  stop: "net_run net net"
| step: "net_run net net' \<Longrightarrow> net_can ev net' \<Longrightarrow> net_do ev net' = Inr net'' \<Longrightarrow> net_run net net''"

section \<open>What the operations change\<close>

lemma link_upd_link: "link (upd_link l f net) k = (if k = l \<and> l < length (links net) then f (link net l) else link net k)"
  by (cases "l < length (links net)") (auto simp: link_def upd_link_def list_update_beyond)

lemma server_upd_server:
  "server (upd_server s f net) k = (if k = s \<and> s < length (servers net) then f (server net s) else server net k)"
  by (cases "s < length (servers net)") (auto simp: server_def upd_server_def list_update_beyond)

lemma upd_link_rest [simp]:
  "length (links (upd_link l f net)) = length (links net)" "servers (upd_link l f net) = servers net"
  "server (upd_link l f net) = server net" "single_Connections (upd_link l f net) = single_Connections net"
  by (simp_all add: upd_link_def server_def fun_eq_iff)

lemma upd_server_rest [simp]:
  "length (servers (upd_server s f net)) = length (servers net)" "links (upd_server s f net) = links net"
  "link (upd_server s f net) = link net" "single_Connections (upd_server s f net) = single_Connections net"
  by (simp_all add: upd_server_def link_def fun_eq_iff)

lemma report_rest [simp]:
  "links (report c net) = links net" "servers (report c net) = servers net" "link (report c net) = link net"
  "server (report c net) = server net" "single_Connections (report c net) = single_Connections net"
  by (simp_all add: report_def link_def server_def fun_eq_iff)

lemma single_rest [simp]:
  "links (AddLink l net) = links net" "servers (AddLink l net) = servers net" "link (AddLink l net) = link net"
  "server (AddLink l net) = server net"
  "links (RemoveLink l net) = links net" "servers (RemoveLink l net) = servers net" "link (RemoveLink l net) = link net"
  "server (RemoveLink l net) = server net"
  "single_Connections (AddLink l net) = single_Connections net @ [l]"
  "single_Connections (RemoveLink l net) = remove1 l (single_Connections net)"
  by (simp_all add: AddLink_def RemoveLink_def link_def server_def fun_eq_iff)

lemma server_list_rest [simp]:
  "links (AddServer s net) = links net" "servers (AddServer s net) = servers net" "link (AddServer s net) = link net"
  "server (AddServer s net) = server net" "single_Connections (AddServer s net) = single_Connections net"
  "links (RemoveServer s net) = links net" "servers (RemoveServer s net) = servers net" "link (RemoveServer s net) = link net"
  "server (RemoveServer s net) = server net" "single_Connections (RemoveServer s net) = single_Connections net"
  by (simp_all add: AddServer_def RemoveServer_def link_def server_def fun_eq_iff)

section \<open>The invariant\<close>

definition watched :: "tcp_link \<Rightarrow> bool" where
  "watched x \<longleftrightarrow> ev_read x \<or> ev_write x"

definition link_ok :: "network \<Rightarrow> nat \<Rightarrow> bool" where
  "link_ok net l \<longleftrightarrow>
     (held (link net l) \<and> watched (link net l) \<longrightarrow> m_Self (link net l)) \<and>
     (m_ConnectCallbacks (link net l) \<longrightarrow> m_Server (link net l) = None) \<and>
     (\<forall>s. m_Server (link net l) = Some s \<longrightarrow> s < length (servers net)) \<and>
     (l \<in> set (single_Connections net) \<longrightarrow>
        m_Server (link net l) = None \<and> (watched (link net l) \<longrightarrow> m_Self (link net l)))"

definition server_ok :: "network \<Rightarrow> nat \<Rightarrow> bool" where
  "server_ok net s \<longleftrightarrow> distinct (m_Connections (server net s)) \<and> (accepting (server net s) \<longrightarrow> m_SelfPtr (server net s)) \<and>
     (\<forall>l \<in> set (m_Connections (server net s)). l < length (links net) \<and> m_Server (link net l) = Some s \<and> m_Self (link net l))"

definition net_inv :: "network \<Rightarrow> bool" where
  "net_inv net \<longleftrightarrow> (\<forall>l < length (links net). link_ok net l) \<and> (\<forall>s < length (servers net). server_ok net s) \<and>
     distinct (single_Connections net) \<and> (\<forall>l \<in> set (single_Connections net). l < length (links net))"

lemma initial_network_inv: "net_inv initial_network"
  by (simp add: net_inv_def initial_network_def)

lemma net_inv_report [simp]: "net_inv (report c net) = net_inv net"
  by (simp add: net_inv_def link_ok_def server_ok_def)

text \<open>Updates of a link that take nothing back: they keep its pointers and watch no more than before.\<close>

lemma net_inv_upd_link:
  assumes "net_inv net" and "m_Server (f (link net l)) = m_Server (link net l)" and "m_Self (f (link net l)) = m_Self (link net l)"
    and "held (f (link net l)) \<longrightarrow> held (link net l)" and "watched (f (link net l)) \<longrightarrow> watched (link net l)"
    and "m_ConnectCallbacks (f (link net l)) \<longrightarrow> m_ConnectCallbacks (link net l)"
  shows "net_inv (upd_link l f net)"
proof -
  have "link_ok (upd_link l f net) k" if "link_ok net k" for k
    using that assms(2-6) by (cases "k = l") (auto simp: link_ok_def link_upd_link)
  moreover have "server_ok (upd_link l f net) s" if "server_ok net s" for s
    using that assms(2,3) by (auto simp: server_ok_def link_upd_link)
  ultimately show ?thesis using assms(1) by (simp add: net_inv_def)
qed

text \<open>A link gives itself up.\<close>

lemma net_inv_reset_self:
  assumes inv: "net_inv net" and free: "\<not> (held (link net l) \<and> watched (link net l))"
    and server: "\<And>s. s < length (servers net) \<Longrightarrow> l \<notin> set (m_Connections (server net s))"
    and single: "l \<in> set (single_Connections net) \<longrightarrow> \<not> watched (link net l)"
  shows "net_inv (reset_self l net)"
proof -
  have "link_ok (reset_self l net) k" if "k < length (links net)" for k
    using inv free single that unfolding net_inv_def link_ok_def reset_self_def
    by (auto simp: link_upd_link watched_def split: option.splits)
  moreover have "server_ok (reset_self l net) s" if "s < length (servers net)" for s
    using inv server [OF that] that unfolding net_inv_def server_ok_def reset_self_def
    by (auto simp: link_upd_link split: option.splits)
  ultimately show ?thesis using inv by (simp add: net_inv_def reset_self_def)
qed

lemma forget_link_inv:
  assumes inv: "net_inv net" and l: "l < length (links net)"
  shows "net_inv (forget_link l net)" and "links (forget_link l net) = links net"
    and "length (servers (forget_link l net)) = length (servers net)"
    and "s < length (servers net) \<Longrightarrow> l \<notin> set (m_Connections (server (forget_link l net) s))"
    and "l \<notin> set (single_Connections (forget_link l net))"
proof -
  have ok: "link_ok net l" and all: "\<And>k. k < length (links net) \<Longrightarrow> link_ok net k" using inv l by (simp_all add: net_inv_def)
  have sv: "server_ok net s" if "s < length (servers net)" for s using inv that by (simp add: net_inv_def)
  show "links (forget_link l net) = links net" "length (servers (forget_link l net)) = length (servers net)"
    by (simp_all add: forget_link_def Server_RemoveLink_def split: option.split)
  show "s < length (servers net) \<Longrightarrow> l \<notin> set (m_Connections (server (forget_link l net) s))"
    using ok sv [of s] by (auto simp: link_ok_def server_ok_def forget_link_def Server_RemoveLink_def server_upd_server split: option.splits)
  have d: "distinct (single_Connections net)" "\<forall>l \<in> set (single_Connections net). l < length (links net)"
    using inv by (simp_all add: net_inv_def)
  show "l \<notin> set (single_Connections (forget_link l net))"
    using ok d by (auto simp: link_ok_def forget_link_def Server_RemoveLink_def split: option.splits)
  show "net_inv (forget_link l net)"
  proof (cases "m_Server (link net l)")
    case None
    have "link_ok (RemoveLink l net) k" if "k < length (links net)" for k
      using all [OF that] set_remove1_subset [of l "single_Connections net"] by (auto simp: link_ok_def)
    moreover have "server_ok (RemoveLink l net) s" if "s < length (servers net)" for s using sv [OF that] by (simp add: server_ok_def)
    ultimately show ?thesis using d by (auto simp: forget_link_def None net_inv_def dest: notin_set_remove1)
  next
    case (Some s)
    have "link_ok (Server_RemoveLink s l net) k" if "k < length (links net)" for k
      using all [OF that] by (simp add: link_ok_def Server_RemoveLink_def)
    moreover have "server_ok (Server_RemoveLink s l net) t" if "t < length (servers net)" for t
      using sv [OF that] by (auto simp: server_ok_def Server_RemoveLink_def server_upd_server)
    ultimately show ?thesis using d by (simp add: forget_link_def Some net_inv_def) (simp add: Server_RemoveLink_def)
  qed
qed

section \<open>Opening a port\<close>

definition just_listen :: "tcp_server \<Rightarrow> tcp_server \<Rightarrow> bool" where
  "just_listen x y \<longleftrightarrow> m_Connections y = m_Connections x \<and> m_SelfPtr y = m_SelfPtr x \<and> m_ConnListener y = m_ConnListener x \<and>
     m_SecondaryConnListener y = m_SecondaryConnListener x \<and> accepting y = accepting x \<and> m_IsListening y = m_IsListening x"

lemma just_listen_error: "just_listen x (listen_error env st msg x)" "just_listen x x"
  by (simp_all add: just_listen_def listen_error_def)

lemma bind_main_result:
  assumes "bind_main env port (x, []) = (ok, y, socks)"
  shows "just_listen x y" and "socks = (if ok then [MainSock] else [])"
  using assms by (auto simp: bind_main_def Let_def just_listen_error just_listen_def listen_error_def split: if_splits)

lemma listen_second_result:
  assumes "listen_second env port (x, socks) = (y, socks')" and "SecondSock \<notin> set socks"
  shows "m_Connections y = m_Connections x" and "m_SelfPtr y = m_SelfPtr x" and "m_ConnListener y = m_ConnListener x"
    and "m_IsListening y = m_IsListening x" and "accepting x \<longrightarrow> accepting y"
    and "(m_SecondaryConnListener y = m_SecondaryConnListener x \<and> socks' = socks) \<or>
      socks' = SecondSock # socks \<and> m_SecondaryConnListener y = (if makes_listener env SecondSock then Some SecondSock else None)"
  using assms by (auto simp: listen_second_def Let_def listen_error_def remove1_idem split: if_splits)

lemma Listen_port_result:
  assumes "Listen_port env port (new_cServerHandleImpl\<lparr>m_SelfPtr := True\<rparr>) = (ok, x, socks)"
  shows "m_Connections x = []" and "m_SelfPtr x" and "m_IsListening x = ok"
    and "\<not> ok \<Longrightarrow> socks = [] \<and> \<not> accepting x \<and> m_ConnListener x = None \<and> m_SecondaryConnListener x = None"
    and "ok \<Longrightarrow> m_ConnListener x = (if makes_listener env MainSock then Some MainSock else None) \<and>
      (socks = [MainSock] \<and> m_SecondaryConnListener x = None \<or>
       socks = [SecondSock, MainSock] \<and> m_SecondaryConnListener x = (if makes_listener env SecondSock then Some SecondSock else None))"
proof -
  obtain b y s1 where b: "bind_main env port (new_cServerHandleImpl\<lparr>m_SelfPtr := True\<rparr>, []) = (b, y, s1)"
    by (cases "bind_main env port (new_cServerHandleImpl\<lparr>m_SelfPtr := True\<rparr>, [])")
  have y: "m_Connections y = []" "m_SelfPtr y" "m_ConnListener y = None" "m_SecondaryConnListener y = None" "\<not> accepting y"
      "\<not> m_IsListening y"
    using bind_main_result(1) [OF b] by (simp_all add: just_listen_def new_cServerHandleImpl_def)
  note s1 = bind_main_result(2) [OF b]
  let ?y = "y\<lparr>m_ConnListener := (if makes_listener env MainSock then Some MainSock else None),
    accepting := makes_listener env MainSock, m_IsListening := True\<rparr>"
  obtain z s2 where z: "listen_second env port (?y, [MainSock]) = (z, s2)" by (cases "listen_second env port (?y, [MainSock])")
  have "(\<not> ok \<and> just_listen y x \<and> socks = []) \<or> (ok \<and> b \<and> (x = ?y \<and> socks = [MainSock] \<or> x = z \<and> socks = s2))"
    using assms b s1 z by (cases b) (auto simp: Listen_port_def Let_def just_listen_error split: if_splits)
  then show "m_Connections x = []" "m_SelfPtr x" "m_IsListening x = ok"
    "\<not> ok \<Longrightarrow> socks = [] \<and> \<not> accepting x \<and> m_ConnListener x = None \<and> m_SecondaryConnListener x = None"
    "ok \<Longrightarrow> m_ConnListener x = (if makes_listener env MainSock then Some MainSock else None) \<and>
      (socks = [MainSock] \<and> m_SecondaryConnListener x = None \<or>
       socks = [SecondSock, MainSock] \<and> m_SecondaryConnListener x = (if makes_listener env SecondSock then Some SecondSock else None))"
    using y listen_second_result [OF z] by (auto simp: just_listen_def)
qed

section \<open>Every event keeps the invariant\<close>

lemma net_inv_new_server:
  assumes inv: "net_inv net" and x: "m_Connections x = []" "accepting x \<longrightarrow> m_SelfPtr x"
  shows "net_inv (net\<lparr>servers := servers net @ [x]\<rparr>)"
proof -
  let ?net = "net\<lparr>servers := servers net @ [x]\<rparr>"
  have l: "link ?net = link net" by (simp add: link_def fun_eq_iff)
  have "server ?net s = (if s < length (servers net) then server net s else x)" if "s < Suc (length (servers net))" for s
    using that by (auto simp: server_def nth_append)
  then have "server_ok ?net s" if "s < Suc (length (servers net))" for s
    using that inv x by (simp add: net_inv_def server_ok_def l)
  moreover have "link_ok ?net k" if "link_ok net k" for k using that by (auto simp: link_ok_def l)
  ultimately show ?thesis using inv by (simp add: net_inv_def)
qed

lemma net_inv_upd_server:
  assumes "net_inv net" and "distinct (m_Connections (f (server net s)))"
    and "set (m_Connections (f (server net s))) \<subseteq> set (m_Connections (server net s))"
    and "accepting (f (server net s)) \<longrightarrow> m_SelfPtr (f (server net s))"
  shows "net_inv (upd_server s f net)"
proof -
  have "server_ok (upd_server s f net) t" if "t < length (servers net)" for t
    using that assms by (auto simp: net_inv_def server_ok_def server_upd_server)
  moreover have "link_ok (upd_server s f net) k" if "link_ok net k" for k using that by (simp add: link_ok_def)
  ultimately show ?thesis using assms(1) by (simp add: net_inv_def)
qed

lemma net_inv_server_list [simp]: "net_inv (AddServer s net) = net_inv net" "net_inv (RemoveServer s net) = net_inv net"
  by (simp_all add: net_inv_def link_ok_def server_ok_def)

lemma Listen_inv: "net_inv net \<Longrightarrow> net_inv (snd (cServerHandleImpl_Listen env port net))"
proof -
  assume inv: "net_inv net"
  obtain ok x socks where x: "Listen_port env port (new_cServerHandleImpl\<lparr>m_SelfPtr := True\<rparr>) = (ok, x, socks)"
    by (cases "Listen_port env port (new_cServerHandleImpl\<lparr>m_SelfPtr := True\<rparr>)")
  note r = Listen_port_result [OF x]
  let ?net = "net\<lparr>servers := servers net @ [x]\<rparr>"
  have i: "net_inv ?net" using r by (intro net_inv_new_server inv) simp_all
  have "server (report c ?net) (length (servers net)) = x" for c by (simp add: server_def)
  then have "net_inv (upd_server (length (servers net)) (\<lambda>x. x\<lparr>m_SelfPtr := False\<rparr>) (report c ?net))" if "\<not> ok" for c
    using i r(1,4) that by (intro net_inv_upd_server) simp_all
  then show ?thesis using i by (simp add: cServerHandleImpl_Listen_def Let_def x)
qed

lemma Shutdown_inv: "net_inv net \<Longrightarrow> net_inv (Link_Shutdown l net)"
  by (auto simp: Link_Shutdown_def DoActualShutdown_def watched_def intro!: net_inv_upd_link)

lemma Shutdown_rest [simp]:
  "servers (Link_Shutdown l net) = servers net"
  "server (Link_Shutdown l net) = server net" "length (links (Link_Shutdown l net)) = length (links net)"
  by (simp_all add: Link_Shutdown_def DoActualShutdown_def)

lemma fold_Shutdown: 
  "net_inv net \<Longrightarrow> net_inv (fold Link_Shutdown ls net)" "server (fold Link_Shutdown ls net) = server net"
  "length (servers (fold Link_Shutdown ls net)) = length (servers net)"
  by (induction ls arbitrary: net) (simp_all add: Shutdown_inv)

lemma Server_Close_inv:
  assumes "net_inv net" and "s < length (servers net)" and "m_ConnListener (server net s) \<noteq> None"
  obtains net' where "Server_Close s net = Inr net'" and "net_inv net'"
proof -
  let ?net1 = "upd_server s (\<lambda>x. x\<lparr>accepting := False, m_IsListening := False\<rparr>) net"
  let ?net2 = "upd_server s (\<lambda>x. x\<lparr>m_Connections := []\<rparr>) ?net1"
  let ?net3 = "fold Link_Shutdown (m_Connections (server ?net1 s)) ?net2"
  let ?net4 = "upd_server s (\<lambda>x. x\<lparr>m_SelfPtr := False\<rparr>) ?net3"
  have 1: "net_inv ?net1" using assms(1,2) by (intro net_inv_upd_server) (simp_all add: net_inv_def server_ok_def)
  have 2: "net_inv ?net2" by (rule net_inv_upd_server [OF 1]) (use assms(2) in \<open>simp_all add: server_upd_server\<close>)
  have "net_inv ?net4"
    by (rule net_inv_upd_server [OF fold_Shutdown(1) [OF 2]]) (use assms(2) in \<open>simp_all add: fold_Shutdown server_upd_server\<close>)
  then have "net_inv (RemoveServer s ?net4)" by simp
  then show thesis using that assms(3) by (simp add: Server_Close_def Let_def)
qed

lemma Enable_created:
  "Enable l (created l net) =
     report (OnLinkCreated l) (upd_link l (\<lambda>x. x\<lparr>held := True, m_Self := True, ev_read := True, ev_write := True\<rparr>) net)"
  by (cases "l < length (links net)") (simp_all add: Enable_def created_def upd_link_def report_def list_update_beyond)

lemma upd_link_server: "upd_link l f (upd_server s g net) = upd_server s g (upd_link l f net)"
  by (cases net) (simp add: upd_link_def upd_server_def)

lemma net_inv_upd_self:
  assumes "net_inv net" and "m_Server (f (link net l)) = m_Server (link net l)" and "m_Self (f (link net l))"
    and "m_ConnectCallbacks (f (link net l)) \<longrightarrow> m_ConnectCallbacks (link net l)"
  shows "net_inv (upd_link l f net)"
proof -
  have "link_ok (upd_link l f net) k" if "link_ok net k" for k
    using that assms(2-4) by (cases "k = l") (auto simp: link_ok_def link_upd_link)
  moreover have "server_ok (upd_link l f net) s" if "server_ok net s" for s
    using that assms(2,3) by (auto simp: server_ok_def link_upd_link)
  ultimately show ?thesis using assms(1) by (simp add: net_inv_def)
qed

lemma new_link_rest [simp]:
  "servers (net\<lparr>links := ls\<rparr>) = servers net" "server (net\<lparr>links := ls\<rparr>) = server net"
  by (simp_all add: server_def fun_eq_iff)

lemma net_inv_new_link:
  assumes inv: "net_inv net" and x: "\<not> watched x" "m_ConnectCallbacks x \<longrightarrow> m_Server x = None"
      "\<And>s. m_Server x = Some s \<Longrightarrow> s < length (servers net)"
  shows "net_inv (net\<lparr>links := links net @ [x]\<rparr>)"
proof -
  let ?net = "net\<lparr>links := links net @ [x]\<rparr>"
  have old: "link ?net k = link net k" if "k < length (links net)" for k using that by (simp add: link_def nth_append)
  have new: "link ?net (length (links net)) = x" by (simp add: link_def)
  have "length (links net) \<notin> set (single_Connections net)" using inv by (auto simp: net_inv_def)
  then have "link_ok ?net (length (links net))" using x by (simp add: link_ok_def new)
  moreover have "link_ok ?net k" if "k < length (links net)" for k
  proof -
    have "link_ok net k" using inv that by (simp add: net_inv_def)
    then show ?thesis by (simp add: link_ok_def old [OF that])
  qed
  ultimately have "link_ok ?net k" if "k < Suc (length (links net))" for k
    using that less_antisym by blast
  moreover have "server_ok ?net s" if "s < length (servers net)" for s
  proof -
    have "server_ok net s" using inv that by (simp add: net_inv_def)
    then show ?thesis using old by (auto simp: server_ok_def intro: less_SucI)
  qed
  ultimately show ?thesis using inv by (auto simp: net_inv_def intro: less_SucI)
qed

lemma Connect_inv: "net_inv net \<Longrightarrow> net_inv (snd (cNetwork_Connect parses queues net))"
proof -
  assume inv: "net_inv net"
  let ?x = "new_cTCPLinkImpl\<lparr>m_ConnectCallbacks := True\<rparr>" and ?l = "length (links net)"
  let ?net1 = "net\<lparr>links := links net @ [?x]\<rparr>"
  let ?net3 = "Enable ?l (created ?l (AddLink ?l ?net1))"
  have 1: "net_inv ?net1" using inv by (intro net_inv_new_link) (simp_all add: new_cTCPLinkImpl_def watched_def)
  have x: "link ?net1 ?l = ?x" by (simp add: link_def)
  have fresh: "?l \<notin> set (single_Connections net)" using inv by (auto simp: net_inv_def)
  have "link_ok (AddLink ?l ?net1) k" if "k < Suc ?l" for k
    using that 1 x by (cases "k = ?l") (auto simp: net_inv_def link_ok_def new_cTCPLinkImpl_def watched_def)
  moreover have "server_ok (AddLink ?l ?net1) s" if "s < length (servers net)" for s
    using that 1 by (simp add: net_inv_def server_ok_def)
  ultimately have 2: "net_inv (AddLink ?l ?net1)" using 1 fresh by (auto simp: net_inv_def)
  have 3: "net_inv ?net3" unfolding Enable_created net_inv_report by (rule net_inv_upd_self [OF 2]) simp_all
  have l: "?l < length (links ?net3)" by (simp add: Enable_created)
  have "m_Server (link ?net3 ?l) = None" using x by (simp add: Enable_created link_upd_link new_cTCPLinkImpl_def)
  then have "net_inv (RemoveLink ?l ?net3)" using forget_link_inv(1) [OF 3 l] by (simp add: forget_link_def)
  then show ?thesis using 3 by (simp add: cNetwork_Connect_def cTCPLinkImpl_Connect_def Let_def)
qed

lemma UpdateAddress_known: "a \<noteq> AF_OTHER \<Longrightarrow> \<exists>ip port. UpdateAddress a = Inr (ip, port)"
  by (cases a) (simp_all add: UpdateAddress_def)

lemma Accept_net_inv:
  assumes inv: "net_inv net" and s: "s < length (servers net)" "accepting (server net s)" and a: "local \<noteq> AF_OTHER" "addr \<noteq> AF_OTHER"
  obtains net' where "Listener_Callback accepts local addr s net = Inr net'" and "net_inv net'"
proof -
  obtain ip port lip lport where ip: "UpdateAddress addr = Inr (ip, port)" "UpdateAddress local = Inr (lip, lport)"
    using UpdateAddress_known a by meson
  have self: "m_SelfPtr (server net s)" using inv s by (auto simp: net_inv_def server_ok_def)
  define x where "x = new_cTCPLinkImpl\<lparr>m_Server := Some s, m_LocalIP := lip, m_LocalPort := lport, m_RemoteIP := ip, m_RemotePort := port\<rparr>"
  have x: "accepted_cTCPLinkImpl (Some s) local addr = Inr x"
    by (simp add: accepted_cTCPLinkImpl_def UpdateLocalAddress_def UpdateRemoteAddress_def ip x_def)
  let ?net0 = "report (Listen_OnIncomingConnection s ip port) net" and ?l = "length (links net)"
  let ?net1 = "?net0\<lparr>links := links net @ [x]\<rparr>"
  let ?add = "\<lambda>y. y\<lparr>m_Connections := m_Connections y @ [?l]\<rparr>"
  let ?f = "\<lambda>y. y\<lparr>held := True, m_Self := True, ev_read := True, ev_write := True\<rparr>"
  let ?net2 = "upd_link ?l ?f ?net1"
  have "net_inv (?net0\<lparr>links := links ?net0 @ [x]\<rparr>)"
    using inv s(1) by (intro net_inv_new_link) (simp_all add: x_def new_cTCPLinkImpl_def watched_def)
  then have 1: "net_inv ?net1" by simp
  have 2: "net_inv ?net2" by (rule net_inv_upd_self [OF 1]) simp_all
  have old: "server_ok net s" using inv s(1) by (simp add: net_inv_def)
  have l: "link ?net2 ?l = ?f x" by (simp add: link_def upd_link_def)
  have sv: "server ?net2 = server net" by (simp add: fun_eq_iff server_def)
  have "server_ok (upd_server s ?add ?net2) t" if "t < length (servers net)" for t
  proof -
    have "server_ok ?net2 t" using 2 that by (simp add: net_inv_def)
    moreover have "?l \<notin> set (m_Connections (server net s))" using old by (auto simp: server_ok_def)
    ultimately show ?thesis using s l
      by (cases "t = s") (auto simp: server_ok_def server_upd_server sv x_def self)
  qed
  moreover have "link_ok (upd_server s ?add ?net2) k" if "k < Suc ?l" for k
    using 2 that by (simp add: net_inv_def link_ok_def)
  ultimately have 3: "net_inv (upd_server s ?add ?net2)" using 2 by (simp add: net_inv_def)
  have "Enable ?l (created ?l (upd_server s ?add ?net1)) = report (OnLinkCreated ?l) (upd_server s ?add ?net2)"
    by (simp add: Enable_created upd_link_server)
  then have "Listener_Callback True local addr s net = Inr (report (Listen_OnAccepted s ?l) (report (OnLinkCreated ?l) (upd_server s ?add ?net2)))"
    by (simp add: Listener_Callback_def ip self x Let_def)
  then show thesis using that 3 inv by (cases accepts) (auto simp: Listener_Callback_def ip)
qed

section \<open>The events of a link\<close>

lemma drop_inv: "net_inv net \<Longrightarrow> net_inv (drop_link l net)"
  unfolding drop_link_def by (rule net_inv_upd_link) (simp_all add: watched_def)

lemma written_inv: "net_inv net \<Longrightarrow> net_inv (bytes_written k l net)"
  by (auto simp: bytes_written_def Let_def WriteCallback_def DoActualShutdown_def watched_def intro!: net_inv_upd_link)

lemma Send_inv: "net_inv net \<Longrightarrow> net_inv (snd (Link_Send queues d l net))"
  by (auto simp: Link_Send_def watched_def intro!: net_inv_upd_link)

lemma ReadCallback_calls:
  "\<exists>cs. ReadCallback input l net = net\<lparr>net_calls := net_calls net @ map (Link_OnReceivedData l) cs\<rparr> \<and>
     concat cs = input \<and> (\<forall>c \<in> set cs. c \<noteq> [] \<and> length c \<le> 1024)"
proof (induction input l net rule: ReadCallback.induct)
  case (1 input l net)
  show ?case
  proof (cases "input = []")
    case False
    obtain cs where "ReadCallback (drop 1024 input) l (report (Link_OnReceivedData l (take 1024 input)) net) =
        net\<lparr>net_calls := net_calls net @ map (Link_OnReceivedData l) (take 1024 input # cs)\<rparr>"
        "concat cs = drop 1024 input" "\<forall>c \<in> set cs. c \<noteq> [] \<and> length c \<le> 1024"
      using "1.IH" [OF False] by (auto simp: report_def)
    then show ?thesis using False
      by (intro exI [of _ "take 1024 input # cs"]) (simp add: ReadCallback.simps [of input])
  qed (simp add: ReadCallback.simps exI [of _ "[]"])
qed

lemma calls_rest [simp]: "net_inv (net\<lparr>net_calls := cs\<rparr>) = net_inv net"
  by (simp add: net_inv_def link_ok_def server_ok_def link_def server_def)

lemma Read_inv: "net_inv net \<Longrightarrow> net_inv (ReadCallback input l net)"
  using ReadCallback_calls [of input l net] by auto

lemma give_up_inv:
  assumes inv: "net_inv net" and l: "l < length (links net)" and free: "\<not> (held (link net l) \<and> watched (link net l))"
  shows "net_inv (reset_self l (forget_link l net))"
proof -
  note f = forget_link_inv [OF inv l]
  have "link (forget_link l net) l = link net l" using f(2) by (simp add: link_def)
  then show ?thesis using f free by (intro net_inv_reset_self) simp_all
qed

lemma Close_inv: "net_inv net \<Longrightarrow> l < length (links net) \<Longrightarrow> net_inv (Link_Close l net)"
  unfolding Link_Close_def
  by (rule give_up_inv, rule net_inv_upd_link) (simp_all add: link_upd_link watched_def)

lemma link_ended_inv: "net_inv net \<Longrightarrow> l < length (links net) \<Longrightarrow> net_inv (reset_self l (link_ended c l net))"
  unfolding link_ended_def
  by (rule give_up_inv, rule net_inv_upd_link) (simp_all add: link_upd_link watched_def)

text \<open>A link that exists and is watched has its pointer to itself.\<close>

lemma exists_self:
  assumes "net_inv net" and "link_exists net l" and "watched (link net l)"
  shows "m_Self (link net l)"
proof -
  have l: "link_ok net l" using assms(1,2) by (simp add: net_inv_def link_exists_def)
  have s: "server_ok net s" if "s < length (servers net)" for s using assms(1) that by (simp add: net_inv_def)
  from assms(2) consider "m_Self (link net l)" | "held (link net l)" | "l \<in> set (single_Connections net)"
    | s where "s < length (servers net)" "l \<in> set (m_Connections (server net s))"
    unfolding link_exists_def by blast
  then show ?thesis
  proof cases
    case (4 s)
    then show ?thesis using s [OF 4(1)] by (simp add: server_ok_def)
  qed (use l assms(3) in \<open>simp_all add: link_ok_def\<close>)
qed

lemma bev_flags:
  "BEV_EVENT_CONNECTED \<noteq> 0" "BEV_EVENT_ERROR \<noteq> 0" "BEV_EVENT_EOF \<noteq> 0" "BEV_EVENT_ERROR AND BEV_EVENT_ERROR \<noteq> 0" "BEV_EVENT_CONNECTED AND BEV_EVENT_ERROR = 0" "BEV_EVENT_CONNECTED AND BEV_EVENT_CONNECTED \<noteq> 0"
  "BEV_EVENT_CONNECTED AND BEV_EVENT_EOF = 0" "BEV_EVENT_CONNECTED \<noteq> BEV_EVENT_ERROR"
  "(BEV_EVENT_READING OR BEV_EVENT_EOF) AND BEV_EVENT_ERROR = 0" "(BEV_EVENT_READING OR BEV_EVENT_EOF) AND BEV_EVENT_CONNECTED = 0"
  "(BEV_EVENT_READING OR BEV_EVENT_EOF) AND BEV_EVENT_EOF \<noteq> 0" "(BEV_EVENT_READING OR BEV_EVENT_ERROR) AND BEV_EVENT_ERROR \<noteq> 0"
  "(BEV_EVENT_WRITING OR BEV_EVENT_EOF) AND BEV_EVENT_ERROR = 0" "(BEV_EVENT_WRITING OR BEV_EVENT_EOF) AND BEV_EVENT_CONNECTED = 0"
  "(BEV_EVENT_WRITING OR BEV_EVENT_EOF) AND BEV_EVENT_EOF \<noteq> 0" "(BEV_EVENT_WRITING OR BEV_EVENT_ERROR) AND BEV_EVENT_ERROR \<noteq> 0"
  by (simp_all add: BEV_EVENT_ERROR_def BEV_EVENT_CONNECTED_def BEV_EVENT_EOF_def BEV_EVENT_READING_def BEV_EVENT_WRITING_def)

lemma unwatch_inv: "net_inv net \<Longrightarrow> net_inv (unwatch what l net)"
  unfolding unwatch_def by (rule net_inv_upd_link) (auto simp: watched_def)

lemma unwatch_rest [simp]:
  "length (links (unwatch what l net)) = length (links net)" "servers (unwatch what l net) = servers net"
  "single_Connections (unwatch what l net) = single_Connections net" "server (unwatch what l net) = server net"
  "m_Self (link (unwatch what l net) k) = m_Self (link net k)" "held (link (unwatch what l net) k) = held (link net k)"
  "m_ConnectCallbacks (link (unwatch what l net) k) = m_ConnectCallbacks (link net k)"
  "m_Server (link (unwatch what l net) k) = m_Server (link net k)"
  by (simp_all add: unwatch_def link_upd_link)

lemma addresses_inv:
  assumes "net_inv net" and "x = (link net l)\<lparr>m_LocalIP := a, m_LocalPort := b, m_RemoteIP := c, m_RemotePort := d\<rparr>"
  shows "net_inv (upd_link l (\<lambda>_. x) net)" and "net_inv (upd_link l (\<lambda>x. x\<lparr>m_ConnectCallbacks := False\<rparr>) (report r (upd_link l (\<lambda>_. x) net)))"
proof -
  show 1: "net_inv (upd_link l (\<lambda>_. x) net)" by (rule net_inv_upd_link [OF assms(1)]) (simp_all add: assms(2) watched_def)
  show "net_inv (upd_link l (\<lambda>x. x\<lparr>m_ConnectCallbacks := False\<rparr>) (report r (upd_link l (\<lambda>_. x) net)))"
    by (rule net_inv_upd_link) (simp_all add: 1 watched_def)
qed

lemma Link_event_inv:
  assumes inv: "net_inv net" and can: "net_can (EvLink what e d local remote l) net"
  obtains net' where "net_do (EvLink what e d local remote l) net = Inr net'" and "net_inv net'"
proof -
  let ?net = "unwatch what l net"
  note ui = unwatch_inv [OF inv, of what l]
  have l: "l < length (links ?net)" and w: "watched (link net l)" using can by (auto simp: link_exists_def watched_def split: if_splits)
  have self: "m_Self (link ?net l)" using exists_self [OF inv _ w] can by simp
  note ended = link_ended_inv [OF ui l]
  show thesis
  proof (cases "m_ConnectCallbacks (link net l)")
    case False
    then have "what \<in> {BEV_EVENT_READING OR BEV_EVENT_EOF, BEV_EVENT_READING OR BEV_EVENT_ERROR,
        BEV_EVENT_WRITING OR BEV_EVENT_EOF, BEV_EVENT_WRITING OR BEV_EVENT_ERROR}" using can by auto
    then show ?thesis using that False self ended by (auto simp: EventCallback_def bev_flags)
  next
    case True
    then have what: "what = BEV_EVENT_ERROR \<or> what = BEV_EVENT_CONNECTED" using can by auto
    show ?thesis
    proof (cases "what = BEV_EVENT_ERROR")
      case error: True
      have "link_ok net l" using inv l by (simp add: net_inv_def)
      then have none: "m_Server (link net l) = None" using True by (simp add: link_ok_def)
      have "\<not> watched (link ?net l)" using error l by (simp add: unwatch_def link_upd_link watched_def)
      moreover have "l \<notin> set (m_Connections (server ?net s))" if "s < length (servers net)" for s
        using inv that none by (auto simp: net_inv_def server_ok_def)
      ultimately have "net_inv (reset_self l (report c ?net))" for c
        using ui by (intro net_inv_reset_self) simp_all
      then show ?thesis using that True self error by (simp add: EventCallback_def bev_flags)
    next
      case False
      obtain ip port lip lport where ip: "UpdateAddress remote = Inr (ip, port)" "UpdateAddress local = Inr (lip, lport)"
        using UpdateAddress_known can by (metis net_can.simps(11))
      let ?x = "(link ?net l)\<lparr>m_LocalIP := lip, m_LocalPort := lport, m_RemoteIP := ip, m_RemotePort := port\<rparr>"
      have "net_do (EvLink what e d local remote l) net =
          Inr (upd_link l (\<lambda>x. x\<lparr>m_ConnectCallbacks := False\<rparr>) (report (Connect_OnConnected l) (upd_link l (\<lambda>_. ?x) ?net)))"
        using what False True self
        by (simp add: EventCallback_def bev_flags UpdateLocalAddress_def UpdateRemoteAddress_def ip Let_def)
      then show ?thesis using that addresses_inv(2) [OF ui refl] by blast
    qed
  qed
qed

lemma net_step:
  assumes inv: "net_inv net" and can: "net_can ev net"
  obtains net' where "net_do ev net = Inr net'" and "net_inv net'"
proof (cases ev)
  case (EvServerClose s)
  have c: "s < length (servers net)" "m_ConnListener (server net s) \<noteq> None" using can by (simp_all add: EvServerClose)
  show ?thesis by (rule Server_Close_inv [OF inv c]) (rule that, simp_all add: EvServerClose)
next
  case (EvAccept accepts local addr s)
  have c: "s < length (servers net)" "accepting (server net s)" "local \<noteq> AF_OTHER" "addr \<noteq> AF_OTHER" using can by (simp_all add: EvAccept)
  show ?thesis by (rule Accept_net_inv [OF inv c, of accepts]) (rule that, simp_all add: EvAccept)
next
  case (EvLink what e d local remote l)
  show ?thesis by (rule Link_event_inv [OF inv can [unfolded EvLink]]) (rule that, simp_all only: EvLink)
next
  case (EvClose l)
  have "l < length (links net)" using can by (simp add: EvClose)
  from Close_inv [OF inv this] show ?thesis by (rule that [rotated]) (simp only: EvClose net_do.simps)
next
  case (EvListen env port)
  from Listen_inv [OF inv] show ?thesis by (rule that [rotated]) (simp only: EvListen net_do.simps)
next
  case (EvConnect p q)
  from Connect_inv [OF inv] show ?thesis by (rule that [rotated]) (simp only: EvConnect net_do.simps)
next
  case (EvSend q d l)
  from Send_inv [OF inv] show ?thesis by (rule that [rotated]) (simp only: EvSend net_do.simps)
next
  case (EvShutdown l)
  from Shutdown_inv [OF inv] show ?thesis by (rule that [rotated]) (simp only: EvShutdown net_do.simps)
next
  case (EvDrop l)
  from drop_inv [OF inv] show ?thesis by (rule that [rotated]) (simp only: EvDrop net_do.simps)
next
  case (EvRead d l)
  from Read_inv [OF inv] show ?thesis by (rule that [rotated]) (simp only: EvRead net_do.simps)
next
  case (EvWritten k l)
  from written_inv [OF inv] show ?thesis by (rule that [rotated]) (simp only: EvWritten net_do.simps)
qed

lemma net_run_inv: "net_run net0 net \<Longrightarrow> net_inv net0 \<Longrightarrow> net_inv net"
proof (induction rule: net_run.induct)
  case (step net net' ev net'')
  then show ?case using net_step [of net' ev] by fastforce
qed

end
