(* ===== verification/NetworkProperties.thy ===== *)
theory NetworkProperties
  imports NetworkInvariants
begin

text \<open>
  What holds of every run of the network layer: what happens to the data of a link, what a shutdown does, which
  connections and sockets stay open, and what a lookup reports.
\<close>

section \<open>The data of a link\<close>

text \<open>What one update does to the data of a link that exists already.\<close>

definition data_step :: "tcp_link \<Rightarrow> tcp_link \<Rightarrow> bool" where
  "data_step x y \<longleftrightarrow>
     (m_ShouldShutdown x \<longrightarrow> m_ShouldShutdown y \<and> written y @ ev_output y = written x @ ev_output x) \<and>
     (fin_sent x \<longrightarrow> fin_sent y) \<and> (ev_write y \<longrightarrow> ev_write x) \<and> (\<not> ev_write x \<longrightarrow> written y = written x) \<and>
     (fin_sent y \<and> \<not> fin_sent x \<longrightarrow> ev_output y = [] \<and> \<not> ev_write y)"

abbreviation data_steps :: "tcp_link \<Rightarrow> tcp_link \<Rightarrow> bool" where
  "data_steps \<equiv> data_step\<^sup>*\<^sup>*"

lemma data_quiet:
  assumes "m_ShouldShutdown y = m_ShouldShutdown x" "written y = written x" "ev_output y = ev_output x" "fin_sent y = fin_sent x"
    "ev_write y \<longrightarrow> ev_write x"
  shows "data_step x y"
  using assms by (simp add: data_step_def)

lemma data_upd: "data_step (link net k) (f (link net k)) \<Longrightarrow> data_steps (link net l) (link (upd_link k f net) l)"
  by (auto simp: link_upd_link)

lemma data_forget: "data_steps (link net l) (link (forget_link k net) l)"
  by (simp add: forget_link_def Server_RemoveLink_def split: option.split)

lemma data_self: "data_steps (link net l) (link (reset_self k net) l)"
  unfolding reset_self_def by (rule data_upd) (simp add: data_quiet)

lemma data_ended: "data_steps (link net l) (link (link_ended c k net) l)"
proof -
  have "data_steps (link (report c net) l) (link (upd_link k (\<lambda>x. x\<lparr>held := False\<rparr>) (report c net)) l)"
    by (rule data_upd) (simp add: data_quiet)
  then show ?thesis unfolding link_ended_def using data_forget by (metis report_rest(3) rtranclp_trans)
qed

lemma data_Shutdown: "data_steps (link net l) (link (Link_Shutdown k net) l)"
  by (auto simp: Link_Shutdown_def DoActualShutdown_def data_step_def intro!: data_upd)

lemma data_fold_Shutdown: "data_steps (link net l) (link (fold Link_Shutdown ks net) l)"
proof (induction ks arbitrary: net)
  case (Cons k ks)
  show ?case using rtranclp_trans [OF data_Shutdown Cons.IH] by simp
qed simp

lemma data_Close: "data_steps (link net l) (link (Link_Close k net) l)"
proof -
  have "data_steps (link net l) (link (upd_link k (\<lambda>x. x\<lparr>ev_read := False, ev_write := False\<rparr>) net) l)"
    by (rule data_upd) (simp add: data_quiet)
  then show ?thesis unfolding Link_Close_def using data_forget data_self by (meson rtranclp_trans)
qed

lemma data_written:
  assumes "ev_write (link net k)"
  shows "data_steps (link net l) (link (bytes_written n k net) l)"
proof -
  let ?net = "upd_link k (\<lambda>x. x\<lparr>written := written x @ take n (ev_output x), ev_output := drop n (ev_output x)\<rparr>) net"
  have 1: "data_steps (link net l) (link ?net l)" by (rule data_upd) (use assms in \<open>simp add: data_step_def\<close>)
  have 2: "data_steps (link ?net l) (link (WriteCallback k ?net) l)" if "ev_output (link ?net k) = []"
    using that by (auto simp: WriteCallback_def DoActualShutdown_def data_step_def intro!: data_upd)
  show ?thesis using 1 rtranclp_trans [OF 1 2] by (simp add: bytes_written_def Let_def)
qed

lemma data_new: "l < length (links net) \<Longrightarrow> link (net\<lparr>links := links net @ xs\<rparr>) l = link net l"
  by (simp add: link_def nth_append)

lemma data_Event:
  assumes "EventCallback what e d local remote k net = Inr net'"
  shows "data_steps (link net l) (link net' l)"
proof -
  have 1: "data_steps (link net l) (link (reset_self k (report c net)) l)" for c
    using data_self [of "report c net"] by simp
  have 2: "data_steps (link net l) (link (reset_self k (link_ended c k net)) l)" for net c
    using rtranclp_trans [OF data_ended data_self] by blast
  have 3: "data_steps (link net l) (link (upd_link k (\<lambda>_. x) net) l)"
    "data_steps (link net l) (link (upd_link k (\<lambda>x. x\<lparr>m_ConnectCallbacks := False\<rparr>) (report c (upd_link k (\<lambda>_. x) net))) l)"
    if "data_step (link net k) x" for x c
  proof -
    show a: "data_steps (link net l) (link (upd_link k (\<lambda>_. x) net) l)" using that by (rule data_upd)
    have "data_steps (link (report c (upd_link k (\<lambda>_. x) net)) l)
        (link (upd_link k (\<lambda>x. x\<lparr>m_ConnectCallbacks := False\<rparr>) (report c (upd_link k (\<lambda>_. x) net))) l)"
      by (rule data_upd) (simp add: data_quiet)
    with a show "data_steps (link net l) (link (upd_link k (\<lambda>x. x\<lparr>m_ConnectCallbacks := False\<rparr>) (report c (upd_link k (\<lambda>_. x) net))) l)"
      by simp
  qed
  have 4: "data_step (link net k) x2" if "UpdateLocalAddress local (link net k) = Inr x" "UpdateRemoteAddress remote x = Inr x2" for x x2
    using that by (auto simp: UpdateLocalAddress_def UpdateRemoteAddress_def and_then_Inr_iff data_quiet)
  show ?thesis using assms
    by (auto simp: EventCallback_def Let_def and_then_Inr_iff split: if_splits intro: 1 2 3(1) [OF 4] 3(2) [OF 4] rtranclp_trans [OF 3(1) [OF 4] 2])
qed

lemma links_rest [simp]:
  "length (links (forget_link l net)) = length (links net)" "length (links (reset_self l net)) = length (links net)"
  "length (links (link_ended c l net)) = length (links net)" "length (links (Link_Close l net)) = length (links net)"
  "length (links (drop_link l net)) = length (links net)" "length (links (bytes_written n l net)) = length (links net)"
  "length (links (Enable l (created l net))) = length (links net)"
  by (simp_all add: forget_link_def Server_RemoveLink_def reset_self_def link_ended_def Link_Close_def drop_link_def
      bytes_written_def Let_def WriteCallback_def DoActualShutdown_def Enable_created split: option.split)

lemma fold_Shutdown_links [simp]: "length (links (fold Link_Shutdown ls net)) = length (links net)"
  by (induction ls arbitrary: net) simp_all

lemma link_links: "link (net\<lparr>links := ls\<rparr>) k = ls ! k"
  by (simp add: link_def)

lemma link_Enable: "k \<noteq> l \<Longrightarrow> link (Enable l (created l net)) k = link net k"
  by (simp add: Enable_created link_upd_link)

lemma Event_links: "EventCallback what e d local remote k net = Inr net' \<Longrightarrow> length (links net') = length (links net)"
  by (auto simp: EventCallback_def Let_def and_then_Inr_iff split: if_splits)

lemma step_data:
  assumes "net_do ev net = Inr net'" and "net_can ev net" and "l < length (links net)"
  shows "l < length (links net') \<and> data_steps (link net l) (link net' l)"
proof (cases ev)
  case (EvListen env port)
  then have "links net' = links net" "link net' l = link net l"
    using assms(1) by (auto simp: cServerHandleImpl_Listen_def Let_def link_def split: prod.splits if_splits)
  then show ?thesis using assms(3) by simp
next
  case (EvServerClose s)
  then show ?thesis using assms(1,3) data_fold_Shutdown
    by (auto simp: Server_Close_def Let_def split: if_splits)
      (metis (no_types, lifting) data_fold_Shutdown upd_server_rest(3))
next
  case (EvAccept accepts local addr s)
  have e: "Listener_Callback accepts local addr s net = Inr net'" using assms(1) by (simp add: EvAccept)
  have "link net' l = link net l \<and> length (links net) \<le> length (links net')"
    using e assms(3)
    by (auto simp: Listener_Callback_def and_then_Inr_iff Let_def link_Enable link_links nth_append link_def [of net l] split: if_splits)
  then show ?thesis using assms(3) by auto
next
  case (EvConnect p q)
  have "link net' l = link net l" "length (links net) \<le> length (links net')"
    using assms(1,3) data_new [of l net]
    by (auto simp: EvConnect cNetwork_Connect_def cTCPLinkImpl_Connect_def Let_def link_Enable)
  then show ?thesis using assms(3) by auto
next
  case (EvSend q d k)
  then have "data_steps (link net l) (link net' l)" "length (links net') = length (links net)"
    using assms(1) by (auto simp: Link_Send_def data_step_def intro!: data_upd)
  then show ?thesis using assms(3) by simp
next
  case (EvShutdown k)
  then show ?thesis using assms(1,3) data_Shutdown [of net l k] by auto
next
  case (EvClose k)
  then show ?thesis using assms(1,3) data_Close [of net l k] by auto
next
  case (EvDrop k)
  have "data_steps (link net l) (link (drop_link k net) l)" unfolding drop_link_def by (rule data_upd) (simp add: data_quiet)
  then show ?thesis using assms(1,3) EvDrop by auto
next
  case (EvRead input k)
  then show ?thesis using assms(1,3) ReadCallback_calls [of input k net] by (auto simp: link_def)
next
  case (EvWritten n k)
  then show ?thesis using assms data_written [of net k l n] by auto
next
  case (EvLink what e d local remote k)
  have 1: "data_steps (link net l) (link (unwatch what k net) l)" unfolding unwatch_def by (rule data_upd) (auto simp: data_quiet)
  have 2: "EventCallback what e d local remote k (unwatch what k net) = Inr net'" using assms(1) by (simp add: EvLink)
  show ?thesis using rtranclp_trans [OF 1 data_Event [OF 2]] Event_links [OF 2] assms(3) by simp
qed

lemma run_data:
  assumes "net_run net net'" and "l < length (links net)"
  shows "l < length (links net') \<and> data_steps (link net l) (link net' l)"
  using assms
proof (induction rule: net_run.induct)
  case (step net net' ev net'')
  then show ?case using step_data [of ev net' net'' l] by (auto intro: rtranclp_trans)
qed simp

lemma data_shutting:
  assumes "data_steps x y" and "m_ShouldShutdown x" and "fin_sent x \<longrightarrow> ev_output x = [] \<and> \<not> ev_write x"
  shows "m_ShouldShutdown y \<and> written y @ ev_output y = written x @ ev_output x \<and> (fin_sent y \<longrightarrow> ev_output y = [] \<and> \<not> ev_write y)"
  using assms(1)
proof (induction rule: rtranclp_induct)
  case (step y z)
  then show ?case by (cases "fin_sent y") (auto simp: data_step_def)
qed (use assms in simp)

lemma data_closed:
  assumes "data_steps x y" and "\<not> ev_write x"
  shows "\<not> ev_write y \<and> written y = written x"
  using assms(1)
proof (induction rule: rtranclp_induct)
  case (step y z)
  then show ?case by (auto simp: data_step_def)
qed (use assms in simp)

section \<open>The properties\<close>


text \<open>
  \<^bold>\<open>C10.\<close> A graceful shutdown loses nothing: when a link is shut down while data waits, then whatever happens next, the
  bytes written followed by those waiting stay what they were, nothing more is accepted, the end is sent only when none
  waits, and it is sent when the last of them is written.
\<close>
theorem shutdown_writes_all:
  assumes "l < length (links net)" and "\<not> fin_sent (link net l)" and "ev_output (link net l) \<noteq> []"
    and "net_run (Link_Shutdown l net) net'"
  shows "written (link net' l) @ ev_output (link net' l) = written (link net l) @ ev_output (link net l) \<and>
    (fin_sent (link net' l) \<longrightarrow> ev_output (link net' l) = []) \<and>
    fin_sent (link (bytes_written (length (ev_output (link net' l))) l net') l) \<and>
    fst (Link_Send queues extra l net') = False"
proof -
  let ?x = "link (Link_Shutdown l net) l"
  have x: "m_ShouldShutdown ?x" "\<not> fin_sent ?x" "written ?x @ ev_output ?x = written (link net l) @ ev_output (link net l)"
    using assms(1-3) by (simp_all add: Link_Shutdown_def link_upd_link)
  have r: "l < length (links net')" "data_steps ?x (link net' l)" using run_data [OF assms(4), of l] assms(1) by simp_all
  have y: "m_ShouldShutdown (link net' l)" "written (link net' l) @ ev_output (link net' l) = written ?x @ ev_output ?x"
      "fin_sent (link net' l) \<longrightarrow> ev_output (link net' l) = []"
    using data_shutting [OF r(2) x(1)] x(2) by simp_all
  have "fin_sent (link (bytes_written (length (ev_output (link net' l))) l net') l)"
    using r(1) y(1) by (simp add: bytes_written_def Let_def link_upd_link WriteCallback_def DoActualShutdown_def)
  then show ?thesis using x(3) y by (simp add: Link_Send_def)
qed

text \<open>
  Data sent after a shutdown can be lost in silence: when nothing waits, the shutdown is done at once and not
  remembered, so a later \<open>Send\<close> answers true, and its data is never written.
\<close>
theorem send_after_shutdown_lost:
  assumes "l < length (links net)" and "ev_output (link net l) = []" and "\<not> m_ShouldShutdown (link net l)"
    and "Link_Send True extra l (Link_Shutdown l net) = (ok, net1)" and "net_run net1 net'"
  shows "ok \<and> ev_output (link net1 l) = extra \<and> written (link net' l) = written (link net l)"
proof -
  have n: "ok" "ev_output (link net1 l) = extra" "\<not> ev_write (link net1 l)" "written (link net1 l) = written (link net l)"
      "l < length (links net1)"
    using assms(1-4) by (auto simp: Link_Shutdown_def DoActualShutdown_def Link_Send_def link_upd_link)
  then show ?thesis using data_closed [of "link net1 l" "link net' l"] run_data [OF assms(5) n(5)] by simp
qed

text \<open>
  \<^bold>\<open>C26.\<close> Dropping a link does not close its connection: when \<open>cClientHandle::Destroy\<close>, after a kick or a timeout, resets its
  pointer to the link of an accepted connection, the link exists on, the end is not sent, and data that arrives is still
  handed to the callbacks.
\<close>
theorem dropped_link_stays_open:
  assumes "net_run initial_network net" and "s < length (servers net)" and "l \<in> set (m_Connections (server net s))"
    and "ev_read (link net l)"
  shows "link_exists (drop_link l net) l \<and> fin_sent (link (drop_link l net) l) = fin_sent (link net l) \<and>
    net_can (EvRead input l) (drop_link l net) \<and>
    (\<exists>cs. net_calls (ReadCallback input l (drop_link l net)) = net_calls net @ map (Link_OnReceivedData l) cs \<and> concat cs = input)"
proof -
  have "server_ok net s" using net_run_inv [OF assms(1) initial_network_inv] assms(2) by (simp add: net_inv_def)
  then have l: "l < length (links net)" using assms(3) by (simp add: server_ok_def)
  have d: "link (drop_link l net) l = (link net l)\<lparr>held := False\<rparr>" "server (drop_link l net) = server net"
      "servers (drop_link l net) = servers net" "net_calls (drop_link l net) = net_calls net"
    using l by (simp_all add: drop_link_def link_upd_link) (simp add: upd_link_def)
  then have "link_exists (drop_link l net) l" using l assms(2,3) by (auto simp: link_exists_def)
  then show ?thesis using d assms(4) ReadCallback_calls [of input l "drop_link l net"] by auto
qed


section \<open>Looking up a name\<close>

text \<open>What is reported of an address.\<close>

fun address_calls :: "(sockaddr \<Rightarrow> bool) \<Rightarrow> AString \<Rightarrow> sockaddr \<Rightarrow> net_call list" where
  "address_calls wants name (AF_INET ip port) = OnNameResolvedV4 name ip # (if wants (AF_INET ip port) then [OnNameResolved name ip] else [])"
| "address_calls wants name (AF_INET6 ip port) = OnNameResolvedV6 name ip # (if wants (AF_INET6 ip port) then [OnNameResolved name ip] else [])"
| "address_calls wants name AF_OTHER = []"

lemma report_addresses:
  "fold (report_address wants name) as (b, net) =
     (b \<or> (\<exists>a \<in> set as. a \<noteq> AF_OTHER), net\<lparr>net_calls := net_calls net @ concat (map (address_calls wants name) as)\<rparr>)"
  by (induction as arbitrary: b net) (auto simp: report_address_def report_def Let_def split: sockaddr.split)

text \<open>
  A lookup reports every address of a known family in order, then its end exactly once, an error when there was no such
  address, and is forgotten.
\<close>

lemma name_lookup_answers:
  "HostnameLookup_Callback wants code as name net =
     RemoveHostnameLookup name (net\<lparr>net_calls := net_calls net @
       (if code \<noteq> 0 then [Lookup_OnError name code]
        else concat (map (address_calls wants name) as) @
          [if \<exists>a \<in> set as. a \<noteq> AF_OTHER then Lookup_OnFinished name else Lookup_OnError name DNS_ERR_NODATA])\<rparr>)"
  by (simp add: HostnameLookup_Callback_def report_addresses report_def)

section \<open>Samples\<close>

definition sample_answers :: listen_answers where
  "sample_answers = \<lparr>IPv6Socket = True, IPv4Socket = True, NeedsTwoSockets = False, step_ok = (\<lambda>_ _. True), error_of = (\<lambda>_. 0),
     error_string = (\<lambda>_. []), makes_listener = (\<lambda>_. True)\<rparr>"

definition listening :: network where
  "listening = snd (cServerHandleImpl_Listen sample_answers 6666 initial_network)"

definition sample_address :: sockaddr where
  "sample_address = AF_INET (ascii ''10.0.0.1'') 0x0a1a"

definition accepted :: network where
  "accepted = projr (Listener_Callback True sample_address sample_address 0 listening)"

lemma listening_simps:
  "servers listening = [new_cServerHandleImpl\<lparr>m_SelfPtr := True, m_ConnListener := Some MainSock, accepting := True, m_IsListening := True\<rparr>]"
  "links listening = []" "net_calls listening = []" "single_Connections listening = []"
  by (simp_all add: listening_def cServerHandleImpl_Listen_def Listen_port_def bind_main_def sample_answers_def Let_def
      initial_network_def AddServer_def)

lemma listening_run: "net_run initial_network listening"
  using net_run.step [OF net_run.stop, of "EvListen sample_answers 6666" initial_network listening] by (simp add: listening_def)

lemma accepted_eq: "Listener_Callback True sample_address sample_address 0 listening = Inr accepted"
  by (simp add: accepted_def Listener_Callback_def sample_address_def UpdateAddress_def accepted_cTCPLinkImpl_def
      UpdateLocalAddress_def UpdateRemoteAddress_def Let_def)

lemma accept_can: "net_can (EvAccept True sample_address sample_address 0) listening"
  by (simp add: listening_simps server_def sample_address_def)

lemma accepted_run: "net_run initial_network accepted"
  using net_run.step [OF listening_run accept_can, of accepted] by (simp add: accepted_eq)

lemma accepted_simps:
  "length (servers accepted) = 1" "m_Connections (server accepted 0) = [0]" "ev_read (link accepted 0)" "net_calls accepted =
     [Listen_OnIncomingConnection 0 (ascii ''10.0.0.1'') (ntohs 0x0a1a), OnLinkCreated 0, Listen_OnAccepted 0 0]"
  "fin_sent (link accepted 0) = False"
  by (simp_all add: accepted_def Listener_Callback_def sample_address_def UpdateAddress_def accepted_cTCPLinkImpl_def
      UpdateLocalAddress_def UpdateRemoteAddress_def Let_def Enable_def created_def listening_simps link_def server_def upd_link_def upd_server_def
      report_def new_cTCPLinkImpl_def new_cServerHandleImpl_def)


definition one_link :: "AString \<Rightarrow> network" where
  "one_link out = initial_network\<lparr>links := [new_cTCPLinkImpl\<lparr>m_Self := True, ev_read := True, ev_write := True, ev_output := out\<rparr>]\<rparr>"

lemma one_link_simps:
  "length (links (one_link out)) = 1" "\<not> fin_sent (link (one_link out) 0)" "ev_output (link (one_link out) 0) = out"
  "written (link (one_link out) 0) = []" "\<not> m_ShouldShutdown (link (one_link out) 0)"
  by (simp_all add: one_link_def link_def new_cTCPLinkImpl_def)

theorem shutdown_writes_all_witness:
  "ev_output (link (Link_Shutdown 0 (one_link [1, 2])) 0) = [1, 2] \<and>
   fin_sent (link (bytes_written 2 0 (Link_Shutdown 0 (one_link [1, 2]))) 0)"
proof -
  have "ev_output (link (Link_Shutdown 0 (one_link [1, 2])) 0) = [1, 2]"
    by (simp add: Link_Shutdown_def link_upd_link one_link_simps)
  then show ?thesis
    using shutdown_writes_all [OF _ _ _ net_run.stop, of 0 "one_link [1, 2]" True "[]"]
    by (simp add: one_link_simps numeral_2_eq_2)
qed

theorem send_after_shutdown_lost_witness:
  "ev_output (link (snd (Link_Send True [1, 2] 0 (Link_Shutdown 0 (one_link [])))) 0) = [1, 2] \<and>
   written (link (snd (Link_Send True [1, 2] 0 (Link_Shutdown 0 (one_link [])))) 0) = []"
  using send_after_shutdown_lost [OF _ _ _ prod.collapse [symmetric] net_run.stop, of 0 "one_link []" "[1, 2]"]
  by (simp add: one_link_simps)

theorem dropped_link_stays_open_witness:
  "link_exists (drop_link 0 accepted) 0 \<and> fin_sent (link (drop_link 0 accepted) 0) = fin_sent (link accepted 0) \<and>
    net_can (EvRead [1, 2] 0) (drop_link 0 accepted) \<and>
    (\<exists>cs. net_calls (ReadCallback [1, 2] 0 (drop_link 0 accepted)) = net_calls accepted @ map (Link_OnReceivedData 0) cs \<and> concat cs = [1, 2])"
  by (rule dropped_link_stays_open [OF accepted_run, of 0]) (simp_all add: accepted_simps)


end
