(* ===== verification/Threads.thy ===== *)
theory Threads
  imports Prelude
begin

text \<open>
  The threads and the synchronisation of \<open>Common\<close>: \<open>cEvent\<close>, \<open>cIsThread\<close>, \<open>cQueue\<close>, \<open>cWorkerThread\<close> and
  \<open>cThreadPool\<close>. What runs under a critical section is one step; the steps of the threads are interleaved
  in any order. The locale \<open>waiting_loop\<close> is the contract of a thread that sleeps on an event until another
  thread has work for it.
\<close>

section \<open>Events\<close>

text \<open>
  A \<open>cEvent\<close> is the flag \<open>m_ShouldContinue\<close>. \<open>Wait\<close> returns once the flag is set, and resets it; \<open>None\<close> says that it
  blocks. The variant with a timeout always returns, with the flag, and resets it too.
\<close>

type_synonym cEvent = bool

definition new_cEvent :: cEvent where
  "new_cEvent = False"

definition Event_Wait :: "cEvent \<Rightarrow> cEvent option" where
  "Event_Wait m_ShouldContinue = (if m_ShouldContinue then Some False else None)"

definition Event_Wait_timeout :: "cEvent \<Rightarrow> bool \<times> cEvent" where
  "Event_Wait_timeout m_ShouldContinue = (m_ShouldContinue, False)"

definition Event_Set :: "cEvent \<Rightarrow> cEvent" where
  "Event_Set m_ShouldContinue = True"

text \<open>\<open>SetAll\<close> notifies every thread that waits, but what each of them asks for is the same flag.\<close>

definition Event_SetAll :: "cEvent \<Rightarrow> cEvent" where
  "Event_SetAll m_ShouldContinue = True"

lemma Event_Wait_Some [simp]: "Event_Wait e = Some e' \<longleftrightarrow> e \<and> \<not> e'"
  by (simp add: Event_Wait_def)

lemma Event_Wait_None [simp]: "Event_Wait e = None \<longleftrightarrow> \<not> e"
  by (simp add: Event_Wait_def)

lemma Event_Set_simps [simp]: "Event_Set e" "Event_SetAll e"
  by (simp_all add: Event_Set_def Event_SetAll_def)

text \<open>The threads that wait for one event: one of them returns whenever \<open>Wait\<close> lets it.\<close>

inductive one_returns :: "nat \<times> cEvent \<Rightarrow> nat \<times> cEvent \<Rightarrow> bool" where
  "Event_Wait e = Some e' \<Longrightarrow> one_returns (Suc n, e) (n, e')"

inductive_cases one_returnsE: "one_returns s s'"

lemma SetAll_releases_one:
  assumes "one_returns\<^sup>*\<^sup>* (n, Event_SetAll e) (m, e')"
  shows "n \<le> Suc m"
proof -
  have "n \<le> fst s + (if snd s then 0 else 1)" if "one_returns\<^sup>*\<^sup>* (n, True) s" for s
    using that by (induction rule: rtranclp_induct) (auto elim!: one_returnsE split: if_splits)
  from this [of "(m, e')"] assms show ?thesis by (auto split: if_splits)
qed

section \<open>A thread that waits for work\<close>

text \<open>
  \<open>own\<close> are the steps of the thread, \<open>other\<close> those of the other threads. The thread falls asleep only when it has
  found no work, and whoever brings work to it sets the event. \<open>rank\<close> bounds what it can do on its own.
\<close>

locale waiting_loop =
  fixes inv :: "'s \<Rightarrow> bool" and own :: "'s \<Rightarrow> 's \<Rightarrow> bool" and other :: "'s \<Rightarrow> 's \<Rightarrow> bool"
    and asleep :: "'s \<Rightarrow> bool" and signalled :: "'s \<Rightarrow> bool" and work :: "'s \<Rightarrow> bool" and ended :: "'s \<Rightarrow> bool"
    and rank :: "'s \<Rightarrow> nat"
  assumes own_inv: "inv s \<Longrightarrow> own s s' \<Longrightarrow> inv s'"
    and other_inv: "inv s \<Longrightarrow> other s s' \<Longrightarrow> inv s'"
    and falls_asleep: "inv s \<Longrightarrow> own s s' \<Longrightarrow> asleep s' \<Longrightarrow> \<not> work s'"
    and not_put_to_sleep: "inv s \<Longrightarrow> other s s' \<Longrightarrow> asleep s' \<Longrightarrow> asleep s"
    and work_signals: "inv s \<Longrightarrow> other s s' \<Longrightarrow> asleep s \<Longrightarrow> work s' \<Longrightarrow> work s \<or> signalled s'"
    and signal_stays: "inv s \<Longrightarrow> other s s' \<Longrightarrow> asleep s \<Longrightarrow> signalled s \<Longrightarrow> signalled s'"
    and goes_on: "inv s \<Longrightarrow> \<not> ended s \<Longrightarrow> asleep s \<longrightarrow> signalled s \<Longrightarrow> \<exists>s'. own s s'"
    and rank_drops: "inv s \<Longrightarrow> own s s' \<Longrightarrow> rank s' < rank s"
begin

definition awake :: "'s \<Rightarrow> bool" where
  "awake s \<longleftrightarrow> inv s \<and> (asleep s \<longrightarrow> work s \<longrightarrow> signalled s)"

lemma own_awake: "awake s \<Longrightarrow> own s s' \<Longrightarrow> awake s'"
  using own_inv falls_asleep by (auto simp: awake_def)

lemma other_awake: "awake s \<Longrightarrow> other s s' \<Longrightarrow> awake s'"
  using other_inv not_put_to_sleep work_signals signal_stays unfolding awake_def by blast

lemma no_lost_wakeup:
  "(\<lambda>s s'. own s s' \<or> other s s')\<^sup>*\<^sup>* s s' \<Longrightarrow> awake s \<Longrightarrow> awake s'"
  by (induction rule: rtranclp_induct) (auto intro: own_awake other_awake)

lemma comes_to_rest:
  "awake s \<Longrightarrow> \<exists>s'. own\<^sup>*\<^sup>* s s' \<and> awake s' \<and> (ended s' \<or> asleep s' \<and> \<not> work s')"
proof (induction "rank s" arbitrary: s rule: less_induct)
  case less
  show ?case
  proof (cases "ended s \<or> asleep s \<and> \<not> signalled s")
    case True
    then show ?thesis using less.prems by (auto simp: awake_def)
  next
    case False
    then obtain t where t: "own s t" using goes_on [of s] less.prems by (auto simp: awake_def)
    have "rank t < rank s" using rank_drops t less.prems by (simp add: awake_def)
    from less.hyps [OF this own_awake [OF less.prems t]] t show ?thesis
      by (meson converse_rtranclp_into_rtranclp)
  qed
qed

end

section \<open>Threads\<close>

text \<open>
  What the standard library does when a thread object is misused, and the two ways a pool without threads ends.
\<close>

datatype thread_fault = Terminate | DivideByZero | NullPointer | BadIndex

text \<open>
  \<open>cIsThread\<close>: \<open>m_Thread\<close> is joinable from a start to the join. \<open>created\<close> says whether the system makes a thread.
  Assigning to a joinable \<open>std::thread\<close> ends the process. A thread that has started waits for \<open>m_evtStart\<close>, which
  \<open>Start\<close> sets next.
\<close>

record cIsThread =
  m_ShouldTerminate :: bool
  m_Thread_joinable :: bool
  m_evtStart :: cEvent

definition new_cIsThread :: cIsThread where
  "new_cIsThread = \<lparr>m_ShouldTerminate = False, m_Thread_joinable = False, m_evtStart = new_cEvent\<rparr>"

definition IsThread_Start :: "bool \<Rightarrow> cIsThread \<Rightarrow> thread_fault + (bool \<times> cIsThread)" where
  "IsThread_Start created t =
     (if \<not> created then Inr (False, t)
      else if m_Thread_joinable t then Inl Terminate
      else Inr (True, t\<lparr>m_Thread_joinable := True, m_evtStart := Event_Set (m_evtStart t)\<rparr>))"

text \<open>\<open>Wait\<close> blocks until the thread has ended (\<open>ended\<close>); \<open>Stop\<close> tells it to and waits.\<close>

definition IsThread_Wait :: "bool \<Rightarrow> cIsThread \<Rightarrow> (bool \<times> cIsThread) option" where
  "IsThread_Wait ended t =
     (if m_Thread_joinable t then if ended then Some (True, t\<lparr>m_Thread_joinable := False\<rparr>) else None
      else Some (True, t))"

definition IsThread_Stop_begin :: "cIsThread \<Rightarrow> cIsThread" where
  "IsThread_Stop_begin t = (if \<not> m_Thread_joinable t then t else t\<lparr>m_ShouldTerminate := True\<rparr>)"

definition IsThread_destructor_begin :: "cIsThread \<Rightarrow> cIsThread" where
  "IsThread_destructor_begin t = t\<lparr>m_ShouldTerminate := True\<rparr>"

lemma start_twice:
  assumes "IsThread_Start True new_cIsThread = Inr (ok, t)"
  shows "IsThread_Start True t = Inl Terminate"
  using assms by (auto simp: IsThread_Start_def new_cIsThread_def)

lemma start_again:
  assumes "IsThread_Start True new_cIsThread = Inr (ok, t)" and "IsThread_Wait True t = Some (joined, t')"
  shows "IsThread_Start True t' = Inr (True, t'\<lparr>m_Thread_joinable := True\<rparr>)"
  using assms by (auto simp: IsThread_Start_def IsThread_Wait_def new_cIsThread_def)

end
