(* ===== verification/ServerThreads.thy ===== *)
theory ServerThreads
  imports ServerProperties Threads
begin

text \<open>
  The threads of the server: the main thread (\<open>cRoot::Start\<close>, \<open>cServer::Shutdown\<close>), the tick thread, the thread of the
  authenticator and the callbacks of the network and the console, interleaved between their critical sections. Nobody waits
  for an event that nobody sets: every login that is asked for is decided, and a shutdown comes to its end.
\<close>

section \<open>The threads\<close>

datatype auth_at = AuthAtLock | AuthInWait | AuthDeciding cUser | AuthEnded

text \<open>
  Where the main thread stands: in its sleep loop; in \<open>m_RestartEvent.Wait()\<close> of \<open>Shutdown\<close>; back from it; in
  \<open>cAuthenticator::Stop\<close> past \<open>m_ShouldTerminate = true\<close>, and joining; in \<open>delete m_Server\<close>, which joins the tick
  thread; past it.
\<close>

datatype main_at = Serving | ShuttingDown | ShutDown | StoppingAuth | JoiningAuth | DeletingServer | Stopped

record process =
  shared :: world
  auth_QueueNonempty :: cEvent
  auth_ShouldTerminate :: bool
  auth_at :: auth_at
  m_RestartEvent :: cEvent
  tick_ShouldTerminate :: bool
  tick_ended :: bool
  main_at :: main_at


text \<open>
  \<open>cAuthenticator::Authenticate\<close> sets \<open>m_QueueNonempty\<close> in the critical section in which it appends to the queue; it is the
  only operation of the other threads that changes the queue.
\<close>

definition with_world :: "world \<Rightarrow> process \<Rightarrow> process" where
  "with_world w p =
     p\<lparr>shared := w,
       auth_QueueNonempty :=
         (if m_Queue w = m_Queue (shared p) then auth_QueueNonempty p else Event_Set (auth_QueueNonempty p))\<rparr>"

text \<open>The next step of \<open>cAuthenticator::Execute\<close>; \<open>None\<close>: it is blocked or has ended.\<close>

definition Authenticator_Execute :: "process \<Rightarrow> (fault + process) option" where
  "Authenticator_Execute p =
     (case auth_at p of
        AuthAtLock \<Rightarrow>
          Some (Inr (case m_Queue (shared p) of
             [] \<Rightarrow> if \<not> auth_ShouldTerminate p then p\<lparr>auth_at := AuthInWait\<rparr> else p\<lparr>auth_at := AuthEnded\<rparr>
           | User # rest \<Rightarrow>
               if auth_ShouldTerminate p then p\<lparr>auth_at := AuthEnded\<rparr>
               else p\<lparr>shared := (shared p)\<lparr>m_Queue := rest\<rparr>, auth_at := AuthDeciding User\<rparr>))
      | AuthInWait \<Rightarrow>
          map_option (\<lambda>e. Inr (p\<lparr>auth_QueueNonempty := e, auth_at := AuthAtLock\<rparr>)) (Event_Wait (auth_QueueNonempty p))
      | AuthDeciding User \<Rightarrow>
          Some (and_then (Authenticator_decide User (shared p)) (\<lambda>w. Inr (p\<lparr>shared := w, auth_at := AuthAtLock\<rparr>)))
      | AuthEnded \<Rightarrow> None)"

text \<open>A round of \<open>cTickThread::Execute\<close>; \<open>Tick\<close> itself sets \<open>m_RestartEvent\<close> when it is to be the last one.\<close>

definition Tick_Execute :: "process \<Rightarrow> (fault + process) option" where
  "Tick_Execute p =
     (if tick_ended p then None
      else if tick_ShouldTerminate p then Some (Inr (p\<lparr>tick_ended := True\<rparr>))
      else Some (and_then (Server_Tick (shared p)) (\<lambda>(go_on, w).
        Inr ((with_world w p)\<lparr>
          m_RestartEvent := (if go_on then m_RestartEvent p else Event_Set (m_RestartEvent p)),
          tick_ShouldTerminate := \<not> go_on\<rparr>))))"

text \<open>The main thread; \<open>m_TerminateEventRaised\<close> is set by a signal.\<close>

definition Main_Execute :: "bool \<Rightarrow> process \<Rightarrow> (fault + process) option" where
  "Main_Execute m_TerminateEventRaised p =
     (case main_at p of
        Serving \<Rightarrow>
          (if m_ShouldStop (shared p) \<or> m_bRestart (shared p) \<or> m_TerminateEventRaised then
             Some (Inr (p\<lparr>shared := Server_Shutdown_begin
                 (if m_TerminateEventRaised then (shared p)\<lparr>m_ShouldStop := True\<rparr> else shared p),
               main_at := ShuttingDown\<rparr>))
           else None)
      | ShuttingDown \<Rightarrow>
          map_option (\<lambda>e. and_then (Server_Shutdown_end (shared p)) (\<lambda>w.
            Inr ((with_world w p)\<lparr>m_RestartEvent := e, main_at := ShutDown\<rparr>))) (Event_Wait (m_RestartEvent p))
      | ShutDown \<Rightarrow> Some (Inr (p\<lparr>auth_ShouldTerminate := True, main_at := StoppingAuth\<rparr>))
      | StoppingAuth \<Rightarrow>
          Some (Inr (p\<lparr>auth_QueueNonempty := Event_Set (auth_QueueNonempty p), main_at := JoiningAuth\<rparr>))
      | JoiningAuth \<Rightarrow>
          (if auth_at p = AuthEnded then Some (Inr (p\<lparr>tick_ShouldTerminate := True, main_at := DeletingServer\<rparr>)) else None)
      | DeletingServer \<Rightarrow> (if tick_ended p then Some (Inr (p\<lparr>main_at := Stopped\<rparr>)) else None)
      | Stopped \<Rightarrow> None)"

text \<open>
  What comes from outside: the callbacks of the network, lines of the console and the passing of time. As for the single
  events, an identifier has at most three bytes.
\<close>

fun from_outside :: "event \<Rightarrow> bool" where
  "from_outside TickEvent = False"
| "from_outside AuthEvent = False"
| "from_outside ShutdownBegin = False"
| "from_outside ShutdownEnd = False"
| "from_outside _ = True"

definition can_happen :: "event \<Rightarrow> process \<Rightarrow> bool" where
  "can_happen e p \<longleftrightarrow> from_outside e \<and> enabled e (shared p) \<and> length (objects (shared p)) + accepts e < 2097152"

text \<open>The steps that return, by who takes them.\<close>

inductive auth_step :: "process \<Rightarrow> process \<Rightarrow> bool" where
  "Authenticator_Execute p = Some (Inr p') \<Longrightarrow> auth_step p p'"

inductive server_step :: "process \<Rightarrow> process \<Rightarrow> bool" where
  tick: "Tick_Execute p = Some (Inr p') \<Longrightarrow> server_step p p'"
| main: "Main_Execute raised p = Some (Inr p') \<Longrightarrow> server_step p p'"

inductive other_step :: "process \<Rightarrow> process \<Rightarrow> bool" where
  server: "server_step p p' \<Longrightarrow> other_step p p'"
| outside: "can_happen e p \<Longrightarrow> server_event e (shared p) = Inr w \<Longrightarrow> other_step p (with_world w p)"

inductive_cases auth_stepE: "auth_step p p'"
inductive_cases server_stepE: "server_step p p'"
inductive_cases other_stepE: "other_step p p'"


section \<open>What every run keeps\<close>

text \<open>The mark of the shutdown goes from the main thread to the tick thread, and comes back as the event.\<close>

fun shutdown_ok :: "main_at \<Rightarrow> bool \<Rightarrow> bool \<Rightarrow> cEvent \<Rightarrow> bool" where
  "shutdown_ok Serving restarting ended e \<longleftrightarrow> \<not> restarting \<and> \<not> ended \<and> \<not> e"
| "shutdown_ok ShuttingDown restarting ended e \<longleftrightarrow> restarting \<and> \<not> ended \<and> \<not> e \<or> \<not> restarting \<and> ended \<and> e"
| "shutdown_ok _ restarting ended e \<longleftrightarrow> \<not> restarting \<and> ended"

definition process_inv :: "process \<Rightarrow> bool" where
  "process_inv p \<longleftrightarrow>
     server_inv (shared p) \<and> length (objects (shared p)) < 2097152 \<and>
     (case auth_at p of AuthDeciding u \<Rightarrow> user_ok u | _ \<Rightarrow> True) \<and>
     shutdown_ok (main_at p) (m_bRestarting (shared p)) (tick_ShouldTerminate p) (m_RestartEvent p) \<and>
     (tick_ended p \<longrightarrow> tick_ShouldTerminate p) \<and>
     (auth_ShouldTerminate p \<longleftrightarrow> main_at p \<in> {StoppingAuth, JoiningAuth, DeletingServer, Stopped}) \<and>
     (auth_at p = AuthEnded \<longrightarrow> auth_ShouldTerminate p) \<and>
     (main_at p \<in> {DeletingServer, Stopped} \<longrightarrow> auth_at p = AuthEnded) \<and> (main_at p = Stopped \<longrightarrow> tick_ended p)"


lemma ConsoleCommand_restarting [simp]: "m_bRestarting (Root_ExecuteConsoleCommand cmd w) = m_bRestarting w"
  by (simp add: Root_ExecuteConsoleCommand_def Server_ExecuteConsoleCommand_def Let_def)

lemma console_restarting [simp]:
  "m_bRestarting (Root_InputLine line w) = m_bRestarting w"
  "m_bRestarting (Root_QueueExecuteConsoleCommand cmd w) = m_bRestarting w"
  by (simp_all add: Root_InputLine_def Root_QueueExecuteConsoleCommand_def Let_def)

lemma TickCommands_restarting: "m_bRestarting (Root_TickCommands w) = m_bRestarting w"
proof -
  have "m_bRestarting (foldl (\<lambda>w cmd. Root_ExecuteConsoleCommand cmd w) w cmds) = m_bRestarting w" for cmds w
    by (induction cmds arbitrary: w) simp_all
  then show ?thesis by (simp add: Root_TickCommands_def)
qed

lemma Tick_keeps:
  assumes "server_inv w" and "length (objects w) < 2097152"
  shows "case Server_Tick w of Inl e \<Rightarrow> e = ShiftTooFar
    | Inr (go_on, w') \<Rightarrow> server_inv w' \<and> length (objects w') = length (objects w) \<and>
        go_on = (\<not> m_bRestarting w) \<and> \<not> m_bRestarting w'"
proof -
  let ?w = "Root_TickCommands (w\<lparr>m_PlayerCount := m_PlayerCount w + m_PlayerCountDiff w, m_PlayerCountDiff := 0\<rparr>)"
  have b: "m_bRestarting ?w = m_bRestarting w" by (simp add: TickCommands_restarting)
  have "well ?w (Server_TickClients ?w)" using assms by (intro Server_TickClients_well) simp_all
  then show ?thesis
    using b by (cases "Server_TickClients ?w") (auto simp: Server_Tick_def Let_def well_def stays_def)
qed

lemma outside_keeps:
  assumes "server_inv w" and "enabled e w" and "from_outside e" and "server_event e w = Inr w'"
  shows "m_bRestarting w' = m_bRestarting w"
proof -
  have destroy: "m_bRestarting w' = m_bRestarting w"
    if "c < length (objects w)" "ClientHandle_Destroy c (upd_client c (\<lambda>x. x\<lparr>m_Link := False\<rparr>) w) = Inr w'" for c
  proof -
    have "server_inv (upd_client c (\<lambda>x. x\<lparr>m_Link := False\<rparr>) w)"
      using server_invD(6) [OF assms(1) that(1)] by (intro upd_well(1) assms(1) that(1)) (simp_all add: handle_ok_def)
    from Destroy_fine [OF this, of c] that show ?thesis by (auto simp: fine_def fine_to_def)
  qed
  show ?thesis
  proof (cases e)
    case (Accept ip)
    then show ?thesis
      using assms(4) by (auto simp: Server_OnConnectionAccepted_def Let_def and_then_Inr_iff split: if_splits)
  qed (use assms destroy in \<open>auto simp: enabled_def ClientHandle_OnLinkCreated_def ClientHandle_OnReceivedData_def
      ClientHandle_OnRemoteClosed_def ClientHandle_OnError_def ClientHandle_SocketClosed_def\<close>)
qed

lemma auth_inv:
  assumes "process_inv p" and "auth_step p p'"
  shows "process_inv p'"
  using assms(2)
proof (rule auth_stepE)
  assume s: "Authenticator_Execute p = Some (Inr p')"
  show ?thesis
  proof (cases "auth_at p")
    case AuthAtLock
    then show ?thesis
      using s assms(1) pop_inv [of "shared p"]
      by (auto simp: Authenticator_Execute_def process_inv_def split: list.splits if_splits)
  next
    case (AuthDeciding u)
    then obtain w where "Authenticator_decide u (shared p) = Inr w" "fine_to (shared p) w"
      using Authenticator_decide_fine [of "shared p" u] assms(1) by (auto simp: process_inv_def fine_def)
    then show ?thesis
      using AuthDeciding s assms(1) by (auto simp: Authenticator_Execute_def process_inv_def fine_to_def)
  qed (use s assms(1) in \<open>auto simp: Authenticator_Execute_def process_inv_def\<close>)
qed

lemma with_world_fields [simp]:
  "shared (with_world w p) = w" "auth_ShouldTerminate (with_world w p) = auth_ShouldTerminate p"
  "auth_at (with_world w p) = auth_at p" "m_RestartEvent (with_world w p) = m_RestartEvent p"
  "tick_ShouldTerminate (with_world w p) = tick_ShouldTerminate p" "tick_ended (with_world w p) = tick_ended p"
  "main_at (with_world w p) = main_at p"
  by (simp_all add: with_world_def)

lemma server_step_inv:
  assumes i: "process_inv p" and "server_step p p'"
  shows "process_inv p'"
  using assms(2)
proof (rule server_stepE)
  assume s: "Tick_Execute p = Some (Inr p')"
  show ?thesis
  proof (cases "tick_ShouldTerminate p")
    case True
    then show ?thesis using s i by (auto simp: Tick_Execute_def process_inv_def split: if_splits)
  next
    case False
    then obtain go_on w where w: "Server_Tick (shared p) = Inr (go_on, w)"
      and p': "p' = (with_world w p)\<lparr>m_RestartEvent := (if go_on then m_RestartEvent p else True), tick_ShouldTerminate := \<not> go_on\<rparr>"
      using s by (auto simp: Tick_Execute_def and_then_Inr_iff split: if_splits)
    have k: "server_inv w" "length (objects w) = length (objects (shared p))" "go_on = (\<not> m_bRestarting (shared p))"
      "\<not> m_bRestarting w"
      using Tick_keeps [of "shared p"] i w by (auto simp: process_inv_def)
    show ?thesis using k i False unfolding p' process_inv_def by (cases "main_at p") auto
  qed
next
  fix raised assume s: "Main_Execute raised p = Some (Inr p')"
  show ?thesis
  proof (cases "main_at p")
    case Serving
    then show ?thesis
      using s i by (auto simp: Main_Execute_def process_inv_def Server_Shutdown_begin_def split: if_splits)
  next
    case ShuttingDown
    then obtain w where "Server_Shutdown_end (shared p) = Inr w" "fine_to (shared p) w"
      using Shutdown_end_fine [of "shared p"] i by (auto simp: process_inv_def fine_def)
    then show ?thesis using ShuttingDown s i by (auto simp: Main_Execute_def process_inv_def fine_to_def)
  qed (use s i in \<open>auto simp: Main_Execute_def process_inv_def split: if_splits\<close>)
qed

lemma other_inv:
  assumes i: "process_inv p" and "other_step p p'"
  shows "process_inv p'"
  using assms(2)
proof (rule other_stepE)
  fix e w assume p': "p' = with_world w p" and e: "can_happen e p" "server_event e (shared p) = Inr w"
  have "server_inv w \<and> length (objects w) = length (objects (shared p)) + accepts e"
    using server_event_fine [of "shared p" e] i e by (simp add: process_inv_def can_happen_def)
  then show ?thesis
    using outside_keeps [of "shared p" e w] i e by (auto simp: p' process_inv_def can_happen_def)
qed (use server_step_inv i in blast)

section \<open>The authenticator is never left asleep\<close>

definition auth_work :: "process \<Rightarrow> bool" where
  "auth_work p \<longleftrightarrow> m_Queue (shared p) \<noteq> [] \<or> main_at p = JoiningAuth"

definition auth_rank :: "process \<Rightarrow> nat" where
  "auth_rank p = 3 * length (m_Queue (shared p)) + (if auth_QueueNonempty p then 3 else 0) +
     (case auth_at p of AuthAtLock \<Rightarrow> 2 | AuthDeciding u \<Rightarrow> 3 | AuthInWait \<Rightarrow> 1 | AuthEnded \<Rightarrow> 0)"

lemma auth_steps:
  assumes "process_inv p" and "auth_step p p'"
  obtains (sleeps) "auth_at p = AuthAtLock" and "m_Queue (shared p) = []" and "\<not> auth_ShouldTerminate p"
      and "p' = p\<lparr>auth_at := AuthInWait\<rparr>"
    | (ends) "auth_at p = AuthAtLock" and "auth_ShouldTerminate p" and "p' = p\<lparr>auth_at := AuthEnded\<rparr>"
    | (pops) u rest where "auth_at p = AuthAtLock" and "m_Queue (shared p) = u # rest"
      and "p' = p\<lparr>shared := (shared p)\<lparr>m_Queue := rest\<rparr>, auth_at := AuthDeciding u\<rparr>"
    | (wakes) "auth_at p = AuthInWait" and "auth_QueueNonempty p"
      and "p' = p\<lparr>auth_QueueNonempty := False, auth_at := AuthAtLock\<rparr>"
    | (decides) u w where "auth_at p = AuthDeciding u" and "Authenticator_decide u (shared p) = Inr w"
      and "fine_to (shared p) w" and "p' = p\<lparr>shared := w, auth_at := AuthAtLock\<rparr>"
  using assms(2)
proof (rule auth_stepE)
  assume s: "Authenticator_Execute p = Some (Inr p')"
  show thesis
  proof (cases "auth_at p")
    case (AuthDeciding u)
    then obtain w where "Authenticator_decide u (shared p) = Inr w" "fine_to (shared p) w"
      using Authenticator_decide_fine [of "shared p" u] assms(1) by (auto simp: process_inv_def fine_def)
    then show thesis using decides AuthDeciding s by (auto simp: Authenticator_Execute_def)
  qed (use s sleeps ends pops wakes in \<open>auto simp: Authenticator_Execute_def split: list.splits if_splits\<close>)
qed

lemma auth_runs:
  assumes "process_inv p" and "auth_at p \<noteq> AuthEnded" and "auth_at p = AuthInWait \<longrightarrow> auth_QueueNonempty p"
  shows "\<exists>p'. auth_step p p'"
proof (cases "auth_at p")
  case (AuthDeciding u)
  then obtain w where "Authenticator_decide u (shared p) = Inr w"
    using Authenticator_decide_fine [of "shared p" u] assms(1) by (auto simp: process_inv_def fine_def)
  with AuthDeciding have "Authenticator_Execute p = Some (Inr (p\<lparr>shared := w, auth_at := AuthAtLock\<rparr>))"
    by (simp add: Authenticator_Execute_def)
  then show ?thesis by (blast intro: auth_step.intros)
qed (use assms(2,3) in \<open>auto simp: Authenticator_Execute_def Event_Wait_def auth_step.simps split: list.split\<close>)

lemma with_world_signal:
  "auth_QueueNonempty p \<Longrightarrow> auth_QueueNonempty (with_world w p)"
  "m_Queue w \<noteq> m_Queue (shared p) \<Longrightarrow> auth_QueueNonempty (with_world w p)"
  by (simp_all add: with_world_def)

text \<open>What the other threads do to the authenticator.\<close>

lemma other_auth:
  assumes "other_step p p'"
  shows "auth_at p' = auth_at p" and "auth_QueueNonempty p \<Longrightarrow> auth_QueueNonempty p'"
    and "auth_work p' \<Longrightarrow> auth_work p \<or> auth_QueueNonempty p'"
proof -
  have "auth_at p' = auth_at p \<and> (auth_QueueNonempty p \<longrightarrow> auth_QueueNonempty p') \<and>
    (auth_work p' \<longrightarrow> auth_work p \<or> auth_QueueNonempty p')"
    using assms
    by (auto elim!: other_stepE server_stepE simp: Tick_Execute_def Main_Execute_def and_then_Inr_iff auth_work_def
        Server_Shutdown_begin_def with_world_signal with_world_def split: if_splits main_at.splits)
  then show "auth_at p' = auth_at p" "auth_QueueNonempty p \<Longrightarrow> auth_QueueNonempty p'"
    "auth_work p' \<Longrightarrow> auth_work p \<or> auth_QueueNonempty p'" by simp_all
qed

lemma auth_asleep:
  assumes "process_inv p" and "auth_step p p'" and "auth_at p' = AuthInWait"
  shows "\<not> auth_work p'"
  using assms(1,2)
proof (cases rule: auth_steps)
  case sleeps
  then show ?thesis using assms(1) by (auto simp: auth_work_def process_inv_def)
qed (use assms(3) in simp_all)

lemma auth_rank_drops:
  assumes "process_inv p" and "auth_step p p'"
  shows "auth_rank p' < auth_rank p"
  using assms by (cases rule: auth_steps) (simp_all add: auth_rank_def fine_to_def)

interpretation auth: waiting_loop process_inv auth_step other_step "\<lambda>p. auth_at p = AuthInWait" auth_QueueNonempty
  auth_work "\<lambda>p. auth_at p = AuthEnded" auth_rank
proof (unfold_locales, goal_cases)
  case 1
  then show ?case by (rule auth_inv)
next
  case 2
  then show ?case by (rule other_inv)
next
  case 3
  then show ?case by (rule auth_asleep)
next
  case 4
  then show ?case by (simp add: other_auth(1))
next
  case 5
  then show ?case using other_auth(3) by blast
next
  case 6
  then show ?case using other_auth(2) by blast
next
  case 7
  then show ?case by (intro auth_runs)
next
  case 8
  then show ?case by (rule auth_rank_drops)
qed


section \<open>Every login is decided\<close>







section \<open>A shutdown ends\<close>








lemma auth_steps_awake: "auth_step\<^sup>*\<^sup>* p p' \<Longrightarrow> auth.awake p \<Longrightarrow> auth.awake p'"
  by (induction rule: rtranclp_induct) (auto intro: auth.own_awake)










end
