(* ===== verification/ThreadPool.thy ===== *)
theory ThreadPool
  imports Threads
begin

text \<open>
  \<open>Common/ThreadPool.cpp\<close>: the worker thread, as the steps between its critical sections, and the pool that hands
  tasks to workers at random. What a task does is not of interest here; \<open>m_done\<close> lists the tasks that were run,
  in order.
\<close>

section \<open>cWorkerThread\<close>

text \<open>
  Where \<open>Execute\<close> stands: before its critical section, in \<open>m_QueueNonempty.Wait()\<close>, in \<open>run\<close>, or past its
  end; and where the destructor stands: not called, past \<open>m_ShouldTerminate = true\<close>, or past \<open>Set\<close>, joining.
\<close>

datatype 't worker_at = NotStarted | AtLock | InWait | InRun 't | Finished

datatype destructor_at = Alive | Terminating | Joining

record 't cWorkerThread =
  m_task_cnt :: u32
  m_thread_idx :: u32
  m_QueueNonempty :: cEvent
  m_worker_Queue :: "'t list"
  m_worker_ShouldTerminate :: bool
  worker_at :: "'t worker_at"
  destructor_at :: destructor_at
  m_done :: "'t list"

definition new_cWorkerThread :: "'t cWorkerThread" where
  "new_cWorkerThread =
     \<lparr>m_task_cnt = 0, m_thread_idx = 0, m_QueueNonempty = new_cEvent, m_worker_Queue = [],
      m_worker_ShouldTerminate = False, worker_at = NotStarted, destructor_at = Alive, m_done = []\<rparr>"

definition SetThreadIdx :: "u32 \<Rightarrow> 't cWorkerThread \<Rightarrow> 't cWorkerThread" where
  "SetThreadIdx idx x = x\<lparr>m_thread_idx := idx\<rparr>"

text \<open>\<open>Start\<close>; nothing looks at its result.\<close>

definition Worker_Start :: "bool \<Rightarrow> 't cWorkerThread \<Rightarrow> 't cWorkerThread" where
  "Worker_Start created x = (if created then x\<lparr>worker_at := AtLock\<rparr> else x)"

definition PushTask :: "'t \<Rightarrow> 't cWorkerThread \<Rightarrow> 't cWorkerThread" where
  "PushTask pTask x =
     x\<lparr>m_worker_Queue := m_worker_Queue x @ [pTask], m_QueueNonempty := Event_Set (m_QueueNonempty x)\<rparr>"

text \<open>The next step of \<open>Execute\<close>; \<open>None\<close> when it is blocked or has ended.\<close>

definition Worker_Execute :: "'t cWorkerThread \<Rightarrow> 't cWorkerThread option" where
  "Worker_Execute x =
     (case worker_at x of
        NotStarted \<Rightarrow> None
      | AtLock \<Rightarrow>
          (if \<not> m_worker_ShouldTerminate x \<and> m_worker_Queue x = [] then Some (x\<lparr>worker_at := InWait\<rparr>)
           else if m_worker_ShouldTerminate x then Some (x\<lparr>worker_at := Finished\<rparr>)
           else Some (x\<lparr>m_worker_Queue := tl (m_worker_Queue x), worker_at := InRun (hd (m_worker_Queue x))\<rparr>))
      | InWait \<Rightarrow> map_option (\<lambda>e. x\<lparr>m_QueueNonempty := e, worker_at := AtLock\<rparr>) (Event_Wait (m_QueueNonempty x))
      | InRun tast \<Rightarrow>
          Some (x\<lparr>m_done := m_done x @ [tast], m_task_cnt := m_task_cnt x + 1, worker_at := AtLock\<rparr>)
      | Finished \<Rightarrow> None)"

text \<open>The destructor, up to the join, and what the join waits for.\<close>

definition Worker_destructor_terminate :: "'t cWorkerThread \<Rightarrow> 't cWorkerThread" where
  "Worker_destructor_terminate x = x\<lparr>m_worker_ShouldTerminate := True, destructor_at := Terminating\<rparr>"

definition Worker_destructor_set :: "'t cWorkerThread \<Rightarrow> 't cWorkerThread" where
  "Worker_destructor_set x = x\<lparr>m_QueueNonempty := Event_Set (m_QueueNonempty x), destructor_at := Joining\<rparr>"

definition Worker_joins :: "'t cWorkerThread \<Rightarrow> bool" where
  "Worker_joins x \<longleftrightarrow> destructor_at x = Joining \<and> worker_at x \<in> {NotStarted, Finished}"

text \<open>\<open>cIsThread::Stop\<close>, which a worker inherits, up to the join: it does not set the event of the worker.\<close>

definition Worker_Stop :: "'t cWorkerThread \<Rightarrow> 't cWorkerThread" where
  "Worker_Stop x = (if worker_at x = NotStarted then x else x\<lparr>m_worker_ShouldTerminate := True\<rparr>)"

text \<open>The steps of the other threads.\<close>

inductive worker_other :: "'t cWorkerThread \<Rightarrow> 't cWorkerThread \<Rightarrow> bool" where
  push: "worker_other x (PushTask t x)"
| start: "worker_at x = NotStarted \<Longrightarrow> worker_other x (Worker_Start created x)"
| terminate: "destructor_at x = Alive \<Longrightarrow> worker_other x (Worker_destructor_terminate x)"
| set: "destructor_at x = Terminating \<Longrightarrow> worker_other x (Worker_destructor_set x)"

inductive_cases worker_otherE: "worker_other x y"

abbreviation worker_own :: "'t cWorkerThread \<Rightarrow> 't cWorkerThread \<Rightarrow> bool" where
  "worker_own x y \<equiv> Worker_Execute x = Some y"

definition worker_step :: "'t cWorkerThread \<Rightarrow> 't cWorkerThread \<Rightarrow> bool" where
  "worker_step = (\<lambda>x y. worker_own x y \<or> worker_other x y)"

section \<open>The worker is never left asleep\<close>

definition worker_inv :: "'t cWorkerThread \<Rightarrow> bool" where
  "worker_inv x \<longleftrightarrow> (m_worker_ShouldTerminate x \<longleftrightarrow> destructor_at x \<noteq> Alive) \<and>
     (worker_at x = Finished \<longrightarrow> m_worker_ShouldTerminate x)"

definition worker_work :: "'t cWorkerThread \<Rightarrow> bool" where
  "worker_work x \<longleftrightarrow> m_worker_Queue x \<noteq> [] \<or> destructor_at x = Joining"

definition worker_ended :: "'t cWorkerThread \<Rightarrow> bool" where
  "worker_ended x \<longleftrightarrow> worker_at x = NotStarted \<or> worker_at x = Finished"

definition worker_rank :: "'t cWorkerThread \<Rightarrow> nat" where
  "worker_rank x = 3 * length (m_worker_Queue x) + (if m_QueueNonempty x then 3 else 0) +
     (case worker_at x of AtLock \<Rightarrow> 2 | InRun t \<Rightarrow> 3 | InWait \<Rightarrow> 1 | _ \<Rightarrow> 0)"

lemmas worker_ops = PushTask_def Worker_Start_def Worker_destructor_terminate_def Worker_destructor_set_def

interpretation worker: waiting_loop worker_inv worker_own worker_other "\<lambda>x. worker_at x = InWait" m_QueueNonempty
  worker_work worker_ended worker_rank
proof unfold_locales
  fix x y :: "'t cWorkerThread"
  assume x: "worker_inv x"
  show "worker_inv y" if "worker_own x y"
    using that x by (auto simp: Worker_Execute_def worker_inv_def split: worker_at.splits if_splits)
  show "worker_inv y" if "worker_other x y"
    using that x by (auto simp: worker_ops worker_inv_def elim!: worker_otherE split: if_splits)
  show "\<not> worker_work y" if "worker_own x y" "worker_at y = InWait"
    using that x by (auto simp: Worker_Execute_def worker_inv_def worker_work_def split: worker_at.splits if_splits)
  show "worker_at x = InWait" if "worker_other x y" "worker_at y = InWait"
    using that by (auto simp: worker_ops elim!: worker_otherE split: if_splits)
  show "worker_work x \<or> m_QueueNonempty y" if "worker_other x y" "worker_at x = InWait" "worker_work y"
    using that by (auto simp: worker_ops worker_work_def elim!: worker_otherE split: if_splits)
  show "m_QueueNonempty y" if "worker_other x y" "worker_at x = InWait" "m_QueueNonempty x"
    using that by (auto simp: worker_ops elim!: worker_otherE split: if_splits)
  show "\<exists>y. worker_own x y" if "\<not> worker_ended x" "worker_at x = InWait \<longrightarrow> m_QueueNonempty x"
    using that by (auto simp: Worker_Execute_def worker_ended_def Event_Wait_def split: worker_at.splits)
  show "worker_rank y < worker_rank x" if "worker_own x y"
    using that by (auto simp: Worker_Execute_def worker_rank_def neq_Nil_conv split: worker_at.splits if_splits)
qed


text \<open>Every task is run once, in the order of the pushes: the tasks run, the one being run and the ones that wait.\<close>

definition in_run :: "'t cWorkerThread \<Rightarrow> 't list" where
  "in_run x = (case worker_at x of InRun t \<Rightarrow> [t] | _ \<Rightarrow> [])"

definition worker_log :: "'t cWorkerThread \<Rightarrow> 't list" where
  "worker_log x = m_done x @ in_run x @ m_worker_Queue x"

lemma log_PushTask: "worker_log (PushTask t x) = worker_log x @ [t]"
  by (simp add: worker_log_def PushTask_def in_run_def)

lemma log_own:
  assumes "worker_own x y"
  shows "worker_log y = worker_log x" and "destructor_at y = destructor_at x"
    and "worker_at y = NotStarted \<longleftrightarrow> worker_at x = NotStarted"
    using assms
  by (auto simp: Worker_Execute_def worker_log_def in_run_def neq_Nil_conv split: worker_at.splits if_splits)

lemma log_owns:
  "worker_own\<^sup>*\<^sup>* x y \<Longrightarrow> worker_log y = worker_log x \<and> destructor_at y = destructor_at x \<and>
     (worker_at y = NotStarted \<longleftrightarrow> worker_at x = NotStarted)"
  by (induction rule: rtranclp_induct) (use log_own in metis)+

lemma log_other:
  assumes "worker_other x y"
  shows "worker_log y = worker_log x \<or> (\<exists>t. y = PushTask t x)"
  using assms
  by (auto simp: worker_log_def in_run_def Worker_Start_def Worker_destructor_terminate_def Worker_destructor_set_def
      elim!: worker_otherE)

lemma new_awake: "worker.awake new_cWorkerThread"
  by (simp add: worker.awake_def worker_inv_def new_cWorkerThread_def)

lemma worker_reachable_awake: "worker_step\<^sup>*\<^sup>* new_cWorkerThread x \<Longrightarrow> worker.awake x"
  unfolding worker_step_def by (rule worker.no_lost_wakeup [OF _ new_awake])

text \<open>
  A worker that was started and is not being destroyed runs all tasks it has been given: from every
  state it reaches among the other threads it comes, by its own steps alone, to rest with an empty queue, having run exactly the
  tasks that were waiting, in order.
\<close>
theorem worker_runs_all:
  assumes "worker_step\<^sup>*\<^sup>* new_cWorkerThread x" and "worker_at x \<noteq> NotStarted" and "destructor_at x = Alive"
  shows "\<exists>y. worker_own\<^sup>*\<^sup>* x y \<and> worker_at y = InWait \<and> m_worker_Queue y = [] \<and>
    m_done y = m_done x @ in_run x @ m_worker_Queue x"
proof -
  obtain y where y: "worker_own\<^sup>*\<^sup>* x y" "worker.awake y"
    "worker_ended y \<or> worker_at y = InWait \<and> \<not> worker_work y"
    using worker.comes_to_rest [OF worker_reachable_awake [OF assms(1)]] by blast
  note log = log_owns [OF y(1)]
  have "worker_at y = InWait \<and> m_worker_Queue y = []"
    using y(2,3) log assms(2,3) by (auto simp: worker.awake_def worker_inv_def worker_ended_def worker_work_def)
  with log show ?thesis by (intro exI [of _ y]) (simp add: y(1) worker_log_def in_run_def)
qed

text \<open>A worker that fell asleep and was given a task.\<close>

definition woken_worker :: "nat cWorkerThread" where
  "woken_worker = PushTask 7 (new_cWorkerThread\<lparr>worker_at := InWait\<rparr>)"

theorem worker_runs_all_witness:
  "\<exists>y. worker_own\<^sup>*\<^sup>* woken_worker y \<and> worker_at y = InWait \<and> m_worker_Queue y = [] \<and>
    m_done y = m_done woken_worker @ in_run woken_worker @ m_worker_Queue woken_worker"
proof (rule worker_runs_all)
  let ?x = "Worker_Start True (new_cWorkerThread :: nat cWorkerThread)"
  have a: "worker_other new_cWorkerThread ?x" by (rule worker_other.start) (simp add: new_cWorkerThread_def)
  have b: "worker_own ?x (new_cWorkerThread\<lparr>worker_at := InWait\<rparr>)"
    by (simp add: Worker_Execute_def Worker_Start_def new_cWorkerThread_def)
  have c: "worker_other (new_cWorkerThread\<lparr>worker_at := InWait\<rparr>) woken_worker"
    unfolding woken_worker_def by (rule worker_other.push)
  from a b c have "worker_step new_cWorkerThread ?x" "worker_step ?x (new_cWorkerThread\<lparr>worker_at := InWait\<rparr>)"
    "worker_step (new_cWorkerThread\<lparr>worker_at := InWait\<rparr>) woken_worker" by (simp_all add: worker_step_def)
  then show "worker_step\<^sup>*\<^sup>* new_cWorkerThread woken_worker" by (meson converse_rtranclp_into_rtranclp r_into_rtranclp)
qed (simp_all add: woken_worker_def PushTask_def new_cWorkerThread_def)

text \<open>The destructor of a worker always returns; the tasks that wait then are neither run nor deleted.\<close>

theorem destructor_returns:
  assumes "worker_step\<^sup>*\<^sup>* new_cWorkerThread x" and "destructor_at x = Joining"
  shows "\<exists>y. worker_own\<^sup>*\<^sup>* x y \<and> Worker_joins y \<and> m_done y @ m_worker_Queue y = worker_log x"
proof -
  obtain y where y: "worker_own\<^sup>*\<^sup>* x y" "worker_ended y \<or> worker_at y = InWait \<and> \<not> worker_work y"
    using worker.comes_to_rest [OF worker_reachable_awake [OF assms(1)]] by blast
  have "Worker_joins y"
    using y(2) log_owns [OF y(1)] assms(2) by (auto simp: Worker_joins_def worker_ended_def worker_work_def)
  with log_owns [OF y(1)] show ?thesis
    by (intro exI [of _ y]) (auto simp: y(1) Worker_joins_def worker_log_def in_run_def)
qed

text \<open>\<open>Stop\<close> on a worker that sleeps: it does not end, so the join never returns.\<close>

lemma Stop_hangs:
  assumes "worker_at x = InWait" and "\<not> m_QueueNonempty x"
  shows "Worker_Execute (Worker_Stop x) = None" and "worker_at (Worker_Stop x) \<noteq> Finished"
  using assms by (simp_all add: Worker_Stop_def Worker_Execute_def Event_Wait_def)

section \<open>cThreadPool\<close>

record 't cThreadPool =
  m_worker_size :: u32
  m_worker_list :: "'t cWorkerThread list option"

definition new_cThreadPool :: "'t cThreadPool" where
  "new_cThreadPool = \<lparr>m_worker_size = 0, m_worker_list = None\<rparr>"

text \<open>\<open>created i\<close>: the system makes a thread for worker \<open>i\<close>. Workers of an earlier \<open>Init\<close> are forgotten.\<close>

definition Pool_Init :: "(nat \<Rightarrow> bool) \<Rightarrow> u32 \<Rightarrow> 't cThreadPool \<Rightarrow> 't cThreadPool" where
  "Pool_Init created worker_size p =
     p\<lparr>m_worker_size := worker_size,
       m_worker_list := Some (map (\<lambda>i. Worker_Start (created i) (SetThreadIdx (of_nat i) new_cWorkerThread))
         [0..<unat worker_size])\<rparr>"

text \<open>\<open>r\<close> is the value of \<open>rand()\<close>.\<close>

definition AddTask :: "u32 \<Rightarrow> 't \<Rightarrow> 't cThreadPool \<Rightarrow> thread_fault + 't cThreadPool" where
  "AddTask r pTask p =
     (if m_worker_size p = 0 then Inl DivideByZero
      else case m_worker_list p of
        None \<Rightarrow> Inl NullPointer
      | Some ws \<Rightarrow>
          let thread_idx = unat (r mod m_worker_size p)
          in if thread_idx < length ws then
               Inr (p\<lparr>m_worker_list := Some (ws[thread_idx := PushTask pTask (ws ! thread_idx)])\<rparr>)
             else Inl BadIndex)"

definition Destory :: "'t cThreadPool \<Rightarrow> 't cThreadPool" where
  "Destory p = p\<lparr>m_worker_list := None\<rparr>"

definition pool_ok :: "'t cThreadPool \<Rightarrow> bool" where
  "pool_ok p \<longleftrightarrow> (case m_worker_list p of None \<Rightarrow> True | Some ws \<Rightarrow> length ws = unat (m_worker_size p))"

lemma pool_ok_ops:
  "pool_ok new_cThreadPool" "pool_ok (Pool_Init created n p)" "pool_ok (Destory p)"
  "pool_ok p \<Longrightarrow> AddTask r t p = Inr p' \<Longrightarrow> pool_ok p'"
  by (auto simp: pool_ok_def new_cThreadPool_def Pool_Init_def Destory_def AddTask_def Let_def split: option.splits if_splits)

text \<open>A task goes to exactly one worker when the pool has any; it is undefined before \<open>Init\<close> and after \<open>Destory\<close>.\<close>

theorem AddTask_gives_one:
  assumes "pool_ok p" and "m_worker_list p = Some ws" and "ws \<noteq> []"
  shows "\<exists>i < length ws. AddTask r t p = Inr (p\<lparr>m_worker_list := Some (ws[i := PushTask t (ws ! i)])\<rparr>)"
proof -
  have n: "length ws = unat (m_worker_size p)" using assms(1,2) by (simp add: pool_ok_def)
  then have "m_worker_size p \<noteq> 0" using assms(3) by auto
  moreover from this have "unat (r mod m_worker_size p) < length ws"
    unfolding n by (simp add: unat_mod unat_gt_0)
  ultimately show ?thesis using assms(2) by (auto simp: AddTask_def Let_def)
qed

lemma AddTask_undefined:
  "AddTask r t new_cThreadPool = Inl DivideByZero" "AddTask r t (Pool_Init created 0 p) = Inl DivideByZero"
  "n \<noteq> 0 \<Longrightarrow> AddTask r t (Destory (Pool_Init created n p)) = Inl NullPointer"
  by (simp_all add: AddTask_def new_cThreadPool_def Pool_Init_def Destory_def)

end
