(* ===== verification/Queue.thy ===== *)
theory Queue
  imports Threads
begin

text \<open>
  \<open>OSSupport/Queue.h\<close>: the queue shared by threads. Its operations that do not block are functions; the two that
  do are steps of the calling thread, which leaves the critical section to wait for an event and then looks again.
\<close>

section \<open>The queue and its operations\<close>

record 'a cQueue =
  m_Contents :: "'a list"
  m_evtAdded :: cEvent
  m_evtRemoved :: cEvent

definition new_cQueue :: "'a cQueue" where
  "new_cQueue = \<lparr>m_Contents = [], m_evtAdded = new_cEvent, m_evtRemoved = new_cEvent\<rparr>"

definition EnqueueItem :: "'a \<Rightarrow> 'a cQueue \<Rightarrow> 'a cQueue" where
  "EnqueueItem a_Item q = q\<lparr>m_Contents := m_Contents q @ [a_Item], m_evtAdded := Event_Set (m_evtAdded q)\<rparr>"

text \<open>\<open>combine\<close> is \<open>Funcs::Combine\<close>, which may change the item that is present; \<open>None\<close>: there is no equal item.\<close>

fun combine_present :: "('a \<Rightarrow> 'a \<Rightarrow> 'a) \<Rightarrow> 'a \<Rightarrow> 'a list \<Rightarrow> 'a list option" where
  "combine_present combine a_Item [] = None"
| "combine_present combine a_Item (y # ys) =
     (if y = a_Item then Some (combine y a_Item # ys) else map_option ((#) y) (combine_present combine a_Item ys))"

definition EnqueueItemIfNotPresent :: "('a \<Rightarrow> 'a \<Rightarrow> 'a) \<Rightarrow> 'a \<Rightarrow> 'a cQueue \<Rightarrow> 'a cQueue" where
  "EnqueueItemIfNotPresent combine a_Item q =
     (case combine_present combine a_Item (m_Contents q) of
        Some ys \<Rightarrow> q\<lparr>m_Contents := ys\<rparr>
      | None \<Rightarrow> q\<lparr>m_Contents := m_Contents q @ [a_Item], m_evtAdded := Event_Set (m_evtAdded q)\<rparr>)"

text \<open>The part that \<open>TryDequeueItem\<close> and \<open>DequeueItem\<close> share.\<close>

definition take_front :: "'a cQueue \<Rightarrow> ('a \<times> 'a cQueue) option" where
  "take_front q =
     (case m_Contents q of
        [] \<Rightarrow> None
      | item # rest \<Rightarrow> Some (item, q\<lparr>m_Contents := rest, m_evtRemoved := Event_Set (m_evtRemoved q)\<rparr>))"

definition TryDequeueItem :: "'a cQueue \<Rightarrow> 'a option \<times> 'a cQueue" where
  "TryDequeueItem q = (case take_front q of None \<Rightarrow> (None, q) | Some (item, q) \<Rightarrow> (Some item, q))"

text \<open>\<open>Funcs::Delete\<close> is called on the items of the first component.\<close>

definition Queue_Clear :: "'a cQueue \<Rightarrow> 'a list \<times> 'a cQueue" where
  "Queue_Clear q = (m_Contents q, q\<lparr>m_Contents := []\<rparr>)"

definition Queue_Size :: "'a cQueue \<Rightarrow> nat" where
  "Queue_Size q = length (m_Contents q)"

fun remove_first :: "'a \<Rightarrow> 'a list \<Rightarrow> 'a list option" where
  "remove_first a_Item [] = None"
| "remove_first a_Item (y # ys) = (if y = a_Item then Some ys else map_option ((#) y) (remove_first a_Item ys))"

definition Queue_Remove :: "'a \<Rightarrow> 'a cQueue \<Rightarrow> bool \<times> 'a cQueue" where
  "Queue_Remove a_Item q =
     (case remove_first a_Item (m_Contents q) of
        Some ys \<Rightarrow> (True, q\<lparr>m_Contents := ys, m_evtRemoved := Event_Set (m_evtRemoved q)\<rparr>)
      | None \<Rightarrow> (False, q))"

fun RemoveIf_loop :: "('a \<Rightarrow> bool) \<Rightarrow> 'a list \<Rightarrow> cEvent \<Rightarrow> 'a list \<times> cEvent" where
  "RemoveIf_loop a_Predicate [] e = ([], e)"
| "RemoveIf_loop a_Predicate (y # ys) e =
     (if a_Predicate y then RemoveIf_loop a_Predicate ys (Event_Set e)
      else let (zs, e) = RemoveIf_loop a_Predicate ys e in (y # zs, e))"

definition RemoveIf :: "('a \<Rightarrow> bool) \<Rightarrow> 'a cQueue \<Rightarrow> 'a cQueue" where
  "RemoveIf a_Predicate q =
     (let (ys, e) = RemoveIf_loop a_Predicate (m_Contents q) (m_evtRemoved q)
      in q\<lparr>m_Contents := ys, m_evtRemoved := e\<rparr>)"

lemma combine_present_None: "combine_present c x ys = None \<longleftrightarrow> x \<notin> set ys"
  by (induction ys) auto

lemma combine_present_Some: "combine_present c x ys = Some zs \<Longrightarrow> length zs = length ys \<and> ys \<noteq> []"
  by (induction ys arbitrary: zs) (auto split: if_splits)

lemma remove_first_remove1: "remove_first x ys = (if x \<in> set ys then Some (remove1 x ys) else None)"
  by (induction ys) auto

lemma RemoveIf_loop_filter:
  "RemoveIf_loop P ys e = (filter (\<lambda>y. \<not> P y) ys, e \<or> (\<exists>y \<in> set ys. P y))"
  by (induction ys arbitrary: e) auto

lemma Remove_removes:
  "Queue_Remove x q = (x \<in> set (m_Contents q),
     if x \<in> set (m_Contents q) then q\<lparr>m_Contents := remove1 x (m_Contents q), m_evtRemoved := True\<rparr> else q)"
  by (simp add: Queue_Remove_def remove_first_remove1)

lemma RemoveIf_filters: "m_Contents (RemoveIf P q) = filter (\<lambda>y. \<not> P y) (m_Contents q)"
  by (simp add: RemoveIf_def RemoveIf_loop_filter)

section \<open>Threads that use a queue\<close>

text \<open>
  Where a thread stands: outside the queue, before the critical section of \<open>DequeueItem\<close>, in its wait, back with an
  item, and the same for \<open>BlockTillEmpty\<close>.
\<close>

datatype 'a call_at = Outside | AtDequeue | InAddedWait | Dequeued 'a | AtBlock | InRemovedWait

record 'a queue_threads =
  the_queue :: "'a cQueue"
  stands_at :: "nat \<Rightarrow> 'a call_at"

abbreviation move_to :: "nat \<Rightarrow> 'a call_at \<Rightarrow> 'a cQueue \<Rightarrow> 'a queue_threads \<Rightarrow> 'a queue_threads" where
  "move_to i p q s \<equiv> s\<lparr>the_queue := q, stands_at := (stands_at s)(i := p)\<rparr>"

text \<open>The next step of a call that may block; \<open>None\<close>: the thread is blocked or not in such a call.\<close>

definition call_step :: "nat \<Rightarrow> 'a queue_threads \<Rightarrow> 'a queue_threads option" where
  "call_step i s =
     (let q = the_queue s in
      case stands_at s i of
        AtDequeue \<Rightarrow>
          (case take_front q of None \<Rightarrow> Some (move_to i InAddedWait q s) | Some (item, q) \<Rightarrow> Some (move_to i (Dequeued item) q s))
      | InAddedWait \<Rightarrow> map_option (\<lambda>e. move_to i AtDequeue (q\<lparr>m_evtAdded := e\<rparr>) s) (Event_Wait (m_evtAdded q))
      | AtBlock \<Rightarrow> Some (if m_Contents q \<noteq> [] then move_to i InRemovedWait q s else move_to i Outside q s)
      | InRemovedWait \<Rightarrow> map_option (\<lambda>e. move_to i AtBlock (q\<lparr>m_evtRemoved := e\<rparr>) s) (Event_Wait (m_evtRemoved q))
      | _ \<Rightarrow> None)"

datatype 'a queue_op = Enqueue 'a | EnqueueIfNew 'a | TryDequeue | Dequeue | BlockEmpty | ClearAll | RemoveItem 'a
  | RemoveItems "'a \<Rightarrow> bool"

text \<open>A thread outside the queue starts an operation; the ones that do not block are done at once.\<close>

fun start_op :: "('a \<Rightarrow> 'a \<Rightarrow> 'a) \<Rightarrow> nat \<Rightarrow> 'a queue_op \<Rightarrow> 'a queue_threads \<Rightarrow> 'a queue_threads" where
  "start_op c i (Enqueue x) s = move_to i Outside (EnqueueItem x (the_queue s)) s"
| "start_op c i (EnqueueIfNew x) s = move_to i Outside (EnqueueItemIfNotPresent c x (the_queue s)) s"
| "start_op c i TryDequeue s = move_to i Outside (snd (TryDequeueItem (the_queue s))) s"
| "start_op c i Dequeue s = move_to i AtDequeue (the_queue s) s"
| "start_op c i BlockEmpty s = move_to i AtBlock (the_queue s) s"
| "start_op c i ClearAll s = move_to i Outside (snd (Queue_Clear (the_queue s))) s"
| "start_op c i (RemoveItem x) s = move_to i Outside (snd (Queue_Remove x (the_queue s))) s"
| "start_op c i (RemoveItems P) s = move_to i Outside (RemoveIf P (the_queue s)) s"

text \<open>A step of thread \<open>i\<close>; \<open>may i\<close> are the operations that its program calls.\<close>

inductive queue_step :: "('a \<Rightarrow> 'a \<Rightarrow> 'a) \<Rightarrow> (nat \<Rightarrow> 'a queue_op \<Rightarrow> bool) \<Rightarrow> nat \<Rightarrow> 'a queue_threads \<Rightarrow> 'a queue_threads \<Rightarrow> bool"
  for c may i where
  call: "call_step i s = Some s' \<Longrightarrow> queue_step c may i s s'"
| start: "stands_at s i = Outside \<or> stands_at s i = Dequeued x \<Longrightarrow> may i operation \<Longrightarrow> queue_step c may i s (start_op c i operation s)"

inductive_cases queue_stepE: "queue_step c may i s s'"

definition any_step :: "('a \<Rightarrow> 'a \<Rightarrow> 'a) \<Rightarrow> (nat \<Rightarrow> 'a queue_op \<Rightarrow> bool) \<Rightarrow> 'a queue_threads \<Rightarrow> 'a queue_threads \<Rightarrow> bool" where
  "any_step c may s s' \<longleftrightarrow> (\<exists>i. queue_step c may i s s')"

definition new_threads :: "'a queue_threads" where
  "new_threads = \<lparr>the_queue = new_cQueue, stands_at = (\<lambda>i. Outside)\<rparr>"

section \<open>One consumer\<close>

text \<open>
  Thread \<open>c\<close> is the only one that calls \<open>DequeueItem\<close>: its own steps are those of that call, the others those of the
  other threads, and its own outside the call.
\<close>

definition in_dequeue :: "nat \<Rightarrow> 'a queue_threads \<Rightarrow> bool" where
  "in_dequeue i s \<longleftrightarrow> stands_at s i = AtDequeue \<or> stands_at s i = InAddedWait"

definition consumer_own :: "nat \<Rightarrow> 'a queue_threads \<Rightarrow> 'a queue_threads \<Rightarrow> bool" where
  "consumer_own c s s' \<longleftrightarrow> in_dequeue c s \<and> call_step c s = Some s'"

definition consumer_other ::
    "('a \<Rightarrow> 'a \<Rightarrow> 'a) \<Rightarrow> nat \<Rightarrow> 'a queue_threads \<Rightarrow> 'a queue_threads \<Rightarrow> bool" where
  "consumer_other combine c s s' \<longleftrightarrow>
     (\<exists>i. (i = c \<longrightarrow> \<not> in_dequeue c s) \<and> queue_step combine (\<lambda>i operation. operation = Dequeue \<longrightarrow> i = c) i s s')"

definition consumer_step ::
    "('a \<Rightarrow> 'a \<Rightarrow> 'a) \<Rightarrow> nat \<Rightarrow> 'a queue_threads \<Rightarrow> 'a queue_threads \<Rightarrow> bool" where
  "consumer_step combine c = (\<lambda>s s'. consumer_own c s s' \<or> consumer_other combine c s s')"

definition one_consumer :: "nat \<Rightarrow> 'a queue_threads \<Rightarrow> bool" where
  "one_consumer c s \<longleftrightarrow> (\<forall>i. i \<noteq> c \<longrightarrow> \<not> in_dequeue i s)"

definition dequeue_rank :: "nat \<Rightarrow> 'a queue_threads \<Rightarrow> nat" where
  "dequeue_rank c s = length (m_Contents (the_queue s)) + (if m_evtAdded (the_queue s) then 2 else 0) +
     (if stands_at s c = AtDequeue then 1 else 0)"

lemmas queue_ops = EnqueueItem_def EnqueueItemIfNotPresent_def TryDequeueItem_def take_front_def Queue_Clear_def
  Remove_removes RemoveIf_def RemoveIf_loop_filter

text \<open>What an operation that is done at once does to the events.\<close>

lemma start_op_events:
  "m_evtAdded (the_queue s) \<Longrightarrow> m_evtAdded (the_queue (start_op c i operation s))"
  "m_evtRemoved (the_queue s) \<Longrightarrow> m_evtRemoved (the_queue (start_op c i operation s))"
  by (cases operation; simp add: queue_ops split: option.split list.split)+

lemma start_op_added:
  assumes "m_Contents (the_queue (start_op c i operation s)) \<noteq> []" and "m_Contents (the_queue s) = []"
  shows "m_evtAdded (the_queue (start_op c i operation s))"
  using assms by (cases operation) (auto simp: queue_ops)

lemma start_op_removed:
  assumes "m_Contents (the_queue (start_op c i operation s)) = []" and "m_Contents (the_queue s) \<noteq> []"
    and "operation \<noteq> ClearAll"
  shows "m_evtRemoved (the_queue (start_op c i operation s))"
  using assms
  by (cases operation) (auto simp: queue_ops filter_empty_conv neq_Nil_conv dest: combine_present_Some split: option.splits list.splits if_splits)

lemma start_op_at:
  "stands_at (start_op c i operation s) j =
     (if j = i then case operation of Dequeue \<Rightarrow> AtDequeue | BlockEmpty \<Rightarrow> AtBlock | _ \<Rightarrow> Outside else stands_at s j)"
  by (cases operation) simp_all

lemmas call_step_cases = call_step_def take_front_def Let_def

lemma call_step_other:
  assumes "call_step i s = Some s'" and "\<not> in_dequeue i s"
  shows "m_evtAdded (the_queue s') = m_evtAdded (the_queue s)" and "m_Contents (the_queue s') = m_Contents (the_queue s)"
    and "\<not> in_dequeue i s'" and "j \<noteq> i \<Longrightarrow> stands_at s' j = stands_at s j"
  using assms by (auto simp: call_step_cases in_dequeue_def split: call_at.splits if_splits list.splits)

lemma consumer_otherE:
  assumes "consumer_other combine c s s'" and "one_consumer c s"
  obtains (call) i where "\<not> in_dequeue i s" and "call_step i s = Some s'"
    | (start) i operation where "\<not> in_dequeue i s" and "operation = Dequeue \<longrightarrow> i = c" and "s' = start_op combine i operation s"
proof -
  obtain i where i: "i = c \<longrightarrow> \<not> in_dequeue c s"
    "queue_step combine (\<lambda>i operation. operation = Dequeue \<longrightarrow> i = c) i s s'"
    using assms(1) by (auto simp: consumer_other_def)
  then have "\<not> in_dequeue i s" using assms(2) by (auto simp: one_consumer_def)
  with i(2) call start show thesis by (auto elim: queue_stepE)
qed

lemma consumer_ownE:
  assumes "consumer_own c s s'"
  obtains (sleeps) "stands_at s c = AtDequeue" and "m_Contents (the_queue s) = []"
      and "s' = move_to c InAddedWait (the_queue s) s"
    | (takes) x rest where "stands_at s c = AtDequeue" and "m_Contents (the_queue s) = x # rest"
      and "s' = move_to c (Dequeued x) ((the_queue s)\<lparr>m_Contents := rest, m_evtRemoved := True\<rparr>) s"
    | (wakes) "stands_at s c = InAddedWait" and "m_evtAdded (the_queue s)"
      and "s' = move_to c AtDequeue ((the_queue s)\<lparr>m_evtAdded := False\<rparr>) s"
  using assms
  by (auto simp: consumer_own_def in_dequeue_def call_step_cases split: list.splits)

lemma consumer_runs:
  "in_dequeue c s \<Longrightarrow> stands_at s c = InAddedWait \<longrightarrow> m_evtAdded (the_queue s) \<Longrightarrow> \<exists>s'. consumer_own c s s'"
  by (auto simp: consumer_own_def call_step_cases in_dequeue_def Event_Wait_def split: list.split)

lemma one_consumer_other:
  assumes "consumer_other combine c s s'" and "one_consumer c s"
  shows "one_consumer c s'"
  using assms
proof (cases rule: consumer_otherE)
  case (call i)
  have "in_dequeue j s' \<longrightarrow> in_dequeue j s" for j
    using call_step_other(3,4) [OF call(2,1)] by (cases "j = i") (simp_all add: in_dequeue_def)
  then show ?thesis using assms(2) by (auto simp: one_consumer_def)
next
  case (start i operation)
  have "in_dequeue j s' \<longrightarrow> in_dequeue j s \<or> j = c" for j
    using start(2) by (cases operation) (auto simp: start(3) in_dequeue_def)
  then show ?thesis using assms(2) by (auto simp: one_consumer_def)
qed

lemma other_not_asleep:
  assumes "consumer_other combine c s s'" and "one_consumer c s" and "stands_at s' c = InAddedWait"
  shows "stands_at s c = InAddedWait"
  using assms(1,2)
proof (cases rule: consumer_otherE)
  case (call i)
  then show ?thesis using call_step_other(3,4) [OF call(2,1)] assms(3) by (cases "c = i") (simp_all add: in_dequeue_def)
next
  case (start i operation)
  then show ?thesis using assms(3) by (cases operation) (auto split: if_splits)
qed

lemma other_added:
  assumes "consumer_other combine c s s'" and "one_consumer c s" and "m_Contents (the_queue s') \<noteq> []"
  shows "m_Contents (the_queue s) \<noteq> [] \<or> m_evtAdded (the_queue s')"
  using assms(1,2)
proof (cases rule: consumer_otherE)
  case (call i)
  then show ?thesis using call_step_other(2) [OF call(2,1)] assms(3) by simp
next
  case (start i operation)
  then show ?thesis using start_op_added assms(3) by blast
qed

lemma other_signal:
  assumes "consumer_other combine c s s'" and "one_consumer c s" and "m_evtAdded (the_queue s)"
  shows "m_evtAdded (the_queue s')"
  using assms(1,2)
proof (cases rule: consumer_otherE)
  case (call i)
  then show ?thesis using call_step_other(1) [OF call(2,1)] assms(3) by simp
next
  case (start i operation)
  then show ?thesis using start_op_events(1) assms(3) by blast
qed

lemma consumer_own_at: "consumer_own c s s' \<Longrightarrow> i \<noteq> c \<Longrightarrow> stands_at s' i = stands_at s i"
  by (erule consumer_ownE) simp_all

lemma one_consumer_own: "one_consumer c s \<Longrightarrow> consumer_own c s s' \<Longrightarrow> one_consumer c s'"
  using consumer_own_at [of c s s'] by (metis in_dequeue_def one_consumer_def)

lemma own_asleep: "consumer_own c s s' \<Longrightarrow> stands_at s' c = InAddedWait \<Longrightarrow> m_Contents (the_queue s') = []"
  by (erule consumer_ownE) simp_all

lemma dequeue_rank_own: "consumer_own c s s' \<Longrightarrow> dequeue_rank c s' < dequeue_rank c s"
  by (erule consumer_ownE) (simp_all add: dequeue_rank_def)

interpretation consumer: waiting_loop "one_consumer c" "consumer_own c" "consumer_other combine c"
  "\<lambda>s. stands_at s c = InAddedWait" "\<lambda>s. m_evtAdded (the_queue s)" "\<lambda>s. m_Contents (the_queue s) \<noteq> []"
  "\<lambda>s. \<not> in_dequeue c s" "dequeue_rank c"
  for c :: nat and combine :: "'a \<Rightarrow> 'a \<Rightarrow> 'a"
proof (unfold_locales, goal_cases)
  case 1
  then show ?case using one_consumer_own by blast
next
  case 2
  then show ?case using one_consumer_other by blast
next
  case 3
  then show ?case using own_asleep by blast
next
  case 4
  then show ?case using other_not_asleep by blast
next
  case 5
  then show ?case using other_added by blast
next
  case 6
  then show ?case using other_signal by blast
next
  case 7
  then show ?case using consumer_runs by blast
next
  case 8
  then show ?case using dequeue_rank_own by blast
qed

text \<open>
  \<^bold>\<open>C13.\<close> With one consumer no wake-up is lost: whenever there is an item, the consumer in \<open>DequeueItem\<close>, even when it
  sleeps, comes back by its own steps with the first item.
\<close>
theorem DequeueItem_returns:
  assumes "(consumer_step combine c)\<^sup>*\<^sup>* new_threads s"
    and "in_dequeue c s" and "m_Contents (the_queue s) = x # rest"
  shows "\<exists>s'. (consumer_own c)\<^sup>*\<^sup>* s s' \<and> stands_at s' c = Dequeued x \<and> m_Contents (the_queue s') = rest"
proof -
  have "consumer.awake c (new_threads :: 'a queue_threads)"
    by (simp add: consumer.awake_def one_consumer_def in_dequeue_def new_threads_def)
  from consumer.comes_to_rest [OF consumer.no_lost_wakeup [OF assms(1) [unfolded consumer_step_def] this]]
  obtain s' where s': "(consumer_own c)\<^sup>*\<^sup>* s s'"
    "\<not> in_dequeue c s' \<or> stands_at s' c = InAddedWait \<and> m_Contents (the_queue s') = []"
    by auto
  have "in_dequeue c t \<and> m_Contents (the_queue t) = x # rest \<or> stands_at t c = Dequeued x \<and> m_Contents (the_queue t) = rest"
    if "(consumer_own c)\<^sup>*\<^sup>* s t" for t
    using that assms(2,3)
    by (induction rule: rtranclp_induct) (auto simp: in_dequeue_def elim!: consumer_ownE)
  from this [OF s'(1)] s' show ?thesis by auto
qed

text \<open>Thread 0 fell asleep in \<open>DequeueItem\<close>, and thread 1 has put the item 7 into the queue.\<close>

definition woken_consumer :: "nat queue_threads" where
  "woken_consumer =
     start_op (\<lambda>x y. x) 1 (Enqueue 7) (move_to 0 InAddedWait new_cQueue (start_op (\<lambda>x y. x) 0 Dequeue new_threads))"

theorem DequeueItem_returns_witness:
  "\<exists>s'. (consumer_own 0)\<^sup>*\<^sup>* woken_consumer s' \<and> stands_at s' 0 = Dequeued 7 \<and> m_Contents (the_queue s') = []"
proof (rule DequeueItem_returns [where combine = "\<lambda>x y. x"])
  let ?s1 = "start_op (\<lambda>x y. x) 0 Dequeue (new_threads :: nat queue_threads)"
  let ?s2 = "move_to 0 InAddedWait new_cQueue ?s1"
  have a: "consumer_other (\<lambda>x y. x) 0 new_threads ?s1" unfolding consumer_other_def
    by (intro exI [of _ 0] conjI queue_step.start) (simp_all add: in_dequeue_def new_threads_def)
  have b: "consumer_own 0 ?s1 ?s2"
    by (simp add: consumer_own_def in_dequeue_def call_step_cases new_threads_def new_cQueue_def)
  have c: "consumer_other (\<lambda>x y. x) 0 ?s2 woken_consumer" unfolding consumer_other_def woken_consumer_def
    by (intro exI [of _ 1] conjI queue_step.start) (simp_all add: new_threads_def)
  from a b c have "consumer_step (\<lambda>x y. x) 0 new_threads ?s1" "consumer_step (\<lambda>x y. x) 0 ?s1 ?s2"
    "consumer_step (\<lambda>x y. x) 0 ?s2 woken_consumer" by (simp_all add: consumer_step_def)
  then show "(consumer_step (\<lambda>x y. x) 0)\<^sup>*\<^sup>* new_threads woken_consumer"
    by (meson converse_rtranclp_into_rtranclp r_into_rtranclp)
qed (simp_all add: woken_consumer_def in_dequeue_def EnqueueItem_def new_cQueue_def)

section \<open>What goes wrong\<close>

text \<open>A schedule: thread \<open>i\<close> starts an operation, or goes on with its call.\<close>

fun perform :: "('a \<Rightarrow> 'a \<Rightarrow> 'a) \<Rightarrow> (nat \<times> 'a queue_op option) list \<Rightarrow> 'a queue_threads \<Rightarrow> 'a queue_threads option" where
  "perform combine [] s = Some s"
| "perform combine ((i, Some operation) # sched) s =
     (if stands_at s i = Outside then perform combine sched (start_op combine i operation s) else None)"
| "perform combine ((i, None) # sched) s =
     (case call_step i s of None \<Rightarrow> None | Some s \<Rightarrow> perform combine sched s)"

lemma perform_reaches:
  "perform combine sched s = Some s' \<Longrightarrow> (any_step combine (\<lambda>i operation. True))\<^sup>*\<^sup>* s s'"
proof (induction combine sched s rule: perform.induct)
  case (2 combine i operation sched s)
  then have "any_step combine (\<lambda>i operation. True) s (start_op combine i operation s)"
    by (auto simp: any_step_def intro: queue_step.start split: if_splits)
  then show ?case using 2 by (auto intro: converse_rtranclp_into_rtranclp split: if_splits)
next
  case (3 combine i sched s)
  then obtain t where t: "call_step i s = Some t" by (auto split: option.splits)
  then have "any_step combine (\<lambda>i operation. True) s t" by (auto simp: any_step_def intro: queue_step.call)
  then show ?case using 3 t by (auto intro: converse_rtranclp_into_rtranclp)
qed simp

text \<open>
  \<^bold>\<open>C14.\<close> With two consumers a wake-up is lost: two items come while both sleep, the event remembers one of
  them, and the second consumer sleeps on beside the second item.
\<close>
theorem second_consumer_sleeps:
  "\<exists>s. (any_step combine (\<lambda>i operation. True))\<^sup>*\<^sup>* new_threads s \<and> stands_at s 0 = Dequeued x \<and>
     stands_at s 1 = InAddedWait \<and> m_Contents (the_queue s) = [y] \<and> call_step 1 s = None"
proof -
  let ?sched = "[(0, Some Dequeue), (0, None), (1, Some Dequeue), (1, None), (2, Some (Enqueue x)), (2, Some (Enqueue y)),
    (0, None), (0, None)]"
  obtain s where s: "perform combine ?sched new_threads = Some s" and t: "stands_at s 0 = Dequeued x"
    "stands_at s 1 = InAddedWait" "m_Contents (the_queue s) = [y]" "call_step 1 s = None"
    by (simp add: new_threads_def call_step_cases new_cQueue_def new_cEvent_def EnqueueItem_def Event_Wait_def)
  from perform_reaches [OF s] t show ?thesis by blast
qed

text \<open>\<open>Clear\<close> does not set \<open>m_evtRemoved\<close>: a thread in \<open>BlockTillEmpty\<close> sleeps on although the queue is empty.\<close>

theorem Clear_wakes_nobody:
  fixes combine :: "'a \<Rightarrow> 'a \<Rightarrow> 'a"
  shows "\<exists>s. (any_step combine (\<lambda>i operation. True))\<^sup>*\<^sup>* new_threads s \<and> stands_at s 0 = InRemovedWait \<and>
     m_Contents (the_queue s) = [] \<and> call_step 0 s = None"
proof -
  fix x :: 'a
  let ?sched = "[(1, Some (Enqueue x)), (0, Some BlockEmpty), (0, None), (1, Some ClearAll)]"
  obtain s where s: "perform combine ?sched new_threads = Some s" and t: "stands_at s 0 = InRemovedWait"
    "m_Contents (the_queue s) = []" "call_step 0 s = None"
    by (simp add: new_threads_def call_step_cases new_cQueue_def new_cEvent_def EnqueueItem_def Event_Wait_def Queue_Clear_def)
  from perform_reaches [OF s] t show ?thesis by blast
qed

end
