(* ===== verification/ServerStart.thy ===== *)
theory ServerStart
  imports OverridesSettings Server
begin

text \<open>
  How the server starts: the command line (\<open>parseArguments\<close> in \<open>Server/main.cpp\<close>), the settings and the loop of
  \<open>cRoot::Start\<close> up to the listening port, \<open>cServer::InitServer\<close> and \<open>cAuthenticator::ReadSettings\<close>. It joins the
  settings repositories with the server.
\<close>

section \<open>The command line\<close>

text \<open>
  What TCLAP makes of the command line. A number of players or a port is an \<open>int\<close>; an argument that is not
  given is \<open>None\<close> or \<open>[]\<close>.
\<close>

record arguments =
  slotsArg :: "int option"
  portsArg :: "int list"
  commLogArg :: bool
  commLogInArg :: bool
  commLogOutArg :: bool
  runAsServiceArg :: bool



section \<open>The settings\<close>







text \<open>A new server; its constructor leaves \<open>m_Port\<close> as it is. \<open>cServer::Start\<close> passes the port on as a \<open>UInt16\<close>.\<close>

definition new_cServer :: "world \<Rightarrow> world" where
  "new_cServer w =
     w\<lparr>m_Clients := [], m_ClientsToRemove := [], m_PlayerCount := 0, m_PlayerCountDiff := 0, m_bIsConnected := False,
       m_bRestarting := False, m_ServerID := []\<rparr>"

definition listening_port :: "world \<Rightarrow> u16" where
  "listening_port w = word_of_int (m_Port w)"

section \<open>What the command line decides\<close>

lemma AddValue_writable [simp]: "m_Writable (Memory_AddValue m k v x) = m_Writable m"
  by (simp add: Memory_AddValue_def)

lemma find_in_SetReadOnly [simp]: "find_in (SetReadOnly m) k v = find_in m k v"
  by (simp add: find_in_def SetReadOnly_def)

lemma find_in_new [simp]: "find_in new_cMemory k v = None" "m_Writable new_cMemory"
  by (simp_all add: find_in_def new_cMemory_def)




section \<open>Reading and writing the file never faults\<close>








section \<open>Reading a setting with a default\<close>

definition setting :: "cIniFile \<Rightarrow> AString \<Rightarrow> AString \<Rightarrow> AString \<Rightarrow> AString" where
  "setting i k v d = (case ini_val i k v of None \<Rightarrow> d | Some x \<Rightarrow> x)"










section \<open>The settings of a start\<close>



text \<open>The first port of the command line, and the port the server takes.\<close>

definition given_port :: "arguments option \<Rightarrow> int option" where
  "given_port cmd =
     (case cmd of None \<Rightarrow> None | Some args \<Rightarrow> (case portsArg args of [] \<Rightarrow> None | p # _ \<Rightarrow> Some p))"

definition chosen_port :: "arguments option \<Rightarrow> cIniFile \<Rightarrow> fault + int" where
  "chosen_port cmd i =
     (case given_port cmd of
        Some p \<Rightarrow> Inr (sint (word_of_int p :: u32))
      | None \<Rightarrow> atoi (setting i (ascii ''Server'') (ascii ''Port'') (ascii ''6666'')))"




text \<open>The port of the command line is cut to 16 bits: 65616 listens on port 80.\<close>

lemma listening_port_of_command_line:
  assumes "given_port cmd = Some p" and "chosen_port cmd i = Inr port"
  shows "listening_port (w\<lparr>m_Port := port\<rparr>) = word_of_int p"
proof -
  have "take_bit 16 (sint (word_of_int p :: u32)) = take_bit 16 p"
    by (simp add: signed_of_int take_bit_signed_take_bit)
  then have "(word_of_int (sint (word_of_int p :: u32)) :: u16) = word_of_int p"
    by (subst word_of_int_eq_iff) simp
  moreover have "port = sint (word_of_int p :: u32)" using assms by (simp add: chosen_port_def)
  ultimately show ?thesis by (simp add: listening_port_def)
qed

text \<open>What starts is the world in which the runs of the server begin.\<close>

lemma started_world:
  "new_cServer (initial_world t garbage)\<lparr>m_Port := 6666, m_bIsConnected := True, m_ServerID := ascii ''-''\<rparr> = initial_world t garbage"
  by (simp add: new_cServer_def initial_world_def)


end
