(* ===== verification/Files.thy ===== *)
theory Files
  imports StringUtils
begin

text \<open>
  Files (\<open>Common/OSSupport/File.cpp\<close>): the class \<open>cFile\<close> over the streams of the C library, the utilities on
  whole files and on file names, and the folders. The streams are those of the POSIX build, where text and binary mode are
  the same; what they write is in the file at once, since nothing else reads it in between. A stream that is open keeps
  its name.
\<close>

section \<open>The streams of the C library\<close>

text \<open>Between reading and writing, a stream must be positioned.\<close>

datatype last_use = Positioned | WasRead | WasWritten

record FILE =
  f_name :: AString
  f_pos :: nat
  f_read :: bool
  f_write :: bool
  f_append :: bool
  f_eof :: bool
  f_last :: last_use

definition new_FILE :: "AString \<Rightarrow> bool \<Rightarrow> bool \<Rightarrow> bool \<Rightarrow> FILE" where
  "new_FILE name r w a =
     \<lparr>f_name = name, f_pos = 0, f_read = r, f_write = w, f_append = a, f_eof = False, f_last = Positioned\<rparr>"

definition file_text :: "files \<Rightarrow> AString \<Rightarrow> AString" where
  "file_text fs name = (case fs name of None \<Rightarrow> [] | Some s \<Rightarrow> s)"

definition fopen :: "(AString \<Rightarrow> bool) \<Rightarrow> files \<Rightarrow> AString \<Rightarrow> string \<Rightarrow> FILE option \<times> files" where
  "fopen can_write fs name mode =
     (let plus = CHR ''+'' \<in> set mode
      in if hd mode = CHR ''r'' then
           (if fs name = None \<or> plus \<and> \<not> can_write name then (None, fs) else (Some (new_FILE name True plus False), fs))
         else if \<not> can_write name then (None, fs)
         else if hd mode = CHR ''w'' then (Some (new_FILE name plus True False), fs(name \<mapsto> []))
         else (Some (new_FILE name plus True True), fs(name \<mapsto> file_text fs name)))"

definition fread :: "nat \<Rightarrow> FILE \<Rightarrow> files \<Rightarrow> fault + AString \<times> FILE" where
  "fread n f fs =
     (if n = 0 \<or> \<not> f_read f then Inr ([], f)
      else if f_last f = WasWritten then Inl Misuse
      else let got = (if f_eof f then [] else take n (drop (f_pos f) (file_text fs (f_name f))));
               short = length got < n
           in Inr (got, f\<lparr>f_pos := f_pos f + length got, f_eof := short, f_last := if short then Positioned else WasRead\<rparr>))"

definition fwrite :: "AString \<Rightarrow> FILE \<Rightarrow> files \<Rightarrow> fault + nat \<times> FILE \<times> files" where
  "fwrite s f fs =
     (if s = [] \<or> \<not> f_write f then Inr (0, f, fs)
      else if f_last f = WasRead then Inl Misuse
      else let old = file_text fs (f_name f);
               pos = (if f_append f then length old else f_pos f);
               new = take pos (old @ replicate (pos - length old) 0) @ s @ drop (pos + length s) old
           in Inr (length s, f\<lparr>f_pos := pos + length s, f_last := WasWritten\<rparr>, fs(f_name f \<mapsto> new)))"

text \<open>\<open>fseek\<close> from the start; \<open>None\<close>: a negative position.\<close>

definition fseek :: "int \<Rightarrow> FILE \<Rightarrow> FILE option" where
  "fseek i f = (if i < 0 then None else Some (f\<lparr>f_pos := nat i, f_eof := False, f_last := Positioned\<rparr>))"

definition fseek_end :: "FILE \<Rightarrow> files \<Rightarrow> FILE" where
  "fseek_end f fs = f\<lparr>f_pos := length (file_text fs (f_name f)), f_eof := False, f_last := Positioned\<rparr>"

definition ftell :: "FILE \<Rightarrow> int" where
  "ftell f = int (f_pos f)"

section \<open>\<open>cFile\<close>\<close>

datatype eMode = fmRead | fmWrite | fmReadWrite | fmAppend

record cFile =
  m_File :: "FILE option"

definition new_cFile :: cFile where
  "new_cFile = \<lparr>m_File = None\<rparr>"

definition File_IsOpen :: "cFile \<Rightarrow> bool" where
  "File_IsOpen f \<longleftrightarrow> m_File f \<noteq> None"

definition File_Close :: "cFile \<Rightarrow> cFile" where
  "File_Close f = (if \<not> File_IsOpen f then f else f\<lparr>m_File := None\<rparr>)"

fun mode_text :: "eMode \<Rightarrow> string" where
  "mode_text fmRead = ''rb''"
| "mode_text fmWrite = ''wb''"
| "mode_text fmReadWrite = ''rb+''"
| "mode_text fmAppend = ''a+''"

definition File_Open :: "(AString \<Rightarrow> bool) \<Rightarrow> files \<Rightarrow> AString \<Rightarrow> eMode \<Rightarrow> cFile \<Rightarrow> bool \<times> cFile \<times> files" where
  "File_Open can_write fs iFileName iMode f =
     (let f = (if File_IsOpen f then File_Close f else f);
          (file, fs) = fopen can_write fs (c_str iFileName) (mode_text iMode);
          (file, fs) = (if file = None \<and> iMode = fmReadWrite then fopen can_write fs (c_str iFileName) ''wb+'' else (file, fs))
      in (file \<noteq> None, f\<lparr>m_File := file\<rparr>, fs))"

definition File_open_new :: "(AString \<Rightarrow> bool) \<Rightarrow> files \<Rightarrow> AString \<Rightarrow> eMode \<Rightarrow> cFile \<times> files" where
  "File_open_new can_write fs iFileName iMode = snd (File_Open can_write fs iFileName iMode new_cFile)"

definition File_IsEOF :: "cFile \<Rightarrow> bool" where
  "File_IsEOF f = (case m_File f of None \<Rightarrow> True | Some file \<Rightarrow> f_eof file)"

text \<open>The count that is read or written comes back as an \<open>int\<close>. The buffer is the bytes that were put into it.\<close>

definition to_int :: "nat \<Rightarrow> int" where
  "to_int n = sint (word_of_nat n :: u32)"

definition File_Read :: "nat \<Rightarrow> cFile \<Rightarrow> files \<Rightarrow> fault + int \<times> AString \<times> cFile" where
  "File_Read a_NumBytes f fs =
     (case m_File f of
        None \<Rightarrow> Inr (- 1, [], f)
      | Some file \<Rightarrow> and_then (fread a_NumBytes file fs) (\<lambda>(got, file). Inr (to_int (length got), got, f\<lparr>m_File := Some file\<rparr>)))"

definition File_Read_text :: "nat \<Rightarrow> cFile \<Rightarrow> files \<Rightarrow> fault + AString \<times> cFile" where
  "File_Read_text a_NumBytes f fs =
     (case m_File f of
        None \<Rightarrow> Inr ([], f)
      | Some file \<Rightarrow> and_then (fread a_NumBytes file fs) (\<lambda>(got, file). Inr (got, f\<lparr>m_File := Some file\<rparr>)))"

definition File_Write :: "AString \<Rightarrow> cFile \<Rightarrow> files \<Rightarrow> fault + int \<times> cFile \<times> files" where
  "File_Write a_Buffer f fs =
     (case m_File f of
        None \<Rightarrow> Inr (- 1, f, fs)
      | Some file \<Rightarrow> and_then (fwrite a_Buffer file fs) (\<lambda>(n, file, fs). Inr (to_int n, f\<lparr>m_File := Some file\<rparr>, fs)))"

definition File_Seek :: "int \<Rightarrow> cFile \<Rightarrow> int \<times> cFile" where
  "File_Seek iPosition f =
     (case m_File f of
        None \<Rightarrow> (- 1, f)
      | Some file \<Rightarrow>
          (case fseek iPosition file of
             None \<Rightarrow> (- 1, f)
           | Some file \<Rightarrow> (ftell file, f\<lparr>m_File := Some file\<rparr>)))"

definition File_Tell :: "cFile \<Rightarrow> int" where
  "File_Tell f = (case m_File f of None \<Rightarrow> - 1 | Some file \<Rightarrow> ftell file)"

definition File_GetSize :: "cFile \<Rightarrow> files \<Rightarrow> int \<times> cFile" where
  "File_GetSize f fs =
     (case m_File f of
        None \<Rightarrow> (- 1, f)
      | Some file \<Rightarrow>
          let CurPos = File_Tell f
          in if CurPos < 0 then (- 1, f)
             else let file = fseek_end file fs;
                      f = f\<lparr>m_File := Some file\<rparr>;
                      res = File_Tell f
                  in case fseek CurPos file of
                       None \<Rightarrow> (- 1, f)
                     | Some file \<Rightarrow> (res, f\<lparr>m_File := Some file\<rparr>))"

text \<open>The size is subtracted as a \<open>size_t\<close>: a text of more than \<open>2 ^ 63 - 1\<close> bytes cannot be assigned.\<close>

definition File_ReadRestOfFile :: "AString \<Rightarrow> cFile \<Rightarrow> files \<Rightarrow> fault + int \<times> AString \<times> cFile" where
  "File_ReadRestOfFile a_Contents f fs =
     (if \<not> File_IsOpen f then Inr (- 1, a_Contents, f)
      else let (TotalSize, f) = File_GetSize f fs
           in if TotalSize < 0 then Inr (- 1, a_Contents, f)
              else let Position = File_Tell f
                   in if Position < 0 then Inr (- 1, a_Contents, f)
                      else let DataSize = unat (word_of_int (TotalSize - Position) :: u64)
                           in if DataSize \<ge> 2 ^ 63 then Inl LengthError
                              else and_then (File_Read DataSize f fs) (\<lambda>(n, got, f).
                                Inr (n, got @ replicate (DataSize - length got) 0, f)))"

definition File_Printf :: "AString \<Rightarrow> cFile \<Rightarrow> files \<Rightarrow> fault + int \<times> cFile \<times> files" where
  "File_Printf buf f fs = File_Write buf f fs"

section \<open>Whole files\<close>

text \<open>A file that is read is not changed, so whether it may be written does not matter.\<close>

definition File_Exists :: "files \<Rightarrow> AString \<Rightarrow> bool" where
  "File_Exists fs a_FileName = File_IsOpen (fst (File_open_new (\<lambda>_. False) fs a_FileName fmRead))"

definition ReadWholeFile :: "files \<Rightarrow> AString \<Rightarrow> fault + AString" where
  "ReadWholeFile fs a_FileName =
     (case File_Open (\<lambda>_. False) fs a_FileName fmRead new_cFile of
        (False, f, fs) \<Rightarrow> Inr []
      | (True, f, fs) \<Rightarrow> and_then (File_ReadRestOfFile [] f fs) (\<lambda>(n, Contents, f). Inr Contents))"

definition DeleteFile :: "files \<Rightarrow> AString \<Rightarrow> bool \<times> files" where
  "DeleteFile fs a_FileName = (fs (c_str a_FileName) \<noteq> None, fs(c_str a_FileName := None))"

text \<open>The POSIX build; inserting the buffer of a stream that is not open inserts nothing.\<close>

definition File_Copy :: "(AString \<Rightarrow> bool) \<Rightarrow> files \<Rightarrow> AString \<Rightarrow> AString \<Rightarrow> bool \<times> files" where
  "File_Copy can_write fs a_SrcFileName a_DstFileName =
     (let src = fs (c_str a_SrcFileName)
      in if can_write (c_str a_DstFileName) then
           (let fs = fs(c_str a_DstFileName \<mapsto> [])
            in case src of
                 None \<Rightarrow> (True, fs)
               | Some _ \<Rightarrow> (True, fs(c_str a_DstFileName \<mapsto> file_text fs (c_str a_SrcFileName))))
         else (False, fs))"

section \<open>File names\<close>

datatype platform = MSVC | OtherWindows | Posix

definition GetPathSeparator :: "platform \<Rightarrow> AString" where
  "GetPathSeparator p = (if p = Posix then ascii ''/'' else [0x5c])"

definition GetExecutableExt :: "platform \<Rightarrow> AString" where
  "GetExecutableExt p = (if p = Posix then [] else ascii ''.exe'')"

text \<open>\<open>find_last_of\<close> of the separators of a platform.\<close>

definition LastPathSep :: "platform \<Rightarrow> AString \<Rightarrow> nat option" where
  "LastPathSep p res =
     (case p of
        MSVC \<Rightarrow> (case (find_last res 0x2f, find_last res 0x5c) of
                    (Some i, Some j) \<Rightarrow> Some (max i j)
                  | (Some i, None) \<Rightarrow> Some i
                  | (None, r) \<Rightarrow> r)
      | OtherWindows \<Rightarrow> find_last res 0x5c
      | Posix \<Rightarrow> find_last res 0x2f)"

definition ChangeFileExt :: "platform \<Rightarrow> AString \<Rightarrow> AString \<Rightarrow> AString" where
  "ChangeFileExt p a_FileName a_NewExt =
     (let res = a_FileName;
          sep = LastPathSep p res
      in if (case sep of None \<Rightarrow> False | Some i \<Rightarrow> i + 1 = length res) then res
         else case find_last res 0x2e of
                None \<Rightarrow> res @ (if a_NewExt \<noteq> [] \<and> hd a_NewExt \<noteq> 0x2e then [0x2e] else []) @ a_NewExt
              | Some DotPos \<Rightarrow>
                  if (case sep of None \<Rightarrow> False | Some i \<Rightarrow> i > DotPos)
                  then res @ (if a_NewExt \<noteq> [] \<and> hd a_NewExt \<noteq> 0x2e then [0x2e] else []) @ a_NewExt
                  else if a_NewExt \<noteq> [] \<and> hd a_NewExt \<noteq> 0x2e then take (DotPos + 1) res @ a_NewExt
                  else take DotPos res @ a_NewExt)"

section \<open>Any use of an open file\<close>

text \<open>The operations of an open file, and a sequence of them, with the bytes that were written.\<close>

datatype file_op = ReadBytes nat | ReadText nat | WriteBytes AString | PrintText AString | SeekTo int | AskSize | ReadRest

fun file_do :: "file_op \<Rightarrow> cFile \<times> files \<Rightarrow> fault + cFile \<times> files" where
  "file_do (ReadBytes n) (f, fs) = and_then (File_Read n f fs) (\<lambda>(_, _, f). Inr (f, fs))"
| "file_do (ReadText n) (f, fs) = and_then (File_Read_text n f fs) (\<lambda>(_, f). Inr (f, fs))"
| "file_do (WriteBytes s) (f, fs) = and_then (File_Write s f fs) (\<lambda>(_, f, fs). Inr (f, fs))"
| "file_do (PrintText s) (f, fs) = and_then (File_Printf s f fs) (\<lambda>(_, f, fs). Inr (f, fs))"
| "file_do (SeekTo i) (f, fs) = Inr (snd (File_Seek i f), fs)"
| "file_do AskSize (f, fs) = Inr (snd (File_GetSize f fs), fs)"
| "file_do ReadRest (f, fs) = and_then (File_ReadRestOfFile [] f fs) (\<lambda>(_, _, f). Inr (f, fs))"

fun file_run :: "file_op list \<Rightarrow> cFile \<times> files \<Rightarrow> fault + cFile \<times> files" where
  "file_run [] s = Inr s"
| "file_run (a # as) s = and_then (file_do a s) (file_run as)"

fun written :: "file_op list \<Rightarrow> AString" where
  "written [] = []"
| "written (WriteBytes s # as) = s @ written as"
| "written (PrintText s # as) = s @ written as"
| "written (_ # as) = written as"

text \<open>What every operation keeps of a stream: its name and its mode.\<close>

definition same_stream :: "FILE \<Rightarrow> FILE \<Rightarrow> bool" where
  "same_stream f g \<longleftrightarrow> f_name g = f_name f \<and> f_read g = f_read f \<and> f_write g = f_write f \<and> f_append g = f_append f"

lemma fread_keeps: "fread n st fs = Inr (got, st') \<Longrightarrow> same_stream st st'"
  by (auto simp: fread_def same_stream_def Let_def split: if_splits)

lemma fseek_keeps: "fseek i st = Some st' \<Longrightarrow> same_stream st st'"
  by (auto simp: fseek_def same_stream_def split: if_splits)

lemma same_stream_trans: "same_stream f g \<Longrightarrow> same_stream g h \<Longrightarrow> same_stream f h"
  by (simp add: same_stream_def)

text \<open>The operations that do not write.\<close>

fun reads :: "file_op \<Rightarrow> bool" where
  "reads (WriteBytes _) = False"
| "reads (PrintText _) = False"
| "reads _ = True"

lemma File_Read_keeps:
  "m_File f = Some st \<Longrightarrow> File_Read n f fs = Inr (k, got, f') \<Longrightarrow> \<exists>st'. m_File f' = Some st' \<and> same_stream st st'"
  by (auto simp: File_Read_def and_then_Inr_iff dest: fread_keeps)

lemma File_GetSize_open:
  "m_File f = Some st \<Longrightarrow>
   File_GetSize f fs = (int (length (file_text fs (f_name st))), f\<lparr>m_File := Some (st\<lparr>f_eof := False, f_last := Positioned\<rparr>)\<rparr>)"
  by (simp add: File_GetSize_def File_Tell_def ftell_def fseek_def fseek_end_def)

lemma File_Read_text_keeps:
  "m_File f = Some st \<Longrightarrow> File_Read_text n f fs = Inr (got, f') \<Longrightarrow> \<exists>st'. m_File f' = Some st' \<and> same_stream st st'"
  by (auto simp: File_Read_text_def and_then_Inr_iff dest: fread_keeps)

lemma File_Seek_keeps:
  "m_File f = Some st \<Longrightarrow> \<exists>st'. m_File (snd (File_Seek i f)) = Some st' \<and> same_stream st st'"
  by (auto simp: File_Seek_def same_stream_def fseek_def)

text \<open>Reading the rest is defined up to the end of the file.\<close>

lemma ReadRest_open:
  assumes "m_File f = Some st"
  shows "File_ReadRestOfFile c f fs =
    (let n = unat (word_of_int (int (length (file_text fs (f_name st))) - int (f_pos st)) :: u64)
     in if n \<ge> 2 ^ 63 then Inl LengthError
        else and_then (File_Read n (f\<lparr>m_File := Some (st\<lparr>f_eof := False, f_last := Positioned\<rparr>)\<rparr>) fs) (\<lambda>(k, got, f).
          Inr (k, got @ replicate (n - length got) 0, f)))"
  using assms by (simp add: File_ReadRestOfFile_def File_GetSize_open File_IsOpen_def File_Tell_def ftell_def Let_def)

lemma ReadRest_keeps:
  assumes "m_File f = Some st" and "File_ReadRestOfFile c f fs = Inr (k, got, f')"
  shows "\<exists>st'. m_File f' = Some st' \<and> same_stream st st'"
proof -
  let ?g = "f\<lparr>m_File := Some (st\<lparr>f_eof := False, f_last := Positioned\<rparr>)\<rparr>"
  obtain n k got where "File_Read n ?g fs = Inr (k, got, f')"
    using assms(2) by (auto simp: ReadRest_open [OF assms(1)] Let_def and_then_Inr_iff split: if_splits)
  then obtain st' where "m_File f' = Some st'" "same_stream (st\<lparr>f_eof := False, f_last := Positioned\<rparr>) st'"
    using File_Read_keeps [of ?g "st\<lparr>f_eof := False, f_last := Positioned\<rparr>" n fs k got f'] by auto
  then show ?thesis by (simp add: same_stream_def)
qed

lemma reading_keeps:
  assumes "m_File f = Some st" and "reads a" and "file_do a (f, fs) = Inr (f', fs')"
  shows "fs' = fs \<and> (\<exists>st'. m_File f' = Some st' \<and> same_stream st st')"
proof (cases a)
  case (ReadBytes n)
  then show ?thesis using assms(3) File_Read_keeps [OF assms(1)] by (auto simp: and_then_Inr_iff)
next
  case (ReadText n)
  then show ?thesis using assms(3) File_Read_text_keeps [OF assms(1)] by (auto simp: and_then_Inr_iff)
next
  case (SeekTo i)
  then show ?thesis using assms(3) File_Seek_keeps [OF assms(1), of i] by auto
next
  case AskSize
  then show ?thesis using assms(3) by (auto simp: File_GetSize_open [OF assms(1)] same_stream_def)
next
  case ReadRest
  then show ?thesis using assms(3) ReadRest_keeps [OF assms(1)] by (auto simp: and_then_Inr_iff)
qed (use assms(2) in simp_all)

lemma writing_appends:
  assumes "m_File f = Some st" and "f_write st" and "f_append st" and "File_Write s f fs = Inr (k, f', fs')"
  shows "file_text fs' (f_name st) = file_text fs (f_name st) @ s"
    and "\<And>name. name \<noteq> f_name st \<Longrightarrow> fs' name = fs name"
    and "\<exists>st'. m_File f' = Some st' \<and> same_stream st st'"
  using assms
  by (auto simp: File_Write_def fwrite_def and_then_Inr_iff Let_def file_text_def same_stream_def split: if_splits)

text \<open>Whatever is done with a st that is open for appending, it keeps what it held, followed by what was written.\<close>

lemma run_appends:
  assumes "m_File f = Some st" and "f_write st" and "f_append st" and "file_run as (f, fs) = Inr (f', fs')"
  shows "file_text fs' (f_name st) = file_text fs (f_name st) @ written as \<and>
    (\<forall>name. name \<noteq> f_name st \<longrightarrow> fs' name = fs name)"
  using assms
proof (induction as arbitrary: f fs st)
  case (Cons a as)
  obtain g gs where a: "file_do a (f, fs) = Inr (g, gs)" and as: "file_run as (g, gs) = Inr (f', fs')"
    using Cons.prems(4) by (auto simp: and_then_Inr_iff)
  show ?case
  proof (cases "reads a")
    case True
    obtain st' where "gs = fs" "m_File g = Some st'" "same_stream st st'"
      using reading_keeps [OF Cons.prems(1) True a] by auto
    moreover have "written (a # as) = written as" using True by (cases a) simp_all
    ultimately show ?thesis using Cons.IH [OF _ _ _ as] Cons.prems by (simp add: same_stream_def)
  next
    case False
    then obtain s k where s: "File_Write s f fs = Inr (k, g, gs)" "written (a # as) = s @ written as"
      using a by (cases a) (auto simp: File_Printf_def and_then_Inr_iff)
    note w = writing_appends [OF Cons.prems(1-3) s(1)]
    obtain st' where "m_File g = Some st'" "same_stream st st'" using w(3) by blast
    then show ?thesis using Cons.IH [OF _ _ _ as] Cons.prems s(2) w(1,2) by (simp add: same_stream_def)
  qed
qed simp

lemma File_Open_append:
  assumes "File_Open can_write fs name fmAppend f = (True, f1, fs1)"
  shows "\<exists>st. m_File f1 = Some st \<and> f_name st = c_str name \<and> f_write st \<and> f_append st"
    and "fs1 = fs(c_str name \<mapsto> file_text fs (c_str name))"
  using assms by (auto simp: File_Open_def fopen_def new_FILE_def Let_def split: if_splits)

text \<open>
  Whatever is done with a file that is open for appending - reading and seeking included - the file holds at the end what
  it held before, followed by what was written, and no other file is changed.
\<close>
theorem appending_keeps_the_file:
  assumes "File_Open can_write fs name fmAppend f = (True, f1, fs1)" and "file_run as (f1, fs1) = Inr (f2, fs2)"
  shows "file_text fs2 (c_str name) = file_text fs (c_str name) @ written as \<and> (\<forall>n. n \<noteq> c_str name \<longrightarrow> fs2 n = fs n)"
proof -
  note open_append = File_Open_append [OF assms(1)]
  obtain st where st: "m_File f1 = Some st" "f_name st = c_str name" "f_write st" "f_append st" using open_append(1) by blast
  show ?thesis
    using run_appends [OF st(1,3,4) assms(2)] st(2) by (auto simp: open_append(2) file_text_def)
qed

theorem appending_keeps_the_file_witness:
  "file_text (snd (projr (file_run [WriteBytes [4], SeekTo 0, ReadBytes 1, SeekTo 1, WriteBytes [5]]
      (snd (File_Open (\<lambda>_. True) [[1] \<mapsto> [2, 3]] [1] fmAppend new_cFile))))) [1] = [2, 3, 4, 5]"
proof -
  let ?o = "File_Open (\<lambda>_. True) [[1] \<mapsto> [2, 3]] [1] fmAppend new_cFile"
  let ?as = "[WriteBytes [4], SeekTo 0, ReadBytes 1, SeekTo 1, WriteBytes [5]]"
  have o: "?o = (True, fst (snd ?o), snd (snd ?o))" and "\<exists>s. file_run ?as (snd ?o) = Inr s"
    by (simp_all add: File_Open_def new_cFile_def File_IsOpen_def fopen_def c_str_def new_FILE_def File_Write_def fwrite_def
        File_Seek_def fseek_def ftell_def File_Read_def fread_def file_text_def)
  then obtain f2 fs2 where "file_run ?as (fst (snd ?o), snd (snd ?o)) = Inr (f2, fs2)" by auto
  from appending_keeps_the_file [OF o this] this show ?thesis by (simp add: file_text_def c_str_def)
qed

text \<open>A file that is open for reading leaves the files as they are.\<close>

lemma writing_unopened:
  assumes "m_File f = Some st" and "\<not> f_write st"
  shows "File_Write s f fs = Inr (0, f, fs)"
  using assms by (cases f) (simp add: File_Write_def fwrite_def to_int_def)

lemma run_reads:
  assumes "m_File f = Some st" and "\<not> f_write st" and "file_run as (f, fs) = Inr (f', fs')"
  shows "fs' = fs"
  using assms
proof (induction as arbitrary: f fs st)
  case (Cons a as)
  obtain h hs where a: "file_do a (f, fs) = Inr (h, hs)" and as: "file_run as (h, hs) = Inr (f', fs')"
    using Cons.prems(3) by (auto simp: and_then_Inr_iff)
  show ?case
  proof (cases "reads a")
    case True
    then show ?thesis
      using reading_keeps [OF Cons.prems(1) True a] Cons.IH [OF _ _ as] Cons.prems(2) by (auto simp: same_stream_def)
  next
    case False
    then have "h = f \<and> hs = fs"
      using a writing_unopened [OF Cons.prems(1,2)] by (cases a) (auto simp: File_Printf_def)
    then show ?thesis using Cons.IH [OF Cons.prems(1,2)] as by simp
  qed
qed simp

theorem reading_changes_no_file:
  assumes "File_Open can_write fs name fmRead f = (True, f1, fs1)" and "file_run as (f1, fs1) = Inr (f2, fs2)"
  shows "fs2 = fs"
proof -
  have "fs1 = fs" and "m_File f1 = Some (new_FILE (c_str name) True False False)"
    using assms(1) by (auto simp: File_Open_def fopen_def Let_def split: if_splits)
  then show ?thesis using run_reads [OF _ _ assms(2)] by (simp add: new_FILE_def)
qed

section \<open>Writing and reading whole files\<close>

lemma to_int_small: "n < 2 ^ 31 \<Longrightarrow> to_int n = int n"
  unfolding to_int_def by (simp add: signed_of_nat signed_take_bit_int_eq_self)

lemma ReadWholeFile_reads:
  assumes "fs (c_str name) = Some s" and "length s < 2 ^ 63"
  shows "ReadWholeFile fs name = Inr s"
proof -
  have n: "unat (word_of_nat (length s) :: u64) = length s"
    using assms(2) by (simp add: unat_of_nat take_bit_nat_eq_self)
  have o: "File_Open (\<lambda>_. False) fs name fmRead new_cFile = (True, \<lparr>m_File = Some (new_FILE (c_str name) True False False)\<rparr>, fs)"
    by (simp add: File_Open_def fopen_def new_cFile_def File_IsOpen_def assms(1))
  show ?thesis
    using assms by (simp add: ReadWholeFile_def o ReadRest_open file_text_def new_FILE_def n File_Read_def fread_def Let_def)
qed

theorem write_then_read_back:
  assumes "can_write (c_str name)" and "length s < 2 ^ 31"
  shows "\<exists>f1 fs1 f2. File_Open can_write fs name fmWrite f = (True, f1, fs1) \<and>
    File_Write s f1 fs1 = Inr (int (length s), f2, fs(c_str name \<mapsto> s)) \<and>
    ReadWholeFile (fs(c_str name \<mapsto> s)) name = Inr s"
proof -
  have "ReadWholeFile (fs(c_str name \<mapsto> s)) name = Inr s" by (rule ReadWholeFile_reads) (use assms(2) in simp_all)
  then show ?thesis
    using assms(1) to_int_small [OF assms(2)]
    by (auto simp: File_Open_def fopen_def File_Write_def fwrite_def new_FILE_def file_text_def to_int_def)
qed

text \<open>Reading the rest of a file that is positioned behind its end asks for a text of nearly \<open>2 ^ 64\<close> bytes.\<close>

lemma unat_negative:
  assumes "- (2 ^ 63) \<le> d" and "d < 0"
  shows "unat (word_of_int d :: u64) = nat (d + 2 ^ 64)"
proof -
  have "(d + 2 ^ 64) mod 2 ^ 64 = d + 2 ^ 64" by (rule mod_pos_pos_trivial) (use assms in simp_all)
  then show ?thesis by (simp add: unsigned_of_int take_bit_eq_mod)
qed

lemma ReadRest_behind_the_end:
  assumes "m_File f = Some st" and "length (file_text fs (f_name st)) < f_pos st" and "f_pos st < 2 ^ 31"
  shows "File_ReadRestOfFile c f fs = Inl LengthError"
proof -
  define d where "d = int (length (file_text fs (f_name st))) - int (f_pos st)"
  have "- (2 ^ 31) \<le> d" "d < 0" using assms(2,3) by (simp_all add: d_def)
  then have "2 ^ 63 \<le> unat (word_of_int d :: u64)" by (simp add: unat_negative)
  then show ?thesis using ReadRest_open [OF assms(1)] by (simp add: d_def Let_def)
qed

text \<open>Reading directly after writing is not defined, and nothing in the class prevents it.\<close>

lemma read_after_write_undefined:
  assumes "m_File f = Some st" and "f_read st" and "f_write st" and "f_last st \<noteq> WasRead" and "s \<noteq> []" and "n \<noteq> 0"
  shows "file_run [WriteBytes s, ReadBytes n] (f, fs) = Inl Misuse"
  using assms by (simp add: File_Write_def fwrite_def File_Read_def fread_def Let_def)

text \<open>Copying a file that is not there empties the destination and reports success.\<close>

lemma Copy_missing_source:
  assumes "fs (c_str src) = None" and "can_write (c_str dst)"
  shows "File_Copy can_write fs src dst = (True, fs(c_str dst \<mapsto> []))"
  using assms by (simp add: File_Copy_def)

lemma Copy_copies:
  assumes "fs (c_str src) = Some s" and "can_write (c_str dst)" and "c_str src \<noteq> c_str dst"
  shows "File_Copy can_write fs src dst = (True, fs(c_str dst \<mapsto> s))"
  using assms by (simp add: File_Copy_def file_text_def)

section \<open>Changing the extension\<close>

lemma find_last_at: "c \<notin> set t \<Longrightarrow> find_last (s @ c # t) c = Some (length s)"
  by (simp add: find_last_def takeWhile_append)

lemma find_last_none: "find_last s c = None \<longleftrightarrow> c \<notin> set s"
  by (simp add: find_last_def)

lemma find_last_right: "c \<in> set s \<Longrightarrow> c \<notin> set t \<Longrightarrow> find_last (s @ t) c = find_last s c"
  by (auto simp: find_last_def takeWhile_append)

text \<open>The new extension may be given with its dot or without.\<close>

lemma find_last_nth: "find_last s c = Some i \<Longrightarrow> i < length s \<and> s ! i = c"
proof -
  assume a: "find_last s c = Some i"
  then obtain s1 s2 where "s = s1 @ c # s2" "c \<notin> set s2"
    using split_list_last [of c s] by (auto simp: find_last_def split: if_splits)
  then show ?thesis using a find_last_at [of c s2 s1] by (auto simp: nth_append)
qed

theorem dot_optional:
  assumes "e \<noteq> []" and "hd e \<noteq> 0x2e"
  shows "ChangeFileExt p n (0x2e # e) = ChangeFileExt p n e"
proof (cases "find_last n 0x2e")
  case (Some d)
  then have "take (Suc d) n = take d n @ [0x2e]" using find_last_nth [OF Some] by (simp add: take_Suc_conv_app_nth)
  then show ?thesis using assms Some by (simp add: ChangeFileExt_def Let_def)
next
  case None
  then show ?thesis using assms by (simp add: ChangeFileExt_def Let_def)
qed

definition separator :: "platform \<Rightarrow> u8 \<Rightarrow> bool" where
  "separator p c \<longleftrightarrow> c = 0x5c \<and> p \<noteq> Posix \<or> c = 0x2f \<and> p \<noteq> OtherWindows"

lemma find_last_bound:
  assumes "c \<notin> set t" and "find_last (s @ t) c = Some i"
  shows "i < length s"
proof -
  have "c \<in> set s" using assms by (auto simp: find_last_def split: if_splits)
  then show ?thesis using assms find_last_right find_last_nth by metis
qed

text \<open>The last separator of a path is the one that ends its folder.\<close>

lemma LastPathSep_dir:
  assumes "\<forall>c \<in> set base. \<not> separator p c" and "dir = [] \<or> separator p (last dir)"
  shows "LastPathSep p (dir @ base) = (if dir = [] then None else Some (length dir - 1))"
proof (cases dir rule: rev_cases)
  case Nil
  then show ?thesis using assms(1) by (cases p) (auto simp: LastPathSep_def separator_def find_last_def)
next
  case (snoc d c)
  have c: "separator p c" using assms(2) snoc by simp
  then have "c \<notin> set base" using assms(1) by blast
  then have at: "find_last (d @ c # base) c = Some (length d)" by (rule find_last_at)
  have le: "case find_last (d @ c # base) x of None \<Rightarrow> True | Some i \<Rightarrow> max i (length d) = length d \<and> max (length d) i = length d"
    if "separator p x" for x
  proof (cases "find_last (d @ c # base) x")
    case (Some i)
    then have "i < length (d @ [c])" using find_last_bound [of x base "d @ [c]" i] that assms(1) by auto
    then show ?thesis using Some by simp
  qed simp
  consider "p = MSVC" "c = 0x2f" | "p = MSVC" "c = 0x5c" | "p = OtherWindows" "c = 0x5c" | "p = Posix" "c = 0x2f"
    using c by (cases p) (auto simp: separator_def)
  then show ?thesis
    using at le [of "0x2f"] le [of "0x5c"] by cases (auto simp: snoc LastPathSep_def separator_def split: option.splits)
qed

text \<open>An extension is replaced; a name without one gets it.\<close>

theorem extension_changed:
  assumes "\<forall>c \<in> set (base @ ext). c \<noteq> 0x2e \<and> \<not> separator p c" and "base \<noteq> []"
    and "dir = [] \<or> separator p (last dir)" and "e \<noteq> []" and "hd e \<noteq> 0x2e"
  shows "ChangeFileExt p (dir @ base @ 0x2e # ext) e = dir @ base @ 0x2e # e"
    and "ChangeFileExt p (dir @ base) e = dir @ base @ 0x2e # e"
proof -
  have "LastPathSep p (dir @ base @ 0x2e # ext) = (if dir = [] then None else Some (length dir - 1))"
    by (rule LastPathSep_dir [OF _ assms(3)]) (use assms(1) in \<open>auto simp: separator_def\<close>)
  moreover have "find_last (dir @ base @ 0x2e # ext) 0x2e = Some (length (dir @ base))"
    using find_last_at [of "0x2e" ext "dir @ base"] assms(1) by auto
  ultimately show "ChangeFileExt p (dir @ base @ 0x2e # ext) e = dir @ base @ 0x2e # e"
    using assms(2,4,5) by (auto simp: ChangeFileExt_def Let_def)
next
  have sep: "LastPathSep p (dir @ base) = (if dir = [] then None else Some (length dir - 1))"
    by (rule LastPathSep_dir [OF _ assms(3)]) (use assms(1) in auto)
  have dot: "d < length dir - 1" if d: "find_last (dir @ base) 0x2e = Some d" for d
  proof -
    have "d < length dir" using find_last_bound [OF _ d] assms(1) by auto
    moreover have "dir ! d = 0x2e" using find_last_nth [OF d] calculation by (simp add: nth_append)
    moreover have "last dir \<noteq> 0x2e" using assms(3) calculation by (auto simp: separator_def)
    ultimately show ?thesis by (metis Suc_pred' last_conv_nth less_Suc_eq less_zeroE list.size(3) not_gr_zero)
  qed
  show "ChangeFileExt p (dir @ base) e = dir @ base @ 0x2e # e"
    using sep dot assms(2,4,5) by (cases "find_last (dir @ base) 0x2e") (auto simp: ChangeFileExt_def Let_def)
qed

end
