(* ===== verification/Folders.thy ===== *)
theory Folders
  imports Files
begin

text \<open>
  The folders of \<open>cFile\<close> (\<open>Common/OSSupport/File.cpp\<close>), in the POSIX build. What the system does is a parameter \<open>os\<close>
  of the operations, over any state \<open>'w\<close> of its files.
\<close>

section \<open>The operations\<close>

datatype kind = Folder | RegularFile | OtherKind

record 'w os =
  os_stat :: "AString \<Rightarrow> 'w \<Rightarrow> (kind \<times> int) option"
  os_mkdir :: "AString \<Rightarrow> 'w \<Rightarrow> bool \<times> 'w"
  os_rmdir :: "AString \<Rightarrow> 'w \<Rightarrow> bool \<times> 'w"
  os_remove :: "AString \<Rightarrow> 'w \<Rightarrow> bool \<times> 'w"
  os_rename :: "AString \<Rightarrow> AString \<Rightarrow> 'w \<Rightarrow> bool \<times> 'w"
  os_entries :: "AString \<Rightarrow> 'w \<Rightarrow> AString list option"

definition IsFolder :: "'w os \<Rightarrow> AString \<Rightarrow> 'w \<Rightarrow> bool" where
  "IsFolder os a_Path w = (case os_stat os (c_str a_Path) w of None \<Rightarrow> False | Some (k, _) \<Rightarrow> k = Folder)"

definition IsFile :: "'w os \<Rightarrow> AString \<Rightarrow> 'w \<Rightarrow> bool" where
  "IsFile os a_Path w = (case os_stat os (c_str a_Path) w of None \<Rightarrow> False | Some (k, _) \<Rightarrow> k = RegularFile)"

text \<open>The size of a file goes through an \<open>int\<close>.\<close>

definition GetSize_of :: "'w os \<Rightarrow> AString \<Rightarrow> 'w \<Rightarrow> int" where
  "GetSize_of os a_FileName w =
     (case os_stat os (c_str a_FileName) w of None \<Rightarrow> - 1 | Some (_, st_size) \<Rightarrow> sint (word_of_int st_size :: u32))"

definition CreateFolder :: "'w os \<Rightarrow> AString \<Rightarrow> 'w \<Rightarrow> bool \<times> 'w" where
  "CreateFolder os a_FolderPath w = os_mkdir os (c_str a_FolderPath) w"

definition PathSep :: u8 where
  "PathSep = GetPathSeparator Posix ! 0"

definition CreateFolderRecursive :: "'w os \<Rightarrow> AString \<Rightarrow> 'w \<Rightarrow> bool \<times> 'w" where
  "CreateFolderRecursive os a_FolderPath w =
     (if a_FolderPath = [] then (False, w)
      else let w = foldl (\<lambda>w i. if a_FolderPath ! i = PathSep then snd (CreateFolder os (take i a_FolderPath) w) else w)
                     w [0..<length a_FolderPath];
               w = snd (CreateFolder os a_FolderPath w)
           in (IsFolder os a_FolderPath w, w))"

definition GetFolderContents :: "'w os \<Rightarrow> AString \<Rightarrow> 'w \<Rightarrow> AString list" where
  "GetFolderContents os a_Folder w =
     (let Name = (if a_Folder = [] then ascii ''.'' else a_Folder)
      in case os_entries os (c_str Name) w of None \<Rightarrow> [] | Some items \<Rightarrow> items)"

definition DeleteFolder :: "'w os \<Rightarrow> AString \<Rightarrow> 'w \<Rightarrow> bool \<times> 'w" where
  "DeleteFolder os a_FolderName w = os_rmdir os (c_str a_FolderName) w"

definition DeleteFile_at :: "'w os \<Rightarrow> AString \<Rightarrow> 'w \<Rightarrow> bool \<times> 'w" where
  "DeleteFile_at os a_FileName w = os_remove os (c_str a_FileName) w"

definition File_Delete :: "'w os \<Rightarrow> AString \<Rightarrow> 'w \<Rightarrow> bool \<times> 'w" where
  "File_Delete os a_Path w = (if IsFolder os a_Path w then DeleteFolder os a_Path w else DeleteFile_at os a_Path w)"

definition File_Rename :: "'w os \<Rightarrow> AString \<Rightarrow> AString \<Rightarrow> 'w \<Rightarrow> bool \<times> 'w" where
  "File_Rename os a_OrigFileName a_NewFileName w = os_rename os (c_str a_OrigFileName) (c_str a_NewFileName) w"

text \<open>The loop over the items of a folder; \<open>None\<close>: the folders never end.\<close>

partial_function (option) DeleteItems :: "'w os \<Rightarrow> AString \<Rightarrow> AString list \<Rightarrow> 'w \<Rightarrow> (bool \<times> 'w) option" where
  "DeleteItems os folder items w =
     (case items of
        [] \<Rightarrow> Some (True, w)
      | item # items \<Rightarrow>
          if item = ascii ''.'' \<or> item = ascii ''..'' then DeleteItems os folder items w
          else let WholePath = folder @ GetPathSeparator Posix @ item
               in if IsFolder os WholePath w then
                    Option.bind (DeleteItems os WholePath (GetFolderContents os WholePath w) w) (\<lambda>(ok, w).
                      if \<not> ok then Some (False, w)
                      else case DeleteFolder os WholePath w of
                             (ok, w) \<Rightarrow> if \<not> ok then Some (False, w) else DeleteItems os folder items w)
                  else case DeleteFile_at os WholePath w of
                         (ok, w) \<Rightarrow> if \<not> ok then Some (False, w) else DeleteItems os folder items w)"

definition DeleteFolderContents :: "'w os \<Rightarrow> AString \<Rightarrow> 'w \<Rightarrow> (bool \<times> 'w) option" where
  "DeleteFolderContents os a_FolderName w = DeleteItems os a_FolderName (GetFolderContents os a_FolderName w) w"

section \<open>Creating folders\<close>

text \<open>
  What POSIX says of \<open>mkdir\<close>: it changes nothing that exists and makes nothing but folders, and it makes a folder that does not exist in a
  folder that does. A path with no separator but a leading one is in the current folder or the root.
\<close>

definition folder_at :: "'w os \<Rightarrow> AString \<Rightarrow> 'w \<Rightarrow> bool" where
  "folder_at os p w \<longleftrightarrow> (\<exists>n. os_stat os p w = Some (Folder, n))"

definition free_or_folder :: "'w os \<Rightarrow> AString \<Rightarrow> 'w \<Rightarrow> bool" where
  "free_or_folder os p w \<longleftrightarrow> os_stat os p w = None \<or> folder_at os p w"

definition posix_mkdir :: "'w os \<Rightarrow> bool" where
  "posix_mkdir os \<longleftrightarrow>
     (\<forall>p q w. let w' = snd (os_mkdir os p w) in
        (folder_at os q w \<longrightarrow> folder_at os q w') \<and>
        (free_or_folder os q w \<longrightarrow> free_or_folder os q w') \<and>
        (\<not> free_or_folder os q w \<longrightarrow> os_stat os q w' = os_stat os q w) \<and>
        (p \<noteq> [] \<longrightarrow> os_stat os p w = None \<longrightarrow>
          (case find_last p PathSep of None \<Rightarrow> True | Some i \<Rightarrow> i = 0 \<or> folder_at os (take i p) w) \<longrightarrow> folder_at os p w'))"

text \<open>The paths that \<open>CreateFolderRecursive\<close> creates before index \<open>n\<close> of the path.\<close>

definition parents :: "AString \<Rightarrow> nat \<Rightarrow> AString set" where
  "parents p n = {take i p | i. 0 < i \<and> i < n \<and> i < length p \<and> p ! i = PathSep}"

definition create_parents :: "'w os \<Rightarrow> AString \<Rightarrow> nat \<Rightarrow> 'w \<Rightarrow> 'w" where
  "create_parents os p n w =
     foldl (\<lambda>w i. if p ! i = PathSep then snd (CreateFolder os (take i p) w) else w) w [0..<n]"

lemma create_parents_Suc:
  "create_parents os p (Suc n) w =
     (if p ! n = PathSep then snd (CreateFolder os (take n p) (create_parents os p n w)) else create_parents os p n w)"
  by (simp add: create_parents_def)

lemma parents_Suc:
  "n < length p \<Longrightarrow> parents p (Suc n) = (if 0 < n \<and> p ! n = PathSep then insert (take n p) (parents p n) else parents p n)"
  by (auto simp: parents_def less_Suc_eq)

lemma c_str_take [simp]: "0 \<notin> set p \<Longrightarrow> c_str (take n p) = take n p"
  unfolding c_str_def by (rule takeWhile_eq_all_conv [THEN iffD2]) (auto dest: in_set_takeD)

lemma c_str_whole [simp]: "0 \<notin> set p \<Longrightarrow> c_str p = p"
  using c_str_take [of p "length p"] by simp

text \<open>A step makes its path a folder when everything before it is one.\<close>

lemma mkdir_step:
  assumes os: "posix_mkdir os" and z: "0 \<notin> set p" and n: "0 < n" "n \<le> length p"
    and free: "free_or_folder os (take n p) w" and before: "\<forall>q \<in> parents p n. folder_at os q w"
  shows "folder_at os (take n p) (snd (CreateFolder os (take n p) w))"
proof (cases "folder_at os (take n p) w")
  case True
  then show ?thesis using os z by (simp add: posix_mkdir_def CreateFolder_def Let_def)
next
  case False
  have "case find_last (take n p) PathSep of None \<Rightarrow> True | Some i \<Rightarrow> i = 0 \<or> folder_at os (take i (take n p)) w"
  proof (cases "find_last (take n p) PathSep")
    case (Some i)
    then have i: "i < n" "i < length p" "p ! i = PathSep" using find_last_nth [OF Some] n by auto
    then have "0 < i \<Longrightarrow> take i p \<in> parents p n" by (auto simp: parents_def)
    then show ?thesis using Some before i by (auto simp: min_def)
  qed simp
  moreover have "take n p \<noteq> []" using n by auto
  ultimately show ?thesis
    using os z False free by (simp add: posix_mkdir_def CreateFolder_def free_or_folder_def Let_def)
qed

lemma mkdir_keeps:
  assumes "posix_mkdir os"
  shows "folder_at os q w \<Longrightarrow> folder_at os q (snd (CreateFolder os p w))"
    and "free_or_folder os q w \<Longrightarrow> free_or_folder os q (snd (CreateFolder os p w))"
    and "\<not> free_or_folder os q w \<Longrightarrow> os_stat os q (snd (CreateFolder os p w)) = os_stat os q w"
  using assms by (simp_all add: posix_mkdir_def CreateFolder_def Let_def)

lemma create_parents_0 [simp]: "create_parents os p 0 w = w"
  by (simp add: create_parents_def)

lemma same_stat: "os_stat os q w' = os_stat os q w \<Longrightarrow> free_or_folder os q w' = free_or_folder os q w"
  by (simp add: free_or_folder_def folder_at_def)

lemma create_parents_keeps:
  assumes "posix_mkdir os"
  shows "folder_at os q w \<Longrightarrow> folder_at os q (create_parents os p n w)"
    and "free_or_folder os q w \<Longrightarrow> free_or_folder os q (create_parents os p n w)"
    and "\<not> free_or_folder os q w \<Longrightarrow> os_stat os q (create_parents os p n w) = os_stat os q w"
proof -
  show "folder_at os q w \<Longrightarrow> folder_at os q (create_parents os p n w)"
    by (induction n) (simp_all add: create_parents_Suc mkdir_keeps(1) [OF assms])
  show "free_or_folder os q w \<Longrightarrow> free_or_folder os q (create_parents os p n w)"
    by (induction n) (simp_all add: create_parents_Suc mkdir_keeps(2) [OF assms])
  assume not_free: "\<not> free_or_folder os q w"
  show "os_stat os q (create_parents os p n w) = os_stat os q w"
  proof (induction n)
    case (Suc n)
    then have "\<not> free_or_folder os q (create_parents os p n w)" using not_free same_stat by metis
    then show ?case using Suc mkdir_keeps(3) [OF assms] by (simp add: create_parents_Suc)
  qed simp
qed

lemma create_parents_creates:
  assumes os: "posix_mkdir os" and z: "0 \<notin> set p" and n: "n \<le> length p"
    and free: "\<forall>q \<in> parents p n. free_or_folder os q w"
  shows "\<forall>q \<in> parents p n. folder_at os q (create_parents os p n w)"
  using n free
proof (induction n)
  case 0
  then show ?case by (simp add: parents_def)
next
  case (Suc n)
  have sub: "parents p n \<subseteq> parents p (Suc n)" by (auto simp: parents_def)
  then have IH: "\<forall>q \<in> parents p n. folder_at os q (create_parents os p n w)" using Suc by auto
  show ?case
  proof (cases "p ! n = PathSep")
    case sep: True
    have "folder_at os (take n p) (create_parents os p (Suc n) w)" if "0 < n"
    proof -
      have "take n p \<in> parents p (Suc n)" using Suc.prems(1) sep that by (auto simp: parents_def)
      then have "free_or_folder os (take n p) (create_parents os p n w)"
        using Suc.prems(2) create_parents_keeps(2) [OF os] by blast
      then show ?thesis using mkdir_step [OF os z that _ _ IH] Suc.prems(1) sep by (simp add: create_parents_Suc)
    qed
    then show ?thesis using IH sep Suc.prems(1) mkdir_keeps(1) [OF os] by (auto simp: parents_Suc create_parents_Suc)
  next
    case False
    then show ?thesis using IH Suc.prems(1) by (simp add: parents_Suc create_parents_Suc)
  qed
qed

text \<open>
  When none of the paths that begin a path, cut at its separators, is something else than a folder, creating it recursively
  succeeds, all of them are folders afterwards, and nothing that was there is changed.
\<close>
theorem CreateFolderRecursive_creates:
  assumes os: "posix_mkdir os" and p: "p \<noteq> []" "0 \<notin> set p"
    and free: "free_or_folder os p w" "\<forall>q \<in> parents p (length p). free_or_folder os q w"
  shows "\<exists>w'. CreateFolderRecursive os p w = (True, w') \<and> folder_at os p w' \<and> (\<forall>q \<in> parents p (length p). folder_at os q w') \<and>
    (\<forall>q. \<not> free_or_folder os q w \<longrightarrow> os_stat os q w' = os_stat os q w) \<and> (\<forall>q. folder_at os q w \<longrightarrow> folder_at os q w')"
proof -
  define w1 where "w1 = create_parents os p (length p) w"
  define w2 where "w2 = snd (CreateFolder os p w1)"
  have ps: "\<forall>q \<in> parents p (length p). folder_at os q w1"
    unfolding w1_def by (rule create_parents_creates [OF os p(2) order_refl free(2)])
  have "free_or_folder os (take (length p) p) w1" using create_parents_keeps(2) [OF os free(1)] by (simp add: w1_def)
  then have whole: "folder_at os p w2" using mkdir_step [OF os p(2) _ order_refl _ ps] p(1) by (simp add: w2_def)
  have "CreateFolderRecursive os p w = (IsFolder os p w2, w2)"
    using p(1) by (simp add: CreateFolderRecursive_def w1_def w2_def create_parents_def Let_def)
  moreover have "IsFolder os p w2" using whole p(2) by (auto simp: IsFolder_def folder_at_def)
  moreover have "os_stat os q w2 = os_stat os q w" if "\<not> free_or_folder os q w" for q
  proof -
    have "os_stat os q w1 = os_stat os q w" unfolding w1_def by (rule create_parents_keeps(3) [OF os that])
    then show ?thesis using mkdir_keeps(3) [OF os, of q w1 p] that by (simp add: w2_def free_or_folder_def folder_at_def)
  qed
  ultimately show ?thesis
    using whole ps mkdir_keeps(1) [OF os] create_parents_keeps(1) [OF os] by (auto simp: w1_def w2_def)
qed

text \<open>A system whose files are a map from paths to kinds.\<close>

definition flat_os :: "(AString \<rightharpoonup> kind) os" where
  "flat_os =
     \<lparr>os_stat = (\<lambda>p w. map_option (\<lambda>k. (k, 0)) (w p)),
      os_mkdir = (\<lambda>p w.
        if p \<noteq> [] \<and> w p = None \<and> (case find_last p PathSep of None \<Rightarrow> True | Some i \<Rightarrow> i = 0 \<or> w (take i p) = Some Folder)
        then (True, w(p \<mapsto> Folder)) else (False, w)),
      os_rmdir = (\<lambda>p w. (w p = Some Folder, if w p = Some Folder then w(p := None) else w)),
      os_remove = (\<lambda>p w. (w p \<noteq> None, w(p := None))),
      os_rename = (\<lambda>p q w. (w p \<noteq> None, w(p := None, q := w p))),
      os_entries = (\<lambda>p w. None)\<rparr>"

lemma flat_posix_mkdir: "posix_mkdir flat_os"
  by (auto simp: posix_mkdir_def flat_os_def folder_at_def free_or_folder_def Let_def split: option.splits)

theorem CreateFolderRecursive_creates_witness:
  "\<exists>w'. CreateFolderRecursive flat_os (ascii ''a/b'') Map.empty = (True, w') \<and> folder_at flat_os (ascii ''a/b'') w'"
proof -
  have "free_or_folder flat_os q Map.empty" for q by (simp add: free_or_folder_def flat_os_def)
  then show ?thesis
    using CreateFolderRecursive_creates [OF flat_posix_mkdir, of "ascii ''a/b''" Map.empty] by (auto simp: ascii_def)
qed

section \<open>Deleting\<close>

text \<open>A folder that cannot be listed counts as empty: deleting its contents succeeds and deletes nothing.\<close>

lemma unlisted_folder_succeeds:
  assumes "os_entries os (c_str p) w = None" and "p \<noteq> []"
  shows "DeleteFolderContents os p w = Some (True, w)"
  using assms by (simp add: DeleteFolderContents_def GetFolderContents_def DeleteItems.simps)

text \<open>A file of 2 to 4 GiB has a negative size, which stands for an error.\<close>

lemma large_file_has_negative_size:
  assumes "os_stat os (c_str p) w = Some (RegularFile, n)" and "2 ^ 31 \<le> n" and "n < 2 ^ 32"
  shows "GetSize_of os p w = n - 2 ^ 32"
proof -
  have "signed_take_bit 31 n = n - 2 ^ 32"
  proof -
    have "signed_take_bit 31 (n - 2 ^ 32) = n - 2 ^ 32" using assms(2,3) by (intro signed_take_bit_int_eq_self) simp_all
    moreover have "signed_take_bit 31 (n - 2 ^ 32) = signed_take_bit 31 n"
      by (rule signed_take_bit_eq_iff_take_bit_eq [THEN iffD2]) (simp add: take_bit_eq_mod)
    ultimately show ?thesis by simp
  qed
  then show ?thesis using assms(1) by (simp add: GetSize_of_def signed_of_int)
qed

end
