(* ===== verification/Logging.thy ===== *)
theory Logging
  imports Files SettingsInterface
begin

text \<open>
  Logging (\<open>Common/Logger.cpp\<close>, \<open>Common/LoggerListeners.cpp\<close>) and the output of commands, which ends in the log
  (\<open>Server/CommandOutput.cpp\<close>). The texts that \<open>LOG\<close> and \<open>Out\<close> compose with \<open>printf\<close> formats are parameters.
\<close>

section \<open>Listeners\<close>

datatype eLogLevel = llRegular | llInfo | llWarning | llError

text \<open>
  A listener with the address it is known by. The console of Windows has its default attributes, and a file listener its
  file.
\<close>

datatype listener_kind =
    cWindowsConsoleListener u16
  | cLinuxConsoleListener
  | cAndroidConsoleListener
  | cVanillaCPPConsoleListener
  | cNullConsoleListener
  | cFileListener cFile

record cListener =
  l_address :: nat
  l_kind :: listener_kind

text \<open>What is written to the console, its attributes set, or passed to the log of Android.\<close>

datatype console_output = Written AString | Attributes u16 | AndroidLog eLogLevel AString

text \<open>The attributes of the console of Windows.\<close>

definition SetLogColour_Windows :: "eLogLevel \<Rightarrow> console_output list" where
  "SetLogColour_Windows a_LogLevel =
     [Attributes (case a_LogLevel of
        llRegular \<Rightarrow> 1 OR 2 OR 4
      | llInfo \<Rightarrow> 2 OR 4 OR 8
      | llWarning \<Rightarrow> 4 OR 8
      | llError \<Rightarrow> 0x40 OR 0x80)]"

definition SetLogColour_Linux :: "eLogLevel \<Rightarrow> console_output list" where
  "SetLogColour_Linux a_LogLevel =
     [Written (0x1b # (case a_LogLevel of
        llRegular \<Rightarrow> ascii ''[0m''
      | llInfo \<Rightarrow> ascii ''[33;1m''
      | llWarning \<Rightarrow> ascii ''[31;1m''
      | llError \<Rightarrow> ascii ''[1;33;41;1m''))]"

definition Vanilla_level :: "eLogLevel \<Rightarrow> AString" where
  "Vanilla_level a_LogLevel =
     (case a_LogLevel of
        llRegular \<Rightarrow> ascii ''Log''
      | llInfo \<Rightarrow> ascii ''Info''
      | llWarning \<Rightarrow> ascii ''Warning''
      | llError \<Rightarrow> ascii ''Error'')"

definition LogLevelPrefix :: "eLogLevel \<Rightarrow> AString" where
  "LogLevelPrefix a_LogLevel =
     (case a_LogLevel of
        llRegular \<Rightarrow> ascii ''     ''
      | llInfo \<Rightarrow> ascii ''Info ''
      | llWarning \<Rightarrow> ascii ''Warn ''
      | llError \<Rightarrow> ascii ''Err  '')"

text \<open>A console with colours sets the colour, writes, and sets the colour back.\<close>

definition Coloured_Log :: "console_output list \<Rightarrow> console_output list \<Rightarrow> AString \<Rightarrow> console_output list" where
  "Coloured_Log SetLogColour SetDefaultLogColour a_Message =
     SetLogColour @ [Written (c_str a_Message)] @ SetDefaultLogColour"

definition SetDefaultLogColour_Linux :: "console_output list" where
  "SetDefaultLogColour_Linux = [Written (0x1b # ascii ''[0m'')]"

definition Android_Log :: "AString \<Rightarrow> eLogLevel \<Rightarrow> console_output list" where
  "Android_Log a_Message a_LogLevel = [AndroidLog a_LogLevel (c_str a_Message)]"

definition Vanilla_Log :: "AString \<Rightarrow> eLogLevel \<Rightarrow> console_output list" where
  "Vanilla_Log a_Message a_LogLevel = [Written (Vanilla_level a_LogLevel @ ascii '': '' @ c_str a_Message)]"

definition FileListener_Log :: "AString \<Rightarrow> eLogLevel \<Rightarrow> cFile \<Rightarrow> files \<Rightarrow> fault + int \<times> cFile \<times> files" where
  "FileListener_Log a_Message a_LogLevel f fs = File_Printf (LogLevelPrefix a_LogLevel @ c_str a_Message) f fs"

text \<open>What a listener does with a line: it writes to the console or to its file.\<close>

definition Listener_Log ::
    "AString \<Rightarrow> eLogLevel \<Rightarrow> listener_kind \<Rightarrow> console_output list \<times> files \<Rightarrow>
     fault + listener_kind \<times> console_output list \<times> files" where
  "Listener_Log a_Message a_LogLevel k sinks =
     (case sinks of (out, fs) \<Rightarrow>
      (case k of
         cWindowsConsoleListener a \<Rightarrow>
           Inr (k, out @ Coloured_Log (SetLogColour_Windows a_LogLevel) [Attributes a] a_Message, fs)
       | cLinuxConsoleListener \<Rightarrow>
           Inr (k, out @ Coloured_Log (SetLogColour_Linux a_LogLevel) SetDefaultLogColour_Linux a_Message, fs)
       | cAndroidConsoleListener \<Rightarrow> Inr (k, out @ Android_Log a_Message a_LogLevel, fs)
       | cVanillaCPPConsoleListener \<Rightarrow> Inr (k, out @ Vanilla_Log a_Message a_LogLevel, fs)
       | cNullConsoleListener \<Rightarrow> Inr (k, out, fs)
       | cFileListener f \<Rightarrow>
           and_then (FileListener_Log a_Message a_LogLevel f fs) (\<lambda>(_, f, fs). Inr (cFileListener f, out, fs))))"

text \<open>
  The listener of the console. On Windows it is asked whether the \<^emph>\<open>input\<close> is a terminal; \<open>attributes\<close> are the attributes
  of the console then.
\<close>

datatype host = HostWindows | HostLinux | HostAndroid

definition MakeConsoleListener :: "host \<Rightarrow> (string \<Rightarrow> bool) \<Rightarrow> u16 \<Rightarrow> bool \<Rightarrow> listener_kind" where
  "MakeConsoleListener h isatty attributes a_IsService =
     (if a_IsService then cNullConsoleListener
      else case h of
             HostWindows \<Rightarrow>
               (if isatty ''stdin'' then cWindowsConsoleListener attributes else cVanillaCPPConsoleListener)
           | HostLinux \<Rightarrow> (if isatty ''stdout'' then cLinuxConsoleListener else cVanillaCPPConsoleListener)
           | HostAndroid \<Rightarrow> cVanillaCPPConsoleListener)"

text \<open>
  The file of the log is named after the seconds of the clock; \<open>None\<close>: it cannot be opened. The folder of the logs, which
  is made first, is not part of the files.
\<close>

definition log_name :: "int \<Rightarrow> AString" where
  "log_name seconds = ascii ''logs/LOG_'' @ Printf_d seconds @ ascii ''.txt''"

definition FileListener_Open :: "(AString \<Rightarrow> bool) \<Rightarrow> files \<Rightarrow> int \<Rightarrow> bool \<times> cFile \<times> files" where
  "FileListener_Open can_write fs seconds = File_Open can_write fs (log_name seconds) fmAppend new_cFile"

definition MakeFileListener :: "(AString \<Rightarrow> bool) \<Rightarrow> files \<Rightarrow> int \<Rightarrow> listener_kind option \<times> files" where
  "MakeFileListener can_write fs seconds =
     (case FileListener_Open can_write fs seconds of
        (ok, f, fs) \<Rightarrow> if \<not> ok then (None, fs) else (Some (cFileListener f), fs))"

section \<open>The logger\<close>

text \<open>
  \<open>next_address\<close> is an address that no object has had yet; an attachment is the address it holds.
\<close>

record cLogger =
  m_LogListeners :: "cListener list"
  next_address :: nat

definition new_cLogger :: cLogger where
  "new_cLogger = \<lparr>m_LogListeners = [], next_address = 0\<rparr>"

definition AttachListener :: "listener_kind \<Rightarrow> cLogger \<Rightarrow> nat \<times> cLogger" where
  "AttachListener a_Listener lg =
     (next_address lg,
      lg\<lparr>m_LogListeners := m_LogListeners lg @ [\<lparr>l_address = next_address lg, l_kind = a_Listener\<rparr>],
         next_address := next_address lg + 1\<rparr>)"

text \<open>
  \<open>remove_if\<close> moves the listeners to keep to the front, and \<open>erase\<close> of one position removes the last one; when no
  listener is found, the position is the end of the list. The listeners have different addresses.
\<close>

definition DetachListener :: "nat \<Rightarrow> cLogger \<Rightarrow> fault + cLogger" where
  "DetachListener a_Listener lg =
     (let kept = filter (\<lambda>l. l_address l \<noteq> a_Listener) (m_LogListeners lg)
      in if length kept = length (m_LogListeners lg) then Inl OutOfRange else Inr (lg\<lparr>m_LogListeners := kept\<rparr>))"

definition two_digits :: "nat \<Rightarrow> AString" where
  "two_digits n = [0x30 + word_of_nat (n div 10), 0x30 + word_of_nat (n mod 10)]"

text \<open>The local time is an hour, a minute and a second.\<close>

definition log_line :: "nat \<times> nat \<times> nat \<Rightarrow> AString \<Rightarrow> AString" where
  "log_line timeinfo a_Message =
     (case timeinfo of (h, m, s) \<Rightarrow>
        ascii ''['' @ two_digits h @ ascii '':'' @ two_digits m @ ascii '':'' @ two_digits s @ ascii ''] '' @ c_str a_Message
        @ [0x0a])"

fun log_all :: "AString \<Rightarrow> eLogLevel \<Rightarrow> cListener list \<Rightarrow> console_output list \<times> files \<Rightarrow> fault + cListener list \<times> console_output list \<times> files" where
  "log_all Line a_LogLevel [] sinks = Inr ([], sinks)"
| "log_all Line a_LogLevel (l # ls) sinks =
     and_then (Listener_Log Line a_LogLevel (l_kind l) sinks) (\<lambda>(k, sinks).
     and_then (log_all Line a_LogLevel ls sinks) (\<lambda>(ls, sinks).
       Inr (l\<lparr>l_kind := k\<rparr> # ls, sinks)))"

definition LogSimple ::
    "nat \<times> nat \<times> nat \<Rightarrow> AString \<Rightarrow> eLogLevel \<Rightarrow> cLogger \<times> console_output list \<times> files \<Rightarrow> fault + cLogger \<times> console_output list \<times> files" where
  "LogSimple timeinfo a_Message a_LogLevel s =
     (case s of (lg, sinks) \<Rightarrow>
        and_then (log_all (log_line timeinfo a_Message) a_LogLevel (m_LogListeners lg) sinks) (\<lambda>(ls, sinks).
          Inr (lg\<lparr>m_LogListeners := ls\<rparr>, sinks)))"

definition LOG ::
    "nat \<times> nat \<times> nat \<Rightarrow> AString \<Rightarrow> cLogger \<times> console_output list \<times> files \<Rightarrow> fault + cLogger \<times> console_output list \<times> files" where
  "LOG timeinfo Message s = LogSimple timeinfo Message llRegular s"

definition LOGINFO ::
    "nat \<times> nat \<times> nat \<Rightarrow> AString \<Rightarrow> cLogger \<times> console_output list \<times> files \<Rightarrow> fault + cLogger \<times> console_output list \<times> files" where
  "LOGINFO timeinfo Message s = LogSimple timeinfo Message llInfo s"

definition LOGWARNING ::
    "nat \<times> nat \<times> nat \<Rightarrow> AString \<Rightarrow> cLogger \<times> console_output list \<times> files \<Rightarrow> fault + cLogger \<times> console_output list \<times> files" where
  "LOGWARNING timeinfo Message s = LogSimple timeinfo Message llWarning s"

definition LOGERROR ::
    "nat \<times> nat \<times> nat \<Rightarrow> AString \<Rightarrow> cLogger \<times> console_output list \<times> files \<Rightarrow> fault + cLogger \<times> console_output list \<times> files" where
  "LOGERROR timeinfo Message s = LogSimple timeinfo Message llError s"

section \<open>The output of commands\<close>

definition Accum_Out :: "AString \<Rightarrow> AString \<Rightarrow> AString" where
  "Accum_Out a_Text m_Accum = m_Accum @ a_Text"

definition Callback_Out :: "AString \<Rightarrow> AString \<Rightarrow> AString" where
  "Callback_Out Output m_Accum = Accum_Out (Output @ [0x0a]) m_Accum"

text \<open>The loop over the characters collects the texts it logs; the current line begins at \<open>start\<close>.\<close>

definition Finished_step :: "AString \<Rightarrow> AString list \<times> nat \<Rightarrow> nat \<Rightarrow> AString list \<times> nat" where
  "Finished_step m_Accum s i =
     (case s of (logged, start) \<Rightarrow>
        if m_Accum ! i = 0x0a then (logged @ [substr m_Accum start (i - start)], i + 1) else (logged, start))"

definition Finished_lines :: "AString \<Rightarrow> AString list" where
  "Finished_lines m_Accum =
     (let len = length m_Accum;
          (logged, start) = foldl (Finished_step m_Accum) ([], 0) [0..<len]
      in if start < len then logged @ [drop start m_Accum] else logged)"

fun log_lines ::
    "nat \<times> nat \<times> nat \<Rightarrow> AString list \<Rightarrow> cLogger \<times> console_output list \<times> files \<Rightarrow> fault + cLogger \<times> console_output list \<times> files" where
  "log_lines timeinfo [] s = Inr s"
| "log_lines timeinfo (l # ls) s = and_then (LOG timeinfo (c_str l) s) (log_lines timeinfo ls)"

definition Finished ::
    "nat \<times> nat \<times> nat \<Rightarrow> AString \<Rightarrow> cLogger \<times> console_output list \<times> files \<Rightarrow> fault + AString \<times> cLogger \<times> console_output list \<times> files" where
  "Finished timeinfo m_Accum s = and_then (log_lines timeinfo (Finished_lines m_Accum) s) (\<lambda>s. Inr ([], s))"

section \<open>Attachments\<close>

text \<open>The life of the attachments: made, moved - the one that is moved from keeps its address - and destroyed.\<close>

datatype log_event = Attach listener_kind | Move nat | Destroy nat

fun log_do :: "log_event \<Rightarrow> cLogger \<times> nat list \<Rightarrow> fault + cLogger \<times> nat list" where
  "log_do (Attach k) (lg, held) = (case AttachListener k lg of (a, lg) \<Rightarrow> Inr (lg, held @ [a]))"
| "log_do (Move i) (lg, held) = Inr (lg, held @ [held ! i])"
| "log_do (Destroy i) (lg, held) =
     and_then (DetachListener (held ! i) lg) (\<lambda>lg. Inr (lg, take i held @ drop (i + 1) held))"

fun log_run :: "log_event list \<Rightarrow> cLogger \<times> nat list \<Rightarrow> fault + cLogger \<times> nat list" where
  "log_run [] s = Inr s"
| "log_run (e # es) s = and_then (log_do e s) (log_run es)"

text \<open>The events that name an attachment that is alive.\<close>

fun log_enabled :: "log_event list \<Rightarrow> nat \<Rightarrow> bool" where
  "log_enabled [] n = True"
| "log_enabled (Attach _ # es) n = log_enabled es (n + 1)"
| "log_enabled (Move i # es) n = (i < n \<and> log_enabled es (n + 1))"
| "log_enabled (Destroy i # es) n = (i < n \<and> log_enabled es (n - 1))"

definition moves :: "log_event list \<Rightarrow> bool" where
  "moves es \<longleftrightarrow> (\<exists>i. Move i \<in> set es)"

definition attached :: "cLogger \<times> nat list \<Rightarrow> bool" where
  "attached s \<longleftrightarrow>
     (case s of (lg, held) \<Rightarrow>
        map l_address (m_LogListeners lg) = held \<and> distinct held \<and> (\<forall>a \<in> set held. a < next_address lg))"

lemma filter_other: "distinct xs \<Longrightarrow> i < length xs \<Longrightarrow> filter (\<lambda>x. x \<noteq> xs ! i) xs = take i xs @ drop (i + 1) xs"
proof (induction xs arbitrary: i)
  case (Cons x xs)
  show ?case
  proof (cases i)
    case 0
    have "filter (\<lambda>y. y \<noteq> x) xs = xs" using Cons.prems(1) by (auto intro: filter_True)
    then show ?thesis using 0 by simp
  next
    case (Suc j)
    then show ?thesis using Cons by auto
  qed
qed simp

lemma Detach_attached:
  assumes "attached (lg, held)" and "i < length held"
  shows "\<exists>lg'. DetachListener (held ! i) lg = Inr lg' \<and> attached (lg', take i held @ drop (i + 1) held)"
proof -
  let ?kept = "filter (\<lambda>l. l_address l \<noteq> held ! i) (m_LogListeners lg)"
  have held: "map l_address (m_LogListeners lg) = held" "distinct held" "\<forall>a \<in> set held. a < next_address lg"
    using assms(1) by (simp_all add: attached_def)
  have kept: "map l_address ?kept = take i held @ drop (i + 1) held"
  proof -
    have "map l_address ?kept = filter (\<lambda>a. a \<noteq> held ! i) (map l_address (m_LogListeners lg))" by (simp add: filter_map comp_def)
    then show ?thesis unfolding held(1) using filter_other [OF held(2) assms(2)] by simp
  qed
  have "length (take i held @ drop (i + 1) held) < length held" using assms(2) by simp
  then have "length ?kept < length (m_LogListeners lg)" using kept held(1) by (metis length_map)
  moreover have "distinct (take i held @ drop (i + 1) held)"
    using filter_other [OF held(2) assms(2)] held(2) by (metis distinct_filter)
  ultimately show ?thesis
    using held(3) kept by (auto simp: DetachListener_def attached_def Let_def dest: in_set_takeD in_set_dropD)
qed

theorem attachments_hold_the_listeners:
  assumes "log_enabled es (length held)" and "\<not> moves es" and "attached (lg, held)"
  shows "\<exists>s'. log_run es (lg, held) = Inr s' \<and> attached s'"
  using assms
proof (induction es arbitrary: lg held)
  case (Cons e es)
  have es: "\<not> moves es" using Cons.prems(2) by (auto simp: moves_def)
  show ?case
  proof (cases e)
    case (Attach k)
    have "attached (snd (AttachListener k lg), held @ [fst (AttachListener k lg)])"
      using Cons.prems(3) by (auto simp: attached_def AttachListener_def)
    then show ?thesis using Cons.IH [OF _ es] Cons.prems(1) Attach by (simp add: AttachListener_def)
  next
    case (Move i)
    then show ?thesis using Cons.prems(2) by (auto simp: moves_def)
  next
    case (Destroy i)
    then obtain lg' where "DetachListener (held ! i) lg = Inr lg'" "attached (lg', take i held @ drop (i + 1) held)"
      using Detach_attached [OF Cons.prems(3)] Cons.prems(1) by auto
    then show ?thesis using Cons.IH [OF _ es] Cons.prems(1) Destroy by simp
  qed
qed simp

text \<open>An attachment that was moved detaches its listener twice: the second time \<open>erase\<close> gets the end of the list.\<close>

lemma moved_attachment_detaches_twice: "log_run [Attach k, Move 0, Destroy 0, Destroy 0] (new_cLogger, []) = Inl OutOfRange"
  by (simp add: new_cLogger_def AttachListener_def DetachListener_def)

section \<open>The lines of the log\<close>

lemma cuts_no_delimiter:
  assumes "\<forall>c \<in> set s. \<not> P c"
  shows "cuts P s = (if s = [] then [] else [s])"
proof -
  have "dropWhile (\<lambda>c. \<not> P c) s = []" using assms by simp
  then show ?thesis by (subst cuts.simps) (simp del: dropWhile_eq_Nil_conv)
qed

lemma Finished_step_at:
  "Finished_step s (logged, start) i =
    (if s ! i = 0x0a then (logged @ [substr s start (i - start)], i + 1) else (logged, start))"
  by (simp add: Finished_step_def)

lemma Finished_step_inv:
  assumes "n \<le> length s"
  shows "\<exists>logged start. foldl (Finished_step s) ([], 0) [0..<n] = (logged, start) \<and> start \<le> n \<and>
    (\<forall>c \<in> set (take (n - start) (drop start s)). c \<noteq> 0x0a) \<and> text_lines s = logged @ text_lines (drop start s)"
  using assms
proof (induction n)
  case (Suc n)
  then obtain logged start where f: "foldl (Finished_step s) ([], 0) [0..<n] = (logged, start)" and l: "start \<le> n"
    and c: "\<forall>c \<in> set (take (n - start) (drop start s)). c \<noteq> 0x0a" and t: "text_lines s = logged @ text_lines (drop start s)"
    by auto
  have d: "drop start s = take (n - start) (drop start s) @ s ! n # drop (Suc n) s"
    using Suc.prems l id_take_nth_drop [of "n - start" "drop start s"] by simp
  show ?case
  proof (cases "s ! n = 0x0a")
    case True
    have "text_lines (drop start s) = take (n - start) (drop start s) # text_lines (drop (Suc n) s)"
      unfolding text_lines_def using c by (subst d) (simp only: True, rule cuts_step, blast)
    then show ?thesis using f t True by (simp add: Finished_step_at substr_def)
  next
    case False
    have "take (Suc n - start) (drop start s) = take (n - start) (drop start s) @ [s ! n]"
      using l Suc.prems by (simp add: Suc_diff_le take_Suc_conv_app_nth)
    then show ?thesis using f t False l c by (simp add: Finished_step_at)
  qed
qed simp

lemma Finished_lines_are: "Finished_lines s = text_lines s"
proof -
  obtain logged start where f: "foldl (Finished_step s) ([], 0) [0..<length s] = (logged, start)" and l: "start \<le> length s"
    and c: "\<forall>c \<in> set (drop start s). c \<noteq> 0x0a" and t: "text_lines s = logged @ text_lines (drop start s)"
    using Finished_step_inv [of "length s" s] by auto
  show ?thesis using f l t cuts_no_delimiter [of "drop start s"] c by (auto simp: Finished_lines_def text_lines_def)
qed

text \<open>What a command puts out, text by text, is what is logged, line by line.\<close>

lemma outputs_are_lines:
  assumes "\<forall>t \<in> set ts. 0x0a \<notin> set t"
  shows "Finished_lines (foldl (\<lambda>a t. Callback_Out t a) [] ts) = ts"
proof -
  have "foldl (\<lambda>a t. Callback_Out t a) a ts = a @ concat (map (\<lambda>t. t @ [0x0a]) ts)" for a
    by (induction ts arbitrary: a) (simp_all add: Callback_Out_def Accum_Out_def)
  moreover have "text_lines (concat (map (\<lambda>t. t @ [0x0a]) ts)) = ts"
    using assms by (induction ts) (simp_all add: text_lines_def cuts_step cuts.simps [of _ "[]"])
  ultimately show ?thesis by (simp add: Finished_lines_are)
qed

section \<open>The file of the log\<close>

text \<open>An entry of the log: its time, its text and its level; what a file listener writes for it.\<close>

type_synonym log_entry = "(nat \<times> nat \<times> nat) \<times> AString \<times> eLogLevel"

fun entry_text :: "log_entry \<Rightarrow> AString" where
  "entry_text (timeinfo, msg, level) = LogLevelPrefix level @ log_line timeinfo msg"

fun log_entries :: "log_entry list \<Rightarrow> cLogger \<times> console_output list \<times> files \<Rightarrow> fault + cLogger \<times> console_output list \<times> files" where
  "log_entries [] s = Inr s"
| "log_entries ((timeinfo, msg, level) # es) s = and_then (LogSimple timeinfo msg level s) (log_entries es)"

fun plain_entry :: "log_entry \<Rightarrow> bool" where
  "plain_entry ((h, m, s), msg, level) \<longleftrightarrow> h < 100 \<and> m < 100 \<and> s < 100 \<and> 0 \<notin> set msg \<and> 0x0a \<notin> set msg"

text \<open>The listeners of the program: a console and a file, which is only written to.\<close>

definition is_console :: "listener_kind \<Rightarrow> bool" where
  "is_console k \<longleftrightarrow> (case k of cFileListener _ \<Rightarrow> False | _ \<Rightarrow> True)"

definition console_and_file :: "AString \<Rightarrow> cLogger \<Rightarrow> bool" where
  "console_and_file name lg \<longleftrightarrow>
     (\<exists>c l f st. m_LogListeners lg = [c, l] \<and> is_console (l_kind c) \<and> l_kind l = cFileListener f \<and> m_File f = Some st \<and>
        f_name st = name \<and> f_write st \<and> f_append st \<and> f_last st \<noteq> WasRead)"

lemma console_logs:
  "is_console k \<Longrightarrow> \<exists>out'. Listener_Log msg level k (out, fs) = Inr (k, out', fs)"
  by (cases k) (simp_all add: is_console_def Listener_Log_def)

lemma c_str_no_zero: "0 \<notin> set s \<Longrightarrow> c_str s = s"
  unfolding c_str_def by (rule takeWhile_eq_all_conv [THEN iffD2]) auto

lemma digit_value:
  assumes "n < 10"
  shows "0x30 + word_of_nat n \<noteq> (0 :: u8)" and "0x30 + word_of_nat n \<noteq> (0x0a :: u8)"
proof -
  have "n \<in> {0, 1, 2, 3, 4, 5, 6, 7, 8, 9}" using assms by auto
  then show "0x30 + word_of_nat n \<noteq> (0 :: u8)" "0x30 + word_of_nat n \<noteq> (0x0a :: u8)" by auto
qed

lemma two_digits_plain:
  assumes "n < 100"
  shows "0 \<notin> set (two_digits n)" and "0x0a \<notin> set (two_digits n)"
  using digit_value [of "n div 10"] digit_value [of "n mod 10"] assms by (auto simp: two_digits_def)

lemma entry_parts:
  assumes "plain_entry (timeinfo, msg, level)"
  shows "\<exists>p. log_line timeinfo msg = p @ msg @ [0x0a] \<and> length p = 11 \<and> 0 \<notin> set p \<and> 0x0a \<notin> set p"
proof -
  obtain h m s where t: "timeinfo = (h, m, s)" by (cases timeinfo)
  let ?p = "ascii ''['' @ two_digits h @ ascii '':'' @ two_digits m @ ascii '':'' @ two_digits s @ ascii ''] ''"
  have "log_line timeinfo msg = ?p @ msg @ [0x0a]" using assms by (simp add: t log_line_def c_str_no_zero)
  moreover have "length ?p = 11" by (simp add: ascii_def two_digits_def)
  moreover have "0 \<notin> set ?p" "0x0a \<notin> set ?p" using assms two_digits_plain by (auto simp: t ascii_def)
  ultimately show ?thesis by blast
qed

lemma prefix_plain: "length (LogLevelPrefix level) = 5" "0x0a \<notin> set (LogLevelPrefix level)"
  by (cases level; simp add: LogLevelPrefix_def ascii_def)+

lemma LogSimple_appends:
  assumes "console_and_file name lg" and "plain_entry (timeinfo, msg, level)"
  shows "\<exists>lg' out'. LogSimple timeinfo msg level (lg, out, fs) =
      Inr (lg', out', fs(name \<mapsto> file_text fs name @ entry_text (timeinfo, msg, level))) \<and> console_and_file name lg'"
proof -
  obtain c l f st where ls: "m_LogListeners lg = [c, l]" "is_console (l_kind c)" "l_kind l = cFileListener f"
    and st: "m_File f = Some st" "f_name st = name" "f_write st" "f_append st" "f_last st \<noteq> WasRead"
    using assms(1) by (auto simp: console_and_file_def)
  obtain out' where c: "Listener_Log (log_line timeinfo msg) level (l_kind c) (out, fs) = Inr (l_kind c, out', fs)"
    using console_logs [OF ls(2)] by blast
  obtain p where p: "log_line timeinfo msg = p @ msg @ [0x0a]" "0 \<notin> set p" using entry_parts [OF assms(2)] by blast
  have "0 \<notin> set (log_line timeinfo msg)" using p assms(2) by (cases timeinfo) auto
  then have z: "c_str (log_line timeinfo msg) = log_line timeinfo msg" by (rule c_str_no_zero)
  have "log_line timeinfo msg \<noteq> []" by (simp add: p(1))
  then obtain f' st' where "Listener_Log (log_line timeinfo msg) level (l_kind l) (out', fs) =
      Inr (cFileListener f', out', fs(name \<mapsto> file_text fs name @ entry_text (timeinfo, msg, level)))"
    "m_File f' = Some st'" "f_name st' = name" "f_write st'" "f_append st'" "f_last st' = WasWritten"
    using ls(3) st z by (simp add: Listener_Log_def FileListener_Log_def File_Printf_def File_Write_def fwrite_def Let_def)
  then show ?thesis using c ls by (auto simp: LogSimple_def console_and_file_def)
qed

lemma log_entries_append:
  assumes "console_and_file name lg" and "\<forall>e \<in> set es. plain_entry e" and "fs name \<noteq> None"
  shows "\<exists>lg' out'. log_entries es (lg, out, fs) =
      Inr (lg', out', fs(name \<mapsto> file_text fs name @ concat (map entry_text es)))"
  using assms
proof (induction es arbitrary: lg out fs)
  case Nil
  then show ?case by (auto simp: file_text_def fun_upd_idem)
next
  case (Cons e es)
  obtain timeinfo msg level where e: "e = (timeinfo, msg, level)" by (cases e)
  obtain lg1 out1 where 1: "LogSimple timeinfo msg level (lg, out, fs) =
      Inr (lg1, out1, fs(name \<mapsto> file_text fs name @ entry_text e))" "console_and_file name lg1"
    using LogSimple_appends [OF Cons.prems(1)] Cons.prems(2) e by (metis list.set_intros(1))
  let ?fs1 = "fs(name \<mapsto> file_text fs name @ entry_text e)"
  have present: "?fs1 name \<noteq> None" by simp
  obtain lg' out' where "log_entries es (lg1, out1, ?fs1) = Inr (lg', out', ?fs1(name \<mapsto> file_text ?fs1 name @ concat (map entry_text es)))"
    using Cons.IH [where fs = ?fs1 and out = out1, OF 1(2) _ present] Cons.prems(2) by (metis list.set_intros(2))
  moreover have "?fs1(name \<mapsto> file_text ?fs1 name @ concat (map entry_text es)) =
      fs(name \<mapsto> file_text fs name @ concat (map entry_text (e # es)))"
    by (simp add: file_text_def)
  ultimately have "log_entries (e # es) (lg, out, fs) = Inr (lg', out', fs(name \<mapsto> file_text fs name @ concat (map entry_text (e # es))))"
    using 1(1) by (simp add: e)
  then show ?case by blast
qed

lemma entries_read_back:
  assumes "\<forall>e \<in> set es. plain_entry e"
  shows "map (drop 16) (text_lines (concat (map entry_text es))) = map (\<lambda>(_, msg, _). msg) es"
  using assms
proof (induction es)
  case (Cons e es)
  obtain timeinfo msg level where e: "e = (timeinfo, msg, level)" by (cases e)
  obtain p where p: "log_line timeinfo msg = p @ msg @ [0x0a]" "length p = 11" "0x0a \<notin> set p"
    using entry_parts [of timeinfo msg level] Cons.prems e by auto
  have m: "0x0a \<notin> set msg" using Cons.prems e by (cases timeinfo) auto
  have "entry_text e @ r = (LogLevelPrefix level @ p @ msg) @ 0x0a # r" for r by (simp add: e p(1))
  then have "text_lines (entry_text e @ r) = (LogLevelPrefix level @ p @ msg) # text_lines r" for r
    unfolding text_lines_def using p(3) m prefix_plain(2) [of level] by (simp only:) (rule cuts_step, simp)
  then show ?case using Cons p(2) prefix_plain(1) [of level] e by simp
qed (simp add: text_lines_def cuts.simps)

lemma log_name_plain [simp]: "c_str (log_name seconds) = log_name seconds"
proof (rule c_str_no_zero)
  have "0 \<notin> set (decimal_digits n)" for n using decimal_digits_digits [of n] by (auto simp: list_all_iff is_digit_def)
  then show "0 \<notin> set (log_name seconds)" by (auto simp: log_name_def Printf_d_def ascii_def)
qed

text \<open>
  \<^bold>\<open>C33.\<close> With a console and a file that could be opened, logging never goes wrong, the file holds what it held before, followed by an
  entry for every message in order, and the messages are read back from the lines of the entries behind the level and the
  time. Messages have neither zeros nor line feeds.
\<close>
theorem log_file_complete:
  assumes "MakeFileListener can_write fs seconds = (Some k, fs1)" and "is_console c" and "\<forall>e \<in> set es. plain_entry e"
  shows "\<exists>lg' out'. log_entries es (snd (AttachListener k (snd (AttachListener c new_cLogger))), out, fs1) =
      Inr (lg', out', fs(log_name seconds \<mapsto> file_text fs (log_name seconds) @ concat (map entry_text es))) \<and>
    map (drop 16) (text_lines (concat (map entry_text es))) = map (\<lambda>(_, msg, _). msg) es"
proof -
  let ?name = "log_name seconds"
  obtain f where k: "k = cFileListener f" and o: "File_Open can_write fs ?name fmAppend new_cFile = (True, f, fs1)"
    using assms(1) by (auto simp: MakeFileListener_def FileListener_Open_def split: prod.splits if_splits)
  have fs1: "fs1 = fs(?name \<mapsto> file_text fs ?name)" using File_Open_append(2) [OF o] by simp
  have "m_File f = Some (new_FILE ?name True True True)"
    using o by (auto simp: File_Open_def fopen_def Let_def split: if_splits)
  then have "console_and_file ?name (snd (AttachListener k (snd (AttachListener c new_cLogger))))"
    using assms(2) by (simp add: k console_and_file_def AttachListener_def new_cLogger_def new_FILE_def)
  from log_entries_append [OF this assms(3), of fs1 out] show ?thesis
    using entries_read_back [OF assms(3)] by (auto simp: fs1 file_text_def)
qed

theorem log_file_complete_witness:
  "\<exists>lg' out'. log_entries [((9, 5, 59), ascii ''ready'', llInfo)]
      (snd (AttachListener (the (fst (MakeFileListener (\<lambda>_. True) Map.empty 7)))
        (snd (AttachListener cVanillaCPPConsoleListener new_cLogger))), [], snd (MakeFileListener (\<lambda>_. True) Map.empty 7)) =
    Inr (lg', out', [ascii ''logs/LOG_7.txt'' \<mapsto> ascii ''Info [09:05:59] ready'' @ [0x0a]])"
proof -
  let ?m = "MakeFileListener (\<lambda>_. True) Map.empty 7"
  have m: "?m = (Some (the (fst ?m)), snd ?m)"
    by (simp add: MakeFileListener_def FileListener_Open_def File_Open_def fopen_def)
  have n: "log_name 7 = ascii ''logs/LOG_7.txt''" by (simp add: log_name_def Printf_d_def decimal_digits.simps ascii_def)
  have e: "\<forall>e \<in> set [((9, 5, 59), ascii ''ready'', llInfo)]. plain_entry e" by (simp add: ascii_def)
  show ?thesis
    using log_file_complete [OF m _ e, of cVanillaCPPConsoleListener "[]"]
    by (simp add: n is_console_def file_text_def LogLevelPrefix_def log_line_def two_digits_def ascii_def c_str_def)
qed

end
