(* ===== verification/HexDump.thy ===== *)
theory HexDump
  imports StringUtils
begin

text \<open>
  \<open>CreateHexDump\<close> of \<open>Common/StringUtils.cpp\<close>: it composes every line in an array of 512 characters, and is shown to write the
  layout its comment describes exactly as long as a line fits the array.
\<close>

section \<open>Composing a line\<close>

text \<open>An assignment to \<open>line[pos]\<close>.\<close>

definition put :: "nat \<Rightarrow> u8 \<Rightarrow> u8 list \<Rightarrow> fault + u8 list" where
  "put pos c line = (if pos < length line then Inr (line[pos := c]) else Inl OutOfRange)"

definition HEX :: "u8 \<Rightarrow> u8" where
  "HEX x = (if x > 9 then x + 0x41 - 10 else x + 0x30)"

definition lower_hex :: "nat \<Rightarrow> u8" where
  "lower_hex d = (if d < 10 then 0x30 + word_of_nat d else 0x61 + word_of_nat (d - 10))"

text \<open>\<open>sprintf\<close> of \<open>%08x:\<close>; the rest of the array is filled with blanks.\<close>

definition sprintf_08x :: "u32 \<Rightarrow> AString" where
  "sprintf_08x i = map (\<lambda>k. lower_hex (unat (drop_bit (4 * (7 - k)) i) mod 16)) [0..<8] @ [0x3a]"

definition printable :: "u8 \<Rightarrow> u8" where
  "printable c = (if c \<ge> 0x20 then c else 0x2e)"

text \<open>The loop over the \<open>k\<close> bytes of a line; its results are the array and \<open>q\<close>.\<close>

fun line_loop :: "u8 list \<Rightarrow> nat \<Rightarrow> nat \<Rightarrow> u8 list \<Rightarrow> fault + u8 list \<times> nat" where
  "line_loop [] p q line = Inr (line, q)"
| "line_loop (c # cs) p q line =
     and_then (put p (HEX (drop_bit 4 c)) line) (\<lambda>line.
     and_then (put (p + 1) (HEX (c AND 0xf)) line) (\<lambda>line.
     and_then (put (p + 2) 0x20 line) (\<lambda>line.
     and_then (put q (printable c) line) (\<lambda>line.
       line_loop cs (p + 3) (q + 1) line))))"

definition dump_line :: "nat \<Rightarrow> u8 list \<Rightarrow> nat \<Rightarrow> fault + AString" where
  "dump_line i chunk a_BytesPerLine =
     (let head = sprintf_08x (word_of_nat i);
          line = head @ replicate (512 - length head) 0x20;
          p = 10;
          q = p + 2 + a_BytesPerLine * 3 + 1
      in and_then (line_loop chunk p q line) (\<lambda>(line, q).
         and_then (put q 0x0a line) (\<lambda>line.
         and_then (put (q + 1) 0 line) (\<lambda>line.
           Inr (takeWhile (\<lambda>c. c \<noteq> 0) line)))))"

text \<open>The loop over the data; with no bytes in a line it does not get on.\<close>

function HexDump_loop :: "u8 list \<Rightarrow> nat \<Rightarrow> nat \<Rightarrow> AString \<Rightarrow> fault + AString" where
  "HexDump_loop a_Data a_BytesPerLine i a_Out =
     (if i < length a_Data then
        if a_BytesPerLine = 0 then Inl NoReturn
        else let k = min (length a_Data - i) a_BytesPerLine
             in and_then (dump_line i (take k (drop i a_Data)) a_BytesPerLine) (\<lambda>line.
                  HexDump_loop a_Data a_BytesPerLine (i + a_BytesPerLine) (a_Out @ line))
      else Inr a_Out)"
  by pat_completeness auto
termination
  by (relation "measure (\<lambda>(d, b, i, a). length d - i)") auto

declare HexDump_loop.simps [simp del]

text \<open>The reserved size is divided by the bytes of a line.\<close>

definition CreateHexDump :: "AString \<Rightarrow> u8 list \<Rightarrow> nat \<Rightarrow> fault + AString" where
  "CreateHexDump a_Out a_Data a_BytesPerLine =
     (if a_BytesPerLine = 0 then Inl Misuse else HexDump_loop a_Data a_BytesPerLine 0 a_Out)"

section \<open>The layout\<close>

definition hex_pair :: "u8 \<Rightarrow> AString" where
  "hex_pair c = [HEX (drop_bit 4 c), HEX (c AND 0xf), 0x20]"

text \<open>The offset, the bytes in hexadecimal with room for a whole line of them, and the bytes as characters.\<close>

definition hex_line :: "nat \<Rightarrow> u8 list \<Rightarrow> nat \<Rightarrow> AString" where
  "hex_line i chunk n =
     sprintf_08x (word_of_nat i) @ [0x20] @ concat (map hex_pair chunk) @ replicate (3 * (n - length chunk) + 3) 0x20 @
     map printable chunk @ [0x0a]"

function hex_layout :: "nat \<Rightarrow> nat \<Rightarrow> u8 list \<Rightarrow> AString" where
  "hex_layout n i data =
     (if data = [] \<or> n = 0 then [] else hex_line i (take n data) n @ hex_layout n (i + n) (drop n data))"
  by pat_completeness auto
termination
  by (relation "measure (\<lambda>(n, i, d). length d)") auto

declare hex_layout.simps [simp del]

section \<open>The lines\<close>

lemma put_middle: "put (length a) c (a @ x # b) = Inr (a @ c # b)"
  by (simp add: put_def)

lemma put_end: "length line \<le> pos \<Longrightarrow> put pos c line = Inl OutOfRange"
  by (simp add: put_def)

lemma put_pair:
  "and_then (put (length a) (HEX (drop_bit 4 b)) (a @ 0x20 # 0x20 # 0x20 # t)) (\<lambda>line.
   and_then (put (Suc (length a)) (HEX (b AND 0xf)) line) (\<lambda>line.
   and_then (put (Suc (Suc (length a))) 0x20 line) f)) = f (a @ hex_pair b @ t)"
  by (simp add: put_def nth_append list_update_append hex_pair_def)

lemma line_loop_effect:
  assumes "p = length a" and "q = length a + 3 * length cs + e + length c"
  shows "line_loop cs p q (a @ replicate (3 * length cs + e) 0x20 @ c @ replicate r 0x20) =
    (if length cs \<le> r
     then Inr (a @ concat (map hex_pair cs) @ replicate e 0x20 @ c @ map printable cs @ replicate (r - length cs) 0x20, q + length cs)
     else Inl OutOfRange)"
  using assms
proof (induction cs arbitrary: a c p q r)
  case (Cons b cs)
  let ?rest = "replicate (3 * length cs + e) (0x20 :: u8)"
  let ?a = "a @ hex_pair b"
  have blanks: "replicate (3 * length (b # cs) + e) (0x20 :: u8) = 0x20 # 0x20 # 0x20 # ?rest" by (simp add: numeral_3_eq_3)
  have q: "q = length (?a @ ?rest @ c)" using Cons.prems(2) by (simp add: hex_pair_def)
  show ?case
  proof (cases r)
    case 0
    then have "put q (printable b) (?a @ ?rest @ c @ replicate r 0x20) = Inl OutOfRange" using q by (simp add: put_end)
    then show ?thesis unfolding blanks using Cons.prems(1) 0 by (simp add: put_pair)
  next
    case (Suc s)
    then have "put q (printable b) (?a @ ?rest @ c @ replicate r 0x20) = Inr (?a @ ?rest @ (c @ [printable b]) @ replicate s 0x20)"
      using put_middle [of "?a @ ?rest @ c" "printable b" "0x20" "replicate s 0x20"] q by simp
    moreover have "line_loop cs (p + 3) (q + 1) (?a @ ?rest @ (c @ [printable b]) @ replicate s 0x20) =
        (if length cs \<le> s
         then Inr (?a @ concat (map hex_pair cs) @ replicate e 0x20 @ (c @ [printable b]) @ map printable cs @
                replicate (s - length cs) 0x20, q + 1 + length cs)
         else Inl OutOfRange)"
      by (rule Cons.IH) (use Cons.prems in \<open>simp_all add: hex_pair_def\<close>)
    ultimately show ?thesis unfolding blanks using Cons.prems(1) Suc by (simp add: put_pair)
  qed
qed simp

definition unHEX :: "u8 \<Rightarrow> u8 option" where
  "unHEX h = (if 0x30 \<le> h \<and> h \<le> 0x39 then Some (h - 0x30) else if 0x41 \<le> h \<and> h \<le> 0x46 then Some (h - 0x41 + 10) else None)"

lemma HEX_table:
  "list_all (\<lambda>k. HEX (word_of_nat k) \<noteq> 0 \<and> HEX (word_of_nat k) \<noteq> 0x0a \<and> unHEX (HEX (word_of_nat k)) = Some (word_of_nat k)) [0..<16]"
  by code_simp

lemma nibbles_small: "unat (drop_bit 4 (c :: u8)) < 16" "unat (c AND 0xf) < 16"
  using nibbles(1,2) [of c] by (simp_all add: word_less_nat_alt)

lemma HEX_plain: "HEX (drop_bit 4 c) \<noteq> 0" "HEX (c AND 0xf) \<noteq> 0" "HEX (drop_bit 4 c) \<noteq> 0x0a" "HEX (c AND 0xf) \<noteq> 0x0a"
proof -
  have "HEX d \<noteq> 0 \<and> HEX d \<noteq> 0x0a" if "unat d < 16" for d
    using that HEX_table by (auto simp: list_all_iff dest!: bspec [of _ _ "unat d"])
  then show "HEX (drop_bit 4 c) \<noteq> 0" "HEX (c AND 0xf) \<noteq> 0" "HEX (drop_bit 4 c) \<noteq> 0x0a" "HEX (c AND 0xf) \<noteq> 0x0a"
    using nibbles_small [of c] by simp_all
qed

lemma sprintf_length [simp]: "length (sprintf_08x i) = 9"
  by (simp add: sprintf_08x_def)

lemma lower_hex_table: "list_all (\<lambda>d. lower_hex d \<noteq> 0 \<and> lower_hex d \<noteq> 0x0a) [0..<16]"
  by code_simp

lemma sprintf_plain: "c \<in> set (sprintf_08x i) \<Longrightarrow> c \<noteq> 0 \<and> c \<noteq> 0x0a"
  using lower_hex_table by (auto simp: sprintf_08x_def list_all_iff)

lemma hex_pair_plain: "x \<in> set (hex_pair c) \<Longrightarrow> x \<noteq> 0 \<and> x \<noteq> 0x0a"
  using HEX_plain [of c] by (auto simp: hex_pair_def)

lemma printable_plain: "printable c \<noteq> 0" "printable c \<noteq> 0x0a"
  by (auto simp: printable_def)

text \<open>A line is zero-free and has its only line feed at the end.\<close>

definition line_body :: "nat \<Rightarrow> u8 list \<Rightarrow> nat \<Rightarrow> AString" where
  "line_body i chunk n =
     sprintf_08x (word_of_nat i) @ [0x20] @ concat (map hex_pair chunk) @ replicate (3 * (n - length chunk) + 3) 0x20 @
     map printable chunk"

lemma hex_line_body: "hex_line i chunk n = line_body i chunk n @ [0x0a]"
  by (simp add: hex_line_def line_body_def)

lemma line_body_plain: "\<forall>c \<in> set (line_body i chunk n). c \<noteq> 0 \<and> c \<noteq> 0x0a"
  using sprintf_plain [of _ "word_of_nat i"] hex_pair_plain printable_plain by (auto simp: line_body_def)

lemma line_loop_overrun: "cs \<noteq> [] \<Longrightarrow> length line \<le> q \<Longrightarrow> line_loop cs p q line = Inl OutOfRange"
  by (cases cs) (simp_all add: put_def)

lemma dump_line_unfold:
  "dump_line i chunk n =
    and_then (line_loop chunk 10 (3 * n + 13) (sprintf_08x (word_of_nat i) @ replicate 503 0x20)) (\<lambda>(line, q).
    and_then (put q 0x0a line) (\<lambda>line. and_then (put (q + 1) 0 line) (\<lambda>line. Inr (takeWhile (\<lambda>c. c \<noteq> 0) line))))"
proof -
  have "10 + 2 + n * 3 + 1 = 3 * n + (13 :: nat)" by simp
  then show ?thesis by (simp only: dump_line_def Let_def sprintf_length) simp
qed

lemma fits_room:
  assumes "3 * n + k \<le> 497" and "3 * n + 13 \<le> (512 :: nat)"
  shows "\<exists>m. 512 - (3 * n + 13) - k = Suc (Suc m)"
  using assms by (intro exI [of _ "497 - (3 * n + k)"]) simp

lemma dump_line_effect:
  assumes "chunk \<noteq> []" and "length chunk \<le> n"
  shows "dump_line i chunk n = (if 3 * n + length chunk \<le> 497 then Inr (hex_line i chunk n) else Inl OutOfRange)"
proof (cases "3 * n + 13 \<le> 512")
  case False
  have "line_loop chunk 10 (3 * n + 13) (sprintf_08x (word_of_nat i) @ replicate 503 0x20) = Inl OutOfRange"
    by (rule line_loop_overrun [OF assms(1)]) (use False in simp)
  then show ?thesis using False by (simp add: dump_line_unfold)
next
  case True
  let ?head = "sprintf_08x (word_of_nat i) @ [0x20]" let ?e = "3 * (n - length chunk) + 3" let ?r = "512 - (3 * n + 13)"
  have count: "3 * length chunk + ?e = 3 * n + 3" using assms(2) by (simp add: diff_mult_distrib2)
  have "replicate 503 (0x20 :: u8) = replicate (1 + (3 * n + 3) + ?r) 0x20" using True by (intro arg_cong2 [where f = replicate]) simp_all
  also have "\<dots> = [0x20] @ replicate (3 * length chunk + ?e) 0x20 @ [] @ replicate ?r 0x20"
    unfolding count replicate_add by simp
  finally have line: "sprintf_08x (word_of_nat i) @ replicate 503 0x20 =
      ?head @ replicate (3 * length chunk + ?e) 0x20 @ [] @ replicate ?r 0x20" by simp
  have loop: "line_loop chunk 10 (3 * n + 13) (sprintf_08x (word_of_nat i) @ replicate 503 0x20) =
      (if length chunk \<le> ?r then Inr (line_body i chunk n @ replicate (?r - length chunk) 0x20, 3 * n + 13 + length chunk)
       else Inl OutOfRange)"
    unfolding line by (subst line_loop_effect) (use count in \<open>simp_all add: line_body_def\<close>)
  have len: "length (line_body i chunk n) = 3 * n + 13 + length chunk"
    using count by (simp add: line_body_def length_concat comp_def hex_pair_def sum_list_triv)
  show ?thesis
  proof (cases "3 * n + length chunk \<le> 497")
    case fits: True
    then obtain m where "?r - length chunk = Suc (Suc m)" by (metis (no_types) fits_room True)
    then have m: "line_loop chunk 10 (3 * n + 13) (sprintf_08x (word_of_nat i) @ replicate 503 0x20) =
        Inr (line_body i chunk n @ 0x20 # 0x20 # replicate m 0x20, length (line_body i chunk n))"
      using loop len fits True by simp
    have "put (Suc (length (line_body i chunk n))) 0 (line_body i chunk n @ 0x0a # 0x20 # t) = Inr (line_body i chunk n @ 0x0a # 0 # t)" for t
      using put_middle [of "line_body i chunk n @ [0x0a]" 0 "0x20" t] by simp
    moreover have "takeWhile (\<lambda>c. c \<noteq> 0) (line_body i chunk n @ 0x0a # 0 # t) = line_body i chunk n @ [0x0a]" for t
      using line_body_plain [of i chunk n] by (subst takeWhile_append2) auto
    ultimately show ?thesis
      using m fits by (simp add: dump_line_unfold put_middle hex_line_body)
  next
    case False
    show ?thesis
    proof (cases "length chunk \<le> ?r")
      case True
      then have "?r - length chunk < 2" using False by simp
      then show ?thesis using loop len False True by (auto simp: dump_line_unfold put_def)
    qed (use loop False in \<open>simp add: dump_line_unfold\<close>)
  qed
qed

section \<open>The dump\<close>

lemma HexDump_loop_effect:
  assumes "0 < n"
  shows "HexDump_loop d n i a =
    (if i < length d \<and> 497 < 3 * n + min (length d - i) n then Inl OutOfRange else Inr (a @ hex_layout n i (drop i d)))"
  using assms
proof (induction d n i a rule: HexDump_loop.induct)
  case (1 d n i a)
  let ?chunk = "take (min (length d - i) n) (drop i d)"
  show ?case
  proof (cases "i < length d")
    case False
    then show ?thesis by (simp add: HexDump_loop.simps [of d n i a] hex_layout.simps)
  next
    case True
    have chunk: "?chunk \<noteq> []" "length ?chunk = min (length d - i) n" "?chunk = take n (drop i d)" using True "1.prems" by (auto simp: min_def)
    note line = dump_line_effect [OF chunk(1), of n i]
    have unfold: "HexDump_loop d n i a = and_then (dump_line i ?chunk n) (\<lambda>line. HexDump_loop d n (i + n) (a @ line))"
      using True "1.prems" by (subst HexDump_loop.simps) (simp add: Let_def)
    show ?thesis
    proof (cases "497 < 3 * n + min (length d - i) n")
      case big: True
      then show ?thesis using line True chunk(2) by (simp add: unfold)
    next
      case False
      then have "dump_line i ?chunk n = Inr (hex_line i (take n (drop i d)) n)" using line chunk(2,3) by simp
      moreover have "\<not> 497 < 3 * n + min (length d - (i + n)) n"
      proof -
        have "min (length d - (i + n)) n \<le> min (length d - i) n" by simp
        then show ?thesis using False by linarith
      qed
      ultimately show ?thesis
        using "1.IH" [OF True _ refl] "1.prems" True False
        by (simp add: unfold hex_layout.simps [of n i "drop i d"] add.commute)
    qed
  qed
qed

text \<open>
  \<^bold>\<open>C25.\<close> \<open>CreateHexDump\<close> appends the documented layout to the text when a line of it fits the array of 512 characters, and
  writes behind the array otherwise; without bytes in a line it divides by zero.
\<close>
theorem CreateHexDump_correct:
  "CreateHexDump a_Out d n =
    (if n = 0 then Inl Misuse
     else if d \<noteq> [] \<and> 497 < 3 * n + min (length d) n then Inl OutOfRange
     else Inr (a_Out @ hex_layout n 0 d))"
  by (simp add: CreateHexDump_def HexDump_loop_effect)

section \<open>Reading a dump back\<close>

fun read_pairs :: "AString \<Rightarrow> u8 list" where
  "read_pairs (a # b # c # r) =
     (case (unHEX a, unHEX b) of (Some hi, Some lo) \<Rightarrow> (push_bit 4 hi OR lo) # read_pairs r | _ \<Rightarrow> [])"
| "read_pairs _ = []"

lemma read_pairs_back:
  "read_pairs (concat (map hex_pair cs) @ 0x20 # r) = cs"
proof (induction cs)
  case Nil
  have "unHEX 0x20 = None" by (simp add: unHEX_def)
  then show ?case by (cases r; cases "tl r") (auto split: list.split)
next
  case (Cons c cs)
  have "unHEX (HEX d) = Some d" if "unat d < 16" for d
    using that HEX_table by (auto simp: list_all_iff dest!: bspec [of _ _ "unat d"])
  then have "unHEX (HEX (drop_bit 4 c)) = Some (drop_bit 4 c)" "unHEX (HEX (c AND 0xf)) = Some (c AND 0xf)"
    using nibbles_small [of c] by simp_all
  then show ?case using Cons nibbles(3) [of c] by (simp add: hex_pair_def)
qed

definition undump :: "AString \<Rightarrow> u8 list" where
  "undump s = concat (map (\<lambda>l. read_pairs (drop 10 l)) (text_lines s))"

lemma undump_line:
  "undump (hex_line i chunk n @ s) = chunk @ undump s"
proof -
  have "text_lines (hex_line i chunk n @ s) = line_body i chunk n # text_lines s"
    unfolding text_lines_def hex_line_body using cuts_step [of "0x0a" "line_body i chunk n" s] line_body_plain [of i chunk n]
    by fastforce
  moreover have "drop 10 (line_body i chunk n) =
      concat (map hex_pair chunk) @ 0x20 # replicate (3 * (n - length chunk) + 2) 0x20 @ map printable chunk"
    by (simp add: line_body_def numeral_3_eq_3)
  ultimately show ?thesis by (simp add: undump_def read_pairs_back)
qed

lemma undump_layout: "0 < n \<Longrightarrow> undump (hex_layout n i d) = d"
proof (induction n i d rule: hex_layout.induct)
  case (1 n i d)
  have "undump [] = []" by (simp add: undump_def text_lines_def cuts.simps)
  then show ?case using 1 by (subst hex_layout.simps) (simp add: undump_line)
qed

text \<open>Whatever the bytes of a line, the data is read back from its dump.\<close>

theorem hexdump_roundtrip:
  assumes "CreateHexDump [] d n = Inr s"
  shows "undump s = d"
  using assms by (auto simp: CreateHexDump_correct undump_layout split: if_splits)

end
