(* ===== verification/UdpEndpoint.thy ===== *)
theory UdpEndpoint
  imports Network
begin

text \<open>
  Datagrams (\<open>Server/OSSupport/UDPEndpointImpl.cpp\<close>): the endpoint with its one or two sockets, sending to addresses and, after a
  lookup, to names. What the system and libevent answer is a parameter; the sockets that are open and every call of
  \<open>sendto\<close> are recorded. The chat server does not use it.
\<close>

section \<open>Addresses\<close>

text \<open>
  An IPv4 address is the word \<open>s_addr\<close> of its bytes in network order, an IPv6 address its sixteen bytes. A port is the number it
  stands for.
\<close>

datatype udp_addr = In4 u32 u16 | In6 "u8 list" u16 | InOther

fun udp_port :: "udp_addr \<Rightarrow> u16" where
  "udp_port (In4 _ p) = p"
| "udp_port (In6 _ p) = p"
| "udp_port InOther = 0"

definition ConvertIPv4ToMappedIPv6 :: "u32 \<Rightarrow> u16 \<Rightarrow> udp_addr" where
  "ConvertIPv4ToMappedIPv6 s_addr p =
     In6 (replicate 10 0 @ [0xff, 0xff] @
          [ucast (s_addr AND 0xff), ucast (drop_bit 8 s_addr AND 0xff), ucast (drop_bit 16 s_addr AND 0xff),
           ucast (drop_bit 24 s_addr AND 0xff)]) p"

definition IsValidSocket :: "int \<Rightarrow> bool" where
  "IsValidSocket a_Socket \<longleftrightarrow> a_Socket \<ge> 0"

section \<open>State\<close>

record cUDPEndpointImpl =
  udp_Port :: u16
  udp_MainSock :: int
  udp_IsMainSockIPv6 :: bool
  udp_SecondarySock :: int
  udp_MainEvent :: bool
  udp_SecondaryEvent :: bool

text \<open>Data that waits for the lookup of a name; the addresses are those found so far.\<close>

record cUDPSendAfterLookup =
  m_Data :: AString
  m_LookupPort :: u16
  m_LookupMainSock :: int
  m_LookupSecondSock :: int
  m_LookupIsMainSockIPv6 :: bool
  m_AddrIPv4 :: "(u32 \<times> u16) option"
  m_AddrIPv6 :: "(u8 list \<times> u16) option"

datatype udp_call = Udp_OnError int AString | Udp_OnReceivedData AString AString u16

text \<open>\<open>sent\<close>: the socket, the data and the address of every \<open>sendto\<close>.\<close>

record udp_world =
  endpoint :: cUDPEndpointImpl
  sockets :: "int list"
  udp_calls :: "udp_call list"
  sent :: "(int \<times> AString \<times> udp_addr) list"
  lookups :: "cUDPSendAfterLookup list"

text \<open>
  The answers of the system: beside those for a listening port, the descriptors of the sockets it makes, the port of the main
  socket (\<open>None\<close>: an unknown family) and whether libevent makes an event.
\<close>

record udp_answers = listen_answers +
  main_fd :: int
  second_fd :: int
  bound_port :: "u16 option"
  makes_event :: "listen_socket \<Rightarrow> bool"

definition new_cUDPEndpointImpl :: cUDPEndpointImpl where
  "new_cUDPEndpointImpl =
     \<lparr>udp_Port = 0, udp_MainSock = - 1, udp_IsMainSockIPv6 = True, udp_SecondarySock = - 1, udp_MainEvent = False,
      udp_SecondaryEvent = False\<rparr>"

definition upd_endpoint :: "(cUDPEndpointImpl \<Rightarrow> cUDPEndpointImpl) \<Rightarrow> udp_world \<Rightarrow> udp_world" where
  "upd_endpoint f w = w\<lparr>endpoint := f (endpoint w)\<rparr>"

definition evutil_closesocket :: "int \<Rightarrow> udp_world \<Rightarrow> udp_world" where
  "evutil_closesocket s w = w\<lparr>sockets := remove1 s (sockets w)\<rparr>"

definition udp_error :: "udp_answers \<Rightarrow> listen_step \<Rightarrow> AString \<Rightarrow> u16 \<Rightarrow> udp_world \<Rightarrow> udp_world" where
  "udp_error env st what a_Port w =
     w\<lparr>udp_calls := udp_calls w @ [Udp_OnError (error_of env st)
         (what @ Printf_d (uint a_Port) @ (if st = MakeNonblocking then ascii '' nonblocking: '' else ascii '': '')
          @ error_string env (error_of env st))]\<rparr>"

section \<open>Opening and closing\<close>

text \<open>
  The main socket is made and bound; failing to make the port reusable is only logged. When binding fails, the socket is
  closed, and its descriptor stays in \<open>m_MainSock\<close>.
\<close>

definition Udp_open_main :: "udp_answers \<Rightarrow> u16 \<Rightarrow> udp_world \<Rightarrow> bool \<times> udp_world" where
  "Udp_open_main env a_Port w =
     (let w = upd_endpoint (\<lambda>x. x\<lparr>udp_IsMainSockIPv6 := True\<rparr>) w
      in if \<not> IPv6Socket env then
           (let w = upd_endpoint (\<lambda>x. x\<lparr>udp_IsMainSockIPv6 := False\<rparr>) w
            in if \<not> IPv4Socket env then
                 (False, udp_error env CreateSocket (ascii ''Cannot create UDP socket for port '') a_Port
                    (upd_endpoint (\<lambda>x. x\<lparr>udp_MainSock := - 1\<rparr>) w))
               else
                 let w = upd_endpoint (\<lambda>x. x\<lparr>udp_MainSock := main_fd env\<rparr>) (w\<lparr>sockets := main_fd env # sockets w\<rparr>)
                 in if \<not> step_ok env MainSock BindSocket then
                      (False, evutil_closesocket (main_fd env)
                         (udp_error env BindSocket (ascii ''Cannot bind UDP port '') a_Port w))
                    else (True, w))
         else
           let w = upd_endpoint (\<lambda>x. x\<lparr>udp_MainSock := main_fd env\<rparr>) (w\<lparr>sockets := main_fd env # sockets w\<rparr>)
           in if \<not> step_ok env MainSock BindSocket then
                (False, evutil_closesocket (main_fd env)
                   (udp_error env BindSocket (ascii ''Cannot bind to UDP port '') a_Port w))
              else (True, w))"

text \<open>The second socket: whatever fails, the main one works, and the second is closed and forgotten.\<close>

definition Udp_open_second :: "udp_answers \<Rightarrow> udp_world \<Rightarrow> fault + udp_world" where
  "Udp_open_second env w =
     (if \<not> step_ok env SecondSock CreateSocket then Inr (upd_endpoint (\<lambda>x. x\<lparr>udp_SecondarySock := - 1\<rparr>) w)
      else
        let w = upd_endpoint (\<lambda>x. x\<lparr>udp_SecondarySock := second_fd env\<rparr>) (w\<lparr>sockets := second_fd env # sockets w\<rparr>)
        in if \<not> step_ok env SecondSock Reuse \<or> \<not> step_ok env SecondSock MakeNonblocking \<or> \<not> step_ok env SecondSock BindSocket
           then Inr (upd_endpoint (\<lambda>x. x\<lparr>udp_SecondarySock := - 1\<rparr>) (evutil_closesocket (second_fd env) w))
           else if \<not> makes_event env SecondSock then Inl OutOfRange
           else Inr (upd_endpoint (\<lambda>x. x\<lparr>udp_SecondaryEvent := True\<rparr>) w))"

text \<open>\<open>event_add\<close> dereferences the event, which is null when libevent could not make it.\<close>

definition Udp_Open :: "udp_answers \<Rightarrow> u16 \<Rightarrow> udp_world \<Rightarrow> fault + udp_world" where
  "Udp_Open env a_Port w =
     (case Udp_open_main env a_Port w of
        (False, w) \<Rightarrow> Inr w
      | (True, w) \<Rightarrow>
          if \<not> step_ok env MainSock MakeNonblocking then
            Inr (evutil_closesocket (main_fd env)
              (udp_error env MakeNonblocking (ascii ''Cannot make socket on UDP port '') a_Port w))
          else if \<not> makes_event env MainSock then Inl OutOfRange
          else
            let w = upd_endpoint (\<lambda>x. x\<lparr>udp_MainEvent := True\<rparr>) w;
                w = (case bound_port env of None \<Rightarrow> w | Some p \<Rightarrow> upd_endpoint (\<lambda>x. x\<lparr>udp_Port := p\<rparr>) w)
            in if \<not> (IPv6Socket env \<and> NeedsTwoSockets env) then Inr w else Udp_open_second env w)"

definition CreateUDPEndpoint :: "udp_answers \<Rightarrow> u16 \<Rightarrow> int list \<Rightarrow> fault + udp_world" where
  "CreateUDPEndpoint env a_Port socks =
     Udp_Open env a_Port \<lparr>endpoint = new_cUDPEndpointImpl, sockets = socks, udp_calls = [], sent = [], lookups = []\<rparr>"

definition Udp_IsOpen :: "udp_world \<Rightarrow> bool" where
  "Udp_IsOpen w \<longleftrightarrow> udp_Port (endpoint w) \<noteq> 0"

definition Udp_GetPort :: "udp_world \<Rightarrow> u16" where
  "Udp_GetPort w = udp_Port (endpoint w)"

definition Udp_Close :: "udp_world \<Rightarrow> udp_world" where
  "Udp_Close w =
     (if udp_Port (endpoint w) = 0 then w
      else
        let w = upd_endpoint (\<lambda>x. x\<lparr>udp_MainEvent := False, udp_SecondaryEvent := False\<rparr>) w;
            w = evutil_closesocket (udp_MainSock (endpoint w)) w;
            w = evutil_closesocket (udp_SecondarySock (endpoint w)) w
        in upd_endpoint (\<lambda>x. x\<lparr>udp_MainSock := - 1, udp_SecondarySock := - 1, udp_Port := 0\<rparr>) w)"

section \<open>Sending and receiving\<close>

text \<open>\<open>NumSent\<close> is what \<open>sendto\<close> answers for a socket, data and an address.\<close>

definition udp_sendto ::
    "(int \<Rightarrow> AString \<Rightarrow> udp_addr \<Rightarrow> int) \<Rightarrow> int \<Rightarrow> AString \<Rightarrow> udp_addr \<Rightarrow> udp_world \<Rightarrow> bool \<times> udp_world" where
  "udp_sendto NumSent s payload a w = (NumSent s payload a > 0, w\<lparr>sent := sent w @ [(s, payload, a)]\<rparr>)"

text \<open>\<open>parse\<close> reads an address without a port; \<open>None\<close>: it is a name, which is looked up.\<close>

definition Udp_Send ::
    "(AString \<Rightarrow> udp_addr option) \<Rightarrow> (int \<Rightarrow> AString \<Rightarrow> udp_addr \<Rightarrow> int) \<Rightarrow> AString \<Rightarrow> AString \<Rightarrow> u16 \<Rightarrow> udp_world \<Rightarrow>
     bool \<times> udp_world" where
  "Udp_Send parse NumSent a_Payload a_Host a_Port w =
     (let x = endpoint w
      in case parse (c_str a_Host) of
           None \<Rightarrow>
             (True, w\<lparr>lookups := lookups w @ [\<lparr>m_Data = a_Payload, m_LookupPort = a_Port, m_LookupMainSock = udp_MainSock x,
                m_LookupSecondSock = udp_SecondarySock x, m_LookupIsMainSockIPv6 = udp_IsMainSockIPv6 x, m_AddrIPv4 = None,
                m_AddrIPv6 = None\<rparr>]\<rparr>)
         | Some (In4 ip _) \<Rightarrow>
             if udp_IsMainSockIPv6 x then
               if IsValidSocket (udp_SecondarySock x) then udp_sendto NumSent (udp_SecondarySock x) a_Payload (In4 ip a_Port) w
               else udp_sendto NumSent (udp_MainSock x) a_Payload (ConvertIPv4ToMappedIPv6 ip a_Port) w
             else udp_sendto NumSent (udp_MainSock x) a_Payload (In4 ip a_Port) w
         | Some (In6 ip _) \<Rightarrow> udp_sendto NumSent (udp_MainSock x) a_Payload (In6 ip a_Port) w
         | Some InOther \<Rightarrow> (False, w))"

definition Udp_OnNameResolvedV4 :: "u32 \<Rightarrow> cUDPSendAfterLookup \<Rightarrow> cUDPSendAfterLookup" where
  "Udp_OnNameResolvedV4 a_IP q = (if m_AddrIPv4 q = None then q\<lparr>m_AddrIPv4 := Some (a_IP, m_LookupPort q)\<rparr> else q)"

definition Udp_OnNameResolvedV6 :: "u8 list \<Rightarrow> cUDPSendAfterLookup \<Rightarrow> cUDPSendAfterLookup" where
  "Udp_OnNameResolvedV6 a_IP q = (if m_AddrIPv6 q = None then q\<lparr>m_AddrIPv6 := Some (a_IP, m_LookupPort q)\<rparr> else q)"

definition Udp_OnFinished ::
    "(int \<Rightarrow> AString \<Rightarrow> udp_addr \<Rightarrow> int) \<Rightarrow> cUDPSendAfterLookup \<Rightarrow> udp_world \<Rightarrow> udp_world" where
  "Udp_OnFinished NumSent q w =
     (if m_LookupIsMainSockIPv6 q then
        (case m_AddrIPv6 q of
           Some (ip, p) \<Rightarrow> snd (udp_sendto NumSent (m_LookupMainSock q) (m_Data q) (In6 ip p) w)
         | None \<Rightarrow>
             (case m_AddrIPv4 q of
                Some (ip, p) \<Rightarrow>
                  if m_LookupSecondSock q \<noteq> - 1 then
                    snd (udp_sendto NumSent (m_LookupSecondSock q) (m_Data q) (In4 ip p) w)
                  else snd (udp_sendto NumSent (m_LookupMainSock q) (m_Data q) (ConvertIPv4ToMappedIPv6 ip p) w)
              | None \<Rightarrow> w))
      else
        case m_AddrIPv4 q of
          None \<Rightarrow> w
        | Some (ip, p) \<Rightarrow> snd (udp_sendto NumSent (m_LookupMainSock q) (m_Data q) (In4 ip p) w))"

text \<open>A socket can be read; \<open>received\<close> is what \<open>recvfrom\<close> delivers, \<open>ntop\<close> the text of an address.\<close>

definition EV_READ :: "16 word" where "EV_READ = 0x02"

definition Udp_Callback ::
    "(AString \<times> udp_addr) option \<Rightarrow> (udp_addr \<Rightarrow> AString) \<Rightarrow> 16 word \<Rightarrow> udp_world \<Rightarrow> udp_world" where
  "Udp_Callback received ntop a_What w =
     (if a_What AND EV_READ \<noteq> 0 then
        case received of
          None \<Rightarrow> w
        | Some (_, InOther) \<Rightarrow> w
        | Some (buf, sa) \<Rightarrow> w\<lparr>udp_calls := udp_calls w @ [Udp_OnReceivedData (take 65536 buf) (ntop sa) (udp_port sa)]\<rparr>
      else w)"

text \<open>\<open>setsockopt\<close> with an \<open>int\<close> or a \<open>char\<close>; the sockets for which broadcasts are enabled.\<close>

definition EnableBroadcasts :: "(int \<Rightarrow> bool \<Rightarrow> bool) \<Rightarrow> udp_world \<Rightarrow> int list" where
  "EnableBroadcasts sets w =
     (let m = udp_MainSock (endpoint w); s = udp_SecondarySock (endpoint w)
      in if \<not> sets m True then
           (if \<not> sets m False then []
            else m # (if IsValidSocket s \<and> sets s False then [s] else []))
         else m # (if IsValidSocket s \<and> sets s True then [s] else []))"

section \<open>The sockets of an endpoint\<close>

lemmas udp_simps = upd_endpoint_def evutil_closesocket_def udp_error_def

text \<open>What the system guarantees of an attempt: new descriptors, and a port for a socket that is bound.\<close>

definition udp_system :: "udp_answers \<Rightarrow> int list \<Rightarrow> bool" where
  "udp_system env socks \<longleftrightarrow>
     main_fd env \<ge> 0 \<and> second_fd env \<ge> 0 \<and> main_fd env \<noteq> second_fd env \<and> main_fd env \<notin> set socks \<and>
     second_fd env \<notin> set socks \<and> (\<forall>s \<in> set socks. s \<ge> 0) \<and> (\<exists>p. p \<noteq> 0 \<and> bound_port env = Some p)"

text \<open>The sockets an endpoint owns: none when it is closed.\<close>

definition owned :: "udp_world \<Rightarrow> int list" where
  "owned w =
     (if \<not> Udp_IsOpen w then []
      else (if udp_SecondarySock (endpoint w) = - 1 then [] else [udp_SecondarySock (endpoint w)]) @ [udp_MainSock (endpoint w)])"

lemma open_second_owns:
  assumes "udp_system env socks" and "Udp_open_second env w = Inr w'" and "Udp_IsOpen w" and "udp_SecondarySock (endpoint w) = - 1"
    and "sockets w = udp_MainSock (endpoint w) # socks" and "udp_MainSock (endpoint w) = main_fd env"
  shows "sockets w' = owned w' @ socks \<and> Udp_IsOpen w' \<and> udp_MainSock (endpoint w') = main_fd env"
  using assms by (auto simp: Udp_open_second_def udp_simps owned_def Udp_IsOpen_def udp_system_def Let_def split: if_splits)

lemma open_main_owns:
  assumes "udp_system env socks" and "Udp_open_main env a_Port w = (ok, w')" and "sockets w = socks" and "endpoint w = new_cUDPEndpointImpl"
  shows "\<not> Udp_IsOpen w' \<and> (if ok then sockets w' = main_fd env # socks \<and> udp_MainSock (endpoint w') = main_fd env \<and>
      udp_SecondarySock (endpoint w') = - 1 else sockets w' = socks)"
  using assms
  by (auto simp: Udp_open_main_def udp_simps Udp_IsOpen_def new_cUDPEndpointImpl_def udp_system_def Let_def split: if_splits)

text \<open>
  An endpoint that could not be opened leaves no socket behind, one that is open has exactly its one or two sockets, and closing it
  closes them.
\<close>
theorem udp_sockets_owned:
  assumes env: "udp_system env socks" and w: "CreateUDPEndpoint env a_Port socks = Inr w"
  shows "sockets w = owned w @ socks \<and> sockets (Udp_Close w) = socks \<and> \<not> Udp_IsOpen (Udp_Close w)"
proof -
  let ?w0 = "\<lparr>endpoint = new_cUDPEndpointImpl, sockets = socks, udp_calls = [], sent = [], lookups = []\<rparr>"
  obtain ok w1 where m: "Udp_open_main env a_Port ?w0 = (ok, w1)" by (cases "Udp_open_main env a_Port ?w0")
  note m1 = open_main_owns [OF env m]
  have owns: "sockets w = owned w @ socks \<and> (Udp_IsOpen w \<longrightarrow> udp_MainSock (endpoint w) = main_fd env)"
  proof (cases "ok \<and> step_ok env MainSock MakeNonblocking")
    case False
    then show ?thesis using w m m1 env
      by (auto simp: CreateUDPEndpoint_def Udp_Open_def udp_simps owned_def Udp_IsOpen_def udp_system_def split: if_splits)
  next
    case True
    obtain p where p: "p \<noteq> 0" "bound_port env = Some p" using env by (auto simp: udp_system_def)
    let ?w2 = "upd_endpoint (\<lambda>x. x\<lparr>udp_Port := p\<rparr>) (upd_endpoint (\<lambda>x. x\<lparr>udp_MainEvent := True\<rparr>) w1)"
    have w2: "sockets ?w2 = main_fd env # socks" "udp_MainSock (endpoint ?w2) = main_fd env" "udp_SecondarySock (endpoint ?w2) = - 1"
      "Udp_IsOpen ?w2" using m1 True p(1) by (auto simp: udp_simps Udp_IsOpen_def)
    have o: "(if \<not> (IPv6Socket env \<and> NeedsTwoSockets env) then Inr ?w2 else Udp_open_second env ?w2) = Inr w"
      using w m True p(2) by (auto simp: CreateUDPEndpoint_def Udp_Open_def Let_def split: if_splits)
    show ?thesis
    proof (cases "IPv6Socket env \<and> NeedsTwoSockets env")
      case True
      then show ?thesis using open_second_owns [OF env, of ?w2 w] o w2 by simp
    qed (use o w2 in \<open>auto simp: owned_def\<close>)
  qed
  have "\<forall>s \<in> set socks. s \<noteq> - 1" using env by (auto simp: udp_system_def)
  then show ?thesis
    using owns by (auto simp: Udp_Close_def udp_simps owned_def Udp_IsOpen_def Let_def remove1_idem split: if_splits)
qed

theorem udp_sockets_owned_witness:
  "sockets (Udp_Close (projr (CreateUDPEndpoint
     \<lparr>IPv6Socket = True, IPv4Socket = True, NeedsTwoSockets = True, step_ok = \<lambda>_ _. True, error_of = \<lambda>_. 0, error_string = \<lambda>_. [],
      makes_listener = \<lambda>_. True, main_fd = 3, second_fd = 4, bound_port = Some 9, makes_event = \<lambda>_. True\<rparr> 0 [7]))) = [7]"
proof -
  let ?env = "\<lparr>IPv6Socket = True, IPv4Socket = True, NeedsTwoSockets = True, step_ok = \<lambda>_ _. True, error_of = \<lambda>_. 0, error_string = \<lambda>_. [],
      makes_listener = \<lambda>_. True, main_fd = 3, second_fd = 4, bound_port = Some 9, makes_event = \<lambda>_. True\<rparr>"
  have "\<exists>w. CreateUDPEndpoint ?env 0 [7] = Inr w"
    by (simp add: CreateUDPEndpoint_def Udp_Open_def Udp_open_main_def Udp_open_second_def Let_def)
  then obtain w where w: "CreateUDPEndpoint ?env 0 [7] = Inr w" by blast
  have "udp_system ?env [7]" by (simp add: udp_system_def)
  from udp_sockets_owned [OF this w] show ?thesis by (simp add: w)
qed

text \<open>A socket whose port the system does not tell is never closed.\<close>

lemma unknown_port_leaks:
  assumes "CreateUDPEndpoint env a_Port socks = Inr w" and "bound_port env = None"
  shows "Udp_Close w = w"
  using assms
  by (auto simp: CreateUDPEndpoint_def Udp_Open_def Udp_open_main_def Udp_open_second_def udp_simps Udp_Close_def new_cUDPEndpointImpl_def
      Let_def split: if_splits)

section \<open>What is sent, and where\<close>

text \<open>An IPv4 address mapped into IPv6 holds the same four bytes.\<close>

lemma mapped_bytes: "ConvertIPv4ToMappedIPv6 (le_load [a, b, c, d]) p = In6 (replicate 10 0 @ [0xff, 0xff, a, b, c, d]) p"
proof -
  have byte: "ucast (drop_bit (8 * k) (le_load [a, b, c, d] :: u32) AND 0xff) = [a, b, c, d] ! k" if "k < 4" for k
  proof (rule bit_word_eqI)
    fix n assume n: "n < LENGTH(8)"
    have m: "(0xff :: u32) = mask 8" by (simp add: mask_eq_decr_exp)
    have "(8 * k + n) div 8 = k" "(8 * k + n) mod 8 = n" "8 * k + n < 32" using n that by simp_all
    then show "bit (ucast (drop_bit (8 * k) (le_load [a, b, c, d] :: u32) AND 0xff) :: u8) n = bit ([a, b, c, d] ! k) n"
      unfolding m using n that by (simp add: bit_simps bit_le_load del: le_load.simps)
  qed
  show ?thesis using byte [of 0] byte [of 1] byte [of 2] byte [of 3] by (simp add: ConvertIPv4ToMappedIPv6_def)
qed

text \<open>A name that is looked up and has an IPv4 address only gets the datagram that its address would have got.\<close>

definition plain_fds :: "cUDPEndpointImpl \<Rightarrow> bool" where
  "plain_fds x \<longleftrightarrow> udp_SecondarySock x \<ge> - 1"

theorem lookup_sends_the_same:
  assumes "plain_fds (endpoint w)" and "parse (c_str name) = None" and "parse (c_str address) = Some (In4 ip q)"
    and "Udp_Send parse NumSent payload name a_Port w = (True, w1)"
  shows "sent (Udp_OnFinished NumSent (Udp_OnNameResolvedV4 ip (last (lookups w1))) w1) =
    sent (snd (Udp_Send parse NumSent payload address a_Port w))"
  using assms
  by (auto simp: Udp_Send_def Udp_OnFinished_def Udp_OnNameResolvedV4_def udp_sendto_def IsValidSocket_def plain_fds_def Let_def)

text \<open>An endpoint that is closed while a name is looked up still sends, over a descriptor that is no longer its own.\<close>

lemma lookup_outlives_the_endpoint:
  assumes "Udp_Send parse NumSent payload name a_Port w = (True, w1)" and "parse (c_str name) = None"
    and "sockets w = owned w @ socks" and "Udp_IsOpen w" and "udp_SecondarySock (endpoint w) = - 1" and "udp_MainSock (endpoint w) \<notin> set socks"
    and "- 1 \<notin> set socks" and "udp_MainSock (endpoint w) \<noteq> - 1"
  shows "\<exists>a. sent (Udp_OnFinished NumSent (Udp_OnNameResolvedV4 ip (last (lookups w1))) (Udp_Close w1)) =
      sent w @ [(udp_MainSock (endpoint w), payload, a)] \<and> udp_MainSock (endpoint w) \<notin> set (sockets (Udp_Close w1))"
  using assms
  by (auto simp: Udp_Send_def Udp_OnFinished_def Udp_OnNameResolvedV4_def udp_sendto_def Udp_Close_def udp_simps owned_def Udp_IsOpen_def
      Let_def remove1_idem)

text \<open>So does an endpoint that was never open: the descriptor of the socket that could not be bound stays in \<open>m_MainSock\<close>.\<close>

lemma failed_endpoint_sends:
  assumes "IPv6Socket env" and "\<not> step_ok env MainSock BindSocket" and "parse (c_str host) = Some (In6 ip q)" and "main_fd env \<notin> set socks"
  shows "\<exists>w. CreateUDPEndpoint env a_Port socks = Inr w \<and> \<not> Udp_IsOpen w \<and> main_fd env \<notin> set (sockets w) \<and>
    sent (snd (Udp_Send parse NumSent payload host p w)) = [(main_fd env, payload, In6 ip p)]"
  using assms
  by (simp add: CreateUDPEndpoint_def Udp_Open_def Udp_open_main_def udp_simps new_cUDPEndpointImpl_def Udp_IsOpen_def Udp_Send_def
      udp_sendto_def Let_def)

end
