(* ===== verification/Compression.thy ===== *)
theory Compression
  imports Prelude "HOL-Library.Sublist"
begin

text \<open>
  The wrappers of zlib: texts (\<open>Server/StringCompression.cpp\<close>) and files (\<open>Common/OSSupport/GZipFile.cpp\<close>). What zlib does is a
  parameter: a function for each of its operations, over any state \<open>'z\<close> of a stream. The chat server does not use
  them.
\<close>

section \<open>Texts\<close>

definition Z_OK :: int where "Z_OK = 0"
definition Z_STREAM_END :: int where "Z_STREAM_END = 1"

text \<open>\<open>std::string::resize\<close>.\<close>

definition resize :: "AString \<Rightarrow> nat \<Rightarrow> AString" where
  "resize s n = take n s @ replicate (n - length s) 0"

text \<open>
  \<open>compress2\<close> and \<open>uncompress\<close> get the data and the text whose buffer they fill, and give the error code, that text and the
  size of the result.
\<close>

definition CompressString ::
    "(nat \<Rightarrow> nat) \<Rightarrow> (AString \<Rightarrow> int \<Rightarrow> AString \<Rightarrow> int \<times> AString \<times> nat) \<Rightarrow> AString \<Rightarrow> AString \<Rightarrow> int \<Rightarrow> int \<times> AString" where
  "CompressString compressBound compress2 a_Data a_Compressed a_Factor =
     (let a_Compressed = resize a_Compressed (compressBound (length a_Data));
          (errorcode, a_Compressed, CompressedSize) = compress2 a_Data a_Factor a_Compressed
      in if errorcode \<noteq> Z_OK then (errorcode, a_Compressed) else (Z_OK, resize a_Compressed CompressedSize))"

definition UncompressString ::
    "(AString \<Rightarrow> AString \<Rightarrow> int \<times> AString \<times> nat) \<Rightarrow> AString \<Rightarrow> AString \<Rightarrow> nat \<Rightarrow> int \<times> AString" where
  "UncompressString uncompress a_Data a_Uncompressed a_UncompressedSize =
     (let a_Uncompressed = resize a_Uncompressed a_UncompressedSize;
          (errorcode, a_Uncompressed, UncompressedSize) = uncompress a_Data a_Uncompressed
      in if errorcode \<noteq> Z_OK then (errorcode, a_Uncompressed) else (Z_OK, resize a_Uncompressed UncompressedSize))"

text \<open>
  The loop of the streams: \<open>step\<close> is a call of \<open>deflate\<close> or \<open>inflate\<close> with the buffer empty; it gives the code, the bytes it puts
  into the buffer, the input that is left and the state. \<open>None\<close>: the loop does not end.
\<close>

partial_function (option) stream_loop ::
    "('z \<Rightarrow> int \<times> AString \<times> nat \<times> 'z) \<Rightarrow> 'z \<Rightarrow> AString \<Rightarrow> (int \<times> AString) option" where
  "stream_loop step strm text =
     (case step strm of
        (res, Buffer, avail_in, strm) \<Rightarrow>
          if res = Z_OK then
            if avail_in = 0 then Some (Z_OK, text @ Buffer) else stream_loop step strm (text @ Buffer)
          else if res = Z_STREAM_END then Some (Z_OK, text @ Buffer)
          else Some (res, text))"

text \<open>Starting a stream gives its state or an error.\<close>

definition CompressStringGZIP ::
    "(AString \<Rightarrow> int + 'z) \<Rightarrow> ('z \<Rightarrow> int \<times> AString \<times> nat \<times> 'z) \<Rightarrow> AString \<Rightarrow> AString \<Rightarrow> (int \<times> AString) option" where
  "CompressStringGZIP deflateInit2 deflate a_Data a_Compressed =
     (case deflateInit2 a_Data of Inl res \<Rightarrow> Some (res, a_Compressed) | Inr strm \<Rightarrow> stream_loop deflate strm a_Compressed)"

definition UncompressStringGZIP ::
    "(AString \<Rightarrow> int + 'z) \<Rightarrow> ('z \<Rightarrow> int \<times> AString \<times> nat \<times> 'z) \<Rightarrow> AString \<Rightarrow> AString \<Rightarrow> (int \<times> AString) option" where
  "UncompressStringGZIP inflateInit2 inflate a_Data a_Uncompressed =
     (case inflateInit2 a_Data of Inl res \<Rightarrow> Some (res, a_Uncompressed) | Inr strm \<Rightarrow> stream_loop inflate strm a_Uncompressed)"

definition InflateString ::
    "(AString \<Rightarrow> int + 'z) \<Rightarrow> ('z \<Rightarrow> int \<times> AString \<times> nat \<times> 'z) \<Rightarrow> AString \<Rightarrow> AString \<Rightarrow> (int \<times> AString) option" where
  "InflateString inflateInit inflate a_Data a_Uncompressed =
     (case inflateInit a_Data of Inl res \<Rightarrow> Some (res, a_Uncompressed) | Inr strm \<Rightarrow> stream_loop inflate strm a_Uncompressed)"

section \<open>Files\<close>

datatype gz_mode = gz_fmRead | gz_fmWrite

record 'f cGZipFile =
  gz_File :: "'f option"
  gz_Mode :: gz_mode

definition new_cGZipFile :: "'f cGZipFile" where
  "new_cGZipFile = \<lparr>gz_File = None, gz_Mode = gz_fmRead\<rparr>"

definition GZip_Open :: "(AString \<Rightarrow> string \<Rightarrow> 'f option) \<Rightarrow> AString \<Rightarrow> gz_mode \<Rightarrow> 'f cGZipFile \<Rightarrow> bool \<times> 'f cGZipFile" where
  "GZip_Open gzopen a_FileName a_Mode g =
     (if gz_File g \<noteq> None then (False, g)
      else let file = gzopen (c_str a_FileName) (if a_Mode = gz_fmRead then ''r'' else ''w'')
           in (file \<noteq> None, g\<lparr>gz_File := file, gz_Mode := a_Mode\<rparr>))"

definition GZip_Close :: "'f cGZipFile \<Rightarrow> 'f cGZipFile" where
  "GZip_Close g = (if gz_File g \<noteq> None then g\<lparr>gz_File := None\<rparr> else g)"

text \<open>\<open>gzread\<close> gives the number of the bytes it read, or an error, these bytes and the file. \<open>TotalBytes\<close> is an \<open>int\<close>.\<close>

partial_function (option) gz_read_loop ::
    "('f \<Rightarrow> int \<times> AString \<times> 'f) \<Rightarrow> 'f \<Rightarrow> int \<Rightarrow> AString \<Rightarrow> (fault + int \<times> AString \<times> 'f) option" where
  "gz_read_loop gzread file TotalBytes a_Contents =
     (case gzread file of
        (NumBytesRead, Buffer, file) \<Rightarrow>
          if NumBytesRead > 0 then
            if TotalBytes + NumBytesRead \<ge> 2 ^ 31 then Some (Inl SignedOverflow)
            else gz_read_loop gzread file (TotalBytes + NumBytesRead) (a_Contents @ Buffer)
          else Some (Inr (if NumBytesRead \<ge> 0 then TotalBytes else NumBytesRead, a_Contents, file)))"

definition GZip_ReadRestOfFile ::
    "('f \<Rightarrow> int \<times> AString \<times> 'f) \<Rightarrow> AString \<Rightarrow> 'f cGZipFile \<Rightarrow> (fault + int \<times> AString \<times> 'f cGZipFile) option" where
  "GZip_ReadRestOfFile gzread a_Contents g =
     (case gz_File g of
        None \<Rightarrow> Some (Inr (- 1, a_Contents, g))
      | Some file \<Rightarrow>
          if gz_Mode g \<noteq> gz_fmRead then Some (Inr (- 1, a_Contents, g))
          else map_option (\<lambda>r. and_then r (\<lambda>(n, s, file). Inr (n, s, g\<lparr>gz_File := Some file\<rparr>)))
                 (gz_read_loop gzread file 0 a_Contents))"

definition GZip_Write :: "(AString \<Rightarrow> 'f \<Rightarrow> int \<times> 'f) \<Rightarrow> AString \<Rightarrow> 'f cGZipFile \<Rightarrow> bool \<times> 'f cGZipFile" where
  "GZip_Write gzwrite a_Contents g =
     (case gz_File g of
        None \<Rightarrow> (False, g)
      | Some file \<Rightarrow>
          if gz_Mode g \<noteq> gz_fmWrite then (False, g)
          else case gzwrite a_Contents file of (n, file) \<Rightarrow> (n \<noteq> 0, g\<lparr>gz_File := Some file\<rparr>))"

section \<open>What the loop of a stream delivers\<close>

text \<open>
  What zlib says of a stream: calls that come back with \<open>Z_OK\<close> have filled the buffer and want to be repeated, until the call that comes
  back with \<open>Z_STREAM_END\<close>; \<open>t\<close> is all the output.
\<close>

inductive delivers :: "('z \<Rightarrow> int \<times> AString \<times> nat \<times> 'z) \<Rightarrow> 'z \<Rightarrow> AString \<Rightarrow> bool" for step where
  finished: "step s = (Z_STREAM_END, out, n, s') \<Longrightarrow> delivers step s out"
| continued: "step s = (Z_OK, out, n, s') \<Longrightarrow> delivers step s' t \<Longrightarrow> delivers step s (out @ t)"

text \<open>Every call but the last leaves input.\<close>

inductive input_lasts :: "('z \<Rightarrow> int \<times> AString \<times> nat \<times> 'z) \<Rightarrow> 'z \<Rightarrow> bool" for step where
  at_end: "step s = (Z_STREAM_END, out, n, s') \<Longrightarrow> input_lasts step s"
| before: "step s = (Z_OK, out, n, s') \<Longrightarrow> n \<noteq> 0 \<Longrightarrow> input_lasts step s' \<Longrightarrow> input_lasts step s"

lemma stream_codes [simp]: "Z_OK \<noteq> Z_STREAM_END" "Z_STREAM_END \<noteq> Z_OK"
  by (simp_all add: Z_OK_def Z_STREAM_END_def)

lemma input_lasts_step: "input_lasts step s \<Longrightarrow> step s = (Z_OK, out, n, s') \<Longrightarrow> n \<noteq> 0 \<and> input_lasts step s'"
  by (erule input_lasts.cases) auto

text \<open>The loop ends with success on a stream without errors, and has all its output when every call but the last leaves input.\<close>

theorem stream_loop_delivers:
  assumes "delivers step s t"
  shows "\<exists>p. stream_loop step s a = Some (Z_OK, a @ p) \<and> prefix p t \<and> (input_lasts step s \<longrightarrow> p = t)"
  using assms
proof (induction arbitrary: a)
  case (finished s out n s')
  then show ?case by (subst stream_loop.simps) (simp add: prefix_def)
next
  case (continued s out n s' t)
  show ?case
  proof (cases "n = 0")
    case True
    then show ?thesis using continued.hyps input_lasts_step [of step s out n s']
      by (subst stream_loop.simps) (auto simp: prefix_def)
  next
    case False
    obtain p where p: "stream_loop step s' (a @ out) = Some (Z_OK, (a @ out) @ p)" "prefix p t" "input_lasts step s' \<longrightarrow> p = t"
      using continued.IH by blast
    have "stream_loop step s a = Some (Z_OK, a @ out @ p)"
      using continued.hyps(1) False p(1) by (subst stream_loop.simps) simp
    then show ?thesis using continued.hyps(1) p(2,3) input_lasts_step [of step s out n s'] by (intro exI [of _ "out @ p"]) auto
  qed
qed

text \<open>An error of a call is the result, and what was delivered before it is kept.\<close>

lemma stream_loop_error:
  "step s = (res, out, n, s') \<Longrightarrow> res \<noteq> Z_OK \<Longrightarrow> res \<noteq> Z_STREAM_END \<Longrightarrow> stream_loop step s a = Some (res, a)"
  by (subst stream_loop.simps) simp

text \<open>
  A call that takes the last input and fills the buffer ends the loop with success, although there is more output. Such a
  stream is one that takes all its input at once, as zlib does when the input fits its window.
\<close>

definition greedy :: "AString \<Rightarrow> int \<times> AString \<times> nat \<times> AString" where
  "greedy pending = (if length pending \<le> 65536 then (Z_STREAM_END, pending, 0, []) else (Z_OK, take 65536 pending, 0, drop 65536 pending))"

lemma greedy_delivers: "delivers greedy s s"
proof (induction "length s" arbitrary: s rule: less_induct)
  case less
  show ?case
  proof (cases "length s \<le> 65536")
    case True
    then show ?thesis by (intro delivers.finished [where n = 0 and s' = "[]"]) (simp add: greedy_def)
  next
    case False
    have "delivers greedy (drop 65536 s) (drop 65536 s)" by (rule less) (use False in simp)
    then have "delivers greedy s (take 65536 s @ drop 65536 s)"
      by (intro delivers.continued [where n = 0]) (use False in \<open>simp_all add: greedy_def\<close>)
    then show ?thesis by simp
  qed
qed

theorem success_loses_output:
  assumes "length s > 65536"
  shows "delivers greedy s s \<and> CompressStringGZIP Inr greedy s [] = Some (Z_OK, take 65536 s)"
  using assms greedy_delivers [of s]
  by (simp add: CompressStringGZIP_def stream_loop.simps [of greedy s] greedy_def)

section \<open>Reading a compressed file\<close>

text \<open>What zlib says of reading: each call gives some of the bytes that are left, and none at the end.\<close>

inductive gz_delivers :: "('f \<Rightarrow> int \<times> AString \<times> 'f) \<Rightarrow> 'f \<Rightarrow> AString \<Rightarrow> bool" for gzread where
  gz_end: "gzread f = (0, Buffer, f') \<Longrightarrow> gz_delivers gzread f []"
| gz_more: "gzread f = (int (length Buffer), Buffer, f') \<Longrightarrow> Buffer \<noteq> [] \<Longrightarrow> gz_delivers gzread f' t \<Longrightarrow> gz_delivers gzread f (Buffer @ t)"

lemma gz_loop_reads:
  assumes "gz_delivers gzread f t" and "n + int (length t) < 2 ^ 31"
  shows "\<exists>f'. gz_read_loop gzread f n c = Some (Inr (n + int (length t), c @ t, f'))"
  using assms
proof (induction arbitrary: n c)
  case (gz_end f Buffer f')
  then show ?case by (subst gz_read_loop.simps) simp
next
  case (gz_more f Buffer f' t)
  have "\<exists>f''. gz_read_loop gzread f' (n + int (length Buffer)) (c @ Buffer) =
      Some (Inr (n + int (length Buffer) + int (length t), (c @ Buffer) @ t, f''))"
    by (rule gz_more.IH) (use gz_more.prems in simp)
  then show ?case using gz_more.hyps(1,2) gz_more.prems by (subst gz_read_loop.simps) (simp add: add.assoc)
qed

theorem gz_file_read:
  assumes "gz_File g = Some f" and "gz_Mode g = gz_fmRead" and "gz_delivers gzread f t" and "length t < 2 ^ 31"
  shows "\<exists>g'. GZip_ReadRestOfFile gzread c g = Some (Inr (int (length t), c @ t, g'))"
  using gz_loop_reads [OF assms(3), of 0 c] assms(1,2,4) by (auto simp: GZip_ReadRestOfFile_def)

end
