(* ===== verification/CriticalSection.thy ===== *)
theory CriticalSection
  imports Prelude
begin

text \<open>
  Critical sections (\<open>Common/OSSupport/CriticalSection.cpp\<close>): the recursive mutex and the objects that hold and release it for
  a scope. The other theories take what runs inside a critical section as one step. The members of the debug build
  are left out.
\<close>

section \<open>The mutex\<close>

text \<open>The thread that owns it and how often; an owner has locked it at least once.\<close>

record cCriticalSection =
  m_Owner :: "nat option"
  m_Count :: nat

definition new_cCriticalSection :: cCriticalSection where
  "new_cCriticalSection = \<lparr>m_Owner = None, m_Count = 0\<rparr>"

text \<open>\<open>None\<close>: the thread waits.\<close>

definition CS_Lock :: "nat \<Rightarrow> cCriticalSection \<Rightarrow> cCriticalSection option" where
  "CS_Lock t cs =
     (if m_Owner cs = None \<or> m_Owner cs = Some t then Some \<lparr>m_Owner = Some t, m_Count = m_Count cs + 1\<rparr> else None)"

text \<open>Unlocking a mutex of another thread, or of none, is not defined.\<close>

definition CS_Unlock :: "nat \<Rightarrow> cCriticalSection \<Rightarrow> fault + cCriticalSection" where
  "CS_Unlock t cs =
     (if m_Owner cs \<noteq> Some t then Inl Misuse
      else if m_Count cs = 1 then Inr \<lparr>m_Owner = None, m_Count = 0\<rparr>
      else Inr (cs\<lparr>m_Count := m_Count cs - 1\<rparr>))"

section \<open>Holding it for a scope\<close>

text \<open>A \<open>cCSLock\<close> is its member \<open>m_IsLocked\<close>; a \<open>cCSUnlock\<close> has no state but its lock.\<close>

type_synonym cCSLock = bool

definition CSLock_Lock :: "nat \<Rightarrow> cCSLock \<times> cCriticalSection \<Rightarrow> (cCSLock \<times> cCriticalSection) option" where
  "CSLock_Lock t = (\<lambda>(m_IsLocked, cs). map_option (\<lambda>cs. (True, cs)) (CS_Lock t cs))"

definition CSLock_Unlock :: "nat \<Rightarrow> cCSLock \<times> cCriticalSection \<Rightarrow> fault + cCSLock \<times> cCriticalSection" where
  "CSLock_Unlock t = (\<lambda>(m_IsLocked, cs). and_then (CS_Unlock t cs) (\<lambda>cs. Inr (False, cs)))"

definition new_cCSLock :: "nat \<Rightarrow> cCriticalSection \<Rightarrow> (cCSLock \<times> cCriticalSection) option" where
  "new_cCSLock t cs = CSLock_Lock t (False, cs)"

definition CSLock_destructor :: "nat \<Rightarrow> cCSLock \<times> cCriticalSection \<Rightarrow> fault + cCriticalSection" where
  "CSLock_destructor t = (\<lambda>(m_IsLocked, cs). if \<not> m_IsLocked then Inr cs else and_then (CSLock_Unlock t (m_IsLocked, cs)) (\<lambda>(_, cs). Inr cs))"

definition new_cCSUnlock :: "nat \<Rightarrow> cCSLock \<times> cCriticalSection \<Rightarrow> fault + cCSLock \<times> cCriticalSection" where
  "new_cCSUnlock t = CSLock_Unlock t"

definition CSUnlock_destructor :: "nat \<Rightarrow> cCSLock \<times> cCriticalSection \<Rightarrow> (cCSLock \<times> cCriticalSection) option" where
  "CSUnlock_destructor t = CSLock_Lock t"

text \<open>
  What a function does with a critical section: other code, a scope with a \<open>cCSLock\<close>, a scope with a \<open>cCSUnlock\<close> of the innermost
  lock, one after the other.
\<close>

datatype scope = Code | WithLock scope | WithUnlock scope | Then scope scope

text \<open>The run of a thread; the locks of the scopes it is in, the innermost one first. \<open>None\<close>: it waits.\<close>

fun run_scope :: "nat \<Rightarrow> scope \<Rightarrow> cCSLock list \<times> cCriticalSection \<Rightarrow> (fault + cCSLock list \<times> cCriticalSection) option" where
  "run_scope t Code s = Some (Inr s)"
| "run_scope t (WithLock p) (ls, cs) =
     (case new_cCSLock t cs of
        None \<Rightarrow> None
      | Some (l, cs) \<Rightarrow>
          (case run_scope t p (l # ls, cs) of
             None \<Rightarrow> None
           | Some r \<Rightarrow> Some (and_then r (\<lambda>(ls, cs). and_then (CSLock_destructor t (hd ls, cs)) (\<lambda>cs. Inr (tl ls, cs))))))"
| "run_scope t (WithUnlock p) (ls, cs) =
     (case new_cCSUnlock t (hd ls, cs) of
        Inl e \<Rightarrow> Some (Inl e)
      | Inr (l, cs) \<Rightarrow>
          (case run_scope t p (l # tl ls, cs) of
             None \<Rightarrow> None
           | Some (Inl e) \<Rightarrow> Some (Inl e)
           | Some (Inr (ls, cs)) \<Rightarrow>
               (case CSUnlock_destructor t (hd ls, cs) of None \<Rightarrow> None | Some (l, cs) \<Rightarrow> Some (Inr (l # tl ls, cs)))))"
| "run_scope t (Then p q) s =
     (case run_scope t p s of
        None \<Rightarrow> None
      | Some (Inl e) \<Rightarrow> Some (Inl e)
      | Some (Inr s) \<Rightarrow> run_scope t q s)"

section \<open>Scopes are balanced\<close>

text \<open>A \<open>cCSUnlock\<close> is used on a lock that is locked; \<open>b\<close> is the innermost one.\<close>

fun proper :: "scope \<Rightarrow> bool \<Rightarrow> bool" where
  "proper Code b = True"
| "proper (WithLock p) b = proper p True"
| "proper (WithUnlock p) b = (b \<and> proper p False)"
| "proper (Then p q) b = (proper p b \<and> proper q b)"

text \<open>The mutex is owned by the thread as often as its locks are locked.\<close>

definition held_by :: "nat \<Rightarrow> cCSLock list \<times> cCriticalSection \<Rightarrow> bool" where
  "held_by t = (\<lambda>(ls, cs).
     m_Count cs = length (filter id ls) \<and> m_Owner cs = (if m_Count cs = 0 then None else Some t))"

lemma lock_held:
  "held_by t (ls, cs) \<Longrightarrow> \<exists>cs'. new_cCSLock t cs = Some (True, cs') \<and> held_by t (True # ls, cs') \<and> CSLock_destructor t (True, cs') = Inr cs"
  by (cases cs) (auto simp: new_cCSLock_def CSLock_Lock_def CS_Lock_def held_by_def CSLock_destructor_def CSLock_Unlock_def CS_Unlock_def
      split: if_splits)

lemma unlock_held:
  "held_by t (True # ls, cs) \<Longrightarrow> \<exists>cs'. new_cCSUnlock t (True, cs) = Inr (False, cs') \<and> held_by t (False # ls, cs') \<and>
    CSUnlock_destructor t (False, cs') = Some (True, cs)"
  by (cases cs) (auto simp: new_cCSUnlock_def CSUnlock_destructor_def CSLock_Lock_def CS_Lock_def held_by_def CSLock_Unlock_def CS_Unlock_def
      split: if_splits)

text \<open>
  However scopes with locks and scopes that release them are nested, when no lock is released twice a thread that is alone
  never waits, never unlocks what it does not own, and leaves the mutex and its locks as they were.
\<close>
theorem scopes_restore_the_mutex:
  assumes "proper p (ls \<noteq> [] \<and> hd ls)" and "held_by t (ls, cs)"
  shows "run_scope t p (ls, cs) = Some (Inr (ls, cs))"
  using assms
proof (induction p arbitrary: ls cs)
  case (WithLock p)
  obtain cs' where l: "new_cCSLock t cs = Some (True, cs')" "held_by t (True # ls, cs')" "CSLock_destructor t (True, cs') = Inr cs"
    using lock_held [OF WithLock.prems(2)] by blast
  have "run_scope t p (True # ls, cs') = Some (Inr (True # ls, cs'))" by (rule WithLock.IH [OF _ l(2)]) (use WithLock.prems(1) in simp)
  then show ?case using l by simp
next
  case (WithUnlock p)
  then obtain ls' where ls: "ls = True # ls'" by (cases ls) auto
  obtain cs' where u: "new_cCSUnlock t (True, cs) = Inr (False, cs')" "held_by t (False # ls', cs')"
      "CSUnlock_destructor t (False, cs') = Some (True, cs)"
    using unlock_held WithUnlock.prems(2) ls by blast
  have "run_scope t p (False # ls', cs') = Some (Inr (False # ls', cs'))" by (rule WithUnlock.IH [OF _ u(2)]) (use WithUnlock.prems(1) ls in simp)
  then show ?case using u ls by simp
qed simp_all

theorem scopes_restore_the_mutex_witness:
  "run_scope 1 (WithLock (WithUnlock (WithLock Code))) ([], new_cCriticalSection) = Some (Inr ([], new_cCriticalSection))"
  by (rule scopes_restore_the_mutex) (simp_all add: held_by_def new_cCriticalSection_def)

text \<open>
  Releasing the innermost of two locks of the same thread does not release the mutex: a thread that waits there for another one
  holds it.
\<close>

lemma nested_unlock_keeps_the_mutex:
  assumes "held_by t (True # True # ls, cs)"
  shows "\<exists>cs'. new_cCSUnlock t (True, cs) = Inr (False, cs') \<and> m_Owner cs' = Some t \<and> (\<forall>u. u \<noteq> t \<longrightarrow> CS_Lock u cs' = None)"
  using assms by (cases cs) (auto simp: new_cCSUnlock_def CSLock_Unlock_def CS_Unlock_def held_by_def CS_Lock_def)

text \<open>Locking a \<open>cCSLock\<close> that is locked, which the release build does not check, leaves the mutex locked behind the scope.\<close>

lemma double_lock_is_left:
  "\<exists>cs. CSLock_Lock t (True, \<lparr>m_Owner = Some t, m_Count = 1\<rparr>) = Some (True, cs) \<and>
    CSLock_destructor t (True, cs) = Inr \<lparr>m_Owner = Some t, m_Count = 1\<rparr>"
  by (simp add: CSLock_Lock_def CS_Lock_def CSLock_destructor_def CSLock_Unlock_def CS_Unlock_def)

end
