(* ===== verification/Spec2Isabelle.thy ===== *)
theory Spec2Isabelle
  imports Endianness Utf ByteBuffer ByteBufferCodec StringUtils Packetizer Md5 Base64 Server ServerInvariants ServerProperties LoginRace OverridesSettings PeerClientProperties ConductorProperties Calls Segmentation NetworkProperties ServerThreads ThreadPool Queue ServerStart Folders Logging HexDump UdpEndpoint Compression CriticalSection
begin

text \<open>
  P2PChat is a chat program of three parts: a server (\<open>src/Src/Server\<close>), a client (\<open>src/Src/Client\<close>) and
  a library both use (\<open>src/Src/Common\<close>, \<open>src/Include\<close>). Clients log in to the server over TCP, are told
  about each other, and exchange chat messages and call requests that the server forwards. Packets are
  framed by a variable-length integer and composed of typed fields in ring buffers.

  \<^bold>\<open>Theories.\<close> They follow the code from the bottom up.

  \<^item> \<open>Prelude\<close>: machine words and bytes, memory copies, and the results of operations. An operation that
    can go wrong returns a sum: \<open>Inl\<close> of a \<open>fault\<close> where the source has an undefined shift, an access out
    of range, a signed overflow, a failed \<open>VERIFY\<close> or a loop that does not return, \<open>Inr\<close> of the result
    otherwise.
  \<^item> \<open>Endianness\<close> (\<open>Include/Endianness.h\<close>), \<open>ByteBuffer\<close> and \<open>ByteBufferCodec\<close> (\<open>Common/ByteBuffer.cpp\<close>):
    the ring buffer \<open>cByteBuffer\<close> as a record with the members of the class, its raw operations, and its
    typed reads and writes. \<open>ByteBuffer\<close> shows that every sequence of operations is simulated by a bounded
    queue of bytes with a commit mark. \<open>ByteBufferCodec\<close> describes a read by a parser of the unread bytes
    (\<open>reads_as\<close>) and a write by the bytes it appends (\<open>writes_as\<close>); the round trips, the bounds and the one
    fault of the typed operations follow from these descriptions, whatever the position in the ring.
  \<^item> \<open>Utf\<close>, \<open>StringUtils\<close>, \<open>Base64\<close> (\<open>Common/StringUtils.cpp\<close>): the conversions and the text utilities, with
    round trips, the loops that end and those that need not, and the accesses that leave the text.
  \<^item> \<open>Md5\<close> (\<open>Server/md5.cpp\<close>): the class \<open>MD5\<close>; cutting a message does not change its digest.
  \<^item> \<open>Packetizer\<close> (\<open>Protocol/Packetizer.cpp\<close>): composing a packet and framing it; \<open>PacketInput\<close>: the part of
    \<open>AddReceivedData\<close> that the server and the client share, cutting a packet off the received data. Its
    locale \<open>packet_reader\<close> states what a handler of packets must keep, and gives the end of the loop and
    the effect of one frame; the server and the client interpret it.
  \<^item> \<open>ServerState\<close>, \<open>Server\<close>: the server. A \<open>world\<close> holds every connection the server has accepted, in the
    order of their identifiers, the list of the connections that are alive, the queue of the
    authenticator, the commands of the console and the clock. \<open>Server\<close> has the protocol
    (\<open>Protocol/cProtocol_impl.cpp\<close>), the handles (\<open>ClientHandle.cpp\<close>), the lists of clients (\<open>Server.cpp\<close>,
    \<open>Root.cpp\<close>) and the authenticator (\<open>Protocol/Authenticator.cpp\<close>), and the events that drive them
    (\<open>server_event\<close>, \<open>reachable\<close>).
  \<^item> \<open>ServerInvariants\<close>: the invariant \<open>server_inv\<close> and that every event keeps it. Sending changes nothing
    but the outgoing data (\<open>same_core\<close>, \<open>quietly\<close>); the loops over the clients are covered by the locale
    \<open>client_op\<close>. \<open>ServerProperties\<close>: the properties of the running server.
    \<open>LoginRace\<close>: how long a login lasts (\<open>logged_in\<close>), and what the closing of a connection does when it comes
    between the two halves of \<open>Authenticate\<close> (\<open>Authenticate_begin\<close>, \<open>Authenticate_end\<close>).
  \<^item> \<open>Segmentation\<close>: handling a packet does not touch the received data, so the server does the same wherever the network
    cuts it (locale \<open>blind_packet_reader\<close> of \<open>PacketInput\<close>).
  \<^item> \<open>Network\<close>, \<open>NetworkInvariants\<close>, \<open>NetworkProperties\<close> (\<open>Server/OSSupport\<close>): links, listening servers, lookups and the
    singleton that keeps them, as objects in lists; the events of libevent and of the users of a link (\<open>net_do\<close>,
    \<open>net_can\<close>), their invariant \<open>net_inv\<close>, and what happens to the data of a link (\<open>data_step\<close>). The server model
    starts at the callbacks this layer makes.
  \<^item> \<open>UdpEndpoint\<close> (\<open>OSSupport/UDPEndpointImpl.cpp\<close>), \<open>Compression\<close> (\<open>Server/StringCompression.cpp\<close>,
    \<open>OSSupport/GZipFile.cpp\<close>): parts of the libraries that the chat server does not call, over parameters for the system
    and zlib.
  \<^item> \<open>CriticalSection\<close>: the recursive mutex and the scopes that hold and release it, and that they leave it as it was.
  \<^item> \<open>Threads\<close> (\<open>OSSupport/Event.cpp\<close>, \<open>OSSupport/IsThread.cpp\<close>): events and threads, and the locale \<open>waiting_loop\<close>, the contract
    of a thread that sleeps on an event until there is work: no wake-up is lost, and the thread alone comes to rest. Its
    interpretations are the worker thread (\<open>ThreadPool\<close>), the single consumer of a \<open>cQueue\<close> (\<open>Queue\<close>) and the thread of
    the authenticator (\<open>ServerThreads\<close>), which runs among the main thread, the tick thread and the callbacks of the
    server; there the events of \<open>Server\<close> become steps of threads that wait for each other.
  \<^item> \<open>SettingsInterface\<close> (\<open>SettingsRepositoryInterface.h\<close>): the contract of a settings repository as the
    locale \<open>settings\<close>; \<open>IniFile\<close> and \<open>IniFileText\<close> (\<open>IniFile.cpp\<close>): the file, in memory and as text;
    \<open>MemorySettings\<close> and \<open>OverridesSettings\<close>: the other two implementations, each interpreting the contract.
  \<^item> \<open>ServerStart\<close> (\<open>Server/main.cpp\<close>, \<open>Server/Root.cpp\<close>): the start of the server, from the command line and the
    settings file to the port it listens on, over the settings repositories.
  \<^item> \<open>Files\<close>, \<open>Folders\<close> (\<open>Common/OSSupport/File.cpp\<close>): the class \<open>cFile\<close> over the streams of the C library, which are modelled
    with their positions and modes, and the folders over a parameter \<open>os\<close> for the system; \<open>Logging\<close> (\<open>Common/Logger.cpp\<close>,
    \<open>Common/LoggerListeners.cpp\<close>, \<open>Server/CommandOutput.cpp\<close>): the log, down to the bytes of its file. \<open>HexDump\<close>: the dump of
    \<open>Common/StringUtils.cpp\<close>, against the layout its comment describes.
  \<^item> \<open>PeerClient\<close>, \<open>PeerClientProperties\<close> (\<open>Client/peer_connection_client.cpp\<close>): the connection of the
    client, its invariant \<open>peer_inv\<close> and the events that drive it (\<open>peer_do\<close>, \<open>peer_reachable\<close>).
  \<^item> \<open>Conductor\<close> (\<open>Client/conductor.cpp\<close>, \<open>Client/MainFrame.cpp\<close>): the calls of the client and the logic of its
    window, over a record \<open>rtc\<close> of what WebRTC and the JSON library answer. \<open>ConductorInvariants\<close>: the events of the
    whole client (\<open>app_do\<close>) and the invariant \<open>app_ok\<close> they keep, layer by layer; \<open>ConductorProperties\<close>: what holds of
    every run (\<open>app_reachable\<close>) and the events that go wrong. \<open>Calls\<close>: the steps of a call on either side.
  \<^item> This theory: the properties that span the client and the server.

  \<^bold>\<open>Bounds.\<close> The server properties hold for fewer than 2097152 accepted connections, for which an
  identifier takes at most three bytes in a packet: a forwarded message then fits the buffer
  of 64 KiB when the packet it came in did. A text sent in one packet is at most 65526 bytes long when it is
  forwarded, and 65527 when it is sent to the server. A part passed to \<open>MD5::update\<close> is at most
  \<open>2 ^ 32 - 64\<close> bytes long, beyond which the index of type \<open>UInt32\<close> wraps. No fuel is used: loops that may not end are \<open>while_option\<close>
  or \<open>partial_function (option)\<close>, and the ends of the loops are proved.

  \<^bold>\<open>Assumptions.\<close> The program is the release build for a little-endian host: \<open>ASSERT\<close> does nothing and a
  failed \<open>VERIFY\<close> ends the process; \<open>char\<close> is signed. \<open>size_t\<close> is \<open>nat\<close>, as the sizes that occur are far
  below its range. The critical sections are atomic steps and
  threads are interleaved between them; a client handle that is dropped is destroyed at once, and its
  destructor, which sends to a link that is gone, has no effect. Allocation succeeds; memory that is
  allocated but not written holds arbitrary bytes, a parameter of the model. \<open>m_TicksSinceLastPacket\<close> is
  unbounded. Files are lists of bytes, line ends those of the platform, and character classes those of the C
  locale. The socket and the resolver of the client are answered by an environment: data comes from a
  connected socket and a resolution ends once. The calls of the client on its observer are recorded in order and
  delivered to the conductor when the operation that made them returns. \<open>RTC_DCHECK\<close> does nothing. The events of the
  whole client include closing the window when the client is connected or not connected; closing it while a name is
  resolved goes wrong, as a property shows, and while the socket connects it leaves the client signing out.

  \<^bold>\<open>Not modelled.\<close> What the client draws: layouts, texts, the tray icon and the renderers of video; libevent, and of the network library
  over it the parts the program does not call (raw sockets, network interfaces); stack
  walking, signals, the console and the service of the process, which call the operating system or libraries; floating-point settings and packet
  fields, and \<open>printf\<close> formatting other than decimal integers; code the program does not build or call
  (\<open>Cuboid.cpp\<close>, \<open>FastRandom.cpp\<close>, \<open>LinearUpscale.h\<close>); and the third-party libraries.
  The events of the server are whole turns of its threads. Finer interleavings are modelled where they matter: for threads that
  wait (\<open>ServerThreads\<close>) and for a connection that closes during its login (\<open>LoginRace\<close>); data races as such are not.
\<close>

section \<open>A message from one client to another\<close>

lemma word_of_id:
  assumes "server_inv w" and "length (objects w) < 2097152" and "c < length (objects w)"
  shows "sint (word_of_int (m_UniqueID (client w c)) :: u32) = m_UniqueID (client w c)"
proof -
  have "sint (word_of_int k :: u32) = k" if "0 \<le> k" "k < 2147483648" for k
    using that by (simp add: signed_of_int signed_take_bit_int_eq_self)
  moreover have "0 \<le> m_UniqueID (client w c)" "m_UniqueID (client w c) < 2147483648"
    unfolding unique_id [OF assms(1,3)] using assms(2,3) by linarith+
  ultimately show ?thesis by simp
qed

lemma forwarded_frame_fits:
  assumes "unat (i :: u32) < 2097152" and "length msg \<le> 65526"
  shows "length (frame (varint_bytes (0x12 :: u32) @ varint_bytes i @ string_bytes msg)) \<le> 65536"
proof -
  have "length (varint_bytes (0x12 :: u32) @ varint_bytes i @ string_bytes msg) \<le> 65533"
    using small_type [of "0x12"] varint_length_bounds(3) [OF assms(1)] string_bytes_bound [of msg] assms(2) by simp
  then show ?thesis using frame_length [of "varint_bytes (0x12 :: u32) @ varint_bytes i @ string_bytes msg"] by simp
qed

text \<open>
  \<^bold>\<open>C2.\<close> A chat message crosses the whole program: what the client \<open>pa\<close> passes to its socket when the user
  sends a text to the user \<open>b\<close>, given to the server as the data of the connection \<open>a\<close>, makes the server put
  bytes into the outgoing data of the connection \<open>b\<close> that make the client \<open>pb\<close> report exactly that text,
  and the identifier of the sender, to its observer. The word \<open>BYE\<close> is reported as a hang-up.
\<close>
theorem chat_end_to_end:
  assumes pa: "live pa" "m_bConnect pa"
    and inv: "server_inv w" and n: "length (objects w) < 2097152" and a: "a \<in> set (m_Clients w)" and b: "b \<in> set (m_Clients w)"
    and state: "m_ProtoState (protocol w a) = 3" and empty: "received w a = []" and open_b: "\<not> m_HasSentDC (client w b)"
    and pb: "live pb" "peer_State pb = 3" "peer_received pb = []" and len: "length msg \<le> 65526"
  shows "\<exists>pa' w' pb'. SendToPeer (word_of_int (m_UniqueID (client w b))) msg pa = Inr (True, pa') \<and>
      AddReceivedData a (drop (length (socket_sent pa)) (socket_sent pa')) w = Inr w' \<and>
      peer_DataReceived env (drop (length (m_OutgoingData (client w b))) (m_OutgoingData (client w' b))) pb = Inr pb' \<and>
      calls pb' = calls pb @ [if msg = kByeMessage then OnPeerDisconnected (m_UniqueID (client w a))
        else OnMessageFromPeer (m_UniqueID (client w a)) msg] \<and>
      received w' a = [] \<and> peer_received pb' = []"
proof -
  let ?id = "\<lambda>c. word_of_int (m_UniqueID (client w c)) :: u32"
  let ?f = "\<lambda>c. frame (varint_bytes (0x12 :: u32) @ varint_bytes (?id c) @ string_bytes msg)"
  have al: "a < length (objects w)" by (rule server_invD(9) [OF inv a])
  obtain pa' where pa': "SendToPeer (?id b) msg pa = Inr (True, pa')" "socket_sent pa' = socket_sent pa @ ?f b"
    using SendToPeer_sends [OF pa, of msg "?id b"] len by auto
  obtain w' where w': "AddReceivedData a (?f b) w = Inr w'" "relayed a b (varint_bytes (0x12 :: u32) @ varint_bytes (?id a) @ string_bytes msg) w w'" "received w' a = []"
    by (rule frame_forwarded [OF inv n a b state empty len], rule that)
  have fits: "length (?f a) \<le> 65536" by (rule forwarded_frame_fits [OF sender_id [OF inv al n] len])
  obtain pb' where pb': "peer_DataReceived env (?f a) pb = Inr pb'" "peer_received pb' = []"
      "calls pb' = calls pb @ [if msg = kByeMessage then OnPeerDisconnected (sint (?id a)) else OnMessageFromPeer (sint (?id a)) msg]"
    by (rule peer_message_received [OF pb(1,3,2) len fits], rule that)
  have "m_OutgoingData (client w' b) = m_OutgoingData (client w b) @ ?f a" using w'(2) open_b by (simp add: relayed_def)
  then show ?thesis using pa' w'(1,3) pb' word_of_id [OF inv n al] by simp
qed

section \<open>A call between two clients\<close>

text \<open>A connection of the server that plays, with nothing received in part.\<close>

definition playing :: "world \<Rightarrow> nat \<Rightarrow> bool" where
  "playing w c \<longleftrightarrow> c \<in> set (m_Clients w) \<and> m_ProtoState (protocol w c) = 3 \<and> received w c = [] \<and>
     \<not> m_HasSentDC (client w c) \<and> m_State (client w c) \<noteq> csDestroyed"

text \<open>
  \<^bold>\<open>C3.\<close> A call is set up: when the user of one client asks for a call with another user whose client is not busy, the
  request goes through the server, the other client accepts it, its answer goes back through the
  server, and the first client opens the streams, makes an offer and is in a call with that user.
\<close>
theorem call_set_up:
  assumes ca: "idle_client ca" and cb: "idle_client cb"
    and inv: "server_inv w" and n: "length (objects w) < 2097152" and a: "playing w a" and b: "playing w b" and ab: "a \<noteq> b"
    and rtc: "CreatesFactory env_a" "CreatesConnection env_a"
  shows "\<exists>ca1 w1 cb1 w2 ca2.
    ConnectToPeer env_a (m_UniqueID (client w b)) ca = Inr ca1 \<and>
    AddReceivedData a (drop (length (socket_sent (the_client ca))) (socket_sent (the_client ca1))) w = Inr w1 \<and>
    app_do env_b garbage (Data [drop (length (m_OutgoingData (client w b))) (m_OutgoingData (client w1 b))]) cb = Inr cb1 \<and>
    AddReceivedData b (drop (length (socket_sent (the_client cb))) (socket_sent (the_client cb1))) w1 = Inr w2 \<and>
    app_do env_a garbage (Data [drop (length (m_OutgoingData (client w1 a))) (m_OutgoingData (client w2 a))]) ca1 = Inr ca2 \<and>
    Conductor_IsBusy ca2 \<and> peer_id ca2 = m_UniqueID (client w b) \<and> CreateOffer \<in> set (webrtc_calls ca2)"
proof -
  let ?id = "\<lambda>c. word_of_int (m_UniqueID (client w c)) :: u32"
  let ?f = "\<lambda>c t. frame (varint_bytes (0x11 :: u32) @ varint_bytes (?id c) @ varint_bytes (t :: u32))"
  have clients: "a \<in> set (m_Clients w)" "b \<in> set (m_Clients w)" using a b by (simp_all add: playing_def)
  note al = server_invD(9) [OF inv clients(1)] and bl = server_invD(9) [OF inv clients(2)]
  obtain ca1 where ca1: "ConnectToPeer env_a (m_UniqueID (client w b)) ca = Inr ca1" "idle_client ca1"
      "socket_sent (the_client ca1) = socket_sent (the_client ca) @ ?f b 0"
    by (rule ConnectToPeer_sends [OF ca], rule that)
  obtain w1 where w1: "AddReceivedData a (?f b 0) w = Inr w1" "relayed a b (varint_bytes (0x11 :: u32) @ varint_bytes (?id a) @ varint_bytes (0 :: u32)) w w1"
      "server_inv w1"
    by (rule media_forwarded [OF inv n clients, of 0]) (use a that in \<open>auto simp: playing_def\<close>)
  have b1: "m_ProtoState (protocol w1 b) = 3" "received w1 b = []" "length (objects w1) < 2097152" "m_Clients w1 = m_Clients w"
      "m_UniqueID (client w1 a) = m_UniqueID (client w a)" "m_UniqueID (client w1 b) = m_UniqueID (client w b)"
      "m_OutgoingData (client w1 b) = m_OutgoingData (client w b) @ ?f a 0"
      "\<not> m_HasSentDC (client w1 a)"
    using w1(2) a b ab al bl n core_fields(9,10) [of "client w1 b" "client w b"]
    by (auto simp: relayed_def playing_def protocol_def received_def)
  obtain cb1 where cb1: "app_do env_b garbage (Data [?f a 0]) cb = Inr cb1"
      "socket_sent (the_client cb1) = socket_sent (the_client cb) @ ?f a 1"
    by (rule Conductor_answers [OF cb], rule that)
  obtain w2 where w2: "AddReceivedData b (?f a 1) w1 = Inr w2" "relayed b a (varint_bytes (0x11 :: u32) @ varint_bytes (?id b) @ varint_bytes (1 :: u32)) w1 w2"
    using media_forwarded [OF w1(3) b1(3), of b a 1] clients b1 by metis
  have a2: "m_OutgoingData (client w2 a) = m_OutgoingData (client w1 a) @ ?f b 1"
    using w2(2) b1(8) by (simp add: relayed_def)
  obtain ca2 where ca2: "app_do env_a garbage (Data [?f b 1]) ca1 = Inr ca2" "peer_id ca2 = sint (?id b)" "peer_connection ca2"
      "CreateOffer \<in> set (webrtc_calls ca2)"
    by (rule Conductor_starts_call [OF ca1(2) rtc], rule that)
  have id: "sint (?id b) = m_UniqueID (client w b)" "m_UniqueID (client w b) \<noteq> - 1"
    using word_of_id [OF inv n bl] unique_id [OF inv bl] by simp_all
  show ?thesis
    by (intro exI [of _ ca1] exI [of _ w1] exI [of _ cb1] exI [of _ w2] exI [of _ ca2])
      (use ca1(1,3) w1(1) cb1 w2(1) ca2 a2 b1(7) id in \<open>simp add: Conductor_IsBusy_def\<close>)
qed

section \<open>A login that the server did not grant\<close>

lemma UserInfo_packet:
  fixes i s :: u32
  assumes "length name \<le> 65501"
  shows "pkt_as (\<lambda>b. and_then (pkt_WriteVarInt32 i b) (\<lambda>b. and_then (pkt_WriteString name b) (pkt_WriteVarInt32 s)))
      (varint_bytes i @ string_bytes name @ varint_bytes s)"
    and "length (varint_bytes (1 :: u32) @ varint_bytes i @ string_bytes name @ varint_bytes s) \<le> 65533"
proof -
  show "pkt_as (\<lambda>b. and_then (pkt_WriteVarInt32 i b) (\<lambda>b. and_then (pkt_WriteString name b) (pkt_WriteVarInt32 s)))
      (varint_bytes i @ string_bytes name @ varint_bytes s)"
    by (intro pkt_as_seq pkt_writers)
  show "length (varint_bytes (1 :: u32) @ varint_bytes i @ string_bytes name @ varint_bytes s) \<le> 65533"
    using small_type [of 1] varint_length_bounds(1) [of i] varint_length_bounds(1) [of s]
      string_bytes_bound [of name] assms by simp
qed

text \<open>What the server tells client \<open>c\<close> about client \<open>p\<close>, whatever the state of \<open>c\<close>.\<close>

lemma BroadcastUserInfo_one_sends:
  assumes inv: "server_inv w" and c: "c < length (objects w)" and p: "p < length (objects w)" and cp: "c \<noteq> p"
    and dc: "\<not> m_HasSentDC (client w c)"
  obtains w' rest where "BroadcastUserInfo_one p c w = Inr w'" and "same_core w w'"
    and "m_OutgoingData (client w' c) = m_OutgoingData (client w c) @ frame (varint_bytes (0x01 :: u32) @ rest)"
    and "length (varint_bytes (0x01 :: u32) @ rest) \<le> 65533"
proof -
  let ?rest = "varint_bytes (word_of_int (m_UniqueID (client w p)) :: u32) @ string_bytes (m_Username (client w p)) @
    varint_bytes (of_nat (eState_num (m_State (client w p))) :: u32)"
  have "length (m_Username (client w p)) \<le> 65501" using server_inv_named [OF inv p] by (simp add: named_def)
  note pkt = UserInfo_packet [OF this, where i = "word_of_int (m_UniqueID (client w p))" and
      s = "of_nat (eState_num (m_State (client w p)))"]
  have fits: "length (varint_bytes (0x01 :: u32)) + length ?rest \<le> 65536" using pkt(2) by simp
  obtain w1 where w1: "ClientHandle_BroadcastUserInfo c p w = Inr w1" "same_core w w1" "outs w1"
      "m_OutgoingData (client w1 c) = m_OutgoingData (client w c) @ frame (varint_bytes (0x01 :: u32) @ ?rest)"
    using send_packet_effect [OF server_invD(1) [OF inv] c pkt(1) fits] dc
    unfolding ClientHandle_BroadcastUserInfo_def Protocol_BroadcastUserInfo_def by metis
  have named: "named w1 c" "named w1 p"
    using named_core [OF w1(2)] server_inv_named [OF inv] c p by blast+
  have ids: "m_UniqueID (client w c) \<noteq> m_UniqueID (client w p)" using unique_id [OF inv] c p cp by simp
  show thesis
  proof (cases "IsLoggedIn (client w1 p)")
    case False
    then show ?thesis using that [of w1 ?rest] w1 ids pkt(2) by (simp add: BroadcastUserInfo_one_def)
  next
    case True
    have "length (m_Username (client w1 c)) \<le> 65501" using named(1) by (simp add: named_def)
    note pkt2 = UserInfo_packet [OF this, where i = "word_of_int (m_UniqueID (client w1 c))" and
        s = "of_nat (eState_num (m_State (client w1 c)))"]
    have p1: "p < length (objects w1)" using named(2) by (simp add: named_def)
    have fits2: "length (varint_bytes (0x01 :: u32)) + length (varint_bytes (word_of_int (m_UniqueID (client w1 c)) :: u32) @
        string_bytes (m_Username (client w1 c)) @ varint_bytes (of_nat (eState_num (m_State (client w1 c))) :: u32)) \<le> 65536"
      using pkt2(2) by simp
    obtain w2 where w2: "ClientHandle_BroadcastUserInfo p c w1 = Inr w2" "same_core w1 w2" "client w2 c = client w1 c"
      using send_packet_effect [OF w1(3) p1 pkt2(1) fits2] cp
      unfolding ClientHandle_BroadcastUserInfo_def Protocol_BroadcastUserInfo_def by metis
    show ?thesis
      by (rule that [of w2 ?rest])
        (use w1 w2 ids True pkt(2) same_core_trans [OF w1(2) w2(2)] in \<open>simp_all add: BroadcastUserInfo_one_def\<close>)
  qed
qed

text \<open>
  \<^bold>\<open>C20.\<close> A client can believe in a login that the server has not granted: when the server tells a
  client that is still logging in about another client, the client, which expects the answer to its
  login, takes the packet for the success of its login, reports it and goes to the playing state, while the server
  keeps it in the login state.
\<close>
theorem login_not_granted:
  assumes inv: "server_inv w" and c: "c < length (objects w)" and p: "p < length (objects w)" and cp: "c \<noteq> p"
    and dc: "\<not> m_HasSentDC (client w c)" and server_login: "m_ProtoState (protocol w c) = 2"
    and pc: "live pc" "peer_received pc = []" and client_login: "peer_State pc = 2"
  shows "\<exists>w' pc'. BroadcastUserInfo_one p c w = Inr w' \<and> m_ProtoState (protocol w' c) = 2 \<and>
      peer_DataReceived env (drop (length (m_OutgoingData (client w c))) (m_OutgoingData (client w' c))) pc = Inr pc' \<and>
      calls pc' = calls pc @ [OnSignedIn] \<and> peer_State pc' = 3"
proof -
  obtain w' rest where w': "BroadcastUserInfo_one p c w = Inr w'" "same_core w w'"
      "m_OutgoingData (client w' c) = m_OutgoingData (client w c) @ frame (varint_bytes (0x01 :: u32) @ rest)"
      "length (varint_bytes (0x01 :: u32) @ rest) \<le> 65533"
    by (rule BroadcastUserInfo_one_sends [OF inv c p cp dc], rule that)
  have fits: "length (frame (varint_bytes (0x01 :: u32) @ rest)) \<le> 65536"
    using frame_length [of "varint_bytes (0x01 :: u32) @ rest"] w'(4) by simp
  obtain pc' where "peer_DataReceived env (frame (varint_bytes (0x01 :: u32) @ rest)) pc = Inr pc'"
      "calls pc' = calls pc @ [OnSignedIn]" "peer_State pc' = 3"
    by (rule peer_login_believed [OF pc client_login fits], rule that)
  moreover have "m_ProtoState (protocol w' c) = 2"
    using core_fields [OF same_core_client [OF w'(2)]] c server_login by (simp add: protocol_def)
  ultimately show ?thesis using w'(1,3) by simp
qed


section \<open>Samples\<close>

definition sample_peer :: "u32 \<Rightarrow> peer" where
  "sample_peer st = (new_PeerConnectionClient (\<lambda>_. 0))
     \<lparr>m_bConnect := True, control_socket := Some CS_CONNECTED, conn_state := SIGNING_IN, peer_State := st\<rparr>"

lemma sample_peer_live:
  "live (sample_peer st)" "peer_received (sample_peer st) = []" "peer_State (sample_peer st) = st"
  "m_bConnect (sample_peer st)" "calls (sample_peer st) = []"
  using peer_reachable_inv [OF peer_reachable.start, of "\<lambda>_. 0"]
  by (simp_all add: sample_peer_def live_def peer_inv_def new_PeerConnectionClient_def peer_received_def new_cByteBuffer_ok KiB_def)

definition sample_env :: environment where
  "sample_env = \<lparr>IsUnresolvedIP = (\<lambda>_. False), ConnectSucceeds = (\<lambda>_. True), IsBusy = False\<rparr>"

theorem chat_end_to_end_witness:
  "\<exists>pa' w' pb'. SendToPeer (word_of_int (m_UniqueID (client sample_world 1))) (ascii ''hi'') (sample_peer 3) = Inr (True, pa') \<and>
    AddReceivedData 0 (drop (length (socket_sent (sample_peer 3))) (socket_sent pa')) sample_world = Inr w' \<and>
    peer_DataReceived sample_env
      (drop (length (m_OutgoingData (client sample_world 1))) (m_OutgoingData (client w' 1))) (sample_peer 3) = Inr pb' \<and>
    calls pb' = [OnMessageFromPeer 1 (ascii ''hi'')]"
proof -
  have s: "m_ProtoState (protocol sample_world 0) = 3" "received sample_world 0 = []" "\<not> m_HasSentDC (client sample_world 1)"
    "0 \<in> set (m_Clients sample_world)" "1 \<in> set (m_Clients sample_world)" "length (objects sample_world) < 2097152"
    "m_UniqueID (client sample_world 0) = 1"
    by (simp_all add: protocol_def received_def sample_world_simps sample_client_def new_cProtocol_received new_cClientHandle_def)
  have m: "ascii ''hi'' \<noteq> kByeMessage" "length (ascii ''hi'') \<le> 65526" by (simp_all add: kByeMessage_def ascii_def)
  show ?thesis
    using chat_end_to_end [OF sample_peer_live(1) [of 3] sample_peer_live(4) sample_world_inv s(6,4,5,1,2,3) sample_peer_live(1,3,2) m(2), where env = sample_env]
    unfolding sample_peer_live(5) s(7) using m(1) by (simp add: if_not_P) blast
qed

definition joining_client :: cClientHandle where
  "joining_client = (sample_client 1 [])\<lparr>m_State := csAuthenticating, m_Protocol := (new_cProtocol (\<lambda>_. 0))\<lparr>m_ProtoState := 2\<rparr>\<rparr>"

definition joining_world :: world where
  "joining_world = sample_world\<lparr>objects := [sample_client 0 (ascii ''ann''), joining_client]\<rparr>"

lemma joining_world_simps:
  "length (objects joining_world) = 2" "client joining_world 0 = sample_client 0 (ascii ''ann'')"
  "client joining_world (Suc 0) = joining_client" "m_Clients joining_world = [0, 1]" "m_Queue joining_world = []"
  by (simp_all add: joining_world_def client_def sample_world_def initial_world_def)

lemma joining_client_ok: "handle_ok 1 joining_client" "out_ok (m_Protocol joining_client)"
  using new_cProtocol_out_ok [of "\<lambda>_. 0"]
  by (simp_all add: joining_client_def sample_client_def handle_ok_def new_cClientHandle_def agree_def new_cProtocol_received
      ascii_def out_ok_def)

lemma joining_world_inv: "server_inv joining_world"
proof -
  have two: "c = 0 \<or> c = 1" if "c < 2" for c :: nat using that by auto
  have "handle_ok c (client joining_world c) \<and> out_ok (m_Protocol (client joining_world c))" if "c < 2" for c
    using two [OF that] sample_client_ok(1) [of "ascii ''ann''" 0] sample_client_ok(2) joining_client_ok
    by (auto simp: joining_world_simps ascii_def)
  moreover have "names_unique joining_world"
    by (simp add: names_unique_def joining_world_simps sample_client_def joining_client_def new_cClientHandle_def ascii_def)
  moreover have "s_ClientCount joining_world = 2" "m_ClientsToRemove joining_world = []"
    by (simp_all add: joining_world_def sample_world_def initial_world_def)
  ultimately show ?thesis
    by (simp add: server_inv_def outs_def protocol_def joining_world_simps)
qed

theorem login_not_granted_witness:
  "\<exists>w' pc'. BroadcastUserInfo_one 0 1 joining_world = Inr w' \<and> m_ProtoState (protocol w' 1) = 2 \<and>
    peer_DataReceived sample_env
      (drop (length (m_OutgoingData (client joining_world 1))) (m_OutgoingData (client w' 1))) (sample_peer 2) = Inr pc' \<and>
    calls pc' = [OnSignedIn] \<and> peer_State pc' = 3"
proof -
  have j: "(1 :: nat) < length (objects joining_world)" "0 < length (objects joining_world)" "(1 :: nat) \<noteq> 0"
    "\<not> m_HasSentDC (client joining_world 1)" "m_ProtoState (protocol joining_world 1) = 2"
    by (simp_all add: joining_world_simps joining_client_def protocol_def sample_client_def new_cClientHandle_def)
  show ?thesis
    using login_not_granted [OF joining_world_inv j sample_peer_live(1,2,3), where env = sample_env]
    unfolding sample_peer_live(5) by simp
qed

definition sample_conductor :: conductor where
  "sample_conductor = new_Conductor (sample_peer 3) new_MainFrame"

lemma sample_conductor_idle: "idle_client sample_conductor" "the_client sample_conductor = sample_peer 3"
  using sample_peer_live(1) [of 3]
  by (simp_all add: idle_client_def sample_conductor_def new_Conductor_def new_MainFrame_def app_ok_def window_ok_def
    liveD(4) sample_peer_live)

theorem call_set_up_witness:
  "\<exists>ca1 w1 cb1 w2 ca2.
    ConnectToPeer sample_rtc 2 sample_conductor = Inr ca1 \<and>
    AddReceivedData 0 (drop (length (socket_sent (sample_peer 3))) (socket_sent (the_client ca1))) sample_world = Inr w1 \<and>
    app_do sample_rtc (\<lambda>_. 0) (Data [drop (length (m_OutgoingData (client sample_world 1))) (m_OutgoingData (client w1 1))])
      sample_conductor = Inr cb1 \<and>
    AddReceivedData 1 (drop (length (socket_sent (sample_peer 3))) (socket_sent (the_client cb1))) w1 = Inr w2 \<and>
    app_do sample_rtc (\<lambda>_. 0) (Data [drop (length (m_OutgoingData (client w1 0))) (m_OutgoingData (client w2 0))]) ca1 = Inr ca2 \<and>
    Conductor_IsBusy ca2 \<and> peer_id ca2 = 2 \<and> CreateOffer \<in> set (webrtc_calls ca2)"
proof -
  have s: "playing sample_world 0" "playing sample_world 1" "length (objects sample_world) < 2097152"
    "m_UniqueID (client sample_world 1) = 2"
    by (simp_all add: playing_def protocol_def received_def sample_world_simps sample_client_def new_cProtocol_received new_cClientHandle_def)
  show ?thesis
    using call_set_up [OF sample_conductor_idle(1) sample_conductor_idle(1) sample_world_inv s(3,1,2) zero_neq_one,
      of sample_rtc sample_rtc "\<lambda>_. 0"]
    unfolding s(4) sample_conductor_idle(2) by (simp add: sample_rtc_def)
qed

end
